(* ===== verification/Prelude.thy ===== *)
theory Prelude
  imports Main "HOL-Library.Word"
begin

text \<open>
  Shared foundations of the development.

  Go functions that can fail return a value or an error, may panic (an index out of range, a
  call on a nil pointer) and may block for ever on a mutex that nobody will release.  The
  result type \<open>res\<close> keeps the four apart.  A method that changes its receiver is an operation
  of type \<open>('s, 'e, 'a) op\<close>: it takes the state and gives the result together with the state
  after the call, on the error paths too, because Go keeps the changes a method made before it
  returned an error.  \<open>bnd\<close> is the sequencing of two calls with the usual early return
  \<^verbatim>\<open>if err != nil { return err }\<close>.

  The theory also fixes Go's fixed-width integers over \<open>int\<close> (\<open>i32\<close>, \<open>i64\<close>, \<open>u32\<close>), slices, and the
  discipline of operations on a state guarded by a mutex (\<open>safe\<close>).
\<close>

unbundle bit_operations_syntax

type_synonym byte = "8 word"

subsection \<open>Results and operations\<close>

datatype ('e, 'a) res = Ok 'a | Err 'e | Panic | Hang

type_synonym ('s, 'e, 'a) op = "'s \<Rightarrow> ('e, 'a) res \<times> 's"

definition ret :: "'a \<Rightarrow> ('s, 'e, 'a) op" where
  "ret a s = (Ok a, s)"

definition throw :: "'e \<Rightarrow> ('s, 'e, 'a) op" where
  "throw e s = (Err e, s)"

definition panic :: "('s, 'e, 'a) op" where
  "panic s = (Panic, s)"

definition bnd :: "('s, 'e, 'a) op \<Rightarrow> ('a \<Rightarrow> ('s, 'e, 'b) op) \<Rightarrow> ('s, 'e, 'b) op" where
  "bnd m f s =
     (case m s of
        (Ok a, s') \<Rightarrow> f a s'
      | (Err e, s') \<Rightarrow> (Err e, s')
      | (Panic, s') \<Rightarrow> (Panic, s')
      | (Hang, s') \<Rightarrow> (Hang, s'))"

definition lift_res :: "('e, 'a) res \<Rightarrow> ('s, 'e, 'a) op" where
  "lift_res r s = (r, s)"

definition get_st :: "('s \<Rightarrow> 'a) \<Rightarrow> ('s, 'e, 'a) op" where
  "get_st g s = (Ok (g s), s)"

definition mod_st :: "('s \<Rightarrow> 's) \<Rightarrow> ('s, 'e, unit) op" where
  "mod_st g s = (Ok (), g s)"

named_theorems op_simps \<open>running an operation on a state\<close>

lemma ret_run [op_simps]: "ret a s = (Ok a, s)"
  by (simp add: ret_def)

lemma throw_run [op_simps]: "throw e s = (Err e, s)"
  by (simp add: throw_def)

lemma panic_run [op_simps]: "panic s = (Panic, s)"
  by (simp add: panic_def)

lemma get_st_run [op_simps]: "get_st g s = (Ok (g s), s)"
  by (simp add: get_st_def)

lemma mod_st_run [op_simps]: "mod_st g s = (Ok (), g s)"
  by (simp add: mod_st_def)

lemma lift_res_run [op_simps]: "lift_res r s = (r, s)"
  by (simp add: lift_res_def)

lemma bnd_Ok [op_simps]: "m s = (Ok a, s') \<Longrightarrow> bnd m f s = f a s'"
  by (simp add: bnd_def)

lemma bnd_Err [op_simps]: "m s = (Err e, s') \<Longrightarrow> bnd m f s = (Err e, s')"
  by (simp add: bnd_def)

lemma bnd_Panic [op_simps]: "m s = (Panic, s') \<Longrightarrow> bnd m f s = (Panic, s')"
  by (simp add: bnd_def)

lemma bnd_Hang [op_simps]: "m s = (Hang, s') \<Longrightarrow> bnd m f s = (Hang, s')"
  by (simp add: bnd_def)

lemma bnd_eq_Ok_iff:
  "bnd m f s = (Ok b, t) \<longleftrightarrow> (\<exists>a s'. m s = (Ok a, s') \<and> f a s' = (Ok b, t))"
  by (auto simp: bnd_def split: prod.splits res.splits)

lemma bnd_Ok_elim:
  assumes "bnd m f s = (Ok b, t)"
  obtains a s' where "m s = (Ok a, s')" and "f a s' = (Ok b, t)"
  using assms by (auto simp: bnd_eq_Ok_iff)

lemma bnd_assoc: "bnd (bnd m f) g = bnd m (\<lambda>a. bnd (f a) g)"
  by (rule ext) (simp add: bnd_def split: prod.split res.split)

subsection \<open>Results without a state\<close>

text \<open>
  The same early return for functions that only read, and Go's bounds checks: an index or a slice
  expression out of range panics.
\<close>

definition bind_res :: "('e, 'a) res \<Rightarrow> ('a \<Rightarrow> ('e, 'b) res) \<Rightarrow> ('e, 'b) res" where
  "bind_res r f = (case r of Ok a \<Rightarrow> f a | Err e \<Rightarrow> Err e | Panic \<Rightarrow> Panic | Hang \<Rightarrow> Hang)"

definition nth_res :: "'a list \<Rightarrow> nat \<Rightarrow> ('e, 'a) res" where
  "nth_res xs i = (if i < length xs then Ok (xs ! i) else Panic)"

definition slice_res :: "'a list \<Rightarrow> nat \<Rightarrow> nat \<Rightarrow> ('e, 'a list) res" where
  "slice_res xs lo hi =
     (if lo \<le> hi \<and> hi \<le> length xs then Ok (take (hi - lo) (drop lo xs)) else Panic)"

lemma bind_res_simps [simp]:
  "bind_res (Ok a) f = f a" "bind_res (Err e) f = Err e"
  "bind_res Panic f = Panic" "bind_res Hang f = Hang"
  by (simp_all add: bind_res_def)

lemma bind_res_Ok_iff: "bind_res r f = Ok b \<longleftrightarrow> (\<exists>a. r = Ok a \<and> f a = Ok b)"
  by (cases r) simp_all

lemma nth_res_in [simp]: "i < length xs \<Longrightarrow> nth_res xs i = Ok (xs ! i)"
  by (simp add: nth_res_def)

text \<open>A result that is a value or an error: the function came back.\<close>

definition returns :: "('e, 'a) res \<Rightarrow> bool" where
  "returns r \<longleftrightarrow> r \<noteq> Panic \<and> r \<noteq> Hang"

named_theorems returns_intros \<open>functions that come back\<close>

lemma returns_Ok [simp]: "returns (Ok a)" and returns_Err [simp]: "returns (Err e)"
  by (simp_all add: returns_def)

lemma returns_bind [returns_intros]:
  "returns r \<Longrightarrow> (\<And>a. r = Ok a \<Longrightarrow> returns (f a)) \<Longrightarrow> returns (bind_res r f)"
  by (cases r) (simp_all add: returns_def)

lemma returns_if [returns_intros]:
  "(c \<Longrightarrow> returns r) \<Longrightarrow> (\<not> c \<Longrightarrow> returns r') \<Longrightarrow> returns (if c then r else r')"
  by simp

lemma returns_nth [returns_intros]: "i < length xs \<Longrightarrow> returns (nth_res xs i)"
  by (simp add: returns_def nth_res_def)

lemma returns_slice [returns_intros]: "lo \<le> hi \<Longrightarrow> hi \<le> length xs \<Longrightarrow> returns (slice_res xs lo hi)"
  by (simp add: returns_def slice_res_def)

lemma returns_case_prod [returns_intros]:
  "(\<And>x y. p = (x, y) \<Longrightarrow> returns (f x y)) \<Longrightarrow> returns (case p of (x, y) \<Rightarrow> f x y)"
  by (cases p) simp

lemma guard_Ok_iff: "(if c then Err e else r) = Ok a \<longleftrightarrow> \<not> c \<and> r = Ok a"
  by simp

lemma nth_res_Ok_iff: "nth_res xs i = Ok a \<longleftrightarrow> i < length xs \<and> a = xs ! i"
  by (auto simp: nth_res_def)

lemma slice_res_Ok_iff:
  "slice_res xs lo hi = Ok ys \<longleftrightarrow> lo \<le> hi \<and> hi \<le> length xs \<and> ys = take (hi - lo) (drop lo xs)"
  by (auto simp: slice_res_def)

lemmas res_Ok_iffs = bind_res_Ok_iff guard_Ok_iff nth_res_Ok_iff slice_res_Ok_iff

subsection \<open>Operations on a component of a larger state\<close>

text \<open>
  A method of a struct field (\<^verbatim>\<open>vm.dstack.PopInt()\<close>) runs the method on the field and stores
  the field back.
\<close>

definition on_part :: "('t \<Rightarrow> 's) \<Rightarrow> ('s \<Rightarrow> 't \<Rightarrow> 't) \<Rightarrow> ('s, 'e, 'a) op \<Rightarrow> ('t, 'e, 'a) op" where
  "on_part get put m t = (case m (get t) of (r, s') \<Rightarrow> (r, put s' t))"

lemma on_part_run [op_simps]:
  "m (get t) = (r, s') \<Longrightarrow> on_part get put m t = (r, put s' t)"
  by (simp add: on_part_def)

subsection \<open>Operations that respect a mutex\<close>

text \<open>
  An operation is safe for a lock when, started with the lock free, it never blocks, and when
  it succeeds it leaves the lock free again.  Nothing is said about the lock after an error:
  several methods of the code return an error with the lock still held.
\<close>

definition safe :: "('s \<Rightarrow> bool) \<Rightarrow> ('s, 'e, 'a) op \<Rightarrow> bool" where
  "safe free m \<longleftrightarrow>
     (\<forall>s. free s \<longrightarrow> fst (m s) \<noteq> Hang \<and> (\<forall>a. fst (m s) = Ok a \<longrightarrow> free (snd (m s))))"

named_theorems safe_intros \<open>closure of safe operations\<close>

lemma safeI:
  assumes "\<And>s r s'. free s \<Longrightarrow> m s = (r, s') \<Longrightarrow> r \<noteq> Hang"
    and "\<And>s a s'. free s \<Longrightarrow> m s = (Ok a, s') \<Longrightarrow> free s'"
  shows "safe free m"
  unfolding safe_def
proof (intro allI impI conjI)
  fix s assume s: "free s"
  show "fst (m s) \<noteq> Hang"
    using assms(1)[OF s] by (metis prod.collapse)
  fix a assume "fst (m s) = Ok a"
  then show "free (snd (m s))"
    using assms(2)[OF s] by (metis prod.collapse)
qed

lemma safe_no_hang: "safe free m \<Longrightarrow> free s \<Longrightarrow> m s \<noteq> (Hang, s')"
  by (auto simp: safe_def)

lemma safe_frees: "safe free m \<Longrightarrow> free s \<Longrightarrow> m s = (Ok a, s') \<Longrightarrow> free s'"
  unfolding safe_def by (metis fst_conv snd_conv)

lemma safe_ret [safe_intros]: "safe free (ret a)"
  by (simp add: safe_def ret_def)

lemma safe_throw [safe_intros]: "safe free (throw e)"
  by (simp add: safe_def throw_def)

lemma safe_panic [safe_intros]: "safe free panic"
  by (simp add: safe_def panic_def)

lemma safe_get [safe_intros]: "safe free (get_st g)"
  by (simp add: safe_def get_st_def)

lemma safe_mod: "(\<And>s. free s \<Longrightarrow> free (g s)) \<Longrightarrow> safe free (mod_st g)"
  by (simp add: safe_def mod_st_def)

lemma safe_lift [safe_intros]: "r \<noteq> Hang \<Longrightarrow> safe free (lift_res r)"
  by (simp add: safe_def lift_res_def)

lemma safe_bnd [safe_intros]:
  assumes m: "safe free m" and f: "\<And>a. safe free (f a)"
  shows "safe free (bnd m f)"
proof (rule safeI)
  fix s r s' assume s: "free s" and run: "bnd m f s = (r, s')"
  obtain r1 s1 where m1: "m s = (r1, s1)" by force
  have "r1 \<noteq> Hang" using safe_no_hang[OF m s] m1 by auto
  moreover have "f a s1 \<noteq> (Hang, s')" if "r1 = Ok a" for a
    using safe_no_hang[OF f safe_frees[OF m s]] m1 that by auto
  ultimately show "r \<noteq> Hang"
    using run m1 by (cases r1) (auto simp: bnd_def)
next
  fix s a s' assume s: "free s" and run: "bnd m f s = (Ok a, s')"
  from run obtain b s1 where "m s = (Ok b, s1)" "f b s1 = (Ok a, s')"
    by (rule bnd_Ok_elim)
  then show "free s'" using safe_frees[OF m s] safe_frees[OF f] by blast
qed

lemma safe_if [safe_intros]: "safe free m \<Longrightarrow> safe free n \<Longrightarrow> safe free (if b then m else n)"
  by simp

lemma safe_read: "(\<And>s. free s \<Longrightarrow> safe free (m s)) \<Longrightarrow> safe free (\<lambda>s. m s s)"
  by (auto simp: safe_def)

lemma safe_case_option [safe_intros]:
  "safe free m \<Longrightarrow> (\<And>a. safe free (f a)) \<Longrightarrow> safe free (case x of None \<Rightarrow> m | Some a \<Rightarrow> f a)"
  by (cases x) simp_all

subsection \<open>Fixed-width integers over int\<close>

definition i32 :: "int \<Rightarrow> int" where
  "i32 x = signed_take_bit 31 x"

definition i64 :: "int \<Rightarrow> int" where
  "i64 x = signed_take_bit 63 x"

definition u32 :: "int \<Rightarrow> int" where
  "u32 x = take_bit 32 x"

lemma i32_id [simp]: "- (2 ^ 31) \<le> x \<Longrightarrow> x < 2 ^ 31 \<Longrightarrow> i32 x = x"
  by (simp add: i32_def signed_take_bit_int_eq_self)

lemma i64_id [simp]: "- (2 ^ 63) \<le> x \<Longrightarrow> x < 2 ^ 63 \<Longrightarrow> i64 x = x"
  by (simp add: i64_def signed_take_bit_int_eq_self)

lemma u32_id [simp]: "0 \<le> x \<Longrightarrow> x < 2 ^ 32 \<Longrightarrow> u32 x = x"
  by (simp add: u32_def take_bit_int_eq_self)

lemma i64_range: "- (2 ^ 63) \<le> i64 x \<and> i64 x < 2 ^ 63"
  unfolding i64_def
  using signed_take_bit_int_greater_eq_minus_exp[of 63 x] signed_take_bit_int_less_exp[of 63 x]
  by simp

subsection \<open>Slices and bytes\<close>

definition slice :: "'a list \<Rightarrow> nat \<Rightarrow> nat \<Rightarrow> 'a list" where
  "slice xs lo hi = take (hi - lo) (drop lo xs)"

lemma length_slice [simp]: "hi \<le> length xs \<Longrightarrow> length (slice xs lo hi) = hi - lo"
  by (simp add: slice_def)

lemma slice_0 [simp]: "slice xs 0 n = take n xs"
  by (simp add: slice_def)

lemma slice_to_end: "slice xs n (length xs) = drop n xs"
  by (simp add: slice_def)

lemma uint_byte_lt [simp]: "uint (b :: byte) < 256"
  using uint_lt2p[of b] by simp

lemma unat_byte_lt [simp]: "unat (b :: byte) < 256"
  using unsigned_less[of b] by simp

lemma uint_byte_of_int: "0 \<le> n \<Longrightarrow> n < 256 \<Longrightarrow> uint (word_of_int n :: byte) = n"
  by (simp add: uint_word_of_int_eq take_bit_int_eq_self)

text \<open>The value of a little-endian byte string.\<close>

fun le_val :: "byte list \<Rightarrow> int" where
  "le_val [] = 0"
| "le_val (b # bs) = uint b + 256 * le_val bs"

lemma le_val_nonneg [simp]: "0 \<le> le_val bs"
  by (induction bs) simp_all

lemma le_val_lt: "le_val bs < 256 ^ length bs"
proof (induction bs)
  case (Cons b bs)
  have "uint b + 256 * le_val bs < 256 * (le_val bs + 1)"
    using uint_byte_lt[of b] by (simp add: algebra_simps)
  also have "\<dots> \<le> 256 * 256 ^ length bs"
    using Cons.IH by simp
  finally show ?case by simp
qed simp

lemma le_val_append: "le_val (xs @ ys) = le_val xs + 256 ^ length xs * le_val ys"
  by (induction xs) (simp_all add: algebra_simps)

lemma le_val_inj: "length xs = length ys \<Longrightarrow> le_val xs = le_val ys \<Longrightarrow> xs = ys"
proof (induction xs ys rule: list_induct2)
  case (Cons x xs y ys)
  have "uint x = (uint x + 256 * le_val xs) mod 256" "uint y = (uint y + 256 * le_val ys) mod 256"
    using uint_byte_lt[of x] uint_byte_lt[of y] by simp_all
  with Cons.prems have "uint x = uint y" by simp
  with Cons show ?case by (simp add: word_uint_eq_iff)
qed simp

end
