(* ===== verification/ScriptNum.thy ===== *)
theory ScriptNum
  imports Prelude
begin

text \<open>
  The error codes of the script package (\<^verbatim>\<open>pkg/chain/tx/script/error.go\<close>) and the numbers
  of the script language (\<^verbatim>\<open>scriptnum.go\<close>).

  \<open>scriptNum\<close> is Go's \<open>int64\<close>, kept as an \<open>int\<close> with \<open>i64\<close> at every operation that can leave
  the range.  The lemmas give the value of an encoding (\<open>sn_val\<close>), the round trip in both
  directions (a number survives encoding, and under the minimal-encoding rule a byte string
  survives decoding), and the range of a decoded number.
\<close>

unbundle bit_operations_syntax

subsection \<open>Error codes\<close>

datatype (plugins only:) ErrorCode =
  ErrInternal | ErrInvalidFlags | ErrInvalidIndex | ErrUnsupportedAddress
  | ErrNotMultisigScript | ErrTooManyRequiredSigs | ErrTooMuchNullData | ErrEarlyReturn
  | ErrEmptyStack | ErrEvalFalse | ErrScriptUnfinished | ErrInvalidProgramCounter
  | ErrScriptTooBig | ErrElementTooBig | ErrTooManyOperations | ErrStackOverflow
  | ErrInvalidPubKeyCount | ErrInvalidSignatureCount | ErrNumberTooBig | ErrVerify
  | ErrEqualVerify | ErrNumEqualVerify | ErrCheckSigVerify | ErrCheckMultiSigVerify
  | ErrDisabledOpcode | ErrReservedOpcode | ErrMalformedPush | ErrInvalidStackOperation
  | ErrUnbalancedConditional | ErrMinimalData | ErrInvalidSigHashType | ErrSigTooShort
  | ErrSigTooLong | ErrSigInvalidSeqID | ErrSigInvalidDataLen | ErrSigMissingSTypeID
  | ErrSigMissingSLen | ErrSigInvalidSLen | ErrSigInvalidRIntID | ErrSigZeroRLen
  | ErrSigNegativeR | ErrSigTooMuchRPadding | ErrSigInvalidSIntID | ErrSigZeroSLen
  | ErrSigNegativeS | ErrSigTooMuchSPadding | ErrSigHighS | ErrNotPushOnly | ErrSigNullDummy
  | ErrPubKeyType | ErrCleanStack | ErrNullFail | ErrWitnessMalleated
  | ErrWitnessMalleatedP2SH | ErrDiscourageUpgradableNOPs | ErrNegativeLockTime
  | ErrUnsatisfiedLockTime | ErrMinimalIf | ErrDiscourageUpgradableWitnessProgram
  | ErrWitnessProgramEmpty | ErrWitnessProgramMismatch | ErrWitnessProgramWrongLength
  | ErrWitnessUnexpected | ErrWitnessPubKeyType

text \<open>The value \<^verbatim>\<open>iota\<close> gives each code.\<close>

primrec errorCodeInt :: "ErrorCode \<Rightarrow> nat" where
  "errorCodeInt ErrInternal = 0"
| "errorCodeInt ErrInvalidFlags = 1"
| "errorCodeInt ErrInvalidIndex = 2"
| "errorCodeInt ErrUnsupportedAddress = 3"
| "errorCodeInt ErrNotMultisigScript = 4"
| "errorCodeInt ErrTooManyRequiredSigs = 5"
| "errorCodeInt ErrTooMuchNullData = 6"
| "errorCodeInt ErrEarlyReturn = 7"
| "errorCodeInt ErrEmptyStack = 8"
| "errorCodeInt ErrEvalFalse = 9"
| "errorCodeInt ErrScriptUnfinished = 10"
| "errorCodeInt ErrInvalidProgramCounter = 11"
| "errorCodeInt ErrScriptTooBig = 12"
| "errorCodeInt ErrElementTooBig = 13"
| "errorCodeInt ErrTooManyOperations = 14"
| "errorCodeInt ErrStackOverflow = 15"
| "errorCodeInt ErrInvalidPubKeyCount = 16"
| "errorCodeInt ErrInvalidSignatureCount = 17"
| "errorCodeInt ErrNumberTooBig = 18"
| "errorCodeInt ErrVerify = 19"
| "errorCodeInt ErrEqualVerify = 20"
| "errorCodeInt ErrNumEqualVerify = 21"
| "errorCodeInt ErrCheckSigVerify = 22"
| "errorCodeInt ErrCheckMultiSigVerify = 23"
| "errorCodeInt ErrDisabledOpcode = 24"
| "errorCodeInt ErrReservedOpcode = 25"
| "errorCodeInt ErrMalformedPush = 26"
| "errorCodeInt ErrInvalidStackOperation = 27"
| "errorCodeInt ErrUnbalancedConditional = 28"
| "errorCodeInt ErrMinimalData = 29"
| "errorCodeInt ErrInvalidSigHashType = 30"
| "errorCodeInt ErrSigTooShort = 31"
| "errorCodeInt ErrSigTooLong = 32"
| "errorCodeInt ErrSigInvalidSeqID = 33"
| "errorCodeInt ErrSigInvalidDataLen = 34"
| "errorCodeInt ErrSigMissingSTypeID = 35"
| "errorCodeInt ErrSigMissingSLen = 36"
| "errorCodeInt ErrSigInvalidSLen = 37"
| "errorCodeInt ErrSigInvalidRIntID = 38"
| "errorCodeInt ErrSigZeroRLen = 39"
| "errorCodeInt ErrSigNegativeR = 40"
| "errorCodeInt ErrSigTooMuchRPadding = 41"
| "errorCodeInt ErrSigInvalidSIntID = 42"
| "errorCodeInt ErrSigZeroSLen = 43"
| "errorCodeInt ErrSigNegativeS = 44"
| "errorCodeInt ErrSigTooMuchSPadding = 45"
| "errorCodeInt ErrSigHighS = 46"
| "errorCodeInt ErrNotPushOnly = 47"
| "errorCodeInt ErrSigNullDummy = 48"
| "errorCodeInt ErrPubKeyType = 49"
| "errorCodeInt ErrCleanStack = 50"
| "errorCodeInt ErrNullFail = 51"
| "errorCodeInt ErrWitnessMalleated = 52"
| "errorCodeInt ErrWitnessMalleatedP2SH = 53"
| "errorCodeInt ErrDiscourageUpgradableNOPs = 54"
| "errorCodeInt ErrNegativeLockTime = 55"
| "errorCodeInt ErrUnsatisfiedLockTime = 56"
| "errorCodeInt ErrMinimalIf = 57"
| "errorCodeInt ErrDiscourageUpgradableWitnessProgram = 58"
| "errorCodeInt ErrWitnessProgramEmpty = 59"
| "errorCodeInt ErrWitnessProgramMismatch = 60"
| "errorCodeInt ErrWitnessProgramWrongLength = 61"
| "errorCodeInt ErrWitnessUnexpected = 62"
| "errorCodeInt ErrWitnessPubKeyType = 63"

definition errorCodeStrings :: "(ErrorCode \<times> string) list" where
  "errorCodeStrings =
    [(ErrInternal, ''ErrInternal''),
     (ErrInvalidFlags, ''ErrInvalidFlags''),
     (ErrInvalidIndex, ''ErrInvalidIndex''),
     (ErrUnsupportedAddress, ''ErrUnsupportedAddress''),
     (ErrNotMultisigScript, ''ErrNotMultisigScript''),
     (ErrTooManyRequiredSigs, ''ErrTooManyRequiredSigs''),
     (ErrTooMuchNullData, ''ErrTooMuchNullData''),
     (ErrEarlyReturn, ''ErrEarlyReturn''),
     (ErrEmptyStack, ''ErrEmptyStack''),
     (ErrEvalFalse, ''ErrEvalFalse''),
     (ErrScriptUnfinished, ''ErrScriptUnfinished''),
     (ErrInvalidProgramCounter, ''ErrInvalidProgramCounter''),
     (ErrScriptTooBig, ''ErrScriptTooBig''),
     (ErrElementTooBig, ''ErrElementTooBig''),
     (ErrTooManyOperations, ''ErrTooManyOperations''),
     (ErrStackOverflow, ''ErrStackOverflow''),
     (ErrInvalidPubKeyCount, ''ErrInvalidPubKeyCount''),
     (ErrInvalidSignatureCount, ''ErrInvalidSignatureCount''),
     (ErrNumberTooBig, ''ErrNumberTooBig''),
     (ErrVerify, ''ErrVerify''),
     (ErrEqualVerify, ''ErrEqualVerify''),
     (ErrNumEqualVerify, ''ErrNumEqualVerify''),
     (ErrCheckSigVerify, ''ErrCheckSigVerify''),
     (ErrCheckMultiSigVerify, ''ErrCheckMultiSigVerify''),
     (ErrDisabledOpcode, ''ErrDisabledOpcode''),
     (ErrReservedOpcode, ''ErrReservedOpcode''),
     (ErrMalformedPush, ''ErrMalformedPush''),
     (ErrInvalidStackOperation, ''ErrInvalidStackOperation''),
     (ErrUnbalancedConditional, ''ErrUnbalancedConditional''),
     (ErrMinimalData, ''ErrMinimalData''),
     (ErrInvalidSigHashType, ''ErrInvalidSigHashType''),
     (ErrSigTooShort, ''ErrSigTooShort''),
     (ErrSigTooLong, ''ErrSigTooLong''),
     (ErrSigInvalidSeqID, ''ErrSigInvalidSeqID''),
     (ErrSigInvalidDataLen, ''ErrSigInvalidDataLen''),
     (ErrSigMissingSTypeID, ''ErrSigMissingSTypeID''),
     (ErrSigMissingSLen, ''ErrSigMissingSLen''),
     (ErrSigInvalidSLen, ''ErrSigInvalidSLen''),
     (ErrSigInvalidRIntID, ''ErrSigInvalidRIntID''),
     (ErrSigZeroRLen, ''ErrSigZeroRLen''),
     (ErrSigNegativeR, ''ErrSigNegativeR''),
     (ErrSigTooMuchRPadding, ''ErrSigTooMuchRPadding''),
     (ErrSigInvalidSIntID, ''ErrSigInvalidSIntID''),
     (ErrSigZeroSLen, ''ErrSigZeroSLen''),
     (ErrSigNegativeS, ''ErrSigNegativeS''),
     (ErrSigTooMuchSPadding, ''ErrSigTooMuchSPadding''),
     (ErrSigHighS, ''ErrSigHighS''),
     (ErrNotPushOnly, ''ErrNotPushOnly''),
     (ErrSigNullDummy, ''ErrSigNullDummy''),
     (ErrPubKeyType, ''ErrPubKeyType''),
     (ErrCleanStack, ''ErrCleanStack''),
     (ErrNullFail, ''ErrNullFail''),
     (ErrWitnessMalleated, ''ErrWitnessMalleated''),
     (ErrWitnessMalleatedP2SH, ''ErrWitnessMalleatedP2SH''),
     (ErrDiscourageUpgradableNOPs, ''ErrDiscourageUpgradableNOPs''),
     (ErrNegativeLockTime, ''ErrNegativeLockTime''),
     (ErrUnsatisfiedLockTime, ''ErrUnsatisfiedLockTime''),
     (ErrMinimalIf, ''ErrMinimalIf''),
     (ErrDiscourageUpgradableWitnessProgram, ''ErrDiscourageUpgradableWitnessProgram''),
     (ErrWitnessProgramEmpty, ''ErrWitnessProgramEmpty''),
     (ErrWitnessProgramMismatch, ''ErrWitnessProgramMismatch''),
     (ErrWitnessProgramWrongLength, ''ErrWitnessProgramWrongLength''),
     (ErrWitnessUnexpected, ''ErrWitnessUnexpected''),
     (ErrWitnessPubKeyType, ''ErrWitnessPubKeyType'')]"

text \<open>Decimal notation, the verb \<^verbatim>\<open>%d\<close> of \<^verbatim>\<open>fmt\<close> on a natural number.\<close>

fun fmtD :: "nat \<Rightarrow> string" where
  "fmtD n = (if n < 10 then [char_of (48 + n)] else fmtD (n div 10) @ [char_of (48 + n mod 10)])"

declare fmtD.simps [simp del]

definition ErrorCode_String :: "ErrorCode \<Rightarrow> string" where
  "ErrorCode_String e =
     (let s = (case map_of errorCodeStrings e of Some s \<Rightarrow> s | None \<Rightarrow> [])
      in if s \<noteq> [] then s
         else ''Unknown ErrorCode ('' @ fmtD (errorCodeInt e) @ '')'')"

lemma errorCodeStrings_nth: "fst (errorCodeStrings ! errorCodeInt e) = e"
  unfolding errorCodeStrings_def by (cases e) simp_all

lemma errorCodeInt_inj: "errorCodeInt e = errorCodeInt f \<longleftrightarrow> e = f"
  using errorCodeStrings_nth by metis

lemma errorCodeInt_lt: "errorCodeInt e < length errorCodeStrings"
  unfolding errorCodeStrings_def by (cases e) simp_all

instantiation ErrorCode :: equal
begin

definition equal_ErrorCode :: "ErrorCode \<Rightarrow> ErrorCode \<Rightarrow> bool" where
  "equal_ErrorCode e f \<longleftrightarrow> errorCodeInt e = errorCodeInt f"

instance
  by intro_classes (simp add: equal_ErrorCode_def errorCodeInt_inj)

end

text \<open>
  An error of the package carries its code; \<open>Errorf\<close> stands for the few plain errors made with
  \<^verbatim>\<open>fmt.Errorf\<close>.  The descriptions are only text for people and are left out.
\<close>

datatype script_error = scriptError ErrorCode | Errorf

definition IsErrorCode :: "script_error \<Rightarrow> ErrorCode \<Rightarrow> bool" where
  "IsErrorCode err c = (case err of scriptError e \<Rightarrow> e = c | Errorf \<Rightarrow> False)"

type_synonym ('s, 'a) sop = "('s, script_error, 'a) op"

subsection \<open>Script numbers\<close>

type_synonym scriptNum = int

definition maxInt32 :: int where
  "maxInt32 = 2 ^ 31 - 1"

definition minInt32 :: int where
  "minInt32 = - (2 ^ 31)"

definition defaultScriptNumLen :: nat where
  "defaultScriptNumLen = 4"

definition checkMinimalDataEncoding :: "byte list \<Rightarrow> (script_error, unit) res" where
  "checkMinimalDataEncoding v =
     (if length v = 0 then Ok ()
      else if v ! (length v - 1) AND 0x7f = 0 then
        (if length v = 1 \<or> v ! (length v - 2) AND 0x80 = 0 then Err (scriptError ErrMinimalData) else Ok ())
      else Ok ())"

text \<open>The loop \<^verbatim>\<open>for n > 0 { result = append(result, byte(n&0xff)); n >>= 8 }\<close>.\<close>

function bytesLoop :: "int \<Rightarrow> byte list" where
  "bytesLoop n = (if n > 0 then word_of_int (n AND 0xff) # bytesLoop (drop_bit 8 n) else [])"
  by pat_completeness auto
termination
  by (relation "measure nat") (auto simp: drop_bit_eq_div)

declare bytesLoop.simps [simp del]

text \<open>
  For the least \<open>int64\<close> the negation wraps to itself, the loop appends nothing and the read of
  the last byte is out of range.
\<close>

definition scriptNum_Bytes :: "scriptNum \<Rightarrow> (script_error, byte list) res" where
  "scriptNum_Bytes n =
     (if n = 0 then Ok []
      else
        let isNegative = n < 0;
            m = (if isNegative then i64 (- n) else n);
            result = bytesLoop m
        in if result = [] then Panic
           else if last result AND 0x80 \<noteq> 0 then
             Ok (result @ [if isNegative then 0x80 else 0x00])
           else if isNegative then
             Ok (result[length result - 1 := last result OR 0x80])
           else Ok result)"

definition scriptNum_Int32 :: "scriptNum \<Rightarrow> int" where
  "scriptNum_Int32 n =
     (if n > maxInt32 then maxInt32 else if n < minInt32 then minInt32 else i32 n)"

text \<open>The loop \<^verbatim>\<open>for i, val := range v { result |= int64(val) << uint8(8*i) }\<close>.\<close>

fun decodeLoop :: "nat \<Rightarrow> int \<Rightarrow> byte list \<Rightarrow> int" where
  "decodeLoop i result [] = result"
| "decodeLoop i result (val # v) =
     decodeLoop (Suc i) (result OR i64 (push_bit ((8 * i) mod 256) (uint val))) v"

definition makeScriptNum :: "byte list \<Rightarrow> bool \<Rightarrow> nat \<Rightarrow> (script_error, scriptNum) res" where
  "makeScriptNum v requireMinimal scriptNumLen =
     (if length v > scriptNumLen then Err (scriptError ErrNumberTooBig)
      else if requireMinimal \<and> checkMinimalDataEncoding v \<noteq> Ok () then
        (case checkMinimalDataEncoding v of Err e \<Rightarrow> Err e | _ \<Rightarrow> Panic)
      else if length v = 0 then Ok 0
      else
        let result = decodeLoop 0 0 v
        in if v ! (length v - 1) AND 0x80 \<noteq> 0 then
             Ok (i64 (- (result AND NOT (i64 (push_bit ((8 * (length v - 1)) mod 256) 0x80)))))
           else Ok result)"

subsection \<open>The value of an encoded number\<close>

text \<open>
  The reference semantics: the last byte carries the sign in its top bit, the remaining bits are
  the magnitude, least significant byte first.
\<close>

definition sn_val :: "byte list \<Rightarrow> int" where
  "sn_val v =
     (if v = [] then 0
      else let m = le_val (butlast v) + 256 ^ length (butlast v) * (uint (last v) mod 128)
           in if uint (last v) \<ge> 128 then - m else m)"

definition sn_minimal :: "byte list \<Rightarrow> bool" where
  "sn_minimal v \<longleftrightarrow>
     v = [] \<or> uint (last v) mod 128 \<noteq> 0 \<or>
     (butlast v \<noteq> [] \<and> uint (last (butlast v)) \<ge> 128)"

lemma byte_and_7f: "(b :: byte) AND 0x7f = 0 \<longleftrightarrow> uint b mod 128 = 0"
proof -
  have m: "(0x7f :: byte) = mask 7" by (simp add: mask_eq_exp_minus_1)
  have "uint (b AND 0x7f) = uint b mod 128"
    by (simp only: m flip: take_bit_eq_mask) (simp only: unsigned_take_bit_eq, simp add: take_bit_eq_mod)
  then show ?thesis by (simp add: word_uint_eq_iff)
qed

lemma byte_and_80: "(b :: byte) AND 0x80 = 0 \<longleftrightarrow> uint b < 128"
proof -
  have "(b AND 0x80 = 0) \<longleftrightarrow> \<not> bit b 7"
    using and_exp_eq_0_iff_not_bit[of b 7] by simp
  also have "\<dots> \<longleftrightarrow> \<not> bit (uint b) 7" by (simp add: bit_uint_iff)
  also have "\<dots> \<longleftrightarrow> uint b < 128"
  proof -
    have "uint b < 256" "0 \<le> uint b" by simp_all
    then have "even (uint b div 128) \<longleftrightarrow> uint b < 128" by presburger
    then show ?thesis by (simp add: bit_iff_odd)
  qed
  finally show ?thesis .
qed

lemma checkMinimal_iff: "checkMinimalDataEncoding v = Ok () \<longleftrightarrow> sn_minimal v"
proof (cases v rule: rev_cases)
  case (snoc xs b)
  then show ?thesis
    by (cases xs rule: rev_cases)
      (auto simp: checkMinimalDataEncoding_def sn_minimal_def byte_and_7f byte_and_80
        nth_append not_less butlast_append)
qed (simp add: checkMinimalDataEncoding_def sn_minimal_def)

lemma checkMinimal_cases:
  "checkMinimalDataEncoding v = (if sn_minimal v then Ok () else Err (scriptError ErrMinimalData))"
  using checkMinimal_iff[of v] by (auto simp: checkMinimalDataEncoding_def split: if_splits)

subsection \<open>Decoding\<close>

lemma le_val_Cons_or: "le_val (b # v) = uint b OR push_bit 8 (le_val v)"
proof -
  have "uint b AND push_bit 8 (le_val v) = 0"
  proof (rule bit_eqI)
    fix n
    have "uint b = take_bit 8 (uint b)" by (simp add: take_bit_int_eq_self)
    then have "bit (uint b) n \<Longrightarrow> n < 8" by (metis bit_take_bit_iff)
    then show "bit (uint b AND push_bit 8 (le_val v)) n = bit 0 n"
      by (auto simp: bit_simps)
  qed
  then have "uint b OR push_bit 8 (le_val v) = uint b + push_bit 8 (le_val v)"
    by (simp add: disjunctive_add_eq_or)
  then show ?thesis by (simp add: push_bit_eq_mult)
qed

lemma i64_or: "i64 a OR i64 b = i64 (a OR b)"
  unfolding i64_def by (rule bit_eqI) (auto simp: bit_simps)

lemma decodeLoop_val:
  "i + length v \<le> 32 \<Longrightarrow> decodeLoop i (i64 r) v = i64 (r OR push_bit (8 * i) (le_val v))"
proof (induction v arbitrary: i r)
  case (Cons b v)
  then have i: "8 * i mod 256 = 8 * i" by simp
  have "decodeLoop i (i64 r) (b # v) = decodeLoop (Suc i) (i64 (r OR push_bit (8 * i) (uint b))) v"
    by (simp add: i i64_or)
  also have "\<dots> = i64 ((r OR push_bit (8 * i) (uint b)) OR push_bit (8 * Suc i) (le_val v))"
    using Cons by simp
  also have "\<dots> = i64 (r OR push_bit (8 * i) (le_val (b # v)))"
    by (simp add: le_val_Cons_or push_bit_or or.assoc ac_simps del: le_val.simps)
  finally show ?case .
qed simp

lemma decodeLoop_0: "length v \<le> 32 \<Longrightarrow> decodeLoop 0 0 v = i64 (le_val v)"
  using decodeLoop_val[of 0 v 0] by simp

lemma pow256: "(256 :: int) ^ n = 2 ^ (8 * n)"
  by (simp add: power_mult)

lemma and_not_top:
  assumes "0 \<le> x" "x < 2 ^ k"
  shows "(x + 2 ^ k) AND NOT (2 ^ k) = (x :: int)"
proof -
  have "x AND 2 ^ k = 0"
  proof (rule bit_eqI)
    fix n
    have "x = take_bit k x" using assms by (simp add: take_bit_int_eq_self)
    then have "bit x n \<Longrightarrow> n < k" by (metis bit_take_bit_iff)
    then show "bit (x AND 2 ^ k) n = bit 0 n"
      by (auto simp: bit_simps)
  qed
  then have "x + 2 ^ k = x OR 2 ^ k" by (simp add: disjunctive_add_eq_or)
  moreover have "(x OR 2 ^ k) AND NOT (2 ^ k) = x"
  proof (rule bit_eqI)
    fix n
    have "x = take_bit k x" using assms by (simp add: take_bit_int_eq_self)
    then have "bit x n \<Longrightarrow> n < k" by (metis bit_take_bit_iff)
    then show "bit ((x OR 2 ^ k) AND NOT (2 ^ k)) n = bit x n"
      by (auto simp: bit_simps)
  qed
  ultimately show ?thesis by simp
qed

lemma snoc_magnitude:
  fixes xs :: "byte list"
  defines "m b \<equiv> le_val xs + 256 ^ length xs * (uint (b :: byte) mod 128)"
  shows "0 \<le> m b" and "m b < 2 ^ (8 * length xs + 7)"
proof -
  show "0 \<le> m b" by (simp add: m_def)
  have "m b < 256 ^ length xs * (uint b mod 128 + 1)"
    using le_val_lt[of xs] by (simp add: m_def algebra_simps)
  also have "\<dots> \<le> 256 ^ length xs * 128"
    using pos_mod_bound[of 128 "uint b"] by (intro mult_left_mono) auto
  finally show "m b < 2 ^ (8 * length xs + 7)"
    by (simp add: pow256 power_add)
qed

lemma makeScriptNum_val:
  assumes "length v \<le> k" "length v \<le> 8" "rm \<longrightarrow> sn_minimal v"
  shows "makeScriptNum v rm k = Ok (sn_val v)"
proof (cases v rule: rev_cases)
  case Nil
  then show ?thesis using assms by (simp add: makeScriptNum_def sn_val_def checkMinimal_cases)
next
  case (snoc xs b)
  define p where "p = 8 * length xs + 7"
  define m where "m = le_val xs + 256 ^ length xs * (uint b mod 128)"
  have m: "0 \<le> m" "m < 2 ^ p" using snoc_magnitude[of xs b] by (simp_all add: m_def p_def)
  have p: "p \<le> 63" using assms(2) snoc by (simp add: p_def)
  have "(2 :: int) ^ p \<le> 2 ^ 63" using p by (intro power_increasing) simp_all
  with m have m63: "m < 2 ^ 63" by simp
  have d: "decodeLoop 0 0 v = i64 (le_val v)" using assms(2) by (simp add: decodeLoop_0)
  have head: "makeScriptNum v rm k =
     (if b AND 0x80 \<noteq> 0 then Ok (i64 (- (i64 (le_val v) AND NOT (i64 (push_bit (8 * length xs) 0x80)))))
      else Ok (i64 (le_val v)))"
    using assms snoc d by (simp add: makeScriptNum_def Let_def checkMinimal_cases nth_append)
  show ?thesis
  proof (cases "uint b < 128")
    case True
    then have "le_val v = m" by (simp add: snoc m_def le_val_append)
    moreover have "i64 m = m" using m m63 by simp
    ultimately show ?thesis using head True
      by (simp add: byte_and_80 sn_val_def snoc m_def)
  next
    case False
    then have ub: "uint b = 128 + uint b mod 128" using uint_byte_lt[of b] by presburger
    have "le_val v = le_val xs + 256 ^ length xs * (128 + uint b mod 128)"
      using ub by (simp add: snoc le_val_append)
    then have lv: "le_val v = m + 2 ^ p"
      by (simp add: m_def p_def pow256 power_add algebra_simps)
    have pb: "push_bit (8 * length xs) 0x80 = (2 :: int) ^ p"
      by (simp add: push_bit_eq_mult p_def power_add)
    have "i64 (le_val v) AND NOT (i64 (2 ^ p)) = i64 (le_val v AND NOT (2 ^ p))"
      unfolding i64_def by (rule bit_eqI) (auto simp: bit_simps)
    also have "\<dots> = m" using and_not_top[OF m] m m63 by (simp add: lv)
    finally have "makeScriptNum v rm k = Ok (i64 (- m))"
      using head False by (simp add: byte_and_80 pb)
    moreover have "i64 (- m) = - m" using m m63 by simp
    moreover have "sn_val v = - m" using False by (simp add: sn_val_def snoc m_def)
    ultimately show ?thesis by simp
  qed
qed

lemma makeScriptNum_cases:
  assumes "k \<le> 8"
  shows "makeScriptNum v rm k =
    (if length v > k then Err (scriptError ErrNumberTooBig)
     else if rm \<and> \<not> sn_minimal v then Err (scriptError ErrMinimalData)
     else Ok (sn_val v))"
  using makeScriptNum_val[of v k rm] assms
  by (auto simp: makeScriptNum_def checkMinimal_cases)

lemma sn_val_range:
  assumes "v \<noteq> []"
  shows "\<bar>sn_val v\<bar> < 2 ^ (8 * length v - 1)"
proof (cases v rule: rev_cases)
  case (snoc xs b)
  define m where "m = le_val xs + 256 ^ length xs * (uint b mod 128)"
  have "sn_val v = (if uint b \<ge> 128 then - m else m)"
    by (simp add: sn_val_def snoc m_def)
  moreover have "0 \<le> m" using snoc_magnitude(1)[of xs b] by (simp add: m_def)
  ultimately have "\<bar>sn_val v\<bar> = m" by simp
  then show ?thesis using snoc_magnitude(2)[of xs b] by (simp add: snoc m_def add.commute)
qed (use assms in simp)

subsection \<open>Encoding\<close>

lemma and_ff: "(n :: int) AND 0xff = n mod 256"
proof -
  have "(0xff :: int) = mask 8" by (simp add: mask_eq_exp_minus_1)
  then have "n AND 0xff = take_bit 8 n" by (simp add: take_bit_eq_mask)
  then show ?thesis by (simp add: take_bit_eq_mod)
qed

lemma bytesLoop_pos:
  "n > 0 \<Longrightarrow> bytesLoop n = word_of_int (n mod 256) # bytesLoop (n div 256)"
  by (subst bytesLoop.simps) (simp add: and_ff drop_bit_eq_div)

lemma bytesLoop_nonpos: "n \<le> 0 \<Longrightarrow> bytesLoop n = []"
  by (subst bytesLoop.simps) simp

lemma le_val_bytesLoop: "0 \<le> n \<Longrightarrow> le_val (bytesLoop n) = n"
proof (induction n rule: bytesLoop.induct)
  case (1 n)
  show ?case
  proof (cases "n > 0")
    case True
    then have "le_val (bytesLoop (n div 256)) = n div 256"
      using 1 by (simp add: drop_bit_eq_div)
    with True show ?thesis by (simp add: bytesLoop_pos uint_byte_of_int)
  qed (use 1 in \<open>simp add: bytesLoop_nonpos\<close>)
qed

lemma bytesLoop_last: "0 < n \<Longrightarrow> bytesLoop n \<noteq> [] \<and> uint (last (bytesLoop n)) \<noteq> 0"
proof (induction n rule: bytesLoop.induct)
  case (1 n)
  show ?case
  proof (cases "n div 256 > 0")
    case True
    then show ?thesis using 1 by (simp add: bytesLoop_pos drop_bit_eq_div)
  next
    case False
    then have "n div 256 = 0" "n mod 256 = n" using 1 by simp_all
    then show ?thesis using 1 by (simp add: bytesLoop_pos bytesLoop_nonpos uint_byte_of_int)
  qed
qed

lemma le_val_pos: "v \<noteq> [] \<Longrightarrow> uint (last v) \<noteq> 0 \<Longrightarrow> 0 < le_val v"
proof (induction v)
  case (Cons b v)
  have "0 \<le> uint b" "v = [] \<Longrightarrow> 0 < uint b" using Cons.prems by (simp_all add: less_le)
  with Cons show ?case by (cases "v = []") (simp_all add: add_nonneg_pos)
qed simp

lemma bytesLoop_le_val: "v \<noteq> [] \<Longrightarrow> uint (last v) \<noteq> 0 \<Longrightarrow> bytesLoop (le_val v) = v"
proof (induction v)
  case (Cons b v)
  have pos: "0 < le_val (b # v)" using Cons.prems by (rule le_val_pos)
  have "le_val (b # v) mod 256 = uint b" "le_val (b # v) div 256 = le_val v"
    using uint_byte_lt[of b] by simp_all
  then have "bytesLoop (le_val (b # v)) = b # bytesLoop (le_val v)"
    using pos by (simp add: bytesLoop_pos)
  then show ?case using Cons by (cases "v = []") (simp_all add: bytesLoop_nonpos)
qed simp

lemma uint_byte_mod128: "uint (b :: byte) \<ge> 128 \<Longrightarrow> uint b mod 128 + 128 = uint b"
  using uint_byte_lt[of b] by presburger

lemma byte_or_80: "uint (b :: byte) < 128 \<Longrightarrow> uint (b OR 0x80) = uint b + 128"
proof -
  assume b: "uint b < 128"
  then have "b AND 0x80 = 0" by (simp add: byte_and_80)
  then have "b OR 0x80 = b + 0x80" by (simp add: disjunctive_add_eq_or)
  then show ?thesis using b by (simp add: uint_word_ariths)
qed

lemma scriptNum_Bytes_pos:
  assumes "0 < m" "m < 2 ^ 63" "n = m \<or> n = - m"
  shows "scriptNum_Bytes n = Ok (let r = bytesLoop m in
     if uint (last r) \<ge> 128 then r @ [if n < 0 then 0x80 else 0]
     else if n < 0 then butlast r @ [last r OR 0x80] else r)"
proof -
  have "(if n < 0 then i64 (- n) else n) = m" using assms by auto
  moreover have "r[length r - 1 := x] = butlast r @ [x]" if "r \<noteq> []" for r :: "byte list" and x
    using that by (cases r rule: rev_cases) simp_all
  ultimately show ?thesis
    using assms bytesLoop_last[OF assms(1)]
    by (auto simp: scriptNum_Bytes_def Let_def byte_and_80 not_less)
qed

lemma sn_Bytes_roundtrip:
  assumes "- (2 ^ 63) < n" "n < 2 ^ 63"
  shows "\<exists>v. scriptNum_Bytes n = Ok v \<and> sn_minimal v \<and> sn_val v = n"
proof (cases "n = 0")
  case True
  then show ?thesis by (simp add: scriptNum_Bytes_def sn_minimal_def sn_val_def)
next
  case False
  define m where "m = \<bar>n\<bar>"
  define r where "r = bytesLoop m"
  have m: "0 < m" "m < 2 ^ 63" "n = m \<or> n = - m" using assms False by (auto simp: m_def)
  have r: "r \<noteq> []" "uint (last r) \<noteq> 0" "le_val r = m"
    using bytesLoop_last le_val_bytesLoop m(1) by (auto simp: r_def)
  then obtain xs b where xs: "r = xs @ [b]" by (cases r rule: rev_cases) auto
  have val: "le_val xs + 256 ^ length xs * uint b = m"
    using r(3) by (simp add: xs le_val_append)
  note eq = scriptNum_Bytes_pos[OF m, folded r_def]
  show ?thesis
  proof (cases "uint b \<ge> 128")
    case True
    have "scriptNum_Bytes n = Ok (r @ [if n < 0 then 0x80 else 0])"
      using eq True by (simp add: xs)
    moreover have "sn_minimal (r @ [if n < 0 then 0x80 else 0])"
      using True by (simp add: sn_minimal_def xs butlast_append)
    moreover have "sn_val (r @ [if n < 0 then 0x80 else 0]) = n"
      using m r(3) by (auto simp: sn_val_def)
    ultimately show ?thesis by blast
  next
    case False
    then have b: "uint b mod 128 = uint b" "uint b \<noteq> 0" using r(2) by (simp_all add: xs)
    define c where "c = (if n < 0 then b OR 0x80 else b)"
    have c: "uint c = (if n < 0 then uint b + 128 else uint b)"
      using False by (simp add: c_def byte_or_80)
    have "scriptNum_Bytes n = Ok (xs @ [c])" using eq False by (simp add: xs c_def)
    moreover have "sn_minimal (xs @ [c])" using b c by (simp add: sn_minimal_def)
    moreover have "sn_val (xs @ [c]) = n"
      using m False val b c by (auto simp: sn_val_def)
    ultimately show ?thesis by blast
  qed
qed

lemma sn_val_Bytes:
  assumes "sn_minimal v" "length v \<le> 8"
  shows "scriptNum_Bytes (sn_val v) = Ok v"
proof (cases v rule: rev_cases)
  case Nil
  then show ?thesis by (simp add: sn_val_def scriptNum_Bytes_def)
next
  case (snoc xs b)
  define m where "m = le_val xs + 256 ^ length xs * (uint b mod 128)"
  have n: "sn_val v = (if uint b \<ge> 128 then - m else m)" by (simp add: sn_val_def snoc m_def)
  have "m < 2 ^ (8 * length xs + 7)" using snoc_magnitude(2)[of xs b] by (simp add: m_def)
  also have "\<dots> \<le> 2 ^ 63" using assms(2) snoc by (intro power_increasing) simp_all
  finally have m63: "m < 2 ^ 63" .
  show ?thesis
  proof (cases "uint b mod 128 = 0")
    case False
    define c where "c = (word_of_int (uint b mod 128) :: byte)"
    have c: "uint c = uint b mod 128" by (simp add: c_def uint_byte_of_int)
    have loop: "bytesLoop m = xs @ [c]" "0 < m"
      using bytesLoop_le_val[of "xs @ [c]"] le_val_pos[of "xs @ [c]"] False c
      by (simp_all add: le_val_append m_def)
    have c128: "\<not> uint c \<ge> 128" by (simp add: c)
    have "uint b \<ge> 128 \<Longrightarrow> c OR 0x80 = b" "uint b < 128 \<Longrightarrow> c = b"
      using byte_or_80[of c] c c128 uint_byte_mod128[of b] by (simp_all add: word_uint_eq_iff)
    then show ?thesis
      using scriptNum_Bytes_pos[OF loop(2) m63, of "sn_val v"] c128 loop n
      by (auto simp: snoc)
  next
    case True
    then have xs: "xs \<noteq> []" "uint (last xs) \<ge> 128"
      using assms(1) by (simp_all add: sn_minimal_def snoc)
    then have m: "m = le_val xs" "bytesLoop m = xs" "0 < m"
      using True bytesLoop_le_val[of xs] le_val_pos[of xs] by (simp_all add: m_def)
    have "uint b = 0 \<or> uint b = 128" using True uint_byte_lt[of b] uint_ge_0[of b] by presburger
    then have "b = 0 \<or> b = 0x80" by (simp add: word_uint_eq_iff)
    then show ?thesis
      using scriptNum_Bytes_pos[OF m(3) m63, of "sn_val v"] m n xs by (auto simp: snoc)
  qed
qed


lemma sn_minimal_lower:
  assumes "sn_minimal v" "2 \<le> length v"
  shows "2 ^ (8 * length v - 9) \<le> \<bar>sn_val v\<bar>"
proof (cases v rule: rev_cases)
  case (snoc ys b)
  with assms(2) obtain xs c where ys: "ys = xs @ [c]" by (cases ys rule: rev_cases) auto
  define m where "m = le_val ys + 256 ^ length ys * (uint b mod 128)"
  have "sn_val v = (if uint b \<ge> 128 then - m else m)" by (simp add: sn_val_def snoc m_def)
  moreover have "0 \<le> m" by (simp add: m_def)
  ultimately have abs: "\<bar>sn_val v\<bar> = m" by simp
  have exp: "2 ^ (8 * length v - 9) = 256 ^ length xs * (128 :: int)"
    by (simp add: snoc ys pow256 power_add)
  have lv: "le_val ys = le_val xs + 256 ^ length xs * uint c" by (simp add: ys le_val_append)
  show ?thesis
  proof (cases "uint b mod 128 = 0")
    case True
    then have "uint c \<ge> 128" using assms(1) by (simp add: sn_minimal_def snoc ys butlast_append)
    then have "256 ^ length xs * 128 \<le> 256 ^ length xs * uint c" by (intro mult_left_mono) simp_all
    then have "256 ^ length xs * 128 \<le> le_val ys" using le_val_nonneg[of xs] unfolding lv by linarith
    then show ?thesis using True by (simp add: abs m_def exp)
  next
    case False
    then have "1 \<le> uint b mod 128" using pos_mod_sign[of 128 "uint b"] by simp
    then have "256 ^ length ys * 1 \<le> 256 ^ length ys * (uint b mod 128)"
      by (intro mult_left_mono) simp_all
    moreover have "(256 :: int) ^ length xs * 128 \<le> 256 ^ length ys" by (simp add: ys)
    ultimately show ?thesis using le_val_nonneg[of ys] unfolding abs m_def exp by linarith
  qed
qed (use assms in simp)

lemma sn_minimal_length:
  assumes "sn_minimal v" "\<bar>sn_val v\<bar> < 2 ^ 63"
  shows "length v \<le> 8"
proof (rule ccontr)
  assume "\<not> length v \<le> 8"
  then have "2 \<le> length v" and "63 \<le> 8 * length v - 9" by simp_all
  then have "2 \<le> length v" and "(2 :: int) ^ 63 \<le> 2 ^ (8 * length v - 9)"
    by (simp, intro power_increasing) simp_all
  then show False using sn_minimal_lower[OF assms(1)] assms(2) by simp
qed

subsection \<open>Properties of the script numbers\<close>

text \<open>
  Claim C33. Every script number but the least int64 encodes to at most eight bytes, its
  encoding satisfies the minimal-encoding rule, and decoding it with any length limit that
  admits it, with or without the rule, gives the number back.
\<close>

theorem scriptNum_encode_decode:
  assumes "- (2 ^ 63) < n" "n < 2 ^ 63"
  shows "\<exists>v. scriptNum_Bytes n = Ok v \<and> length v \<le> 8 \<and> checkMinimalDataEncoding v = Ok () \<and>
    (\<forall>rm k. length v \<le> k \<longrightarrow> k \<le> 8 \<longrightarrow> makeScriptNum v rm k = Ok n)"
proof -
  obtain v where v: "scriptNum_Bytes n = Ok v" "sn_minimal v" "sn_val v = n"
    using sn_Bytes_roundtrip[OF assms] by blast
  have "length v \<le> 8" using sn_minimal_length[of v] v assms by simp
  with v show ?thesis by (auto simp: checkMinimal_iff makeScriptNum_cases)
qed

theorem scriptNum_encode_decode_witness:
  "\<exists>v. scriptNum_Bytes (-255) = Ok v \<and> length v \<le> 8 \<and> checkMinimalDataEncoding v = Ok () \<and>
    (\<forall>rm k. length v \<le> k \<longrightarrow> k \<le> 8 \<longrightarrow> makeScriptNum v rm k = Ok (-255))"
  by (rule scriptNum_encode_decode) simp_all

text \<open>
  Under the minimal-encoding rule the encoding of a number is unique: a byte string
  that decodes is exactly what encoding the decoded number produces, so no second encoding of
  the same number is accepted.
\<close>

theorem scriptNum_minimal_unique:
  assumes "makeScriptNum v True k = Ok n" "k \<le> 8"
  shows "scriptNum_Bytes n = Ok v"
  using assms sn_val_Bytes[of v] by (auto simp: makeScriptNum_cases split: if_splits)

theorem scriptNum_minimal_unique_witness:
  "scriptNum_Bytes (-255) = Ok [0xff, 0x80]"
proof -
  have "makeScriptNum [0xff, 0x80] True 4 = Ok (-255)"
    by (simp add: makeScriptNum_cases sn_minimal_def sn_val_def)
  then show ?thesis by (rule scriptNum_minimal_unique) simp
qed

text \<open>
  What the numeric opcodes read: a byte string decodes with the default limit exactly
  when it has at most four bytes and, if the rule is on, is minimal; the number then lies
  strictly between minus and plus two to the thirty-first.  Longer strings give
  ErrNumberTooBig, non-minimal ones ErrMinimalData.
\<close>

theorem makeScriptNum_default_range:
  "(\<exists>n. makeScriptNum v rm defaultScriptNumLen = Ok n \<and> - (2 ^ 31) < n \<and> n < 2 ^ 31 \<and>
        length v \<le> 4 \<and> (rm \<longrightarrow> checkMinimalDataEncoding v = Ok ())) \<or>
   (makeScriptNum v rm defaultScriptNumLen = Err (scriptError ErrNumberTooBig) \<and> 4 < length v) \<or>
   (makeScriptNum v rm defaultScriptNumLen = Err (scriptError ErrMinimalData) \<and> length v \<le> 4 \<and> rm \<and>
        checkMinimalDataEncoding v = Err (scriptError ErrMinimalData))"
proof (cases "length v \<le> 4 \<and> (rm \<longrightarrow> sn_minimal v)")
  case True
  have "\<bar>sn_val v\<bar> < 2 ^ 31"
  proof (cases "v = []")
    case False
    then have "\<bar>sn_val v\<bar> < 2 ^ (8 * length v - 1)" by (rule sn_val_range)
    also have "\<dots> \<le> 2 ^ 31" using True by (intro power_increasing) auto
    finally show ?thesis .
  qed (simp add: sn_val_def)
  then show ?thesis
    using True by (auto simp: makeScriptNum_cases defaultScriptNumLen_def checkMinimal_cases abs_less_iff)
next
  case False
  then show ?thesis
    by (auto simp: makeScriptNum_cases defaultScriptNumLen_def checkMinimal_cases)
qed

theorem makeScriptNum_default_range_witness:
  "makeScriptNum [0xff, 0xff, 0xff, 0xff] True defaultScriptNumLen = Ok (- (2 ^ 31 - 1))"
proof -
  have "makeScriptNum [0xff, 0xff, 0xff, 0xff] True defaultScriptNumLen \<noteq> Err (scriptError ErrMinimalData)"
    by (simp add: makeScriptNum_cases defaultScriptNumLen_def sn_minimal_def)
  with makeScriptNum_default_range[of "[0xff, 0xff, 0xff, 0xff]" True]
  show ?thesis
    by (simp add: makeScriptNum_cases defaultScriptNumLen_def sn_minimal_def sn_val_def)
qed

end
