(* ===== verification/Stack.thy ===== *)
theory Stack
  imports ScriptNum
begin

text \<open>
  The data stacks of the script engine (\<^verbatim>\<open>pkg/chain/tx/script/stack.go\<close>).

  The slice \<open>stk\<close> is kept bottom first, as in the code; \<open>items\<close> is the same content top first,
  the form the specifications use.  The mutex is part of the state: a locked mutex blocks the
  next method that takes it.  \<open>nipN\<close> returns its error without releasing the mutex, so every
  method that pops leaves a stack on which the next pop, push or depth blocks for ever.

  The first group of lemmas gives the effect of each method on a free stack, the second shows
  that no method blocks on a free stack and that a successful one frees it again.
\<close>

record stack =
  stk :: "byte list list"
  stkMutex :: bool
  verifyMinimalData :: bool

text \<open>The scan stops at the first non-zero byte; 0x80 in the last position is negative zero.\<close>

fun asBool :: "byte list \<Rightarrow> bool" where
  "asBool [] = False"
| "asBool (b # t) = (if b \<noteq> 0 then \<not> (t = [] \<and> b = 0x80) else asBool t)"

definition fromBool :: "bool \<Rightarrow> byte list" where
  "fromBool v = (if v then [1] else [])"

subsection \<open>The mutex\<close>

definition Lock :: "(stack, unit) sop" where
  "Lock s = (if stkMutex s then (Hang, s) else (Ok (), s\<lparr>stkMutex := True\<rparr>))"

definition Unlock :: "(stack, unit) sop" where
  "Unlock s = (if stkMutex s then (Ok (), s\<lparr>stkMutex := False\<rparr>) else (Panic, s))"

subsection \<open>Methods\<close>

definition Depth :: "(stack, int) sop" where
  "Depth = bnd Lock (\<lambda>_. bnd (get_st (\<lambda>s. i32 (int (length (stk s))))) (\<lambda>d.
           bnd Unlock (\<lambda>_. ret d)))"

definition PushByteArray :: "byte list \<Rightarrow> (stack, unit) sop" where
  "PushByteArray so = bnd Lock (\<lambda>_. bnd (mod_st (\<lambda>s. s\<lparr>stk := stk s @ [so]\<rparr>)) (\<lambda>_. Unlock))"

definition PushInt :: "scriptNum \<Rightarrow> (stack, unit) sop" where
  "PushInt val = bnd (lift_res (scriptNum_Bytes val)) PushByteArray"

definition PushBool :: "bool \<Rightarrow> (stack, unit) sop" where
  "PushBool val = PushByteArray (fromBool val)"

text \<open>
  The three branches of \<open>nipN\<close>: the top item, the bottom item, an item in between.  The error
  branch leaves the mutex locked.
\<close>

definition nipN :: "int \<Rightarrow> (stack, byte list) sop" where
  "nipN idx =
     bnd Lock (\<lambda>_ s.
       let sz = i32 (int (length (stk s))) in
       if idx < 0 \<or> idx > i32 (sz - 1) then (Err (scriptError ErrInvalidStackOperation), s)
       else
         let so = stk s ! nat (sz - idx - 1);
             s' = (if idx = 0 then s\<lparr>stk := take (nat (sz - 1)) (stk s)\<rparr>
                   else if idx = sz - 1 then s\<lparr>stk := take (nat (sz - 1)) (drop 1 (stk s))\<rparr>
                   else s\<lparr>stk := take (nat (sz - idx - 1)) (stk s)
                                 @ slice (stk s) (nat (sz - idx)) (nat sz)\<rparr>)
         in bnd Unlock (\<lambda>_. ret so) s')"

definition PopByteArray :: "(stack, byte list) sop" where
  "PopByteArray = nipN 0"

definition PopInt :: "(stack, scriptNum) sop" where
  "PopInt = bnd PopByteArray (\<lambda>so s.
     (makeScriptNum so (verifyMinimalData s) defaultScriptNumLen, s))"

definition PopBool :: "(stack, bool) sop" where
  "PopBool = bnd PopByteArray (\<lambda>so. ret (asBool so))"

definition PeekByteArray :: "int \<Rightarrow> (stack, byte list) sop" where
  "PeekByteArray idx s =
     (let sz = i32 (int (length (stk s))) in
      if idx < 0 \<or> idx \<ge> sz then (Err (scriptError ErrInvalidStackOperation), s)
      else (Ok (stk s ! nat (sz - idx - 1)), s))"

definition PeekInt :: "int \<Rightarrow> (stack, scriptNum) sop" where
  "PeekInt idx = bnd (PeekByteArray idx) (\<lambda>so s.
     (makeScriptNum so (verifyMinimalData s) defaultScriptNumLen, s))"

definition PeekBool :: "int \<Rightarrow> (stack, bool) sop" where
  "PeekBool idx = bnd (PeekByteArray idx) (\<lambda>so. ret (asBool so))"

definition NipN :: "int \<Rightarrow> (stack, unit) sop" where
  "NipN idx = bnd (nipN idx) (\<lambda>_. ret ())"

definition Tuck :: "(stack, unit) sop" where
  "Tuck = bnd PopByteArray (\<lambda>so2. bnd PopByteArray (\<lambda>so1.
          bnd (PushByteArray so2) (\<lambda>_. bnd (PushByteArray so1) (\<lambda>_. PushByteArray so2))))"

text \<open>The counted loops of the remaining methods run the same body \<open>k\<close> times.\<close>

primrec repeat_op :: "nat \<Rightarrow> ('s, 'e, unit) op \<Rightarrow> ('s, 'e, unit) op" where
  "repeat_op 0 m = ret ()"
| "repeat_op (Suc k) m = bnd m (\<lambda>_. repeat_op k m)"

definition DropN :: "int \<Rightarrow> (stack, unit) sop" where
  "DropN n = (if n < 1 then throw (scriptError ErrInvalidStackOperation)
              else repeat_op (nat n) (bnd PopByteArray (\<lambda>_. ret ())))"

definition DupN :: "int \<Rightarrow> (stack, unit) sop" where
  "DupN n = (if n < 1 then throw (scriptError ErrInvalidStackOperation)
             else repeat_op (nat n) (bnd (PeekByteArray (i32 (n - 1))) PushByteArray))"

definition RotN :: "int \<Rightarrow> (stack, unit) sop" where
  "RotN n = (if n < 1 then throw (scriptError ErrInvalidStackOperation)
             else repeat_op (nat n) (bnd (nipN (i32 (3 * n - 1))) PushByteArray))"

definition SwapN :: "int \<Rightarrow> (stack, unit) sop" where
  "SwapN n = (if n < 1 then throw (scriptError ErrInvalidStackOperation)
              else repeat_op (nat n) (bnd (nipN (i32 (2 * n - 1))) PushByteArray))"

definition OverN :: "int \<Rightarrow> (stack, unit) sop" where
  "OverN n = (if n < 1 then throw (scriptError ErrInvalidStackOperation)
              else repeat_op (nat n) (bnd (PeekByteArray (i32 (2 * n - 1))) PushByteArray))"

definition PickN :: "int \<Rightarrow> (stack, unit) sop" where
  "PickN n = bnd (PeekByteArray n) PushByteArray"

definition RollN :: "int \<Rightarrow> (stack, unit) sop" where
  "RollN n = bnd (nipN n) PushByteArray"

subsection \<open>The content top first\<close>

definition items :: "stack \<Rightarrow> byte list list" where
  "items s = rev (stk s)"

definition with_items :: "stack \<Rightarrow> byte list list \<Rightarrow> stack" where
  "with_items s xs = s\<lparr>stk := rev xs\<rparr>"

text \<open>A stack the methods can work on: mutex free, and a length that fits \<open>int32\<close> with room.\<close>

definition stack_free :: "stack \<Rightarrow> bool" where
  "stack_free s \<longleftrightarrow> \<not> stkMutex s"

definition stack_fits :: "stack \<Rightarrow> bool" where
  "stack_fits s \<longleftrightarrow> length (stk s) < 2 ^ 31"

lemma items_with_items [simp]: "items (with_items s xs) = xs"
  by (simp add: items_def with_items_def)

lemma with_items_items [simp]: "with_items s (items s) = s"
  by (simp add: items_def with_items_def)

lemma with_items_with_items [simp]: "with_items (with_items s xs) ys = with_items s ys"
  by (simp add: with_items_def)

lemma with_items_fields [simp]:
  "stkMutex (with_items s xs) = stkMutex s"
  "verifyMinimalData (with_items s xs) = verifyMinimalData s"
  "length (stk (with_items s xs)) = length xs"
  by (simp_all add: with_items_def)

lemma length_items [simp]: "length (items s) = length (stk s)"
  by (simp add: items_def)

lemma stack_free_with_items [simp]: "stack_free (with_items s xs) = stack_free s"
  by (simp add: stack_free_def)

lemma stack_fits_with_items [simp]: "stack_fits (with_items s xs) \<longleftrightarrow> length xs < 2 ^ 31"
  by (simp add: stack_fits_def)

subsection \<open>Effect of the basic methods\<close>

named_theorems stack_runs \<open>effect of a stack method on a free stack\<close>

lemma fits_i32 [simp]: "stack_fits s \<Longrightarrow> i32 (int (length (stk s))) = int (length (stk s))"
  by (simp add: stack_fits_def)

lemma Depth_run [stack_runs]:
  "stack_free s \<Longrightarrow> stack_fits s \<Longrightarrow> Depth s = (Ok (int (length (items s))), s)"
  by (simp add: Depth_def Lock_def Unlock_def stack_free_def op_simps bnd_def ret_def get_st_def stack_fits_def)

lemma Push_run [stack_runs]:
  "stack_free s \<Longrightarrow> PushByteArray so s = (Ok (), with_items s (so # items s))"
  by (simp add: PushByteArray_def Lock_def Unlock_def stack_free_def bnd_def mod_st_def
      with_items_def items_def)

lemma Peek_run [stack_runs]:
  assumes "stack_fits s"
  shows "PeekByteArray idx s =
    (if 0 \<le> idx \<and> idx < int (length (items s)) then (Ok (items s ! nat idx), s)
     else (Err (scriptError ErrInvalidStackOperation), s))"
proof -
  have "stk s ! nat (int (length (stk s)) - idx - 1) = items s ! nat idx"
    if "0 \<le> idx" "idx < int (length (stk s))"
  proof -
    have "nat (int (length (stk s)) - idx - 1) = length (stk s) - Suc (nat idx)"
      using that by linarith
    then show ?thesis using that by (simp add: items_def rev_nth nat_less_iff)
  qed
  then show ?thesis using assms by (auto simp: PeekByteArray_def Let_def not_less)
qed

lemma nip_run [stack_runs]:
  assumes "stack_free s" "stack_fits s"
  shows "nipN idx s =
    (if 0 \<le> idx \<and> idx < int (length (items s)) then
       (Ok (items s ! nat idx),
        with_items s (take (nat idx) (items s) @ drop (Suc (nat idx)) (items s)))
     else (Err (scriptError ErrInvalidStackOperation), s\<lparr>stkMutex := True\<rparr>))"
proof (cases "0 \<le> idx \<and> idx < int (length (items s))")
  case False
  have "i32 (int (length (stk s)) - 1) = int (length (stk s)) - 1"
    using assms(2) by (simp add: stack_fits_def)
  then show ?thesis using False assms
    by (auto simp: nipN_def Lock_def stack_free_def bnd_def Let_def stack_fits_def)
next
  case True
  define n where "n = nat idx"
  have idx: "idx = int n" "n < length (stk s)" using True by (simp_all add: n_def nat_less_iff)
  let ?sz = "length (stk s)"
  have fits: "i32 (int ?sz) = int ?sz" "i32 (int ?sz - 1) = int ?sz - 1"
    using assms(2) by (simp_all add: stack_fits_def)
  have pos: "nat (int ?sz - idx - 1) = ?sz - Suc n" "nat (int ?sz - idx) = ?sz - n"
    "nat (int ?sz - 1) = ?sz - 1"
    using idx by simp_all
  have read: "stk s ! (?sz - Suc n) = items s ! n" using idx(2) by (simp add: items_def rev_nth)
  have cut: "rev (drop (Suc n) (items s)) @ rev (take n (items s)) =
      take (?sz - Suc n) (stk s) @ drop (?sz - n) (stk s)"
    using idx(2) by (simp add: items_def rev_take rev_drop)
  have mid: "slice (stk s) (?sz - n) ?sz = drop (?sz - n) (stk s)" by (rule slice_to_end)
  have bot: "take (?sz - 1) (drop 1 (stk s)) = drop 1 (stk s)" by simp
  have bot': "n = ?sz - 1 \<Longrightarrow> take (?sz - Suc n) (stk s) @ drop (?sz - n) (stk s) = drop 1 (stk s)"
    using idx(2) by simp
  have "nipN idx s = (Ok (items s ! n), s\<lparr>stk := take (?sz - Suc n) (stk s) @ drop (?sz - n) (stk s)\<rparr>)"
    using assms(1) idx(2) bot bot' mid fits pos read unfolding idx(1)
    by (cases s) (auto simp: nipN_def Lock_def Unlock_def stack_free_def bnd_def ret_def Let_def)
  then show ?thesis using True by (simp add: with_items_def cut n_def[symmetric])
qed

lemma nip_locked: "\<not> stack_free s \<Longrightarrow> nipN idx s = (Hang, s)"
  by (simp add: nipN_def Lock_def stack_free_def bnd_def)

lemma stack_unlocked_id [simp]: "\<not> stkMutex s \<Longrightarrow> s\<lparr>stkMutex := False\<rparr> = s"
  by (cases s) simp

lemma PushInt_run [stack_runs]:
  "stack_free s \<Longrightarrow> scriptNum_Bytes n = Ok v \<Longrightarrow> PushInt n s = (Ok (), with_items s (v # items s))"
  by (simp add: PushInt_def op_simps stack_runs)

lemma PushBool_run [stack_runs]:
  "stack_free s \<Longrightarrow> PushBool b s = (Ok (), with_items s (fromBool b # items s))"
  by (simp add: PushBool_def stack_runs)

text \<open>The error every popping method returns on a stack that is too short; the mutex stays locked.\<close>

abbreviation stack_underflow :: "stack \<Rightarrow> (script_error, 'a) res \<times> stack" where
  "stack_underflow s \<equiv> (Err (scriptError ErrInvalidStackOperation), s\<lparr>stkMutex := True\<rparr>)"

lemma Pop_run [stack_runs]:
  assumes "stack_free s" "stack_fits s"
  shows "PopByteArray s =
    (case items s of [] \<Rightarrow> stack_underflow s | x # xs \<Rightarrow> (Ok x, with_items s xs))"
  using nip_run[OF assms, of 0] by (cases "items s") (simp_all add: PopByteArray_def)

lemma PopInt_run [stack_runs]:
  assumes "stack_free s" "stack_fits s"
  shows "PopInt s =
    (case items s of [] \<Rightarrow> stack_underflow s
     | x # xs \<Rightarrow> (makeScriptNum x (verifyMinimalData s) defaultScriptNumLen, with_items s xs))"
  using Pop_run[OF assms] by (cases "items s") (simp_all add: PopInt_def bnd_def)

lemma PopBool_run [stack_runs]:
  assumes "stack_free s" "stack_fits s"
  shows "PopBool s =
    (case items s of [] \<Rightarrow> stack_underflow s | x # xs \<Rightarrow> (Ok (asBool x), with_items s xs))"
  using Pop_run[OF assms] by (cases "items s") (simp_all add: PopBool_def bnd_def ret_def)

lemma NipN_run [stack_runs]:
  assumes "stack_free s" "stack_fits s"
  shows "NipN idx s =
    (if 0 \<le> idx \<and> idx < int (length (items s)) then
       (Ok (), with_items s (take (nat idx) (items s) @ drop (Suc (nat idx)) (items s)))
     else stack_underflow s)"
  using nip_run[OF assms, of idx] by (simp add: NipN_def bnd_def ret_def)

lemma RollN_run [stack_runs]:
  assumes "stack_free s" "stack_fits s"
  shows "RollN n s =
    (if 0 \<le> n \<and> n < int (length (items s)) then
       (Ok (), with_items s (items s ! nat n # take (nat n) (items s) @ drop (Suc (nat n)) (items s)))
     else stack_underflow s)"
  using assms nip_run[OF assms, of n] by (simp add: RollN_def bnd_def Push_run)

lemma PickN_run [stack_runs]:
  assumes "stack_free s" "stack_fits s"
  shows "PickN n s =
    (if 0 \<le> n \<and> n < int (length (items s)) then
       (Ok (), with_items s (items s ! nat n # items s))
     else (Err (scriptError ErrInvalidStackOperation), s))"
  using assms Peek_run[OF assms(2), of n] by (simp add: PickN_def bnd_def Push_run)

lemma Tuck_run [stack_runs]:
  assumes "stack_free s" "stack_fits s" "items s = x2 # x1 # xs"
  shows "Tuck s = (Ok (), with_items s (x2 # x1 # x2 # xs))"
proof -
  have "length xs < 2 ^ 31 \<and> Suc (length xs) < 2 ^ 31"
    using assms(2,3) length_items[of s] by (simp add: stack_fits_def)
  then show ?thesis using assms by (simp add: Tuck_def op_simps stack_runs)
qed

subsection \<open>Effect of the counted methods\<close>

text \<open>
  Taking the item at position \<open>m\<close> to the top \<open>k\<close> times brings the lower \<open>k\<close> of the top \<open>m + 1\<close>
  items up in order; copying it \<open>k\<close> times copies them.
\<close>

lemma repeat_nip_push:
  assumes "stack_free s" "stack_fits s" "items s = p @ q @ r" "length q = k"
    "int (length p + length q) = m + 1"
  shows "repeat_op k (bnd (nipN m) PushByteArray) s = (Ok (), with_items s (q @ p @ r))"
  using assms
proof (induction k arbitrary: s p q)
  case 0
  then show ?case by (simp add: ret_def) (metis with_items_items)
next
  case (Suc k)
  from Suc.prems(4) obtain q' x where q: "q = q' @ [x]" "length q' = k"
    by (cases q rule: rev_cases) auto
  have m: "nat m = length p + length q'" "0 \<le> m" "m < int (length (items s))"
    using Suc.prems(3,5) q by auto
  have it: "items s = (p @ q') @ x # r" using Suc.prems(3) q by simp
  define s1 where "s1 = with_items s ((x # p) @ q' @ r)"
  have "bnd (nipN m) PushByteArray s = (Ok (), s1)"
    using Suc.prems(1,2) nip_run[OF Suc.prems(1,2), of m] m
    by (simp add: bnd_def Push_run it s1_def)
  moreover have "stack_fits s1"
    using Suc.prems(2,3) q length_items[of s] by (simp add: s1_def stack_fits_def)
  ultimately show ?case
    using Suc.IH[of s1 "x # p" q'] Suc.prems q by (simp add: s1_def bnd_def)
qed

lemma repeat_peek_push:
  assumes "stack_free s" "length (items s) + k < 2 ^ 31" "items s = p @ q @ r" "length q = k"
    "int (length p + length q) = m + 1"
  shows "repeat_op k (bnd (PeekByteArray m) PushByteArray) s = (Ok (), with_items s (q @ p @ q @ r))"
  using assms
proof (induction k arbitrary: s p q r)
  case 0
  then show ?case by (simp add: ret_def) (metis with_items_items)
next
  case (Suc k)
  from Suc.prems(4) obtain q' x where q: "q = q' @ [x]" "length q' = k"
    by (cases q rule: rev_cases) auto
  have m: "nat m = length p + length q'" "0 \<le> m" "m < int (length (items s))"
    using Suc.prems(3,5) q by auto
  have it: "items s = (p @ q') @ x # r" using Suc.prems(3) q by simp
  have fits: "stack_fits s" using Suc.prems(2) by (simp add: stack_fits_def)
  define s1 where "s1 = with_items s ((x # p) @ q' @ x # r)"
  have "bnd (PeekByteArray m) PushByteArray s = (Ok (), s1)"
    using Suc.prems(1) Peek_run[OF fits, of m] m by (simp add: bnd_def Push_run it s1_def)
  moreover have "length (items s1) + k < 2 ^ 31"
    using Suc.prems(2) by (simp only: it) (simp add: s1_def)
  ultimately show ?case
    using Suc.IH[of s1 "x # p" q' "x # r"] Suc.prems q by (simp add: s1_def bnd_def)
qed

lemma repeat_op_fails:
  "0 < k \<Longrightarrow> m s = (Err e, s') \<Longrightarrow> repeat_op k m s = (Err e, s')"
  by (cases k) (simp_all add: bnd_def)

text \<open>The top \<open>n\<close> groups of \<open>k\<close> items each, as a decomposition of the content.\<close>

lemma split_items: "k \<le> length xs \<Longrightarrow> \<exists>a r. xs = a @ r \<and> length a = k"
  by (rule exI[of _ "take k xs"], rule exI[of _ "drop k xs"]) simp

lemma RotN_run [stack_runs]:
  assumes "stack_free s" "stack_fits s" "1 \<le> n" "n \<le> 2 ^ 29" "items s = a @ b @ c @ r"
    "int (length a) = n" "int (length b) = n" "int (length c) = n"
  shows "RotN n s = (Ok (), with_items s (c @ a @ b @ r))"
proof -
  have "i32 (3 * n - 1) = 3 * n - 1" using assms by simp
  then show ?thesis
    using repeat_nip_push[of s "a @ b" c r "nat n" "3 * n - 1"] assms by (simp add: RotN_def)
qed

lemma SwapN_run [stack_runs]:
  assumes "stack_free s" "stack_fits s" "1 \<le> n" "n \<le> 2 ^ 29" "items s = a @ b @ r"
    "int (length a) = n" "int (length b) = n"
  shows "SwapN n s = (Ok (), with_items s (b @ a @ r))"
proof -
  have "i32 (2 * n - 1) = 2 * n - 1" using assms by simp
  then show ?thesis
    using repeat_nip_push[of s a b r "nat n" "2 * n - 1"] assms by (simp add: SwapN_def)
qed

lemma DupN_run [stack_runs]:
  assumes "stack_free s" "int (length (items s)) + n < 2 ^ 31" "1 \<le> n" "items s = a @ r"
    "int (length a) = n"
  shows "DupN n s = (Ok (), with_items s (a @ a @ r))"
proof -
  have "i32 (n - 1) = n - 1" using assms by simp
  then show ?thesis
    using repeat_peek_push[of s "nat n" "[]" a r "n - 1"] assms by (simp add: DupN_def nat_less_iff)
qed

lemma OverN_run [stack_runs]:
  assumes "stack_free s" "int (length (items s)) + n < 2 ^ 31" "1 \<le> n" "n \<le> 2 ^ 29"
    "items s = a @ b @ r" "int (length a) = n" "int (length b) = n"
  shows "OverN n s = (Ok (), with_items s (b @ a @ b @ r))"
proof -
  have "i32 (2 * n - 1) = 2 * n - 1" using assms by simp
  then show ?thesis
    using repeat_peek_push[of s "nat n" a b r "2 * n - 1"] assms by (simp add: OverN_def nat_less_iff)
qed

lemma DropN_run [stack_runs]:
  assumes "stack_free s" "stack_fits s" "1 \<le> n" "items s = a @ r" "int (length a) = n"
  shows "DropN n s = (Ok (), with_items s r)"
proof -
  have "repeat_op k (bnd PopByteArray (\<lambda>_. ret ())) s = (Ok (), with_items s r)"
    if "stack_free s" "stack_fits s" "items s = a @ r" "length a = k" for k s a
    using that
  proof (induction k arbitrary: s a)
    case 0
    then show ?case by (simp add: ret_def) (metis with_items_items)
  next
    case (Suc k)
    then obtain x a' where a: "a = x # a'" "length a' = k" by (cases a) auto
    have "stack_fits (with_items s (a' @ r))"
      using Suc.prems(2,3) a length_items[of s] by (simp add: stack_fits_def)
    then show ?case
      using Suc.IH[of "with_items s (a' @ r)" a'] Suc.prems a Pop_run[of s]
      by (simp add: bnd_def ret_def)
  qed
  from this[of s a "nat n"] show ?thesis using assms by (simp add: DropN_def)
qed

subsection \<open>No method blocks on a free stack\<close>

lemma safe_Lock_body:
  assumes "\<And>s. \<not> stkMutex s \<Longrightarrow> fst (m (s\<lparr>stkMutex := True\<rparr>)) \<noteq> Hang"
    and "\<And>s a. \<not> stkMutex s \<Longrightarrow> fst (m (s\<lparr>stkMutex := True\<rparr>)) = Ok a \<Longrightarrow>
           \<not> stkMutex (snd (m (s\<lparr>stkMutex := True\<rparr>)))"
  shows "safe stack_free (bnd Lock (\<lambda>_. m))"
  using assms by (auto simp: safe_def stack_free_def bnd_def Lock_def)

lemma safe_Push [safe_intros]: "safe stack_free (PushByteArray so)"
  unfolding PushByteArray_def
  by (rule safe_Lock_body) (simp_all add: bnd_def mod_st_def Unlock_def)

lemma safe_Depth [safe_intros]: "safe stack_free Depth"
  unfolding Depth_def
  by (rule safe_Lock_body) (simp_all add: bnd_def get_st_def Unlock_def ret_def)

lemma safe_nipN [safe_intros]: "safe stack_free (nipN idx)"
  unfolding nipN_def
  by (rule safe_Lock_body) (auto simp: bnd_def Unlock_def ret_def Let_def)

lemma safe_Peek [safe_intros]: "safe stack_free (PeekByteArray idx)"
  by (simp add: safe_def PeekByteArray_def Let_def)

lemma makeScriptNum_no_Hang [simp]: "makeScriptNum v rm k \<noteq> Hang"
  by (auto simp: makeScriptNum_def Let_def checkMinimal_cases split: res.splits)

lemma scriptNum_Bytes_no_Hang [simp]: "scriptNum_Bytes n \<noteq> Hang"
  by (auto simp: scriptNum_Bytes_def Let_def)

lemma safe_makeScriptNum [safe_intros]:
  "safe stack_free (\<lambda>s. (makeScriptNum so (verifyMinimalData s) k, s))"
  by (simp add: safe_def)

lemma safe_repeat [safe_intros]: "safe free m \<Longrightarrow> safe free (repeat_op k m)"
  by (induction k) (auto intro!: safe_intros)

lemma safe_stack_methods [safe_intros]:
  "safe stack_free (PushInt n)" "safe stack_free (PushBool b)"
  "safe stack_free PopByteArray" "safe stack_free PopInt" "safe stack_free PopBool"
  "safe stack_free (PeekInt i)" "safe stack_free (PeekBool i)" "safe stack_free (NipN i)"
  "safe stack_free Tuck" "safe stack_free (DropN i)" "safe stack_free (DupN i)"
  "safe stack_free (RotN i)" "safe stack_free (SwapN i)" "safe stack_free (OverN i)"
  "safe stack_free (PickN i)" "safe stack_free (RollN i)"
  unfolding PushInt_def PushBool_def PopByteArray_def PopInt_def PopBool_def PeekInt_def
    PeekBool_def NipN_def Tuck_def DropN_def DupN_def RotN_def SwapN_def OverN_def PickN_def RollN_def
  by (intro safe_intros; simp)+


subsection \<open>The interface the engine relies on\<close>

text \<open>
  A stack with a list as its content: what a push and a pop do on a state that is ready for
  them.  The client lemmas are about the shapes the opcode handlers have.
\<close>

locale list_stack =
  fixes cont :: "'s \<Rightarrow> 'v list"
    and upd :: "'s \<Rightarrow> 'v list \<Rightarrow> 's"
    and ready :: "'s \<Rightarrow> bool"
    and push :: "'v \<Rightarrow> ('s, 'e, unit) op"
    and pop :: "('s, 'e, 'v) op"
  assumes cont_upd: "cont (upd s xs) = xs"
    and upd_upd: "upd (upd s xs) ys = upd s ys"
    and upd_cont: "upd s (cont s) = s"
    and ready_upd: "ready s \<Longrightarrow> length xs \<le> length (cont s) \<Longrightarrow> ready (upd s xs)"
    and push_law: "ready s \<Longrightarrow> push v s = (Ok (), upd s (v # cont s))"
    and pop_law: "ready s \<Longrightarrow> cont s = x # xs \<Longrightarrow> pop s = (Ok x, upd s xs)"
begin

lemma pop1:
  assumes "ready s" "cont s = x # xs"
  shows "bnd pop f s = f x (upd s xs)"
  using pop_law[OF assms] by (simp add: bnd_def)

lemma pop2:
  assumes "ready s" "cont s = x # y # xs"
  shows "bnd pop (\<lambda>a. bnd pop (f a)) s = f x y (upd s xs)"
proof -
  have "ready (upd s (y # xs))" using assms by (simp add: ready_upd)
  then show ?thesis by (simp add: pop1[OF assms] pop1 cont_upd upd_upd)
qed

lemma push_pop:
  assumes "ready s" "ready (upd s (v # cont s))"
  shows "bnd (push v) (\<lambda>_. pop) s = (Ok v, s)"
  using push_law[OF assms(1)] pop_law[OF assms(2) cont_upd] by (simp add: bnd_def upd_upd upd_cont)

lemma replace1:
  assumes "ready s" "cont s = x # xs"
  shows "bnd pop (\<lambda>a. push (f a)) s = (Ok (), upd s (f x # xs))"
  using assms by (simp add: pop1 push_law ready_upd cont_upd upd_upd)

lemma replace2:
  assumes "ready s" "cont s = x # y # xs"
  shows "bnd pop (\<lambda>a. bnd pop (\<lambda>b. push (f a b))) s = (Ok (), upd s (f x y # xs))"
  using assms by (simp add: pop2 push_law ready_upd cont_upd upd_upd)

end

definition stack_ready :: "stack \<Rightarrow> bool" where
  "stack_ready s \<longleftrightarrow> stack_free s \<and> stack_fits s"

interpretation bs: list_stack items with_items stack_ready PushByteArray PopByteArray
  by unfold_locales (auto simp: stack_ready_def stack_fits_def stack_runs)

subsection \<open>Properties of the stack\<close>

lemma le_val_0_iff: "le_val v = 0 \<longleftrightarrow> (\<forall>b \<in> set v. b = 0)"
proof (induction v)
  case (Cons b v)
  have "le_val (b # v) = 0 \<longleftrightarrow> uint b = 0 \<and> le_val v = 0"
    by (simp add: add_nonneg_eq_0_iff)
  then show ?case using Cons.IH by (simp add: uint_0_iff)
qed simp

lemma asBool_snoc: "asBool (xs @ [b]) \<longleftrightarrow> (\<exists>x \<in> set xs. x \<noteq> 0) \<or> (b \<noteq> 0 \<and> b \<noteq> 0x80)"
  by (induction xs) auto

lemma byte_mod128_0_iff: "uint (b :: byte) mod 128 = 0 \<longleftrightarrow> b = 0 \<or> b = 0x80"
proof
  assume "uint b mod 128 = 0"
  moreover have "uint b < 256" "0 \<le> uint b" by simp_all
  ultimately have "uint b = 0 \<or> uint b = 128" by presburger
  then show "b = 0 \<or> b = 0x80" by (simp add: word_uint_eq_iff)
qed auto

text \<open>
  Reading a byte string as a boolean agrees with reading it as a number: it is false
  exactly when its numeric value is zero, whatever its length and encoding (padded zeros and
  negative zero included).
\<close>

theorem asBool_is_nonzero: "asBool v \<longleftrightarrow> sn_val v \<noteq> 0"
proof (cases v rule: rev_cases)
  case (snoc xs b)
  have "sn_val v = 0 \<longleftrightarrow> le_val xs + 256 ^ length xs * (uint b mod 128) = 0"
    by (auto simp: sn_val_def snoc Let_def split: if_splits)
  also have "\<dots> \<longleftrightarrow> le_val xs = 0 \<and> uint b mod 128 = 0"
    using le_val_nonneg[of xs] pos_mod_sign[of 128 "uint b"]
    by (subst add_nonneg_eq_0_iff) auto
  finally show ?thesis by (auto simp: snoc asBool_snoc le_val_0_iff byte_mod128_0_iff)
qed (simp add: sn_val_def)

text \<open>
  Claim C32. The group operations on any group size n: with the top of the stack written as
  groups of n items, RotN moves the third group to the top, SwapN exchanges the first two,
  OverN copies the second group, DupN the first, and DropN removes the first; every group keeps
  its order and the rest of the stack is untouched.
\<close>

theorem stack_group_operations:
  assumes "stack_ready s" "1 \<le> n" "n \<le> 2 ^ 29" "int (length (items s)) + n < 2 ^ 31"
    and "items s = a @ b @ c @ r"
    and "int (length a) = n" "int (length b) = n" "int (length c) = n"
  shows "RotN n s = (Ok (), with_items s (c @ a @ b @ r)) \<and>
    SwapN n s = (Ok (), with_items s (b @ a @ c @ r)) \<and>
    OverN n s = (Ok (), with_items s (b @ a @ b @ c @ r)) \<and>
    DupN n s = (Ok (), with_items s (a @ a @ b @ c @ r)) \<and>
    DropN n s = (Ok (), with_items s (b @ c @ r))"
  using assms by (auto simp: stack_ready_def intro!: stack_runs)

theorem stack_group_operations_witness:
  "RotN 2 \<lparr>stk = [[1], [2], [3], [4], [5], [6]], stkMutex = False, verifyMinimalData = False\<rparr>
   = (Ok (), \<lparr>stk = [[3], [4], [5], [6], [1], [2]], stkMutex = False, verifyMinimalData = False\<rparr>)"
  using stack_group_operations
    [of "\<lparr>stk = [[1], [2], [3], [4], [5], [6]], stkMutex = False, verifyMinimalData = False\<rparr>" 2
      "[[6], [5]]" "[[4], [3]]" "[[2], [1]]" "[]"]
  by (simp add: stack_ready_def stack_free_def stack_fits_def items_def with_items_def)

text \<open>
  The methods of the stack as one type, to speak about sequences of calls.
\<close>

datatype stack_call =
    CallDepth | CallPush "byte list" | CallPushInt int | CallPushBool bool
  | CallPop | CallPopInt | CallPopBool | CallPeek int | CallPeekInt int | CallPeekBool int
  | CallNip int | CallTuck | CallDrop int | CallDup int | CallRot int | CallSwap int
  | CallOver int | CallPick int | CallRoll int

fun run_call :: "stack_call \<Rightarrow> (stack, unit) sop" where
  "run_call CallDepth = bnd Depth (\<lambda>_. ret ())"
| "run_call (CallPush v) = PushByteArray v"
| "run_call (CallPushInt n) = PushInt n"
| "run_call (CallPushBool b) = PushBool b"
| "run_call CallPop = bnd PopByteArray (\<lambda>_. ret ())"
| "run_call CallPopInt = bnd PopInt (\<lambda>_. ret ())"
| "run_call CallPopBool = bnd PopBool (\<lambda>_. ret ())"
| "run_call (CallPeek i) = bnd (PeekByteArray i) (\<lambda>_. ret ())"
| "run_call (CallPeekInt i) = bnd (PeekInt i) (\<lambda>_. ret ())"
| "run_call (CallPeekBool i) = bnd (PeekBool i) (\<lambda>_. ret ())"
| "run_call (CallNip i) = NipN i"
| "run_call CallTuck = Tuck"
| "run_call (CallDrop n) = DropN n"
| "run_call (CallDup n) = DupN n"
| "run_call (CallRot n) = RotN n"
| "run_call (CallSwap n) = SwapN n"
| "run_call (CallOver n) = OverN n"
| "run_call (CallPick n) = PickN n"
| "run_call (CallRoll n) = RollN n"

primrec run_calls :: "stack_call list \<Rightarrow> (stack, unit) sop" where
  "run_calls [] = ret ()"
| "run_calls (c # cs) = bnd (run_call c) (\<lambda>_. run_calls cs)"

lemma safe_run_call [safe_intros]: "safe stack_free (run_call c)"
  by (cases c) (auto intro!: safe_intros)

lemma safe_run_calls: "safe stack_free (run_calls cs)"
  by (induction cs) (auto intro!: safe_intros)

text \<open>
  Claim C31. Any sequence of calls of stack methods, stopped at its first error as the callers
  stop, runs to its end or to that error without blocking on the mutex, and if it succeeds the
  mutex is free again.
\<close>

theorem stack_calls_never_block:
  assumes "\<not> stkMutex s"
  shows "fst (run_calls cs s) \<noteq> Hang \<and>
    (fst (run_calls cs s) = Ok () \<longrightarrow> \<not> stkMutex (snd (run_calls cs s)))"
  using safe_run_calls[of cs] assms by (auto simp: safe_def stack_free_def)

theorem stack_calls_never_block_witness:
  "fst (run_calls [CallPush [1], CallDup 1, CallPop]
     \<lparr>stk = [], stkMutex = False, verifyMinimalData = True\<rparr>) \<noteq> Hang"
  by (rule stack_calls_never_block[THEN conjunct1]) simp

text \<open>
  The error path of nipN keeps the mutex: a pop on an empty stack returns
  ErrInvalidStackOperation and afterwards every method that takes the mutex (Depth, a push, a
  pop) blocks for ever on the same stack.
\<close>

theorem failed_pop_keeps_mutex:
  assumes "\<not> stkMutex s" "stk s = []"
  shows "\<exists>s'. PopByteArray s = (Err (scriptError ErrInvalidStackOperation), s') \<and>
    Depth s' = (Hang, s') \<and> PushByteArray v s' = (Hang, s') \<and> PopByteArray s' = (Hang, s')"
proof -
  define s' where "s' = s\<lparr>stkMutex := True\<rparr>"
  have "PopByteArray s = (Err (scriptError ErrInvalidStackOperation), s')"
    using assms Pop_run[of s] by (simp add: stack_free_def stack_fits_def items_def s'_def)
  moreover have "Depth s' = (Hang, s')" "PushByteArray v s' = (Hang, s')" "PopByteArray s' = (Hang, s')"
    by (simp_all add: s'_def Depth_def PushByteArray_def PopByteArray_def nipN_def Lock_def bnd_def)
  ultimately show ?thesis by blast
qed

theorem failed_pop_keeps_mutex_witness:
  "\<exists>s'. PopByteArray \<lparr>stk = [], stkMutex = False, verifyMinimalData = False\<rparr>
      = (Err (scriptError ErrInvalidStackOperation), s') \<and>
    Depth s' = (Hang, s') \<and> PushByteArray [1] s' = (Hang, s') \<and> PopByteArray s' = (Hang, s')"
  by (rule failed_pop_keeps_mutex) simp_all

end
