(* ===== verification/Triples.thy ===== *)
theory Triples
  imports Stack
begin

text \<open>
  Triples for operations.  \<open>spec P m Q\<close> says that \<open>m\<close>, started in a state with \<open>P\<close>, comes back: with a
  value and a state related by \<open>Q\<close>, or with an error, which the callers of the code pass on.  It
  excludes a panic and a blocked mutex.  The rules follow the shape of the operations; the second
  part gives the triples of the stack methods for a bound on the length of the stack and on the size of
  its elements.
\<close>

definition spec :: "('s \<Rightarrow> bool) \<Rightarrow> ('s, 'e, 'a) op \<Rightarrow> ('a \<Rightarrow> 's \<Rightarrow> bool) \<Rightarrow> bool" where
  "spec P m Q \<longleftrightarrow>
     (\<forall>s. P s \<longrightarrow> returns (fst (m s)) \<and> (\<forall>a s'. m s = (Ok a, s') \<longrightarrow> Q a s'))"

named_theorems spec_intros \<open>triples of operations\<close>

lemma specI:
  assumes "\<And>s. P s \<Longrightarrow> returns (fst (m s))" "\<And>s a s'. P s \<Longrightarrow> m s = (Ok a, s') \<Longrightarrow> Q a s'"
  shows "spec P m Q"
  using assms by (simp add: spec_def)

lemma spec_Ok: "spec P m Q \<Longrightarrow> P s \<Longrightarrow> m s = (Ok a, s') \<Longrightarrow> Q a s'"
  by (simp add: spec_def)

lemma spec_returns: "spec P m Q \<Longrightarrow> P s \<Longrightarrow> returns (fst (m s))"
  by (simp add: spec_def)

lemma spec_conseq:
  "spec P m Q \<Longrightarrow> (\<And>s. P' s \<Longrightarrow> P s) \<Longrightarrow> (\<And>a s. Q a s \<Longrightarrow> Q' a s) \<Longrightarrow> spec P' m Q'"
  by (rule specI) (auto dest: spec_Ok spec_returns)

lemma spec_post: "spec P m Q \<Longrightarrow> (\<And>a s. Q a s \<Longrightarrow> Q' a s) \<Longrightarrow> spec P m Q'"
  by (erule spec_conseq)

lemma spec_pre: "spec P m Q \<Longrightarrow> (\<And>s. P' s \<Longrightarrow> P s) \<Longrightarrow> spec P' m Q"
  by (erule spec_conseq)

lemma spec_bnd:
  assumes m: "spec P m Q" and f: "\<And>a. spec (Q a) (f a) R"
  shows "spec P (bnd m f) R"
proof (rule specI)
  fix s assume s: "P s"
  obtain r s' where "m s = (r, s')" by force
  then show "returns (fst (bnd m f s))"
    using spec_returns[OF m s] spec_Ok[OF m s] spec_returns[OF f] by (cases r) (auto simp: bnd_def returns_def)
next
  fix s b t assume s: "P s" "bnd m f s = (Ok b, t)"
  from s(2) obtain a s' where "m s = (Ok a, s')" "f a s' = (Ok b, t)" by (rule bnd_Ok_elim)
  then show "R b t" using spec_Ok[OF m s(1)] spec_Ok[OF f] by blast
qed

text \<open>A first call with a known property of its value.\<close>

lemma spec_bnd_val:
  assumes "spec P m (\<lambda>a s. R a \<and> Q s)" "\<And>a. R a \<Longrightarrow> spec Q (f a) T"
  shows "spec P (bnd m f) T"
  by (rule spec_bnd[OF assms(1)]) (use assms(2) in \<open>auto simp: spec_def\<close>)

lemma spec_bnd_same:
  assumes "spec P m (\<lambda>_. Q)" "\<And>a. spec Q (f a) T"
  shows "spec P (bnd m f) T"
  by (rule spec_bnd[OF assms])

lemma spec_ret: "(\<And>s. P s \<Longrightarrow> Q a s) \<Longrightarrow> spec P (ret a) Q"
  by (simp add: spec_def ret_def)

lemma spec_throw [spec_intros]: "spec P (throw e) Q"
  by (simp add: spec_def throw_def)

lemma spec_get: "(\<And>s. P s \<Longrightarrow> Q (g s) s) \<Longrightarrow> spec P (get_st g) Q"
  by (simp add: spec_def get_st_def)

lemma spec_mod: "(\<And>s. P s \<Longrightarrow> Q () (g s)) \<Longrightarrow> spec P (mod_st g) Q"
  by (simp add: spec_def mod_st_def)

lemma spec_lift: "returns r \<Longrightarrow> (\<And>a s. P s \<Longrightarrow> r = Ok a \<Longrightarrow> Q a s) \<Longrightarrow> spec P (lift_res r) Q"
  by (cases r) (simp_all add: spec_def lift_res_def returns_def)

lemma spec_if [spec_intros]:
  "(c \<Longrightarrow> spec P m Q) \<Longrightarrow> (\<not> c \<Longrightarrow> spec P n Q) \<Longrightarrow> spec P (if c then m else n) Q"
  by simp

lemma spec_case_option [spec_intros]:
  "(x = None \<Longrightarrow> spec P m Q) \<Longrightarrow> (\<And>a. x = Some a \<Longrightarrow> spec P (f a) Q) \<Longrightarrow>
   spec P (case x of None \<Rightarrow> m | Some a \<Rightarrow> f a) Q"
  by (cases x) simp_all

text \<open>An operation that looks at the state first.\<close>

lemma spec_read: "(\<And>v. P v \<Longrightarrow> spec (\<lambda>s. s = v) (m v) Q) \<Longrightarrow> spec P (\<lambda>s. m s s) Q"
  by (auto simp: spec_def)

lemma spec_read_if [spec_intros]:
  assumes "spec (\<lambda>s. P s \<and> c s) m Q" "spec (\<lambda>s. P s \<and> \<not> c s) n Q"
  shows "spec P (\<lambda>s. if c s then m s else n s) Q"
  using assms by (auto simp: spec_def)

lemma spec_on_part:
  assumes "spec A m B" "\<And>t. P t \<Longrightarrow> A (get t)" "\<And>t a s. P t \<Longrightarrow> B a s \<Longrightarrow> Q a (put s t)"
  shows "spec P (on_part get put m) Q"
proof (rule specI)
  fix t assume t: "P t"
  show "returns (fst (on_part get put m t))"
    using spec_returns[OF assms(1) assms(2)[OF t]] by (cases "m (get t)") (simp add: on_part_def)
  show "Q a t'" if "on_part get put m t = (Ok a, t')" for a t'
    using that assms(3)[OF t] spec_Ok[OF assms(1) assms(2)[OF t]]
    by (auto simp: on_part_def split: prod.splits)
qed

subsection \<open>The stack methods\<close>

text \<open>
  A stack with a free mutex, at most \<open>n\<close> elements above a base of two to the thirtieth, and only
  elements the script rules allow.  The base leaves room for the \<open>int32\<close> arithmetic of the methods;
  the engine checks a much lower limit after every step.
\<close>

definition stack_inv :: "nat \<Rightarrow> nat \<Rightarrow> stack \<Rightarrow> bool" where
  "stack_inv M n s \<longleftrightarrow> stack_free s \<and> length (stk s) \<le> 2 ^ 30 + n \<and> (\<forall>x \<in> set (stk s). length x \<le> M)"

lemma stack_inv_fits: "stack_inv M n s \<Longrightarrow> n < 2 ^ 30 \<Longrightarrow> stack_fits s"
  by (simp add: stack_inv_def stack_fits_def)

lemma stack_inv_mono: "stack_inv M n s \<Longrightarrow> n \<le> m \<Longrightarrow> stack_inv M m s"
  by (simp add: stack_inv_def)

lemma stack_inv_with_items:
  "stack_inv M n s \<Longrightarrow> length xs \<le> 2 ^ 30 + m \<Longrightarrow> (\<forall>x \<in> set xs. length x \<le> M) \<Longrightarrow> stack_inv M m (with_items s xs)"
  by (simp add: stack_inv_def with_items_def stack_free_def)

lemma stack_inv_items: "stack_inv M n s \<Longrightarrow> x \<in> set (items s) \<Longrightarrow> length x \<le> M"
  by (simp add: stack_inv_def items_def)

lemma spec_nipN:
  assumes n: "n < 2 ^ 30"
  shows "spec (stack_inv M n) (nipN idx) (\<lambda>x s. length x \<le> M \<and> stack_inv M n s)"
proof (rule specI)
  fix s assume s: "stack_inv M n s"
  note run = nip_run[of s idx, OF _ stack_inv_fits[OF s n]]
  have free: "stack_free s" using s by (simp add: stack_inv_def)
  show "returns (fst (nipN idx s))" using run[OF free] by (simp add: returns_def)
  fix x s' assume "nipN idx s = (Ok x, s')"
  then have idx: "nat idx < length (items s)" "x = items s ! nat idx"
      and s': "s' = with_items s (take (nat idx) (items s) @ drop (Suc (nat idx)) (items s))"
    using run[OF free] by (auto split: if_splits)
  have "x \<in> set (items s)" using idx by simp
  moreover have "stack_inv M n s'"
    unfolding s' by (rule stack_inv_with_items[OF s])
      (use s idx in \<open>auto simp: stack_inv_def items_def dest: in_set_takeD in_set_dropD\<close>)
  ultimately show "length x \<le> M \<and> stack_inv M n s'" using stack_inv_items[OF s] by blast
qed

lemma spec_Push:
  assumes "length x \<le> M" "n < m" shows "spec (stack_inv M n) (PushByteArray x) (\<lambda>_. stack_inv M m)"
  by (rule specI) (use assms in \<open>auto simp: Push_run stack_inv_def with_items_def items_def stack_free_def\<close>)

lemma spec_Peek:
  assumes n: "n < 2 ^ 30"
  shows "spec (stack_inv M n) (PeekByteArray idx) (\<lambda>x s. length x \<le> M \<and> stack_inv M n s)"
  by (rule specI)
    (auto simp: Peek_run stack_inv_fits[OF _ n] returns_def nat_less_iff intro!: stack_inv_items split: if_splits)

lemma spec_Depth:
  assumes "n < 2 ^ 30"
  shows "spec (stack_inv M n) Depth (\<lambda>d s. d = int (length (stk s)) \<and> stack_inv M n s)"
  by (rule specI) (use assms in \<open>auto simp: Depth_run stack_inv_def stack_fits_def\<close>)

lemma makeScriptNum_range:
  assumes "makeScriptNum v rm k = Ok x" "k \<le> 5"
  shows "\<bar>x\<bar> < 2 ^ 39" "k \<le> 4 \<Longrightarrow> \<bar>x\<bar> < 2 ^ 31"
proof -
  have x: "x = sn_val v" "length v \<le> k"
    using assms by (auto simp: makeScriptNum_cases split: if_splits)
  have *: "\<bar>sn_val v\<bar> < 2 ^ j" if "8 * length v - 1 \<le> j" for j
  proof (cases "v = []")
    case False
    then have "\<bar>sn_val v\<bar> < 2 ^ (8 * length v - 1)" by (rule sn_val_range)
    also have "\<dots> \<le> 2 ^ j" using that by (intro power_increasing) auto
    finally show ?thesis .
  qed (simp add: sn_val_def)
  show "\<bar>x\<bar> < 2 ^ 39" unfolding x(1) by (rule *) (use x(2) assms(2) in simp)
  show "\<bar>x\<bar> < 2 ^ 31" if "k \<le> 4" unfolding x(1) by (rule *) (use x(2) that in simp)
qed

lemma makeScriptNum_returns: "k \<le> 8 \<Longrightarrow> returns (makeScriptNum v rm k)"
  by (simp add: makeScriptNum_cases)

lemma spec_Pop:
  "n < 2 ^ 30 \<Longrightarrow> spec (stack_inv M n) PopByteArray (\<lambda>x s. length x \<le> M \<and> stack_inv M n s)"
  by (simp add: PopByteArray_def spec_nipN)

lemma spec_PopInt:
  "n < 2 ^ 30 \<Longrightarrow> spec (stack_inv M n) PopInt (\<lambda>x s. \<bar>x\<bar> < 2 ^ 31 \<and> stack_inv M n s)"
  unfolding PopInt_def
  by (rule spec_bnd_val[OF spec_Pop], assumption, rule specI)
    (auto simp: defaultScriptNumLen_def makeScriptNum_returns dest: makeScriptNum_range)

lemma spec_PopBool: "n < 2 ^ 30 \<Longrightarrow> spec (stack_inv M n) PopBool (\<lambda>_. stack_inv M n)"
  unfolding PopBool_def by (rule spec_bnd_val[OF spec_Pop], assumption, rule spec_ret)

lemma spec_PushInt:
  assumes "\<bar>x\<bar> < 2 ^ 63" "8 \<le> M" "n < m"
  shows "spec (stack_inv M n) (PushInt x) (\<lambda>_. stack_inv M m)"
proof -
  obtain v where v: "scriptNum_Bytes x = Ok v" "sn_minimal v" "sn_val v = x"
    using sn_Bytes_roundtrip[of x] assms(1) unfolding abs_less_iff by force
  then have "length v \<le> M" using sn_minimal_length[of v] assms by simp
  then show ?thesis using spec_Push assms by (simp add: PushInt_def v spec_def op_simps)
qed

lemma spec_PushBool:
  "1 \<le> M \<Longrightarrow> n < m \<Longrightarrow> spec (stack_inv M n) (PushBool b) (\<lambda>_. stack_inv M m)"
  unfolding PushBool_def by (rule spec_Push) (simp_all add: fromBool_def)

lemma spec_NipN: "n < 2 ^ 30 \<Longrightarrow> spec (stack_inv M n) (NipN idx) (\<lambda>_. stack_inv M n)"
  unfolding NipN_def by (rule spec_bnd_val[OF spec_nipN], assumption, rule spec_ret)

lemma spec_repeat:
  assumes "\<And>i. n \<le> i \<Longrightarrow> i < n + k * d \<Longrightarrow> spec (stack_inv M i) m (\<lambda>_. stack_inv M (i + d))" "0 < d"
  shows "spec (stack_inv M n) (repeat_op k m) (\<lambda>_. stack_inv M (n + k * d))"
  using assms(1)
proof (induction k arbitrary: n)
  case (Suc k)
  show ?case
    unfolding repeat_op.simps
    by (rule spec_bnd_same[OF Suc.prems]) (use Suc.IH[of "n + d"] Suc.prems assms(2) in \<open>auto simp: add.assoc\<close>)
qed (simp add: spec_def ret_def)

lemma spec_DropN: "n < 2 ^ 30 \<Longrightarrow> spec (stack_inv M n) (DropN k) (\<lambda>_. stack_inv M n)"
proof -
  assume n: "n < 2 ^ 30"
  have "spec (stack_inv M n) (repeat_op j (bnd PopByteArray (\<lambda>_. ret ()))) (\<lambda>_. stack_inv M n)" for j
  proof (induction j)
    case (Suc j)
    have "spec (stack_inv M n) (bnd PopByteArray (\<lambda>_. ret ())) (\<lambda>_. stack_inv M n)"
      by (rule spec_bnd_val[OF spec_Pop[OF n]], rule spec_ret)
    then show ?case unfolding repeat_op.simps using Suc by (rule spec_bnd_same)
  qed (simp add: spec_ret)
  then show ?thesis by (simp add: DropN_def spec_throw)
qed

text \<open>The loops that move or copy one item \<open>k\<close> times; the bound grows by at most one a round.\<close>

lemma spec_loops:
  assumes "n + k < 2 ^ 30" "n + k \<le> m"
  shows "spec (stack_inv M n) (repeat_op k (bnd (nipN i) PushByteArray)) (\<lambda>_. stack_inv M m)"
    and "spec (stack_inv M n) (repeat_op k (bnd (PeekByteArray i) PushByteArray)) (\<lambda>_. stack_inv M m)"
proof -
  have "spec (stack_inv M j) (bnd (nipN i) PushByteArray) (\<lambda>_. stack_inv M (j + 1))"
    "spec (stack_inv M j) (bnd (PeekByteArray i) PushByteArray) (\<lambda>_. stack_inv M (j + 1))"
    if "j < n + k * 1" for j
    using that assms(1)
    by (auto intro!: spec_bnd_val[OF spec_nipN] spec_bnd_val[OF spec_Peek] spec_Push)
  then have
    "spec (stack_inv M n) (repeat_op k (bnd (nipN i) PushByteArray)) (\<lambda>_. stack_inv M (n + k * 1))"
    "spec (stack_inv M n) (repeat_op k (bnd (PeekByteArray i) PushByteArray)) (\<lambda>_. stack_inv M (n + k * 1))"
    by (intro spec_repeat; simp)+
  then show
    "spec (stack_inv M n) (repeat_op k (bnd (nipN i) PushByteArray)) (\<lambda>_. stack_inv M m)"
    "spec (stack_inv M n) (repeat_op k (bnd (PeekByteArray i) PushByteArray)) (\<lambda>_. stack_inv M m)"
    using assms(2) by (auto elim!: spec_post intro: stack_inv_mono)
qed

lemma spec_counted:
  assumes "n + nat k < 2 ^ 30" "n + nat k \<le> m"
  shows "spec (stack_inv M n) (DupN k) (\<lambda>_. stack_inv M m)"
    "spec (stack_inv M n) (RotN k) (\<lambda>_. stack_inv M m)"
    "spec (stack_inv M n) (SwapN k) (\<lambda>_. stack_inv M m)"
    "spec (stack_inv M n) (OverN k) (\<lambda>_. stack_inv M m)"
  using spec_loops[OF assms] by (simp_all add: DupN_def RotN_def SwapN_def OverN_def spec_throw)

lemma spec_Pick_Roll:
  assumes "n < 2 ^ 30" "n < m"
  shows "spec (stack_inv M n) (PickN k) (\<lambda>_. stack_inv M m)"
    "spec (stack_inv M n) (RollN k) (\<lambda>_. stack_inv M m)"
  unfolding PickN_def RollN_def using assms
  by (auto intro!: spec_bnd_val[OF spec_nipN] spec_bnd_val[OF spec_Peek] spec_Push)

lemma spec_Tuck:
  assumes "n + 2 < 2 ^ 30" "n + 2 < m"
  shows "spec (stack_inv M n) Tuck (\<lambda>_. stack_inv M m)"
proof -
  have "spec (stack_inv M n) (bnd (PushByteArray so2) (\<lambda>_. bnd (PushByteArray so1) (\<lambda>_. PushByteArray so2)))
      (\<lambda>_. stack_inv M m)" if "length so1 \<le> M" "length so2 \<le> M" for so1 so2
    using that assms
    by (intro spec_bnd_same[OF spec_Push[of _ M n "n + 1"]] spec_bnd_same[OF spec_Push[of _ M _ "n + 2"]] spec_Push) auto
  then show ?thesis unfolding Tuck_def using assms by (intro spec_bnd_val[OF spec_Pop]) auto
qed

end
