(* ===== verification/Opcode.thy ===== *)
theory Opcode
  imports Stack
begin

text \<open>
  The opcodes of the script language (\<^verbatim>\<open>pkg/chain/tx/script/opcode.go\<close>): their values, the
  table \<open>OpcodeArray\<close>, parsed opcodes and the checks and the serialisation of a single opcode.

  The handler a table entry points to is a tag (\<open>opfunc\<close>); the engine theory maps each tag to
  the handler of that name.  The table is listed in the order of the keys.
\<close>

unbundle bit_operations_syntax

subsection \<open>Values\<close>

abbreviation OP_0 :: byte where "OP_0 \<equiv> 0"
abbreviation OP_FALSE :: byte where "OP_FALSE \<equiv> 0"
abbreviation OP_DATA_1 :: byte where "OP_DATA_1 \<equiv> 1"
abbreviation OP_DATA_2 :: byte where "OP_DATA_2 \<equiv> 0x2"
abbreviation OP_DATA_3 :: byte where "OP_DATA_3 \<equiv> 0x3"
abbreviation OP_DATA_4 :: byte where "OP_DATA_4 \<equiv> 0x4"
abbreviation OP_DATA_5 :: byte where "OP_DATA_5 \<equiv> 0x5"
abbreviation OP_DATA_6 :: byte where "OP_DATA_6 \<equiv> 0x6"
abbreviation OP_DATA_7 :: byte where "OP_DATA_7 \<equiv> 0x7"
abbreviation OP_DATA_8 :: byte where "OP_DATA_8 \<equiv> 0x8"
abbreviation OP_DATA_9 :: byte where "OP_DATA_9 \<equiv> 0x9"
abbreviation OP_DATA_10 :: byte where "OP_DATA_10 \<equiv> 0xa"
abbreviation OP_DATA_11 :: byte where "OP_DATA_11 \<equiv> 0xb"
abbreviation OP_DATA_12 :: byte where "OP_DATA_12 \<equiv> 0xc"
abbreviation OP_DATA_13 :: byte where "OP_DATA_13 \<equiv> 0xd"
abbreviation OP_DATA_14 :: byte where "OP_DATA_14 \<equiv> 0xe"
abbreviation OP_DATA_15 :: byte where "OP_DATA_15 \<equiv> 0xf"
abbreviation OP_DATA_16 :: byte where "OP_DATA_16 \<equiv> 0x10"
abbreviation OP_DATA_17 :: byte where "OP_DATA_17 \<equiv> 0x11"
abbreviation OP_DATA_18 :: byte where "OP_DATA_18 \<equiv> 0x12"
abbreviation OP_DATA_19 :: byte where "OP_DATA_19 \<equiv> 0x13"
abbreviation OP_DATA_20 :: byte where "OP_DATA_20 \<equiv> 0x14"
abbreviation OP_DATA_21 :: byte where "OP_DATA_21 \<equiv> 0x15"
abbreviation OP_DATA_22 :: byte where "OP_DATA_22 \<equiv> 0x16"
abbreviation OP_DATA_23 :: byte where "OP_DATA_23 \<equiv> 0x17"
abbreviation OP_DATA_24 :: byte where "OP_DATA_24 \<equiv> 0x18"
abbreviation OP_DATA_25 :: byte where "OP_DATA_25 \<equiv> 0x19"
abbreviation OP_DATA_26 :: byte where "OP_DATA_26 \<equiv> 0x1a"
abbreviation OP_DATA_27 :: byte where "OP_DATA_27 \<equiv> 0x1b"
abbreviation OP_DATA_28 :: byte where "OP_DATA_28 \<equiv> 0x1c"
abbreviation OP_DATA_29 :: byte where "OP_DATA_29 \<equiv> 0x1d"
abbreviation OP_DATA_30 :: byte where "OP_DATA_30 \<equiv> 0x1e"
abbreviation OP_DATA_31 :: byte where "OP_DATA_31 \<equiv> 0x1f"
abbreviation OP_DATA_32 :: byte where "OP_DATA_32 \<equiv> 0x20"
abbreviation OP_DATA_33 :: byte where "OP_DATA_33 \<equiv> 0x21"
abbreviation OP_DATA_34 :: byte where "OP_DATA_34 \<equiv> 0x22"
abbreviation OP_DATA_35 :: byte where "OP_DATA_35 \<equiv> 0x23"
abbreviation OP_DATA_36 :: byte where "OP_DATA_36 \<equiv> 0x24"
abbreviation OP_DATA_37 :: byte where "OP_DATA_37 \<equiv> 0x25"
abbreviation OP_DATA_38 :: byte where "OP_DATA_38 \<equiv> 0x26"
abbreviation OP_DATA_39 :: byte where "OP_DATA_39 \<equiv> 0x27"
abbreviation OP_DATA_40 :: byte where "OP_DATA_40 \<equiv> 0x28"
abbreviation OP_DATA_41 :: byte where "OP_DATA_41 \<equiv> 0x29"
abbreviation OP_DATA_42 :: byte where "OP_DATA_42 \<equiv> 0x2a"
abbreviation OP_DATA_43 :: byte where "OP_DATA_43 \<equiv> 0x2b"
abbreviation OP_DATA_44 :: byte where "OP_DATA_44 \<equiv> 0x2c"
abbreviation OP_DATA_45 :: byte where "OP_DATA_45 \<equiv> 0x2d"
abbreviation OP_DATA_46 :: byte where "OP_DATA_46 \<equiv> 0x2e"
abbreviation OP_DATA_47 :: byte where "OP_DATA_47 \<equiv> 0x2f"
abbreviation OP_DATA_48 :: byte where "OP_DATA_48 \<equiv> 0x30"
abbreviation OP_DATA_49 :: byte where "OP_DATA_49 \<equiv> 0x31"
abbreviation OP_DATA_50 :: byte where "OP_DATA_50 \<equiv> 0x32"
abbreviation OP_DATA_51 :: byte where "OP_DATA_51 \<equiv> 0x33"
abbreviation OP_DATA_52 :: byte where "OP_DATA_52 \<equiv> 0x34"
abbreviation OP_DATA_53 :: byte where "OP_DATA_53 \<equiv> 0x35"
abbreviation OP_DATA_54 :: byte where "OP_DATA_54 \<equiv> 0x36"
abbreviation OP_DATA_55 :: byte where "OP_DATA_55 \<equiv> 0x37"
abbreviation OP_DATA_56 :: byte where "OP_DATA_56 \<equiv> 0x38"
abbreviation OP_DATA_57 :: byte where "OP_DATA_57 \<equiv> 0x39"
abbreviation OP_DATA_58 :: byte where "OP_DATA_58 \<equiv> 0x3a"
abbreviation OP_DATA_59 :: byte where "OP_DATA_59 \<equiv> 0x3b"
abbreviation OP_DATA_60 :: byte where "OP_DATA_60 \<equiv> 0x3c"
abbreviation OP_DATA_61 :: byte where "OP_DATA_61 \<equiv> 0x3d"
abbreviation OP_DATA_62 :: byte where "OP_DATA_62 \<equiv> 0x3e"
abbreviation OP_DATA_63 :: byte where "OP_DATA_63 \<equiv> 0x3f"
abbreviation OP_DATA_64 :: byte where "OP_DATA_64 \<equiv> 0x40"
abbreviation OP_DATA_65 :: byte where "OP_DATA_65 \<equiv> 0x41"
abbreviation OP_DATA_66 :: byte where "OP_DATA_66 \<equiv> 0x42"
abbreviation OP_DATA_67 :: byte where "OP_DATA_67 \<equiv> 0x43"
abbreviation OP_DATA_68 :: byte where "OP_DATA_68 \<equiv> 0x44"
abbreviation OP_DATA_69 :: byte where "OP_DATA_69 \<equiv> 0x45"
abbreviation OP_DATA_70 :: byte where "OP_DATA_70 \<equiv> 0x46"
abbreviation OP_DATA_71 :: byte where "OP_DATA_71 \<equiv> 0x47"
abbreviation OP_DATA_72 :: byte where "OP_DATA_72 \<equiv> 0x48"
abbreviation OP_DATA_73 :: byte where "OP_DATA_73 \<equiv> 0x49"
abbreviation OP_DATA_74 :: byte where "OP_DATA_74 \<equiv> 0x4a"
abbreviation OP_DATA_75 :: byte where "OP_DATA_75 \<equiv> 0x4b"
abbreviation OP_PUSHDATA1 :: byte where "OP_PUSHDATA1 \<equiv> 0x4c"
abbreviation OP_PUSHDATA2 :: byte where "OP_PUSHDATA2 \<equiv> 0x4d"
abbreviation OP_PUSHDATA4 :: byte where "OP_PUSHDATA4 \<equiv> 0x4e"
abbreviation OP_1NEGATE :: byte where "OP_1NEGATE \<equiv> 0x4f"
abbreviation OP_RESERVED :: byte where "OP_RESERVED \<equiv> 0x50"
abbreviation OP_1 :: byte where "OP_1 \<equiv> 0x51"
abbreviation OP_TRUE :: byte where "OP_TRUE \<equiv> 0x51"
abbreviation OP_2 :: byte where "OP_2 \<equiv> 0x52"
abbreviation OP_3 :: byte where "OP_3 \<equiv> 0x53"
abbreviation OP_4 :: byte where "OP_4 \<equiv> 0x54"
abbreviation OP_5 :: byte where "OP_5 \<equiv> 0x55"
abbreviation OP_6 :: byte where "OP_6 \<equiv> 0x56"
abbreviation OP_7 :: byte where "OP_7 \<equiv> 0x57"
abbreviation OP_8 :: byte where "OP_8 \<equiv> 0x58"
abbreviation OP_9 :: byte where "OP_9 \<equiv> 0x59"
abbreviation OP_10 :: byte where "OP_10 \<equiv> 0x5a"
abbreviation OP_11 :: byte where "OP_11 \<equiv> 0x5b"
abbreviation OP_12 :: byte where "OP_12 \<equiv> 0x5c"
abbreviation OP_13 :: byte where "OP_13 \<equiv> 0x5d"
abbreviation OP_14 :: byte where "OP_14 \<equiv> 0x5e"
abbreviation OP_15 :: byte where "OP_15 \<equiv> 0x5f"
abbreviation OP_16 :: byte where "OP_16 \<equiv> 0x60"
abbreviation OP_NOP :: byte where "OP_NOP \<equiv> 0x61"
abbreviation OP_VER :: byte where "OP_VER \<equiv> 0x62"
abbreviation OP_IF :: byte where "OP_IF \<equiv> 0x63"
abbreviation OP_NOTIF :: byte where "OP_NOTIF \<equiv> 0x64"
abbreviation OP_VERIF :: byte where "OP_VERIF \<equiv> 0x65"
abbreviation OP_VERNOTIF :: byte where "OP_VERNOTIF \<equiv> 0x66"
abbreviation OP_ELSE :: byte where "OP_ELSE \<equiv> 0x67"
abbreviation OP_ENDIF :: byte where "OP_ENDIF \<equiv> 0x68"
abbreviation OP_VERIFY :: byte where "OP_VERIFY \<equiv> 0x69"
abbreviation OP_RETURN :: byte where "OP_RETURN \<equiv> 0x6a"
abbreviation OP_TOALTSTACK :: byte where "OP_TOALTSTACK \<equiv> 0x6b"
abbreviation OP_FROMALTSTACK :: byte where "OP_FROMALTSTACK \<equiv> 0x6c"
abbreviation OP_2DROP :: byte where "OP_2DROP \<equiv> 0x6d"
abbreviation OP_2DUP :: byte where "OP_2DUP \<equiv> 0x6e"
abbreviation OP_3DUP :: byte where "OP_3DUP \<equiv> 0x6f"
abbreviation OP_2OVER :: byte where "OP_2OVER \<equiv> 0x70"
abbreviation OP_2ROT :: byte where "OP_2ROT \<equiv> 0x71"
abbreviation OP_2SWAP :: byte where "OP_2SWAP \<equiv> 0x72"
abbreviation OP_IFDUP :: byte where "OP_IFDUP \<equiv> 0x73"
abbreviation OP_DEPTH :: byte where "OP_DEPTH \<equiv> 0x74"
abbreviation OP_DROP :: byte where "OP_DROP \<equiv> 0x75"
abbreviation OP_DUP :: byte where "OP_DUP \<equiv> 0x76"
abbreviation OP_NIP :: byte where "OP_NIP \<equiv> 0x77"
abbreviation OP_OVER :: byte where "OP_OVER \<equiv> 0x78"
abbreviation OP_PICK :: byte where "OP_PICK \<equiv> 0x79"
abbreviation OP_ROLL :: byte where "OP_ROLL \<equiv> 0x7a"
abbreviation OP_ROT :: byte where "OP_ROT \<equiv> 0x7b"
abbreviation OP_SWAP :: byte where "OP_SWAP \<equiv> 0x7c"
abbreviation OP_TUCK :: byte where "OP_TUCK \<equiv> 0x7d"
abbreviation OP_CAT :: byte where "OP_CAT \<equiv> 0x7e"
abbreviation OP_SUBSTR :: byte where "OP_SUBSTR \<equiv> 0x7f"
abbreviation OP_LEFT :: byte where "OP_LEFT \<equiv> 0x80"
abbreviation OP_RIGHT :: byte where "OP_RIGHT \<equiv> 0x81"
abbreviation OP_SIZE :: byte where "OP_SIZE \<equiv> 0x82"
abbreviation OP_INVERT :: byte where "OP_INVERT \<equiv> 0x83"
abbreviation OP_AND :: byte where "OP_AND \<equiv> 0x84"
abbreviation OP_OR :: byte where "OP_OR \<equiv> 0x85"
abbreviation OP_XOR :: byte where "OP_XOR \<equiv> 0x86"
abbreviation OP_EQUAL :: byte where "OP_EQUAL \<equiv> 0x87"
abbreviation OP_EQUALVERIFY :: byte where "OP_EQUALVERIFY \<equiv> 0x88"
abbreviation OP_RESERVED1 :: byte where "OP_RESERVED1 \<equiv> 0x89"
abbreviation OP_RESERVED2 :: byte where "OP_RESERVED2 \<equiv> 0x8a"
abbreviation OP_1ADD :: byte where "OP_1ADD \<equiv> 0x8b"
abbreviation OP_1SUB :: byte where "OP_1SUB \<equiv> 0x8c"
abbreviation OP_2MUL :: byte where "OP_2MUL \<equiv> 0x8d"
abbreviation OP_2DIV :: byte where "OP_2DIV \<equiv> 0x8e"
abbreviation OP_NEGATE :: byte where "OP_NEGATE \<equiv> 0x8f"
abbreviation OP_ABS :: byte where "OP_ABS \<equiv> 0x90"
abbreviation OP_NOT :: byte where "OP_NOT \<equiv> 0x91"
abbreviation OP_0NOTEQUAL :: byte where "OP_0NOTEQUAL \<equiv> 0x92"
abbreviation OP_ADD :: byte where "OP_ADD \<equiv> 0x93"
abbreviation OP_SUB :: byte where "OP_SUB \<equiv> 0x94"
abbreviation OP_MUL :: byte where "OP_MUL \<equiv> 0x95"
abbreviation OP_DIV :: byte where "OP_DIV \<equiv> 0x96"
abbreviation OP_MOD :: byte where "OP_MOD \<equiv> 0x97"
abbreviation OP_LSHIFT :: byte where "OP_LSHIFT \<equiv> 0x98"
abbreviation OP_RSHIFT :: byte where "OP_RSHIFT \<equiv> 0x99"
abbreviation OP_BOOLAND :: byte where "OP_BOOLAND \<equiv> 0x9a"
abbreviation OP_BOOLOR :: byte where "OP_BOOLOR \<equiv> 0x9b"
abbreviation OP_NUMEQUAL :: byte where "OP_NUMEQUAL \<equiv> 0x9c"
abbreviation OP_NUMEQUALVERIFY :: byte where "OP_NUMEQUALVERIFY \<equiv> 0x9d"
abbreviation OP_NUMNOTEQUAL :: byte where "OP_NUMNOTEQUAL \<equiv> 0x9e"
abbreviation OP_LESSTHAN :: byte where "OP_LESSTHAN \<equiv> 0x9f"
abbreviation OP_GREATERTHAN :: byte where "OP_GREATERTHAN \<equiv> 0xa0"
abbreviation OP_LESSTHANOREQUAL :: byte where "OP_LESSTHANOREQUAL \<equiv> 0xa1"
abbreviation OP_GREATERTHANOREQUAL :: byte where "OP_GREATERTHANOREQUAL \<equiv> 0xa2"
abbreviation OP_MIN :: byte where "OP_MIN \<equiv> 0xa3"
abbreviation OP_MAX :: byte where "OP_MAX \<equiv> 0xa4"
abbreviation OP_WITHIN :: byte where "OP_WITHIN \<equiv> 0xa5"
abbreviation OP_RIPEMD160 :: byte where "OP_RIPEMD160 \<equiv> 0xa6"
abbreviation OP_SHA1 :: byte where "OP_SHA1 \<equiv> 0xa7"
abbreviation OP_SHA256 :: byte where "OP_SHA256 \<equiv> 0xa8"
abbreviation OP_HASH160 :: byte where "OP_HASH160 \<equiv> 0xa9"
abbreviation OP_HASH256 :: byte where "OP_HASH256 \<equiv> 0xaa"
abbreviation OP_CODESEPARATOR :: byte where "OP_CODESEPARATOR \<equiv> 0xab"
abbreviation OP_CHECKSIG :: byte where "OP_CHECKSIG \<equiv> 0xac"
abbreviation OP_CHECKSIGVERIFY :: byte where "OP_CHECKSIGVERIFY \<equiv> 0xad"
abbreviation OP_CHECKMULTISIG :: byte where "OP_CHECKMULTISIG \<equiv> 0xae"
abbreviation OP_CHECKMULTISIGVERIFY :: byte where "OP_CHECKMULTISIGVERIFY \<equiv> 0xaf"
abbreviation OP_NOP1 :: byte where "OP_NOP1 \<equiv> 0xb0"
abbreviation OP_NOP2 :: byte where "OP_NOP2 \<equiv> 0xb1"
abbreviation OP_CHECKLOCKTIMEVERIFY :: byte where "OP_CHECKLOCKTIMEVERIFY \<equiv> 0xb1"
abbreviation OP_NOP3 :: byte where "OP_NOP3 \<equiv> 0xb2"
abbreviation OP_CHECKSEQUENCEVERIFY :: byte where "OP_CHECKSEQUENCEVERIFY \<equiv> 0xb2"
abbreviation OP_NOP4 :: byte where "OP_NOP4 \<equiv> 0xb3"
abbreviation OP_NOP5 :: byte where "OP_NOP5 \<equiv> 0xb4"
abbreviation OP_NOP6 :: byte where "OP_NOP6 \<equiv> 0xb5"
abbreviation OP_NOP7 :: byte where "OP_NOP7 \<equiv> 0xb6"
abbreviation OP_NOP8 :: byte where "OP_NOP8 \<equiv> 0xb7"
abbreviation OP_NOP9 :: byte where "OP_NOP9 \<equiv> 0xb8"
abbreviation OP_NOP10 :: byte where "OP_NOP10 \<equiv> 0xb9"
abbreviation OP_UNKNOWN186 :: byte where "OP_UNKNOWN186 \<equiv> 0xba"
abbreviation OP_UNKNOWN187 :: byte where "OP_UNKNOWN187 \<equiv> 0xbb"
abbreviation OP_UNKNOWN188 :: byte where "OP_UNKNOWN188 \<equiv> 0xbc"
abbreviation OP_UNKNOWN189 :: byte where "OP_UNKNOWN189 \<equiv> 0xbd"
abbreviation OP_UNKNOWN190 :: byte where "OP_UNKNOWN190 \<equiv> 0xbe"
abbreviation OP_UNKNOWN191 :: byte where "OP_UNKNOWN191 \<equiv> 0xbf"
abbreviation OP_UNKNOWN192 :: byte where "OP_UNKNOWN192 \<equiv> 0xc0"
abbreviation OP_UNKNOWN193 :: byte where "OP_UNKNOWN193 \<equiv> 0xc1"
abbreviation OP_UNKNOWN194 :: byte where "OP_UNKNOWN194 \<equiv> 0xc2"
abbreviation OP_UNKNOWN195 :: byte where "OP_UNKNOWN195 \<equiv> 0xc3"
abbreviation OP_UNKNOWN196 :: byte where "OP_UNKNOWN196 \<equiv> 0xc4"
abbreviation OP_UNKNOWN197 :: byte where "OP_UNKNOWN197 \<equiv> 0xc5"
abbreviation OP_UNKNOWN198 :: byte where "OP_UNKNOWN198 \<equiv> 0xc6"
abbreviation OP_UNKNOWN199 :: byte where "OP_UNKNOWN199 \<equiv> 0xc7"
abbreviation OP_UNKNOWN200 :: byte where "OP_UNKNOWN200 \<equiv> 0xc8"
abbreviation OP_UNKNOWN201 :: byte where "OP_UNKNOWN201 \<equiv> 0xc9"
abbreviation OP_UNKNOWN202 :: byte where "OP_UNKNOWN202 \<equiv> 0xca"
abbreviation OP_UNKNOWN203 :: byte where "OP_UNKNOWN203 \<equiv> 0xcb"
abbreviation OP_UNKNOWN204 :: byte where "OP_UNKNOWN204 \<equiv> 0xcc"
abbreviation OP_UNKNOWN205 :: byte where "OP_UNKNOWN205 \<equiv> 0xcd"
abbreviation OP_UNKNOWN206 :: byte where "OP_UNKNOWN206 \<equiv> 0xce"
abbreviation OP_UNKNOWN207 :: byte where "OP_UNKNOWN207 \<equiv> 0xcf"
abbreviation OP_UNKNOWN208 :: byte where "OP_UNKNOWN208 \<equiv> 0xd0"
abbreviation OP_UNKNOWN209 :: byte where "OP_UNKNOWN209 \<equiv> 0xd1"
abbreviation OP_UNKNOWN210 :: byte where "OP_UNKNOWN210 \<equiv> 0xd2"
abbreviation OP_UNKNOWN211 :: byte where "OP_UNKNOWN211 \<equiv> 0xd3"
abbreviation OP_UNKNOWN212 :: byte where "OP_UNKNOWN212 \<equiv> 0xd4"
abbreviation OP_UNKNOWN213 :: byte where "OP_UNKNOWN213 \<equiv> 0xd5"
abbreviation OP_UNKNOWN214 :: byte where "OP_UNKNOWN214 \<equiv> 0xd6"
abbreviation OP_UNKNOWN215 :: byte where "OP_UNKNOWN215 \<equiv> 0xd7"
abbreviation OP_UNKNOWN216 :: byte where "OP_UNKNOWN216 \<equiv> 0xd8"
abbreviation OP_UNKNOWN217 :: byte where "OP_UNKNOWN217 \<equiv> 0xd9"
abbreviation OP_UNKNOWN218 :: byte where "OP_UNKNOWN218 \<equiv> 0xda"
abbreviation OP_UNKNOWN219 :: byte where "OP_UNKNOWN219 \<equiv> 0xdb"
abbreviation OP_UNKNOWN220 :: byte where "OP_UNKNOWN220 \<equiv> 0xdc"
abbreviation OP_UNKNOWN221 :: byte where "OP_UNKNOWN221 \<equiv> 0xdd"
abbreviation OP_UNKNOWN222 :: byte where "OP_UNKNOWN222 \<equiv> 0xde"
abbreviation OP_UNKNOWN223 :: byte where "OP_UNKNOWN223 \<equiv> 0xdf"
abbreviation OP_UNKNOWN224 :: byte where "OP_UNKNOWN224 \<equiv> 0xe0"
abbreviation OP_UNKNOWN225 :: byte where "OP_UNKNOWN225 \<equiv> 0xe1"
abbreviation OP_UNKNOWN226 :: byte where "OP_UNKNOWN226 \<equiv> 0xe2"
abbreviation OP_UNKNOWN227 :: byte where "OP_UNKNOWN227 \<equiv> 0xe3"
abbreviation OP_UNKNOWN228 :: byte where "OP_UNKNOWN228 \<equiv> 0xe4"
abbreviation OP_UNKNOWN229 :: byte where "OP_UNKNOWN229 \<equiv> 0xe5"
abbreviation OP_UNKNOWN230 :: byte where "OP_UNKNOWN230 \<equiv> 0xe6"
abbreviation OP_UNKNOWN231 :: byte where "OP_UNKNOWN231 \<equiv> 0xe7"
abbreviation OP_UNKNOWN232 :: byte where "OP_UNKNOWN232 \<equiv> 0xe8"
abbreviation OP_UNKNOWN233 :: byte where "OP_UNKNOWN233 \<equiv> 0xe9"
abbreviation OP_UNKNOWN234 :: byte where "OP_UNKNOWN234 \<equiv> 0xea"
abbreviation OP_UNKNOWN235 :: byte where "OP_UNKNOWN235 \<equiv> 0xeb"
abbreviation OP_UNKNOWN236 :: byte where "OP_UNKNOWN236 \<equiv> 0xec"
abbreviation OP_UNKNOWN237 :: byte where "OP_UNKNOWN237 \<equiv> 0xed"
abbreviation OP_UNKNOWN238 :: byte where "OP_UNKNOWN238 \<equiv> 0xee"
abbreviation OP_UNKNOWN239 :: byte where "OP_UNKNOWN239 \<equiv> 0xef"
abbreviation OP_UNKNOWN240 :: byte where "OP_UNKNOWN240 \<equiv> 0xf0"
abbreviation OP_UNKNOWN241 :: byte where "OP_UNKNOWN241 \<equiv> 0xf1"
abbreviation OP_UNKNOWN242 :: byte where "OP_UNKNOWN242 \<equiv> 0xf2"
abbreviation OP_UNKNOWN243 :: byte where "OP_UNKNOWN243 \<equiv> 0xf3"
abbreviation OP_UNKNOWN244 :: byte where "OP_UNKNOWN244 \<equiv> 0xf4"
abbreviation OP_UNKNOWN245 :: byte where "OP_UNKNOWN245 \<equiv> 0xf5"
abbreviation OP_UNKNOWN246 :: byte where "OP_UNKNOWN246 \<equiv> 0xf6"
abbreviation OP_UNKNOWN247 :: byte where "OP_UNKNOWN247 \<equiv> 0xf7"
abbreviation OP_UNKNOWN248 :: byte where "OP_UNKNOWN248 \<equiv> 0xf8"
abbreviation OP_UNKNOWN249 :: byte where "OP_UNKNOWN249 \<equiv> 0xf9"
abbreviation OP_SMALLINTEGER :: byte where "OP_SMALLINTEGER \<equiv> 0xfa"
abbreviation OP_PUBKEYS :: byte where "OP_PUBKEYS \<equiv> 0xfb"
abbreviation OP_UNKNOWN252 :: byte where "OP_UNKNOWN252 \<equiv> 0xfc"
abbreviation OP_PUBKEYHASH :: byte where "OP_PUBKEYHASH \<equiv> 0xfd"
abbreviation OP_PUBKEY :: byte where "OP_PUBKEY \<equiv> 0xfe"
abbreviation OP_INVALIDOPCODE :: byte where "OP_INVALIDOPCODE \<equiv> 0xff"

subsection \<open>The table\<close>

datatype (plugins only:) opfunc =
  fn_opcodeFalse | fn_opcodePushData | fn_opcode1Negate | fn_opcodeReserved | fn_opcodeN
  | fn_opcodeNop | fn_opcodeIf | fn_opcodeNotIf | fn_opcodeElse | fn_opcodeEndif
  | fn_opcodeVerify | fn_opcodeReturn | fn_opcodeToAltStack | fn_opcodeFromAltStack
  | fn_opcode2Drop | fn_opcode2Dup | fn_opcode3Dup | fn_opcode2Over | fn_opcode2Rot
  | fn_opcode2Swap | fn_opcodeIfDup | fn_opcodeDepth | fn_opcodeDrop | fn_opcodeDup
  | fn_opcodeNip | fn_opcodeOver | fn_opcodePick | fn_opcodeRoll | fn_opcodeRot
  | fn_opcodeSwap | fn_opcodeTuck | fn_opcodeDisabled | fn_opcodeSize | fn_opcodeEqual
  | fn_opcodeEqualVerify | fn_opcode1Add | fn_opcode1Sub | fn_opcodeNegate | fn_opcodeAbs
  | fn_opcodeNot | fn_opcode0NotEqual | fn_opcodeAdd | fn_opcodeSub | fn_opcodeBoolAnd
  | fn_opcodeBoolOr | fn_opcodeNumEqual | fn_opcodeNumEqualVerify | fn_opcodeNumNotEqual
  | fn_opcodeLessThan | fn_opcodeGreaterThan | fn_opcodeLessThanOrEqual
  | fn_opcodeGreaterThanOrEqual | fn_opcodeMin | fn_opcodeMax | fn_opcodeWithin
  | fn_opcodeRipeMD160 | fn_opcodeSHA1 | fn_opcodeSHA256 | fn_opcodeHash160 | fn_opcodeHash256
  | fn_opcodeCodeSeparator | fn_opcodeCheckSig | fn_opcodeCheckSigVerify
  | fn_opcodeCheckMultiSig | fn_opcodeCheckMultiSigVerify | fn_opcodeCheckLockTimeVerify
  | fn_opcodeCheckSequenceVerify | fn_opcodeInvalid

record opcode =
  op_value :: byte
  op_name :: string
  op_length :: int
  op_func :: opfunc

definition mk_opcode :: "byte \<Rightarrow> string \<Rightarrow> int \<Rightarrow> opfunc \<Rightarrow> opcode" where
  "mk_opcode v n l f = \<lparr>op_value = v, op_name = n, op_length = l, op_func = f\<rparr>"

definition pushOpcodes :: "opcode list" where
  "pushOpcodes =
    [mk_opcode OP_FALSE ''OP_0'' 1 fn_opcodeFalse,
     mk_opcode OP_DATA_1 ''OP_DATA_1'' 2 fn_opcodePushData,
     mk_opcode OP_DATA_2 ''OP_DATA_2'' 3 fn_opcodePushData,
     mk_opcode OP_DATA_3 ''OP_DATA_3'' 4 fn_opcodePushData,
     mk_opcode OP_DATA_4 ''OP_DATA_4'' 5 fn_opcodePushData,
     mk_opcode OP_DATA_5 ''OP_DATA_5'' 6 fn_opcodePushData,
     mk_opcode OP_DATA_6 ''OP_DATA_6'' 7 fn_opcodePushData,
     mk_opcode OP_DATA_7 ''OP_DATA_7'' 8 fn_opcodePushData,
     mk_opcode OP_DATA_8 ''OP_DATA_8'' 9 fn_opcodePushData,
     mk_opcode OP_DATA_9 ''OP_DATA_9'' 10 fn_opcodePushData,
     mk_opcode OP_DATA_10 ''OP_DATA_10'' 11 fn_opcodePushData,
     mk_opcode OP_DATA_11 ''OP_DATA_11'' 12 fn_opcodePushData,
     mk_opcode OP_DATA_12 ''OP_DATA_12'' 13 fn_opcodePushData,
     mk_opcode OP_DATA_13 ''OP_DATA_13'' 14 fn_opcodePushData,
     mk_opcode OP_DATA_14 ''OP_DATA_14'' 15 fn_opcodePushData,
     mk_opcode OP_DATA_15 ''OP_DATA_15'' 16 fn_opcodePushData,
     mk_opcode OP_DATA_16 ''OP_DATA_16'' 17 fn_opcodePushData,
     mk_opcode OP_DATA_17 ''OP_DATA_17'' 18 fn_opcodePushData,
     mk_opcode OP_DATA_18 ''OP_DATA_18'' 19 fn_opcodePushData,
     mk_opcode OP_DATA_19 ''OP_DATA_19'' 20 fn_opcodePushData,
     mk_opcode OP_DATA_20 ''OP_DATA_20'' 21 fn_opcodePushData,
     mk_opcode OP_DATA_21 ''OP_DATA_21'' 22 fn_opcodePushData,
     mk_opcode OP_DATA_22 ''OP_DATA_22'' 23 fn_opcodePushData,
     mk_opcode OP_DATA_23 ''OP_DATA_23'' 24 fn_opcodePushData,
     mk_opcode OP_DATA_24 ''OP_DATA_24'' 25 fn_opcodePushData,
     mk_opcode OP_DATA_25 ''OP_DATA_25'' 26 fn_opcodePushData,
     mk_opcode OP_DATA_26 ''OP_DATA_26'' 27 fn_opcodePushData,
     mk_opcode OP_DATA_27 ''OP_DATA_27'' 28 fn_opcodePushData,
     mk_opcode OP_DATA_28 ''OP_DATA_28'' 29 fn_opcodePushData,
     mk_opcode OP_DATA_29 ''OP_DATA_29'' 30 fn_opcodePushData,
     mk_opcode OP_DATA_30 ''OP_DATA_30'' 31 fn_opcodePushData,
     mk_opcode OP_DATA_31 ''OP_DATA_31'' 32 fn_opcodePushData,
     mk_opcode OP_DATA_32 ''OP_DATA_32'' 33 fn_opcodePushData,
     mk_opcode OP_DATA_33 ''OP_DATA_33'' 34 fn_opcodePushData,
     mk_opcode OP_DATA_34 ''OP_DATA_34'' 35 fn_opcodePushData,
     mk_opcode OP_DATA_35 ''OP_DATA_35'' 36 fn_opcodePushData,
     mk_opcode OP_DATA_36 ''OP_DATA_36'' 37 fn_opcodePushData,
     mk_opcode OP_DATA_37 ''OP_DATA_37'' 38 fn_opcodePushData,
     mk_opcode OP_DATA_38 ''OP_DATA_38'' 39 fn_opcodePushData,
     mk_opcode OP_DATA_39 ''OP_DATA_39'' 40 fn_opcodePushData,
     mk_opcode OP_DATA_40 ''OP_DATA_40'' 41 fn_opcodePushData,
     mk_opcode OP_DATA_41 ''OP_DATA_41'' 42 fn_opcodePushData,
     mk_opcode OP_DATA_42 ''OP_DATA_42'' 43 fn_opcodePushData,
     mk_opcode OP_DATA_43 ''OP_DATA_43'' 44 fn_opcodePushData,
     mk_opcode OP_DATA_44 ''OP_DATA_44'' 45 fn_opcodePushData,
     mk_opcode OP_DATA_45 ''OP_DATA_45'' 46 fn_opcodePushData,
     mk_opcode OP_DATA_46 ''OP_DATA_46'' 47 fn_opcodePushData,
     mk_opcode OP_DATA_47 ''OP_DATA_47'' 48 fn_opcodePushData,
     mk_opcode OP_DATA_48 ''OP_DATA_48'' 49 fn_opcodePushData,
     mk_opcode OP_DATA_49 ''OP_DATA_49'' 50 fn_opcodePushData,
     mk_opcode OP_DATA_50 ''OP_DATA_50'' 51 fn_opcodePushData,
     mk_opcode OP_DATA_51 ''OP_DATA_51'' 52 fn_opcodePushData,
     mk_opcode OP_DATA_52 ''OP_DATA_52'' 53 fn_opcodePushData,
     mk_opcode OP_DATA_53 ''OP_DATA_53'' 54 fn_opcodePushData,
     mk_opcode OP_DATA_54 ''OP_DATA_54'' 55 fn_opcodePushData,
     mk_opcode OP_DATA_55 ''OP_DATA_55'' 56 fn_opcodePushData,
     mk_opcode OP_DATA_56 ''OP_DATA_56'' 57 fn_opcodePushData,
     mk_opcode OP_DATA_57 ''OP_DATA_57'' 58 fn_opcodePushData,
     mk_opcode OP_DATA_58 ''OP_DATA_58'' 59 fn_opcodePushData,
     mk_opcode OP_DATA_59 ''OP_DATA_59'' 60 fn_opcodePushData,
     mk_opcode OP_DATA_60 ''OP_DATA_60'' 61 fn_opcodePushData,
     mk_opcode OP_DATA_61 ''OP_DATA_61'' 62 fn_opcodePushData,
     mk_opcode OP_DATA_62 ''OP_DATA_62'' 63 fn_opcodePushData,
     mk_opcode OP_DATA_63 ''OP_DATA_63'' 64 fn_opcodePushData,
     mk_opcode OP_DATA_64 ''OP_DATA_64'' 65 fn_opcodePushData,
     mk_opcode OP_DATA_65 ''OP_DATA_65'' 66 fn_opcodePushData,
     mk_opcode OP_DATA_66 ''OP_DATA_66'' 67 fn_opcodePushData,
     mk_opcode OP_DATA_67 ''OP_DATA_67'' 68 fn_opcodePushData,
     mk_opcode OP_DATA_68 ''OP_DATA_68'' 69 fn_opcodePushData,
     mk_opcode OP_DATA_69 ''OP_DATA_69'' 70 fn_opcodePushData,
     mk_opcode OP_DATA_70 ''OP_DATA_70'' 71 fn_opcodePushData,
     mk_opcode OP_DATA_71 ''OP_DATA_71'' 72 fn_opcodePushData,
     mk_opcode OP_DATA_72 ''OP_DATA_72'' 73 fn_opcodePushData,
     mk_opcode OP_DATA_73 ''OP_DATA_73'' 74 fn_opcodePushData,
     mk_opcode OP_DATA_74 ''OP_DATA_74'' 75 fn_opcodePushData,
     mk_opcode OP_DATA_75 ''OP_DATA_75'' 76 fn_opcodePushData,
     mk_opcode OP_PUSHDATA1 ''OP_PUSHDATA1'' (-1) fn_opcodePushData,
     mk_opcode OP_PUSHDATA2 ''OP_PUSHDATA2'' (-2) fn_opcodePushData,
     mk_opcode OP_PUSHDATA4 ''OP_PUSHDATA4'' (-4) fn_opcodePushData,
     mk_opcode OP_1NEGATE ''OP_1NEGATE'' 1 fn_opcode1Negate,
     mk_opcode OP_RESERVED ''OP_RESERVED'' 1 fn_opcodeReserved,
     mk_opcode OP_TRUE ''OP_1'' 1 fn_opcodeN,
     mk_opcode OP_2 ''OP_2'' 1 fn_opcodeN,
     mk_opcode OP_3 ''OP_3'' 1 fn_opcodeN,
     mk_opcode OP_4 ''OP_4'' 1 fn_opcodeN,
     mk_opcode OP_5 ''OP_5'' 1 fn_opcodeN,
     mk_opcode OP_6 ''OP_6'' 1 fn_opcodeN,
     mk_opcode OP_7 ''OP_7'' 1 fn_opcodeN,
     mk_opcode OP_8 ''OP_8'' 1 fn_opcodeN,
     mk_opcode OP_9 ''OP_9'' 1 fn_opcodeN,
     mk_opcode OP_10 ''OP_10'' 1 fn_opcodeN,
     mk_opcode OP_11 ''OP_11'' 1 fn_opcodeN,
     mk_opcode OP_12 ''OP_12'' 1 fn_opcodeN,
     mk_opcode OP_13 ''OP_13'' 1 fn_opcodeN,
     mk_opcode OP_14 ''OP_14'' 1 fn_opcodeN,
     mk_opcode OP_15 ''OP_15'' 1 fn_opcodeN,
     mk_opcode OP_16 ''OP_16'' 1 fn_opcodeN]"

definition operationOpcodes :: "opcode list" where
  "operationOpcodes =
    [mk_opcode OP_NOP ''OP_NOP'' 1 fn_opcodeNop,
     mk_opcode OP_VER ''OP_VER'' 1 fn_opcodeReserved,
     mk_opcode OP_IF ''OP_IF'' 1 fn_opcodeIf,
     mk_opcode OP_NOTIF ''OP_NOTIF'' 1 fn_opcodeNotIf,
     mk_opcode OP_VERIF ''OP_VERIF'' 1 fn_opcodeReserved,
     mk_opcode OP_VERNOTIF ''OP_VERNOTIF'' 1 fn_opcodeReserved,
     mk_opcode OP_ELSE ''OP_ELSE'' 1 fn_opcodeElse,
     mk_opcode OP_ENDIF ''OP_ENDIF'' 1 fn_opcodeEndif,
     mk_opcode OP_VERIFY ''OP_VERIFY'' 1 fn_opcodeVerify,
     mk_opcode OP_RETURN ''OP_RETURN'' 1 fn_opcodeReturn,
     mk_opcode OP_TOALTSTACK ''OP_TOALTSTACK'' 1 fn_opcodeToAltStack,
     mk_opcode OP_FROMALTSTACK ''OP_FROMALTSTACK'' 1 fn_opcodeFromAltStack,
     mk_opcode OP_2DROP ''OP_2DROP'' 1 fn_opcode2Drop,
     mk_opcode OP_2DUP ''OP_2DUP'' 1 fn_opcode2Dup,
     mk_opcode OP_3DUP ''OP_3DUP'' 1 fn_opcode3Dup,
     mk_opcode OP_2OVER ''OP_2OVER'' 1 fn_opcode2Over,
     mk_opcode OP_2ROT ''OP_2ROT'' 1 fn_opcode2Rot,
     mk_opcode OP_2SWAP ''OP_2SWAP'' 1 fn_opcode2Swap,
     mk_opcode OP_IFDUP ''OP_IFDUP'' 1 fn_opcodeIfDup,
     mk_opcode OP_DEPTH ''OP_DEPTH'' 1 fn_opcodeDepth,
     mk_opcode OP_DROP ''OP_DROP'' 1 fn_opcodeDrop,
     mk_opcode OP_DUP ''OP_DUP'' 1 fn_opcodeDup,
     mk_opcode OP_NIP ''OP_NIP'' 1 fn_opcodeNip,
     mk_opcode OP_OVER ''OP_OVER'' 1 fn_opcodeOver,
     mk_opcode OP_PICK ''OP_PICK'' 1 fn_opcodePick,
     mk_opcode OP_ROLL ''OP_ROLL'' 1 fn_opcodeRoll,
     mk_opcode OP_ROT ''OP_ROT'' 1 fn_opcodeRot,
     mk_opcode OP_SWAP ''OP_SWAP'' 1 fn_opcodeSwap,
     mk_opcode OP_TUCK ''OP_TUCK'' 1 fn_opcodeTuck,
     mk_opcode OP_CAT ''OP_CAT'' 1 fn_opcodeDisabled,
     mk_opcode OP_SUBSTR ''OP_SUBSTR'' 1 fn_opcodeDisabled,
     mk_opcode OP_LEFT ''OP_LEFT'' 1 fn_opcodeDisabled,
     mk_opcode OP_RIGHT ''OP_RIGHT'' 1 fn_opcodeDisabled,
     mk_opcode OP_SIZE ''OP_SIZE'' 1 fn_opcodeSize,
     mk_opcode OP_INVERT ''OP_INVERT'' 1 fn_opcodeDisabled,
     mk_opcode OP_AND ''OP_AND'' 1 fn_opcodeDisabled,
     mk_opcode OP_OR ''OP_OR'' 1 fn_opcodeDisabled,
     mk_opcode OP_XOR ''OP_XOR'' 1 fn_opcodeDisabled,
     mk_opcode OP_EQUAL ''OP_EQUAL'' 1 fn_opcodeEqual,
     mk_opcode OP_EQUALVERIFY ''OP_EQUALVERIFY'' 1 fn_opcodeEqualVerify,
     mk_opcode OP_RESERVED1 ''OP_RESERVED1'' 1 fn_opcodeReserved,
     mk_opcode OP_RESERVED2 ''OP_RESERVED2'' 1 fn_opcodeReserved,
     mk_opcode OP_1ADD ''OP_1ADD'' 1 fn_opcode1Add,
     mk_opcode OP_1SUB ''OP_1SUB'' 1 fn_opcode1Sub,
     mk_opcode OP_2MUL ''OP_2MUL'' 1 fn_opcodeDisabled,
     mk_opcode OP_2DIV ''OP_2DIV'' 1 fn_opcodeDisabled,
     mk_opcode OP_NEGATE ''OP_NEGATE'' 1 fn_opcodeNegate,
     mk_opcode OP_ABS ''OP_ABS'' 1 fn_opcodeAbs,
     mk_opcode OP_NOT ''OP_NOT'' 1 fn_opcodeNot,
     mk_opcode OP_0NOTEQUAL ''OP_0NOTEQUAL'' 1 fn_opcode0NotEqual,
     mk_opcode OP_ADD ''OP_ADD'' 1 fn_opcodeAdd,
     mk_opcode OP_SUB ''OP_SUB'' 1 fn_opcodeSub,
     mk_opcode OP_MUL ''OP_MUL'' 1 fn_opcodeDisabled,
     mk_opcode OP_DIV ''OP_DIV'' 1 fn_opcodeDisabled,
     mk_opcode OP_MOD ''OP_MOD'' 1 fn_opcodeDisabled,
     mk_opcode OP_LSHIFT ''OP_LSHIFT'' 1 fn_opcodeDisabled,
     mk_opcode OP_RSHIFT ''OP_RSHIFT'' 1 fn_opcodeDisabled,
     mk_opcode OP_BOOLAND ''OP_BOOLAND'' 1 fn_opcodeBoolAnd,
     mk_opcode OP_BOOLOR ''OP_BOOLOR'' 1 fn_opcodeBoolOr,
     mk_opcode OP_NUMEQUAL ''OP_NUMEQUAL'' 1 fn_opcodeNumEqual,
     mk_opcode OP_NUMEQUALVERIFY ''OP_NUMEQUALVERIFY'' 1 fn_opcodeNumEqualVerify,
     mk_opcode OP_NUMNOTEQUAL ''OP_NUMNOTEQUAL'' 1 fn_opcodeNumNotEqual,
     mk_opcode OP_LESSTHAN ''OP_LESSTHAN'' 1 fn_opcodeLessThan,
     mk_opcode OP_GREATERTHAN ''OP_GREATERTHAN'' 1 fn_opcodeGreaterThan,
     mk_opcode OP_LESSTHANOREQUAL ''OP_LESSTHANOREQUAL'' 1 fn_opcodeLessThanOrEqual,
     mk_opcode OP_GREATERTHANOREQUAL ''OP_GREATERTHANOREQUAL'' 1 fn_opcodeGreaterThanOrEqual,
     mk_opcode OP_MIN ''OP_MIN'' 1 fn_opcodeMin,
     mk_opcode OP_MAX ''OP_MAX'' 1 fn_opcodeMax,
     mk_opcode OP_WITHIN ''OP_WITHIN'' 1 fn_opcodeWithin,
     mk_opcode OP_RIPEMD160 ''OP_RIPEMD160'' 1 fn_opcodeRipeMD160,
     mk_opcode OP_SHA1 ''OP_SHA1'' 1 fn_opcodeSHA1,
     mk_opcode OP_SHA256 ''OP_SHA256'' 1 fn_opcodeSHA256,
     mk_opcode OP_HASH160 ''OP_HASH160'' 1 fn_opcodeHash160,
     mk_opcode OP_HASH256 ''OP_HASH256'' 1 fn_opcodeHash256,
     mk_opcode OP_CODESEPARATOR ''OP_CODESEPARATOR'' 1 fn_opcodeCodeSeparator,
     mk_opcode OP_CHECKSIG ''OP_CHECKSIG'' 1 fn_opcodeCheckSig,
     mk_opcode OP_CHECKSIGVERIFY ''OP_CHECKSIGVERIFY'' 1 fn_opcodeCheckSigVerify,
     mk_opcode OP_CHECKMULTISIG ''OP_CHECKMULTISIG'' 1 fn_opcodeCheckMultiSig,
     mk_opcode OP_CHECKMULTISIGVERIFY ''OP_CHECKMULTISIGVERIFY'' 1 fn_opcodeCheckMultiSigVerify,
     mk_opcode OP_NOP1 ''OP_NOP1'' 1 fn_opcodeNop,
     mk_opcode OP_CHECKLOCKTIMEVERIFY ''OP_CHECKLOCKTIMEVERIFY'' 1 fn_opcodeCheckLockTimeVerify,
     mk_opcode OP_CHECKSEQUENCEVERIFY ''OP_CHECKSEQUENCEVERIFY'' 1 fn_opcodeCheckSequenceVerify,
     mk_opcode OP_NOP4 ''OP_NOP4'' 1 fn_opcodeNop,
     mk_opcode OP_NOP5 ''OP_NOP5'' 1 fn_opcodeNop,
     mk_opcode OP_NOP6 ''OP_NOP6'' 1 fn_opcodeNop,
     mk_opcode OP_NOP7 ''OP_NOP7'' 1 fn_opcodeNop,
     mk_opcode OP_NOP8 ''OP_NOP8'' 1 fn_opcodeNop,
     mk_opcode OP_NOP9 ''OP_NOP9'' 1 fn_opcodeNop,
     mk_opcode OP_NOP10 ''OP_NOP10'' 1 fn_opcodeNop]"

definition undefinedOpcodes :: "opcode list" where
  "undefinedOpcodes =
    [mk_opcode OP_UNKNOWN186 ''OP_UNKNOWN186'' 1 fn_opcodeInvalid,
     mk_opcode OP_UNKNOWN187 ''OP_UNKNOWN187'' 1 fn_opcodeInvalid,
     mk_opcode OP_UNKNOWN188 ''OP_UNKNOWN188'' 1 fn_opcodeInvalid,
     mk_opcode OP_UNKNOWN189 ''OP_UNKNOWN189'' 1 fn_opcodeInvalid,
     mk_opcode OP_UNKNOWN190 ''OP_UNKNOWN190'' 1 fn_opcodeInvalid,
     mk_opcode OP_UNKNOWN191 ''OP_UNKNOWN191'' 1 fn_opcodeInvalid,
     mk_opcode OP_UNKNOWN192 ''OP_UNKNOWN192'' 1 fn_opcodeInvalid,
     mk_opcode OP_UNKNOWN193 ''OP_UNKNOWN193'' 1 fn_opcodeInvalid,
     mk_opcode OP_UNKNOWN194 ''OP_UNKNOWN194'' 1 fn_opcodeInvalid,
     mk_opcode OP_UNKNOWN195 ''OP_UNKNOWN195'' 1 fn_opcodeInvalid,
     mk_opcode OP_UNKNOWN196 ''OP_UNKNOWN196'' 1 fn_opcodeInvalid,
     mk_opcode OP_UNKNOWN197 ''OP_UNKNOWN197'' 1 fn_opcodeInvalid,
     mk_opcode OP_UNKNOWN198 ''OP_UNKNOWN198'' 1 fn_opcodeInvalid,
     mk_opcode OP_UNKNOWN199 ''OP_UNKNOWN199'' 1 fn_opcodeInvalid,
     mk_opcode OP_UNKNOWN200 ''OP_UNKNOWN200'' 1 fn_opcodeInvalid,
     mk_opcode OP_UNKNOWN201 ''OP_UNKNOWN201'' 1 fn_opcodeInvalid,
     mk_opcode OP_UNKNOWN202 ''OP_UNKNOWN202'' 1 fn_opcodeInvalid,
     mk_opcode OP_UNKNOWN203 ''OP_UNKNOWN203'' 1 fn_opcodeInvalid,
     mk_opcode OP_UNKNOWN204 ''OP_UNKNOWN204'' 1 fn_opcodeInvalid,
     mk_opcode OP_UNKNOWN205 ''OP_UNKNOWN205'' 1 fn_opcodeInvalid,
     mk_opcode OP_UNKNOWN206 ''OP_UNKNOWN206'' 1 fn_opcodeInvalid,
     mk_opcode OP_UNKNOWN207 ''OP_UNKNOWN207'' 1 fn_opcodeInvalid,
     mk_opcode OP_UNKNOWN208 ''OP_UNKNOWN208'' 1 fn_opcodeInvalid,
     mk_opcode OP_UNKNOWN209 ''OP_UNKNOWN209'' 1 fn_opcodeInvalid,
     mk_opcode OP_UNKNOWN210 ''OP_UNKNOWN210'' 1 fn_opcodeInvalid,
     mk_opcode OP_UNKNOWN211 ''OP_UNKNOWN211'' 1 fn_opcodeInvalid,
     mk_opcode OP_UNKNOWN212 ''OP_UNKNOWN212'' 1 fn_opcodeInvalid,
     mk_opcode OP_UNKNOWN213 ''OP_UNKNOWN213'' 1 fn_opcodeInvalid,
     mk_opcode OP_UNKNOWN214 ''OP_UNKNOWN214'' 1 fn_opcodeInvalid,
     mk_opcode OP_UNKNOWN215 ''OP_UNKNOWN215'' 1 fn_opcodeInvalid,
     mk_opcode OP_UNKNOWN216 ''OP_UNKNOWN216'' 1 fn_opcodeInvalid,
     mk_opcode OP_UNKNOWN217 ''OP_UNKNOWN217'' 1 fn_opcodeInvalid,
     mk_opcode OP_UNKNOWN218 ''OP_UNKNOWN218'' 1 fn_opcodeInvalid,
     mk_opcode OP_UNKNOWN219 ''OP_UNKNOWN219'' 1 fn_opcodeInvalid,
     mk_opcode OP_UNKNOWN220 ''OP_UNKNOWN220'' 1 fn_opcodeInvalid,
     mk_opcode OP_UNKNOWN221 ''OP_UNKNOWN221'' 1 fn_opcodeInvalid,
     mk_opcode OP_UNKNOWN222 ''OP_UNKNOWN222'' 1 fn_opcodeInvalid,
     mk_opcode OP_UNKNOWN223 ''OP_UNKNOWN223'' 1 fn_opcodeInvalid,
     mk_opcode OP_UNKNOWN224 ''OP_UNKNOWN224'' 1 fn_opcodeInvalid,
     mk_opcode OP_UNKNOWN225 ''OP_UNKNOWN225'' 1 fn_opcodeInvalid,
     mk_opcode OP_UNKNOWN226 ''OP_UNKNOWN226'' 1 fn_opcodeInvalid,
     mk_opcode OP_UNKNOWN227 ''OP_UNKNOWN227'' 1 fn_opcodeInvalid,
     mk_opcode OP_UNKNOWN228 ''OP_UNKNOWN228'' 1 fn_opcodeInvalid,
     mk_opcode OP_UNKNOWN229 ''OP_UNKNOWN229'' 1 fn_opcodeInvalid,
     mk_opcode OP_UNKNOWN230 ''OP_UNKNOWN230'' 1 fn_opcodeInvalid,
     mk_opcode OP_UNKNOWN231 ''OP_UNKNOWN231'' 1 fn_opcodeInvalid,
     mk_opcode OP_UNKNOWN232 ''OP_UNKNOWN232'' 1 fn_opcodeInvalid,
     mk_opcode OP_UNKNOWN233 ''OP_UNKNOWN233'' 1 fn_opcodeInvalid,
     mk_opcode OP_UNKNOWN234 ''OP_UNKNOWN234'' 1 fn_opcodeInvalid,
     mk_opcode OP_UNKNOWN235 ''OP_UNKNOWN235'' 1 fn_opcodeInvalid,
     mk_opcode OP_UNKNOWN236 ''OP_UNKNOWN236'' 1 fn_opcodeInvalid,
     mk_opcode OP_UNKNOWN237 ''OP_UNKNOWN237'' 1 fn_opcodeInvalid,
     mk_opcode OP_UNKNOWN238 ''OP_UNKNOWN238'' 1 fn_opcodeInvalid,
     mk_opcode OP_UNKNOWN239 ''OP_UNKNOWN239'' 1 fn_opcodeInvalid,
     mk_opcode OP_UNKNOWN240 ''OP_UNKNOWN240'' 1 fn_opcodeInvalid,
     mk_opcode OP_UNKNOWN241 ''OP_UNKNOWN241'' 1 fn_opcodeInvalid,
     mk_opcode OP_UNKNOWN242 ''OP_UNKNOWN242'' 1 fn_opcodeInvalid,
     mk_opcode OP_UNKNOWN243 ''OP_UNKNOWN243'' 1 fn_opcodeInvalid,
     mk_opcode OP_UNKNOWN244 ''OP_UNKNOWN244'' 1 fn_opcodeInvalid,
     mk_opcode OP_UNKNOWN245 ''OP_UNKNOWN245'' 1 fn_opcodeInvalid,
     mk_opcode OP_UNKNOWN246 ''OP_UNKNOWN246'' 1 fn_opcodeInvalid,
     mk_opcode OP_UNKNOWN247 ''OP_UNKNOWN247'' 1 fn_opcodeInvalid,
     mk_opcode OP_UNKNOWN248 ''OP_UNKNOWN248'' 1 fn_opcodeInvalid,
     mk_opcode OP_UNKNOWN249 ''OP_UNKNOWN249'' 1 fn_opcodeInvalid,
     mk_opcode OP_SMALLINTEGER ''OP_SMALLINTEGER'' 1 fn_opcodeInvalid,
     mk_opcode OP_PUBKEYS ''OP_PUBKEYS'' 1 fn_opcodeInvalid,
     mk_opcode OP_UNKNOWN252 ''OP_UNKNOWN252'' 1 fn_opcodeInvalid,
     mk_opcode OP_PUBKEYHASH ''OP_PUBKEYHASH'' 1 fn_opcodeInvalid,
     mk_opcode OP_PUBKEY ''OP_PUBKEY'' 1 fn_opcodeInvalid,
     mk_opcode OP_INVALIDOPCODE ''OP_INVALIDOPCODE'' 1 fn_opcodeInvalid]"

definition OpcodeArray :: "opcode list" where
  "OpcodeArray = pushOpcodes @ operationOpcodes @ undefinedOpcodes"

definition opcodeOnelineRepls :: "(string \<times> string) list" where
  "opcodeOnelineRepls =
    [(''OP_1NEGATE'', ''-1''), (''OP_0'', ''0''), (''OP_1'', ''1''), (''OP_2'', ''2''),
     (''OP_3'', ''3''), (''OP_4'', ''4''), (''OP_5'', ''5''), (''OP_6'', ''6''), (''OP_7'', ''7''),
     (''OP_8'', ''8''), (''OP_9'', ''9''), (''OP_10'', ''10''), (''OP_11'', ''11''),
     (''OP_12'', ''12''), (''OP_13'', ''13''), (''OP_14'', ''14''), (''OP_15'', ''15''),
     (''OP_16'', ''16'')]"

text \<open>The map filled by \<^verbatim>\<open>init\<close>: the table's names, then four aliases.\<close>

definition OpcodeByName :: "string \<Rightarrow> byte option" where
  "OpcodeByName =
     (map_of (rev (map (\<lambda>op. (op_name op, op_value op)) OpcodeArray)))
       (''OP_FALSE'' \<mapsto> OP_FALSE, ''OP_TRUE'' \<mapsto> OP_TRUE,
        ''OP_NOP2'' \<mapsto> OP_CHECKLOCKTIMEVERIFY, ''OP_NOP3'' \<mapsto> OP_CHECKSEQUENCEVERIFY)"

subsection \<open>Parsed opcodes\<close>

record parsedOpcode =
  pop_opcode :: opcode
  pop_data :: "byte list"

abbreviation pop_value :: "parsedOpcode \<Rightarrow> byte" where
  "pop_value pop \<equiv> op_value (pop_opcode pop)"

definition isDisabled :: "parsedOpcode \<Rightarrow> bool" where
  "isDisabled pop \<longleftrightarrow> pop_value pop \<in>
     {OP_CAT, OP_SUBSTR, OP_LEFT, OP_RIGHT, OP_INVERT, OP_AND, OP_OR, OP_XOR, OP_2MUL, OP_2DIV,
      OP_MUL, OP_DIV, OP_MOD, OP_LSHIFT, OP_RSHIFT}"

definition alwaysIllegal :: "parsedOpcode \<Rightarrow> bool" where
  "alwaysIllegal pop \<longleftrightarrow> pop_value pop \<in> {OP_VERIF, OP_VERNOTIF}"

definition isConditional :: "parsedOpcode \<Rightarrow> bool" where
  "isConditional pop \<longleftrightarrow> pop_value pop \<in> {OP_IF, OP_NOTIF, OP_ELSE, OP_ENDIF}"

definition checkMinimalDataPush :: "parsedOpcode \<Rightarrow> (script_error, unit) res" where
  "checkMinimalDataPush pop =
     (let data = pop_data pop; dataLen = length data; opcode = pop_value pop in
      if dataLen = 0 \<and> opcode \<noteq> OP_0 then Err (scriptError ErrMinimalData)
      else if dataLen = 1 \<and> data ! 0 \<ge> 1 \<and> data ! 0 \<le> 16 then
        (if opcode \<noteq> OP_1 + data ! 0 - 1 then Err (scriptError ErrMinimalData) else Ok ())
      else if dataLen = 1 \<and> data ! 0 = 0x81 then
        (if opcode \<noteq> OP_1NEGATE then Err (scriptError ErrMinimalData) else Ok ())
      else if dataLen \<le> 75 then
        (if unat opcode \<noteq> dataLen then Err (scriptError ErrMinimalData) else Ok ())
      else if dataLen \<le> 255 then
        (if opcode \<noteq> OP_PUSHDATA1 then Err (scriptError ErrMinimalData) else Ok ())
      else if dataLen \<le> 65535 then
        (if opcode \<noteq> OP_PUSHDATA2 then Err (scriptError ErrMinimalData) else Ok ())
      else Ok ())"

text \<open>
  Hexadecimal output: \<open>fmtX\<close> is \<^verbatim>\<open>%x\<close> on a number with a minimal width, \<open>fmtXBytes\<close> is
  \<^verbatim>\<open>%x\<close> on a byte slice; with the width of \<^verbatim>\<open>%02x\<close> an empty slice prints as two zeros.
\<close>

definition hexDigit :: "nat \<Rightarrow> char" where
  "hexDigit d = (if d < 10 then char_of (48 + d) else char_of (87 + d))"

fun hexDigits :: "nat \<Rightarrow> string" where
  "hexDigits n = (if n < 16 then [hexDigit n] else hexDigits (n div 16) @ [hexDigit (n mod 16)])"

declare hexDigits.simps [simp del]

definition fmtX :: "nat \<Rightarrow> nat \<Rightarrow> string" where
  "fmtX width n = (let s = hexDigits n in replicate (width - length s) (CHR ''0'') @ s)"

definition fmtXBytes :: "byte list \<Rightarrow> string" where
  "fmtXBytes bs = concat (map (\<lambda>b. [hexDigit (unat b div 16), hexDigit (unat b mod 16)]) bs)"

definition pop_print :: "parsedOpcode \<Rightarrow> bool \<Rightarrow> string" where
  "pop_print pop oneline =
     (let opcodeName = op_name (pop_opcode pop); len = op_length (pop_opcode pop) in
      if oneline then
        let opcodeName' = (case map_of opcodeOnelineRepls opcodeName of
                             Some replName \<Rightarrow> replName | None \<Rightarrow> opcodeName)
        in if len = 1 then opcodeName' else fmtXBytes (pop_data pop)
      else if len = 1 then opcodeName
      else
        let l = length (pop_data pop);
            retString = (if len = -1 then opcodeName @ '' 0x'' @ fmtX 2 l
                         else if len = -2 then opcodeName @ '' 0x'' @ fmtX 4 l
                         else if len = -4 then opcodeName @ '' 0x'' @ fmtX 8 l
                         else opcodeName)
        in retString @ '' 0x'' @ (if pop_data pop = [] then ''00'' else fmtXBytes (pop_data pop)))"

text \<open>\<^verbatim>\<open>byte(l >> k & 0xff)\<close> for a length \<open>l\<close>.\<close>

definition lenByte :: "nat \<Rightarrow> nat \<Rightarrow> byte" where
  "lenByte l k = word_of_int (drop_bit k (int l) AND 0xff)"

definition pop_bytes :: "parsedOpcode \<Rightarrow> (script_error, byte list) res" where
  "pop_bytes pop =
     (let len = op_length (pop_opcode pop); l = length (pop_data pop) in
      if len = 1 then
        (if l \<noteq> 0 then Err (scriptError ErrInternal) else Ok [pop_value pop])
      else
        let retbytes = [pop_value pop] @
              (if len = -1 then [lenByte l 0]
               else if len = -2 then [lenByte l 0, lenByte l 8]
               else if len = -4 then [lenByte l 0, lenByte l 8, lenByte l 16, lenByte l 24]
               else []);
            nbytes = (if len = -1 \<or> len = -2 \<or> len = -4
                      then le_val (drop 1 retbytes) + int (length retbytes) else len);
            retbytes' = retbytes @ pop_data pop
        in if int (length retbytes') \<noteq> nbytes then Err (scriptError ErrInternal)
           else Ok retbytes')"

subsection \<open>The table is indexed by its values\<close>

lemmas opcode_tables = pushOpcodes_def operationOpcodes_def undefinedOpcodes_def

lemma OpcodeArray_values: "map op_value OpcodeArray = map word_of_nat [0..<256]"
  unfolding OpcodeArray_def opcode_tables mk_opcode_def by code_simp

lemma length_OpcodeArray [simp]: "length OpcodeArray = 256"
  using arg_cong[OF OpcodeArray_values, of length] by simp

lemma OpcodeArray_value [simp]: "op_value (OpcodeArray ! unat b) = b"
proof -
  have "op_value (OpcodeArray ! unat b) = map op_value OpcodeArray ! unat b" by simp
  also have "\<dots> = b" unfolding OpcodeArray_values by simp
  finally show ?thesis .
qed

definition allowed_length :: "opcode \<Rightarrow> bool" where
  "allowed_length op \<longleftrightarrow>
     op_length op = 1 \<or> op_length op \<in> {-1, -2, -4} \<or> (1 < op_length op \<and> op_length op \<le> 76)"

lemma OpcodeArray_lengths: "list_all allowed_length OpcodeArray"
  unfolding OpcodeArray_def opcode_tables mk_opcode_def allowed_length_def by simp

lemma OpcodeArray_length_cases:
  "op_length (OpcodeArray ! unat (b :: byte)) = 1 \<or> op_length (OpcodeArray ! unat b) \<in> {-1, -2, -4} \<or>
   (1 < op_length (OpcodeArray ! unat b) \<and> op_length (OpcodeArray ! unat b) \<le> 76)"
proof -
  have "allowed_length (OpcodeArray ! unat b)"
    using OpcodeArray_lengths unat_byte_lt[of b]
    unfolding list_all_length length_OpcodeArray by blast
  then show ?thesis by (simp add: allowed_length_def)
qed

end
