(* ===== verification/Script.thy ===== *)
theory Script
  imports Opcode
begin

text \<open>
  Parsing, printing and classifying scripts (\<^verbatim>\<open>pkg/chain/tx/script/script.go\<close>, without the
  signature hashes, which are in their own theory).

  \<open>ParseScriptTemplate\<close> returns the opcodes read so far together with its result, because some
  callers use the partial list when parsing failed.  A table entry of length zero would never
  advance the loop; the table has none.  The main lemmas are the two directions of the round
  trip between scripts and parsed opcodes.
\<close>

unbundle bit_operations_syntax

definition MaxOpsPerScript :: int where
  "MaxOpsPerScript = 201"

definition MaxPubKeysPerMultiSig :: int where
  "MaxPubKeysPerMultiSig = 20"

definition MaxScriptElementSize :: nat where
  "MaxScriptElementSize = 520"

subsection \<open>Parsing and printing\<close>

text \<open>The length operand of a PUSHDATA opcode, little endian, from the bytes after the opcode.\<close>

definition pushDataLen :: "int \<Rightarrow> byte list \<Rightarrow> int option" where
  "pushDataLen len rest =
     (if len = -1 then Some (uint (rest ! 0))
      else if len = -2 then Some (push_bit 8 (uint (rest ! 1)) OR uint (rest ! 0))
      else if len = -4 then
        Some (push_bit 24 (uint (rest ! 3)) OR push_bit 16 (uint (rest ! 2)) OR
              push_bit 8 (uint (rest ! 1)) OR uint (rest ! 0))
      else None)"

function parseLoop ::
  "opcode list \<Rightarrow> byte list \<Rightarrow> parsedOpcode list \<Rightarrow> (script_error, unit) res \<times> parsedOpcode list" where
  "parseLoop opcodes [] acc = (Ok (), acc)"
| "parseLoop opcodes (instr # rest) acc =
     (let op = opcodes ! unat instr; len = op_length op in
      if len = 1 then
        parseLoop opcodes rest (acc @ [\<lparr>pop_opcode = op, pop_data = []\<rparr>])
      else if len > 1 then
        (if int (length (instr # rest)) < len then (Err (scriptError ErrMalformedPush), acc)
         else parseLoop opcodes (drop (nat len - 1) rest)
                (acc @ [\<lparr>pop_opcode = op, pop_data = take (nat len - 1) rest\<rparr>]))
      else if len < 0 then
        (if int (length rest) < - len then (Err (scriptError ErrMalformedPush), acc)
         else case pushDataLen len rest of
                None \<Rightarrow> (Err (scriptError ErrMalformedPush), acc)
              | Some l \<Rightarrow>
                  let rest' = drop (nat (- len)) rest in
                  if i64 l > int (length rest') \<or> i64 l < 0 then (Err (scriptError ErrMalformedPush), acc)
                  else parseLoop opcodes (drop (nat (i64 l)) rest')
                         (acc @ [\<lparr>pop_opcode = op, pop_data = take (nat (i64 l)) rest'\<rparr>]))
      else (Hang, acc))"
  by pat_completeness auto
termination
  by (relation "measure (\<lambda>(opcodes, script, acc). length script)") auto

declare parseLoop.simps(2) [simp del]

definition ParseScriptTemplate ::
  "byte list \<Rightarrow> opcode list \<Rightarrow> (script_error, unit) res \<times> parsedOpcode list" where
  "ParseScriptTemplate script opcodes = parseLoop opcodes script []"

definition parseScript :: "byte list \<Rightarrow> (script_error, unit) res \<times> parsedOpcode list" where
  "parseScript script = ParseScriptTemplate script OpcodeArray"

text \<open>The result of a caller that drops the partial list on an error.\<close>

definition parsed :: "byte list \<Rightarrow> (script_error, parsedOpcode list) res" where
  "parsed script =
     (case parseScript script of
        (Ok _, pops) \<Rightarrow> Ok pops | (Err e, _) \<Rightarrow> Err e | (Panic, _) \<Rightarrow> Panic | (Hang, _) \<Rightarrow> Hang)"

fun unparseScript :: "parsedOpcode list \<Rightarrow> (script_error, byte list) res" where
  "unparseScript [] = Ok []"
| "unparseScript (pop # pops) =
     (case pop_bytes pop of
        Ok b \<Rightarrow> (case unparseScript pops of Ok script \<Rightarrow> Ok (b @ script) | r \<Rightarrow> r)
      | r \<Rightarrow> r)"

definition DisasmString :: "byte list \<Rightarrow> string \<times> (script_error, unit) res" where
  "DisasmString buf =
     (case parseScript buf of
        (r, opcodes) \<Rightarrow>
          let disbuf = concat (map (\<lambda>pop. pop_print pop True @ '' '') opcodes);
              disbuf' = (if length disbuf > 0 then take (length disbuf - 1) disbuf else disbuf);
              disbuf'' = (if r \<noteq> Ok () then disbuf' @ ''[error]'' else disbuf')
          in (disbuf'', r))"

subsection \<open>Classifying scripts\<close>

definition isSmallInt :: "opcode \<Rightarrow> bool" where
  "isSmallInt op \<longleftrightarrow> op_value op = OP_0 \<or> (op_value op \<ge> OP_1 \<and> op_value op \<le> OP_16)"

definition asSmallInt :: "opcode \<Rightarrow> int" where
  "asSmallInt op = (if op_value op = OP_0 then 0 else uint (op_value op - (OP_1 - 1)))"

definition canonicalPush :: "parsedOpcode \<Rightarrow> bool" where
  "canonicalPush pop =
     (let opcode = pop_value pop; data = pop_data pop; dataLen = length data in
      if opcode > OP_16 then True
      else if opcode < OP_PUSHDATA1 \<and> opcode > OP_0 \<and> (dataLen = 1 \<and> data ! 0 \<le> 16) then False
      else if opcode = OP_PUSHDATA1 \<and> dataLen < unat OP_PUSHDATA1 then False
      else if opcode = OP_PUSHDATA2 \<and> dataLen \<le> 0xff then False
      else if opcode = OP_PUSHDATA4 \<and> dataLen \<le> 0xffff then False
      else True)"

definition isScriptHash :: "parsedOpcode list \<Rightarrow> bool" where
  "isScriptHash pops \<longleftrightarrow> length pops = 3 \<and> pop_value (pops ! 0) = OP_HASH160 \<and>
     pop_value (pops ! 1) = OP_DATA_20 \<and> pop_value (pops ! 2) = OP_EQUAL"

definition isWitnessScriptHash :: "parsedOpcode list \<Rightarrow> bool" where
  "isWitnessScriptHash pops \<longleftrightarrow> length pops = 2 \<and> pop_value (pops ! 0) = OP_0 \<and>
     pop_value (pops ! 1) = OP_DATA_32"

definition isWitnessPubKeyHash :: "parsedOpcode list \<Rightarrow> bool" where
  "isWitnessPubKeyHash pops \<longleftrightarrow> length pops = 2 \<and> pop_value (pops ! 0) = OP_0 \<and>
     pop_value (pops ! 1) = OP_DATA_20"

definition isWitnessProgram :: "parsedOpcode list \<Rightarrow> bool" where
  "isWitnessProgram pops \<longleftrightarrow> length pops = 2 \<and> isSmallInt (pop_opcode (pops ! 0)) \<and>
     canonicalPush (pops ! 1) \<and>
     length (pop_data (pops ! 1)) \<ge> 2 \<and> length (pop_data (pops ! 1)) \<le> 40"

definition isPushOnly :: "parsedOpcode list \<Rightarrow> bool" where
  "isPushOnly pops \<longleftrightarrow> (\<forall>pop \<in> set pops. \<not> pop_value pop > OP_16)"

text \<open>The exported classifiers parse first and answer no on a malformed script.\<close>

definition parsed_is :: "(parsedOpcode list \<Rightarrow> bool) \<Rightarrow> byte list \<Rightarrow> bool" where
  "parsed_is P script = (case parseScript script of (Ok _, pops) \<Rightarrow> P pops | _ \<Rightarrow> False)"

definition IsPayToScriptHash :: "byte list \<Rightarrow> bool" where
  "IsPayToScriptHash script = parsed_is isScriptHash script"

definition IsPayToWitnessScriptHash :: "byte list \<Rightarrow> bool" where
  "IsPayToWitnessScriptHash script = parsed_is isWitnessScriptHash script"

definition IsPayToWitnessPubKeyHash :: "byte list \<Rightarrow> bool" where
  "IsPayToWitnessPubKeyHash script = parsed_is isWitnessPubKeyHash script"

definition IsWitnessProgram :: "byte list \<Rightarrow> bool" where
  "IsWitnessProgram script =
     (if length script < 4 \<or> length script > 42 then False else parsed_is isWitnessProgram script)"

definition IsPushOnlyScript :: "byte list \<Rightarrow> bool" where
  "IsPushOnlyScript script = parsed_is isPushOnly script"

definition IsUnspendable :: "byte list \<Rightarrow> bool" where
  "IsUnspendable pkScript =
     (case parseScript pkScript of
        (Ok _, pops) \<Rightarrow> length pops > 0 \<and> pop_value (pops ! 0) = OP_RETURN
      | _ \<Rightarrow> True)"

definition ExtractWitnessProgramInfo :: "byte list \<Rightarrow> (script_error, int \<times> byte list) res" where
  "ExtractWitnessProgramInfo script =
     (case parsed script of
        Ok pops \<Rightarrow>
          if \<not> isWitnessProgram pops then Err Errorf
          else Ok (asSmallInt (pop_opcode (pops ! 0)), pop_data (pops ! 1))
      | Err e \<Rightarrow> Err e | Panic \<Rightarrow> Panic | Hang \<Rightarrow> Hang)"

subsection \<open>Editing scripts\<close>

definition removeOpcode :: "parsedOpcode list \<Rightarrow> byte \<Rightarrow> parsedOpcode list" where
  "removeOpcode pkscript opcode = filter (\<lambda>pop. pop_value pop \<noteq> opcode) pkscript"

text \<open>\<^verbatim>\<open>bytes.Contains\<close>: some suffix starts with the pattern; the empty pattern always matches.\<close>

fun bytes_Contains :: "byte list \<Rightarrow> byte list \<Rightarrow> bool" where
  "bytes_Contains [] sub = (sub = [])"
| "bytes_Contains (b # bs) sub = (take (length sub) (b # bs) = sub \<or> bytes_Contains bs sub)"

definition removeOpcodeByData :: "parsedOpcode list \<Rightarrow> byte list \<Rightarrow> parsedOpcode list" where
  "removeOpcodeByData pkscript data =
     filter (\<lambda>pop. \<not> canonicalPush pop \<or> \<not> bytes_Contains (pop_data pop) data) pkscript"

subsection \<open>Counting signature operations\<close>

text \<open>The loop carries the opcode before the current one, if there is one.\<close>

fun sigOpLoop :: "parsedOpcode option \<Rightarrow> bool \<Rightarrow> parsedOpcode list \<Rightarrow> int \<Rightarrow> int" where
  "sigOpLoop prev precise [] nSigs = nSigs"
| "sigOpLoop prev precise (pop # pops) nSigs =
     sigOpLoop (Some pop) precise pops
       (if pop_value pop = OP_CHECKSIG \<or> pop_value pop = OP_CHECKSIGVERIFY then nSigs + 1
        else if pop_value pop = OP_CHECKMULTISIG \<or> pop_value pop = OP_CHECKMULTISIGVERIFY then
          (case prev of
             Some p \<Rightarrow>
               if precise \<and> pop_value p \<ge> OP_1 \<and> pop_value p \<le> OP_16
               then nSigs + asSmallInt (pop_opcode p) else nSigs + MaxPubKeysPerMultiSig
           | None \<Rightarrow> nSigs + MaxPubKeysPerMultiSig)
        else nSigs)"

definition getSigOpCount :: "parsedOpcode list \<Rightarrow> bool \<Rightarrow> int" where
  "getSigOpCount pops precise = sigOpLoop None precise pops 0"

definition GetSigOpCount :: "byte list \<Rightarrow> int" where
  "GetSigOpCount script = getSigOpCount (snd (parseScript script)) False"

definition GetPreciseSigOpCount :: "byte list \<Rightarrow> byte list \<Rightarrow> bool \<Rightarrow> int" where
  "GetPreciseSigOpCount scriptSig scriptPubKey bip16 =
     (let pops = snd (parseScript scriptPubKey) in
      if \<not> (bip16 \<and> isScriptHash pops) then getSigOpCount pops True
      else case parseScript scriptSig of
             (Ok _, sigPops) \<Rightarrow>
               if \<not> isPushOnly sigPops \<or> length sigPops = 0 then 0
               else
                 let shScript = pop_data (sigPops ! (length sigPops - 1)) in
                 if length shScript = 0 then 0
                 else getSigOpCount (snd (parseScript shScript)) True
           | _ \<Rightarrow> 0)"

definition payToWitnessPubKeyHashDataSize :: nat where
  "payToWitnessPubKeyHashDataSize = 20"

definition payToWitnessScriptHashDataSize :: nat where
  "payToWitnessScriptHashDataSize = 32"

definition getWitnessSigOps :: "byte list \<Rightarrow> byte list list \<Rightarrow> int" where
  "getWitnessSigOps pkScript witness =
     (case ExtractWitnessProgramInfo pkScript of
        Ok (witnessVersion, witnessProgram) \<Rightarrow>
          if witnessVersion = 0 then
            (if length witnessProgram = payToWitnessPubKeyHashDataSize then 1
             else if length witnessProgram = payToWitnessScriptHashDataSize \<and> length witness > 0 then
               getSigOpCount (snd (parseScript (witness ! (length witness - 1)))) True
             else 0)
          else 0
      | _ \<Rightarrow> 0)"

text \<open>The slice \<^verbatim>\<open>sigScript[1:]\<close> of an empty script is out of range.\<close>

definition GetWitnessSigOpCount :: "byte list \<Rightarrow> byte list \<Rightarrow> byte list list \<Rightarrow> (script_error, int) res" where
  "GetWitnessSigOpCount sigScript pkScript witness =
     (if IsWitnessProgram pkScript then Ok (getWitnessSigOps pkScript witness)
      else case parseScript sigScript of
             (Ok _, sigPops) \<Rightarrow>
               if IsPayToScriptHash pkScript \<and> isPushOnly sigPops then
                 (if length sigScript < 1 then Panic
                  else if IsWitnessProgram (drop 1 sigScript)
                  then Ok (getWitnessSigOps (drop 1 sigScript) witness) else Ok 0)
               else Ok 0
           | _ \<Rightarrow> Ok 0)"

subsection \<open>Lengths written and read\<close>

lemma lenByte_mod: "uint (lenByte l k) = (int l div 2 ^ k) mod 256"
  by (simp add: lenByte_def and_ff drop_bit_eq_div uint_byte_of_int)

lemma split256: "0 < m \<Longrightarrow> (x :: int) mod (256 * m) = x mod 256 + 256 * (x div 256 mod m)"
  by (simp add: zmod_zmult2_eq)

lemma le_val_lenBytes1: "le_val [lenByte l 0] = int l mod 256"
  by (simp add: lenByte_mod)

lemma le_val_lenBytes2: "le_val [lenByte l 0, lenByte l 8] = int l mod 65536"
  using split256[of 256 "int l"] by (simp add: lenByte_mod)

lemma le_val_lenBytes4:
  "le_val [lenByte l 0, lenByte l 8, lenByte l 16, lenByte l 24] = int l mod 4294967296"
proof -
  define x where "x = int l"
  have d: "x div 2 ^ 8 = x div 256" "x div 2 ^ 16 = x div 256 div 256"
    "x div 2 ^ 24 = x div 256 div 256 div 256"
    using zdiv_zmult2_eq[of 256 x 256] zdiv_zmult2_eq[of 256 x 65536] zdiv_zmult2_eq[of 256 "x div 256" 256]
    by simp_all
  have e: "4294967296 = 256 * (256 * (256 * (256 :: int)))" by simp
  have "x mod 4294967296 =
    x mod 256 + 256 * (x div 256 mod 256 + 256 * (x div 256 div 256 mod 256 +
      256 * (x div 256 div 256 div 256 mod 256)))"
    unfolding e by (subst split256, simp)+ (rule refl)
  then show ?thesis
    unfolding le_val.simps lenByte_mod x_def[symmetric] d by simp
qed

lemma le_val_or2: "le_val [a, b] = push_bit 8 (uint b) OR uint a"
  by (simp only: le_val_Cons_or) (simp add: or.commute)

lemma le_val_or4:
  "le_val [a, b, c, d] = push_bit 24 (uint d) OR push_bit 16 (uint c) OR push_bit 8 (uint b) OR uint a"
  by (simp only: le_val_Cons_or) (simp add: push_bit_or or.commute or.assoc or.left_commute)

lemma pushDataLen_take:
  assumes "n = 1 \<or> n = 2 \<or> n = 4" "n \<le> length rest"
  shows "pushDataLen (- int n) rest = Some (le_val (take n rest))"
proof -
  have "take 1 rest = [rest ! 0]" if "1 \<le> length rest"
    using that by (cases rest) simp_all
  moreover have "take 2 rest = [rest ! 0, rest ! 1]" if "2 \<le> length rest"
    using that by (cases rest; cases "tl rest") (auto simp: numeral_2_eq_2)
  moreover have "take 4 rest = [rest ! 0, rest ! 1, rest ! 2, rest ! 3]" if "4 \<le> length rest"
    using that by (intro nth_equalityI) (auto simp: less_Suc_eq numeral_eq_Suc)
  ultimately show ?thesis using assms
    by (auto simp: pushDataLen_def le_val_or2 le_val_or4 simp del: le_val.simps) simp
qed


subsection \<open>One opcode\<close>

text \<open>An opcode as the parser makes it: its entry is the entry of the table at its value.\<close>

definition from_table :: "parsedOpcode \<Rightarrow> bool" where
  "from_table pop \<longleftrightarrow> pop_opcode pop = OpcodeArray ! unat (pop_value pop)"

lemma from_table_mk [simp]: "from_table \<lparr>pop_opcode = OpcodeArray ! unat (b :: byte), pop_data = d\<rparr>"
  by (simp add: from_table_def)

lemma parse_short:
  "op_length (OpcodeArray ! unat b) = 1 \<Longrightarrow>
   parseLoop OpcodeArray (b # rest) acc =
     parseLoop OpcodeArray rest (acc @ [\<lparr>pop_opcode = OpcodeArray ! unat b, pop_data = []\<rparr>])"
  by (simp add: parseLoop.simps)

lemma parse_fixed:
  "op_length (OpcodeArray ! unat b) = int (Suc k) \<Longrightarrow> 0 < k \<Longrightarrow>
   parseLoop OpcodeArray (b # rest) acc =
     (if length rest < k then (Err (scriptError ErrMalformedPush), acc)
      else parseLoop OpcodeArray (drop k rest)
             (acc @ [\<lparr>pop_opcode = OpcodeArray ! unat b, pop_data = take k rest\<rparr>]))"
  by (auto simp: parseLoop.simps Let_def nat_add_distrib)

lemma parse_sized:
  assumes "op_length (OpcodeArray ! unat b) = - int n" "n = 1 \<or> n = 2 \<or> n = 4"
  shows "parseLoop OpcodeArray (b # rest) acc =
     (if length rest < n then (Err (scriptError ErrMalformedPush), acc)
      else let l = nat (le_val (take n rest)); rest' = drop n rest in
        if l > length rest' then (Err (scriptError ErrMalformedPush), acc)
        else parseLoop OpcodeArray (drop l rest')
               (acc @ [\<lparr>pop_opcode = OpcodeArray ! unat b, pop_data = take l rest'\<rparr>]))"
proof (cases "length rest < n")
  case True
  then show ?thesis using assms by (auto simp: parseLoop.simps Let_def)
next
  case False
  define l where "l = le_val (take n rest)"
  have "l < 256 ^ n" using le_val_lt[of "take n rest"] False by (simp add: l_def)
  then have "l < 2 ^ 63" using assms(2) by auto
  moreover have "0 \<le> l" by (simp add: l_def)
  ultimately have "i64 l = l" by simp
  then show ?thesis
    using False assms pushDataLen_take[OF assms(2), of rest] \<open>0 \<le> l\<close>
    by (auto simp: parseLoop.simps Let_def nat_less_iff zless_nat_conj zless_nat_eq_int_zless
        simp flip: l_def)
qed

text \<open>The three shapes of an opcode that serialises, with its bytes.\<close>

lemma pop_bytes_cases:
  assumes "pop_bytes pop = Ok b" "from_table pop"
  obtains (short) "op_length (pop_opcode pop) = 1" "pop_data pop = []" "b = [pop_value pop]"
  | (fixed) k where "op_length (pop_opcode pop) = int (Suc k)" "0 < k" "length (pop_data pop) = k"
      "b = pop_value pop # pop_data pop"
  | (sized) n lb where "op_length (pop_opcode pop) = - int n" "n = 1 \<or> n = 2 \<or> n = 4" "length lb = n"
      "le_val lb = int (length (pop_data pop))" "b = pop_value pop # lb @ pop_data pop"
proof -
  let ?len = "op_length (pop_opcode pop)" and ?l = "length (pop_data pop)"
  have "?len = 1 \<or> ?len \<in> {-1, -2, -4} \<or> (1 < ?len \<and> ?len \<le> 76)"
    using OpcodeArray_length_cases[of "pop_value pop"] assms(2) by (simp add: from_table_def)
  then consider "?len = 1" | "?len = -1" | "?len = -2" | "?len = -4" | "1 < ?len" by auto
  then show thesis
  proof cases
    case 1
    then show thesis using short assms(1) by (auto simp: pop_bytes_def split: if_splits)
  next
    case 2
    then show thesis using sized[of 1 "[lenByte ?l 0]"] assms(1) le_val_lenBytes1[of ?l]
      by (auto simp: pop_bytes_def Let_def split: if_splits)
  next
    case 3
    then show thesis using sized[of 2 "[lenByte ?l 0, lenByte ?l 8]"] assms(1)
      by (auto simp: pop_bytes_def Let_def split: if_splits)
  next
    case 4
    then show thesis
      using sized[of 4 "[lenByte ?l 0, lenByte ?l 8, lenByte ?l 16, lenByte ?l 24]"] assms(1)
      by (auto simp: pop_bytes_def Let_def split: if_splits)
  next
    case 5
    then show thesis using fixed[of "nat ?len - 1"] assms(1)
      by (auto simp: pop_bytes_def Let_def split: if_splits)
  qed
qed

lemma parse_pop_bytes:
  assumes "pop_bytes pop = Ok b" "from_table pop"
  shows "parseLoop OpcodeArray (b @ rest) acc = parseLoop OpcodeArray rest (acc @ [pop])"
proof -
  obtain op d where pop: "pop = \<lparr>pop_opcode = op, pop_data = d\<rparr>" by (cases pop)
  have t: "OpcodeArray ! unat (op_value op) = op" using assms(2) by (simp add: from_table_def pop)
  from assms show ?thesis
  proof (cases rule: pop_bytes_cases)
    case short
    then show ?thesis using parse_short[of "op_value op" rest acc] by (simp add: t pop)
  next
    case (fixed k)
    then show ?thesis using parse_fixed[of "op_value op" k "d @ rest" acc] by (simp add: t pop)
  next
    case (sized n lb)
    then show ?thesis
      using parse_sized[of "op_value op" n "lb @ d @ rest" acc] by (simp add: t pop)
  qed
qed


lemma lenBytes_unique:
  assumes "le_val lb = int l"
  shows "length lb = 1 \<Longrightarrow> lb = [lenByte l 0]"
    and "length lb = 2 \<Longrightarrow> lb = [lenByte l 0, lenByte l 8]"
    and "length lb = 4 \<Longrightarrow> lb = [lenByte l 0, lenByte l 8, lenByte l 16, lenByte l 24]"
proof -
  have lt: "int l < 256 ^ length lb" using le_val_lt[of lb] assms by simp
  show "lb = [lenByte l 0]" if "length lb = 1"
    using that assms lt le_val_lenBytes1[of l] by (intro le_val_inj) simp_all
  show "lb = [lenByte l 0, lenByte l 8]" if "length lb = 2"
    using that assms lt le_val_lenBytes2[of l] by (intro le_val_inj) simp_all
  show "lb = [lenByte l 0, lenByte l 8, lenByte l 16, lenByte l 24]" if "length lb = 4"
    using that assms lt le_val_lenBytes4[of l] by (intro le_val_inj) simp_all
qed

lemma pop_bytes_sized:
  assumes "op_length op = - int n" "n = 1 \<or> n = 2 \<or> n = 4" "length lb = n" "le_val lb = int (length d)"
  shows "pop_bytes \<lparr>pop_opcode = op, pop_data = d\<rparr> = Ok (op_value op # lb @ d)"
proof -
  note u = lenBytes_unique[OF assms(4)]
  from assms(2) show ?thesis
  proof (elim disjE)
    assume "n = 1"
    then show ?thesis using assms u(1) by (simp add: pop_bytes_def Let_def)
  next
    assume "n = 2"
    then show ?thesis using assms u(2) by (simp add: pop_bytes_def Let_def)
  next
    assume "n = 4"
    then show ?thesis using assms u(3) by (simp add: pop_bytes_def Let_def)
  qed
qed

subsection \<open>Whole scripts\<close>

text \<open>
  One iteration of the parser: it either stops with ErrMalformedPush, or reads one opcode whose
  serialisation is exactly the bytes consumed.
\<close>

lemma parse_step:
  "parseLoop OpcodeArray (b # rest) acc = (Err (scriptError ErrMalformedPush), acc) \<or>
   (\<exists>pop bs rest'. pop_bytes pop = Ok bs \<and> from_table pop \<and> b # rest = bs @ rest' \<and>
      length rest' < length (b # rest) \<and>
      parseLoop OpcodeArray (b # rest) acc = parseLoop OpcodeArray rest' (acc @ [pop]))"
proof -
  let ?op = "OpcodeArray ! unat b"
  consider (short) "op_length ?op = 1"
    | (fixed) k where "op_length ?op = int (Suc k)" "0 < k"
    | (sized) n where "op_length ?op = - int n" "n = 1 \<or> n = 2 \<or> n = 4"
  proof -
    have "op_length ?op = int (Suc (nat (op_length ?op) - 1))" if "1 < op_length ?op"
      using that by simp
    then show thesis
      using OpcodeArray_length_cases[of b] short sized[of 1] sized[of 2] sized[of 4]
        fixed[of "nat (op_length ?op) - 1"] by fastforce
  qed
  then show ?thesis
  proof cases
    case short
    then show ?thesis
      by (intro disjI2 exI[of _ "\<lparr>pop_opcode = ?op, pop_data = []\<rparr>"] exI[of _ "[b]"] exI[of _ rest])
        (simp add: parse_short pop_bytes_def)
  next
    case (fixed k)
    show ?thesis
    proof (cases "length rest < k")
      case False
      then have "pop_bytes \<lparr>pop_opcode = ?op, pop_data = take k rest\<rparr> = Ok (b # take k rest)"
        using fixed by (simp add: pop_bytes_def Let_def)
      then show ?thesis using False fixed
        by (intro disjI2 exI[of _ "\<lparr>pop_opcode = ?op, pop_data = take k rest\<rparr>"]
            exI[of _ "b # take k rest"] exI[of _ "drop k rest"]) (simp add: parse_fixed)
    qed (use fixed in \<open>simp add: parse_fixed\<close>)
  next
    case (sized n)
    define l where "l = nat (le_val (take n rest))"
    define d where "d = take l (drop n rest)"
    show ?thesis
    proof (cases "length rest < n \<or> l > length (drop n rest)")
      case False
      then have len: "length d = l" "n \<le> length rest" by (auto simp: d_def)
      then have "le_val (take n rest) = int (length d)" by (simp add: l_def)
      then have bs: "pop_bytes \<lparr>pop_opcode = ?op, pop_data = d\<rparr> = Ok (b # take n rest @ d)"
        using pop_bytes_sized[OF sized, of "take n rest" d] len by simp
      have split: "rest = take n rest @ d @ drop l (drop n rest)"
        by (simp add: d_def) (metis append_take_drop_id drop_drop add.commute)
      show ?thesis using False len bs split sized parse_sized[OF sized, of rest acc]
        by (intro disjI2 exI[of _ "\<lparr>pop_opcode = ?op, pop_data = d\<rparr>"]
            exI[of _ "b # take n rest @ d"] exI[of _ "drop l (drop n rest)"])
          (auto simp: Let_def l_def d_def)
    qed (use parse_sized[OF sized, of rest acc] in \<open>auto simp: l_def Let_def\<close>)
  qed
qed

lemma parseLoop_result:
  "\<exists>pops. snd (parseLoop OpcodeArray s acc) = acc @ pops \<and> list_all from_table pops \<and>
     (fst (parseLoop OpcodeArray s acc) = Ok () \<and> unparseScript pops = Ok s \<or>
      fst (parseLoop OpcodeArray s acc) = Err (scriptError ErrMalformedPush))"
proof (induction "length s" arbitrary: s acc rule: less_induct)
  case less
  show ?case
  proof (cases s)
    case Nil
    then show ?thesis by simp
  next
    case (Cons b rest)
    from parse_step[of b rest acc] show ?thesis
    proof (elim disjE exE conjE)
      fix pop bs rest'
      assume *: "pop_bytes pop = Ok bs" "from_table pop" "b # rest = bs @ rest'"
        "length rest' < length (b # rest)"
        "parseLoop OpcodeArray (b # rest) acc = parseLoop OpcodeArray rest' (acc @ [pop])"
      then obtain pops where IH: "snd (parseLoop OpcodeArray rest' (acc @ [pop])) = (acc @ [pop]) @ pops"
        "list_all from_table pops"
        "fst (parseLoop OpcodeArray rest' (acc @ [pop])) = Ok () \<and> unparseScript pops = Ok rest' \<or>
         fst (parseLoop OpcodeArray rest' (acc @ [pop])) = Err (scriptError ErrMalformedPush)"
        using less[of rest' "acc @ [pop]"] Cons by auto
      show ?thesis
        using IH * Cons by (intro exI[of _ "pop # pops"]) auto
    qed (simp add: Cons)
  qed
qed

lemma unparse_parseLoop:
  "list_all from_table pops \<Longrightarrow> unparseScript pops = Ok s \<Longrightarrow>
   parseLoop OpcodeArray s acc = (Ok (), acc @ pops)"
proof (induction pops arbitrary: s acc)
  case (Cons pop pops)
  from Cons.prems(2) obtain b s' where "pop_bytes pop = Ok b" "unparseScript pops = Ok s'" "s = b @ s'"
    by (auto split: res.splits)
  then show ?case using Cons by (simp add: parse_pop_bytes)
qed simp

lemma parseScriptI:
  "list_all from_table pops \<Longrightarrow> unparseScript pops = Ok s \<Longrightarrow> parseScript s = (Ok (), pops)"
  using unparse_parseLoop[of pops s "[]"] by (simp add: parseScript_def ParseScriptTemplate_def)

lemma parseScript_cases:
  obtains (ok) pops where "parseScript s = (Ok (), pops)" "list_all from_table pops" "unparseScript pops = Ok s"
  | (bad) pops where "parseScript s = (Err (scriptError ErrMalformedPush), pops)" "list_all from_table pops"
proof -
  obtain r pops' where r: "parseLoop OpcodeArray s [] = (r, pops')" by force
  then show thesis
    using parseLoop_result[of s "[]"] ok bad by (auto simp: parseScript_def ParseScriptTemplate_def)
qed

lemma parsed_no_abort: "parsed s \<noteq> Panic" "parsed s \<noteq> Hang"
  by (cases s rule: parseScript_cases; simp add: parsed_def)+

lemma parsed_Ok_iff: "parsed s = Ok pops \<longleftrightarrow> parseScript s = (Ok (), pops)"
  by (cases s rule: parseScript_cases) (auto simp: parsed_def)

subsection \<open>Properties of scripts\<close>

text \<open>
  Claim C34. Parsing is total and loses nothing: on every byte string the parser ends, either
  with ErrMalformedPush or with a list of opcodes that serialises back to exactly that byte
  string.
\<close>

theorem parseScript_unparse:
  "(\<exists>pops. parseScript s = (Ok (), pops) \<and> unparseScript pops = Ok s) \<or>
   (\<exists>pops. parseScript s = (Err (scriptError ErrMalformedPush), pops))"
  by (cases s rule: parseScript_cases) auto

text \<open>
  Claim C35. Serialising is undone by parsing: a list of opcodes taken from the table that
  serialises gives a script that parses, without error, to that list; so distinct lists of
  opcodes have distinct scripts.
\<close>

theorem unparseScript_parse:
  assumes "\<forall>pop \<in> set pops. pop_opcode pop = OpcodeArray ! unat (pop_value pop)"
    and "unparseScript pops = Ok s"
  shows "parseScript s = (Ok (), pops)"
  using assms by (intro parseScriptI) (simp_all add: list_all_iff from_table_def)

theorem unparseScript_parse_witness:
  "parseScript [OP_DATA_2, 7, 9, OP_DUP] =
     (Ok (), [\<lparr>pop_opcode = OpcodeArray ! 2, pop_data = [7, 9]\<rparr>,
              \<lparr>pop_opcode = OpcodeArray ! 118, pop_data = []\<rparr>])"
  by (rule unparseScript_parse)
    (simp_all add: OpcodeArray_def opcode_tables mk_opcode_def pop_bytes_def)

lemma asSmallInt_bounds:
  "op_value op \<ge> OP_1 \<Longrightarrow> op_value op \<le> OP_16 \<Longrightarrow> 1 \<le> asSmallInt op \<and> asSmallInt op \<le> 16"
proof -
  assume a: "op_value op \<ge> OP_1" "op_value op \<le> OP_16"
  then have "uint (op_value op - (OP_1 - 1)) = uint (op_value op) - 80"
    by (simp add: word_le_def uint_sub_if')
  then show ?thesis using a by (auto simp: asSmallInt_def word_le_def)
qed

lemma sigOpLoop_bounds:
  "0 \<le> n \<Longrightarrow> n \<le> n' \<Longrightarrow>
   0 \<le> sigOpLoop p True pops n \<and> sigOpLoop p True pops n \<le> sigOpLoop p False pops n' \<and>
   sigOpLoop p False pops n' \<le> n' + 20 * int (length pops)"
proof (induction pops arbitrary: p n n')
  case (Cons pop pops)
  define step where "step precise m =
    (if pop_value pop = OP_CHECKSIG \<or> pop_value pop = OP_CHECKSIGVERIFY then m + 1
     else if pop_value pop = OP_CHECKMULTISIG \<or> pop_value pop = OP_CHECKMULTISIGVERIFY then
       (case p of
          Some p \<Rightarrow>
            if precise \<and> pop_value p \<ge> OP_1 \<and> pop_value p \<le> OP_16
            then m + asSmallInt (pop_opcode p) else m + MaxPubKeysPerMultiSig
        | None \<Rightarrow> m + MaxPubKeysPerMultiSig)
     else m)" for precise m
  have eq: "sigOpLoop p precise (pop # pops) m = sigOpLoop (Some pop) precise pops (step precise m)"
    for precise m by (simp add: step_def)
  have "0 \<le> step True n \<and> step True n \<le> step False n' \<and> step False n' \<le> n' + 20"
    using Cons.prems asSmallInt_bounds
    by (auto simp: step_def MaxPubKeysPerMultiSig_def split: option.splits) (fastforce+)?
  then show ?case using Cons.IH[of "step True n" "step False n'" "Some pop"]
    by (simp only: eq) auto
qed simp

text \<open>
  The precise count of signature operations never exceeds the quick count, both are
  non-negative, and the quick count is at most twenty per opcode.
\<close>

theorem sigOpCount_bounds:
  "0 \<le> getSigOpCount pops True \<and> getSigOpCount pops True \<le> getSigOpCount pops False \<and>
   getSigOpCount pops False \<le> 20 * int (length pops)"
  using sigOpLoop_bounds[of 0 0 None pops] by (simp add: getSigOpCount_def)

text \<open>
  Counting the witness signature operations of an input panics when the output is
  pay-to-script-hash and the signature script is empty: the nested-program test slices the empty
  script from index one.
\<close>

theorem GetWitnessSigOpCount_empty_panics:
  assumes "IsPayToScriptHash pkScript"
  shows "GetWitnessSigOpCount [] pkScript witness = Panic"
proof -
  have "\<not> IsWitnessProgram pkScript"
    using assms by (cases pkScript rule: parseScript_cases)
      (auto simp: IsWitnessProgram_def IsPayToScriptHash_def parsed_is_def isScriptHash_def
        isWitnessProgram_def)
  then show ?thesis
    using assms by (simp add: GetWitnessSigOpCount_def parseScript_def ParseScriptTemplate_def isPushOnly_def)
qed

theorem GetWitnessSigOpCount_empty_panics_witness:
  "GetWitnessSigOpCount [] ([OP_HASH160, OP_DATA_20] @ replicate 20 0 @ [OP_EQUAL]) [] = Panic"
proof (rule GetWitnessSigOpCount_empty_panics)
  let ?pops = "[\<lparr>pop_opcode = OpcodeArray ! unat OP_HASH160, pop_data = []\<rparr>,
    \<lparr>pop_opcode = OpcodeArray ! unat OP_DATA_20, pop_data = replicate 20 0\<rparr>,
    \<lparr>pop_opcode = OpcodeArray ! unat OP_EQUAL, pop_data = []\<rparr>]"
  have "parseScript ([OP_HASH160, OP_DATA_20] @ replicate 20 0 @ [OP_EQUAL]) = (Ok (), ?pops)"
    by (rule parseScriptI)
      (simp only: list.pred_inject from_table_mk simp_thms,
       simp add: OpcodeArray_def opcode_tables mk_opcode_def pop_bytes_def)
  then show "IsPayToScriptHash ([OP_HASH160, OP_DATA_20] @ replicate 20 0 @ [OP_EQUAL])"
    by (simp add: IsPayToScriptHash_def parsed_is_def isScriptHash_def OpcodeArray_def opcode_tables
        mk_opcode_def)
qed

end
