(* ===== verification/Hash.thy ===== *)
theory Hash
  imports Prelude
begin

text \<open>
  The hash functions the node uses.  \<open>Sum256\<close> and \<open>Sum1\<close> are SHA-256 and SHA-1 of the Go
  standard library, written out; \<open>HashB\<close> and \<open>DoubleHashB\<close> are
  \<^verbatim>\<open>pkg/chain/hash/hashfuncs.go\<close>.  RIPEMD-160 comes from a third-party package and is a
  parameter of the definitions that use it.  A \<^verbatim>\<open>chainhash.Hash\<close> is a list of 32 bytes.
\<close>

unbundle bit_operations_syntax

type_synonym w32 = "32 word"

subsection \<open>Words and blocks\<close>

fun be_word :: "byte list \<Rightarrow> w32" where
  "be_word bs = foldl (\<lambda>acc b. push_bit 8 acc OR ucast b) 0 bs"

definition word_be :: "w32 \<Rightarrow> byte list" where
  "word_be w = [ucast (drop_bit 24 w), ucast (drop_bit 16 w), ucast (drop_bit 8 w), ucast w]"

function chunks :: "nat \<Rightarrow> 'a list \<Rightarrow> 'a list list" where
  "chunks n xs = (if xs = [] \<or> n = 0 then [] else take n xs # chunks n (drop n xs))"
  by pat_completeness auto
termination
  by (relation "measure (\<lambda>(n, xs). length xs)") auto

declare chunks.simps [simp del]

text \<open>Both functions pad with 0x80, zeros, and the length in bits as eight bytes, big endian.\<close>

definition sha_pad :: "byte list \<Rightarrow> byte list" where
  "sha_pad m =
     (let len = length m in
      m @ [0x80] @ replicate ((119 - len mod 64) mod 64) 0 @
      map (\<lambda>i. word_of_int (int (8 * len) div 256 ^ (7 - i))) [0..<8])"

definition rotr :: "nat \<Rightarrow> w32 \<Rightarrow> w32" where
  "rotr n x = drop_bit n x OR push_bit (32 - n) x"

definition rotl :: "nat \<Rightarrow> w32 \<Rightarrow> w32" where
  "rotl n x = push_bit n x OR drop_bit (32 - n) x"

subsection \<open>SHA-256\<close>

definition sha256_k :: "w32 list" where
  "sha256_k =
    [1116352408, 1899447441, 3049323471, 3921009573, 961987163, 1508970993, 2453635748,
     2870763221, 3624381080, 310598401, 607225278, 1426881987, 1925078388, 2162078206,
     2614888103, 3248222580, 3835390401, 4022224774, 264347078, 604807628, 770255983,
     1249150122, 1555081692, 1996064986, 2554220882, 2821834349, 2952996808, 3210313671,
     3336571891, 3584528711, 113926993, 338241895, 666307205, 773529912, 1294757372,
     1396182291, 1695183700, 1986661051, 2177026350, 2456956037, 2730485921, 2820302411,
     3259730800, 3345764771, 3516065817, 3600352804, 4094571909, 275423344, 430227734,
     506948616, 659060556, 883997877, 958139571, 1322822218, 1537002063, 1747873779,
     1955562222, 2024104815, 2227730452, 2361852424, 2428436474, 2756734187, 3204031479,
     3329325298]"

definition sha256_init :: "w32 list" where
  "sha256_init =
    [1779033703, 3144134277, 1013904242, 2773480762, 1359893119, 2600822924, 528734635,
     1541459225]"

text \<open>The message schedule, built in reverse: the newest word is the head.\<close>

primrec sha256_extend :: "nat \<Rightarrow> w32 list \<Rightarrow> w32 list" where
  "sha256_extend 0 ws = ws"
| "sha256_extend (Suc k) ws =
     (let s0 = (let x = ws ! 14 in rotr 7 x XOR rotr 18 x XOR drop_bit 3 x);
          s1 = (let x = ws ! 1 in rotr 17 x XOR rotr 19 x XOR drop_bit 10 x)
      in sha256_extend k ((ws ! 15 + s0 + ws ! 6 + s1) # ws))"

fun sha256_round :: "w32 list \<Rightarrow> w32 \<times> w32 \<Rightarrow> w32 list" where
  "sha256_round [a, b, c, d, e, f, g, h] (k, w) =
     (let s1 = rotr 6 e XOR rotr 11 e XOR rotr 25 e;
          ch = (e AND f) XOR (NOT e AND g);
          t1 = h + s1 + ch + k + w;
          s0 = rotr 2 a XOR rotr 13 a XOR rotr 22 a;
          maj = (a AND b) XOR (a AND c) XOR (b AND c)
      in [t1 + s0 + maj, a, b, c, d + t1, e, f, g])"
| "sha256_round st _ = st"

definition sha256_block :: "w32 list \<Rightarrow> byte list \<Rightarrow> w32 list" where
  "sha256_block st blk =
     (let ws = rev (sha256_extend 48 (rev (map be_word (chunks 4 blk))))
      in map2 (+) st (foldl sha256_round st (zip sha256_k ws)))"

definition Sum256 :: "byte list \<Rightarrow> byte list" where
  "Sum256 m = concat (map word_be (foldl sha256_block sha256_init (chunks 64 (sha_pad m))))"

subsection \<open>SHA-1\<close>

primrec sha1_extend :: "nat \<Rightarrow> w32 list \<Rightarrow> w32 list" where
  "sha1_extend 0 ws = ws"
| "sha1_extend (Suc k) ws =
     sha1_extend k (rotl 1 (ws ! 2 XOR ws ! 7 XOR ws ! 13 XOR ws ! 15) # ws)"

fun sha1_round :: "w32 list \<Rightarrow> nat \<times> w32 \<Rightarrow> w32 list" where
  "sha1_round [a, b, c, d, e] (i, w) =
     (let (f, k) =
        (if i < 20 then ((b AND c) OR (NOT b AND d), 1518500249)
         else if i < 40 then (b XOR c XOR d, 1859775393)
         else if i < 60 then ((b AND c) OR (b AND d) OR (c AND d), 2400959708)
         else (b XOR c XOR d, 3395469782))
      in [rotl 5 a + f + e + k + w, a, rotl 30 b, c, d])"
| "sha1_round st _ = st"

definition sha1_block :: "w32 list \<Rightarrow> byte list \<Rightarrow> w32 list" where
  "sha1_block st blk =
     (let ws = rev (sha1_extend 64 (rev (map be_word (chunks 4 blk))))
      in map2 (+) st (foldl sha1_round st (zip [0..<80] ws)))"

definition Sum1 :: "byte list \<Rightarrow> byte list" where
  "Sum1 m = concat (map word_be
     (foldl sha1_block [1732584193, 4023233417, 2562383102, 271733878, 3285377520]
       (chunks 64 (sha_pad m))))"

subsection \<open>Hashes of the chain\<close>

definition HashSize :: nat where
  "HashSize = 32"

definition HashB :: "byte list \<Rightarrow> byte list" where
  "HashB b = Sum256 b"

definition HashH :: "byte list \<Rightarrow> byte list" where
  "HashH b = Sum256 b"

definition DoubleHashB :: "byte list \<Rightarrow> byte list" where
  "DoubleHashB b = (let first = Sum256 b; second = Sum256 first in second)"

definition DoubleHashH :: "byte list \<Rightarrow> byte list" where
  "DoubleHashH b = (let first = Sum256 b in Sum256 first)"

subsection \<open>Lengths\<close>

lemma length_sha256_round: "length st = 8 \<Longrightarrow> length (sha256_round st x) = 8"
  by (cases "(st, x)" rule: sha256_round.cases) (auto simp: Let_def)

lemma length_sha256_rounds: "length st = 8 \<Longrightarrow> length (foldl sha256_round st xs) = 8"
  by (induction xs arbitrary: st) (simp_all add: length_sha256_round)

lemma length_sha256_blocks: "length st = 8 \<Longrightarrow> length (foldl sha256_block st bs) = 8"
  by (induction bs arbitrary: st) (simp_all add: sha256_block_def Let_def length_sha256_rounds)

lemma length_word_be [simp]: "length (word_be w) = 4"
  by (simp add: word_be_def)

lemma length_Sum256 [simp]: "length (Sum256 m) = 32"
  by (simp add: Sum256_def length_concat comp_def sum_list_triv length_sha256_blocks sha256_init_def)

lemma length_sha1_rounds: "length st = 5 \<Longrightarrow> length (foldl sha1_round st xs) = 5"
proof (induction xs arbitrary: st)
  case (Cons x xs)
  have "length (sha1_round st x) = 5"
    using Cons.prems by (cases "(st, x)" rule: sha1_round.cases) (auto simp: Let_def split: prod.split)
  then show ?case using Cons.IH by simp
qed simp

lemma length_Sum1 [simp]: "length (Sum1 m) = 20"
proof -
  have "length (foldl sha1_block st bs) = 5" if "length st = 5" for st bs
    using that by (induction bs arbitrary: st) (simp_all add: sha1_block_def Let_def length_sha1_rounds)
  then show ?thesis by (simp add: Sum1_def length_concat comp_def sum_list_triv)
qed

lemma length_DoubleHash [simp]: "length (DoubleHashB m) = 32" "length (DoubleHashH m) = 32"
  by (simp_all add: DoubleHashB_def DoubleHashH_def)

lemma DoubleHash_same: "DoubleHashB m = DoubleHashH m"
  by (simp add: DoubleHashB_def DoubleHashH_def)

end
