(* ===== verification/Wire.thy ===== *)
theory Wire
  imports Hash
begin

text \<open>
  The wire encoding of integers, byte strings and transactions
  (\<^verbatim>\<open>pkg/chain/wire/common.go\<close>, \<^verbatim>\<open>msgtx.go\<close>).

  A reader is an operation on the bytes that remain; a writer to a memory buffer cannot fail and
  is the list of bytes it appends.  The buffer pools and the single backing array of the scripts
  of a decoded transaction only concern allocation and are left out.  Version, Index, Sequence
  and LockTime are 32-bit words, Value is a 64-bit word.

  The lemmas give the round trip of every encoder with its decoder on a longer input, the size
  functions as the length of the encoding, and the canonicity of variable length integers.
\<close>

unbundle bit_operations_syntax

datatype wire_error = EOF | ErrUnexpectedEOF | messageError

type_synonym 'a reader = "(byte list, wire_error, 'a) op"

subsection \<open>Fixed-width integers\<close>

text \<open>\<^verbatim>\<open>io.ReadFull\<close> into a buffer of the given size.\<close>

definition ReadFull :: "nat \<Rightarrow> byte list reader" where
  "ReadFull n r =
     (if n \<le> length r then (Ok (take n r), drop n r)
      else if r = [] then (Err EOF, []) else (Err ErrUnexpectedEOF, []))"

fun le_enc :: "nat \<Rightarrow> int \<Rightarrow> byte list" where
  "le_enc 0 x = []"
| "le_enc (Suc n) x = word_of_int (x mod 256) # le_enc n (x div 256)"

definition Uint8 :: "byte reader" where
  "Uint8 = bnd (ReadFull 1) (\<lambda>buf. ret (buf ! 0))"

definition Uint16 :: "16 word reader" where
  "Uint16 = bnd (ReadFull 2) (\<lambda>buf. ret (word_of_int (le_val buf)))"

definition Uint32 :: "32 word reader" where
  "Uint32 = bnd (ReadFull 4) (\<lambda>buf. ret (word_of_int (le_val buf)))"

definition Uint64 :: "64 word reader" where
  "Uint64 = bnd (ReadFull 8) (\<lambda>buf. ret (word_of_int (le_val buf)))"

definition PutUint8 :: "byte \<Rightarrow> byte list" where
  "PutUint8 val = [val]"

definition PutUint16 :: "16 word \<Rightarrow> byte list" where
  "PutUint16 val = le_enc 2 (uint val)"

definition PutUint32 :: "32 word \<Rightarrow> byte list" where
  "PutUint32 val = le_enc 4 (uint val)"

definition PutUint64 :: "64 word \<Rightarrow> byte list" where
  "PutUint64 val = le_enc 8 (uint val)"

subsection \<open>Variable length integers and byte strings\<close>

definition ReadVarInt :: "64 word reader" where
  "ReadVarInt =
     bnd Uint8 (\<lambda>discriminant.
       if discriminant = 0xff then
         bnd Uint64 (\<lambda>rv. if rv < 0x100000000 then throw messageError else ret rv)
       else if discriminant = 0xfe then
         bnd Uint32 (\<lambda>sv. let rv = ucast sv in
           if rv < (0x10000 :: 64 word) then throw messageError else ret rv)
       else if discriminant = 0xfd then
         bnd Uint16 (\<lambda>sv. let rv = ucast sv in
           if rv < (0xfd :: 64 word) then throw messageError else ret rv)
       else ret (ucast discriminant))"

definition WriteVarInt :: "64 word \<Rightarrow> byte list" where
  "WriteVarInt val =
     (if val < 0xfd then PutUint8 (ucast val)
      else if val \<le> 0xffff then PutUint8 0xfd @ PutUint16 (ucast val)
      else if val \<le> 0xffffffff then PutUint8 0xfe @ PutUint32 (ucast val)
      else PutUint8 0xff @ PutUint64 val)"

definition VarIntSerializeSize :: "64 word \<Rightarrow> nat" where
  "VarIntSerializeSize val =
     (if val < 0xfd then 1 else if val \<le> 0xffff then 3 else if val \<le> 0xffffffff then 5 else 9)"

definition MaxMessagePayload :: nat where
  "MaxMessagePayload = 1024 * 1024 * 32"

definition ReadVarBytes :: "nat \<Rightarrow> byte list reader" where
  "ReadVarBytes maxAllowed =
     bnd ReadVarInt (\<lambda>count.
       if unat count > maxAllowed then throw messageError else ReadFull (unat count))"

definition WriteVarBytes :: "byte list \<Rightarrow> byte list" where
  "WriteVarBytes bytes = WriteVarInt (word_of_nat (length bytes)) @ bytes"

text \<open>Go strings are byte strings.\<close>

definition ReadVarString :: "byte list reader" where
  "ReadVarString =
     bnd ReadVarInt (\<lambda>count.
       if unat count > MaxMessagePayload then throw messageError else ReadFull (unat count))"

definition WriteVarString :: "byte list \<Rightarrow> byte list" where
  "WriteVarString str = WriteVarInt (word_of_nat (length str)) @ str"

subsection \<open>Transactions\<close>

datatype MessageEncoding = BaseEncoding | WitnessEncoding

record OutPoint =
  Hash :: "byte list"
  Index :: "32 word"

type_synonym TxWitness = "byte list list"

record TxIn =
  PreviousOutPoint :: OutPoint
  SignatureScript :: "byte list"
  Witness :: TxWitness
  Sequence :: "32 word"

record TxOut =
  Value :: "64 word"
  PkScript :: "byte list"

record MsgTx =
  Version :: "32 word"
  txIns :: "TxIn list"
  txOuts :: "TxOut list"
  LockTime :: "32 word"

definition MaxTxInSequenceNum :: "32 word" where
  "MaxTxInSequenceNum = 0xffffffff"

definition NewTxIn :: "OutPoint \<Rightarrow> byte list \<Rightarrow> TxWitness \<Rightarrow> TxIn" where
  "NewTxIn prevOut signatureScript witness =
     \<lparr>PreviousOutPoint = prevOut, SignatureScript = signatureScript, Witness = witness,
      Sequence = MaxTxInSequenceNum\<rparr>"

definition NewTxOut :: "64 word \<Rightarrow> byte list \<Rightarrow> TxOut" where
  "NewTxOut value pkScript = \<lparr>Value = value, PkScript = pkScript\<rparr>"

definition NewMsgTx :: "32 word \<Rightarrow> MsgTx" where
  "NewMsgTx version = \<lparr>Version = version, txIns = [], txOuts = [], LockTime = 0\<rparr>"

definition AddTxIn :: "MsgTx \<Rightarrow> TxIn \<Rightarrow> MsgTx" where
  "AddTxIn msg ti = msg\<lparr>txIns := txIns msg @ [ti]\<rparr>"

definition AddTxOut :: "MsgTx \<Rightarrow> TxOut \<Rightarrow> MsgTx" where
  "AddTxOut msg to = msg\<lparr>txOuts := txOuts msg @ [to]\<rparr>"

definition minTxInPayload :: nat where
  "minTxInPayload = 9 + HashSize"

definition maxTxInPerMessage :: nat where
  "maxTxInPerMessage = MaxMessagePayload div minTxInPayload + 1"

definition MinTxOutPayload :: nat where
  "MinTxOutPayload = 9"

definition maxTxOutPerMessage :: nat where
  "maxTxOutPerMessage = MaxMessagePayload div MinTxOutPayload + 1"

definition maxWitnessItemsPerInput :: nat where
  "maxWitnessItemsPerInput = 500000"

definition maxWitnessItemSize :: nat where
  "maxWitnessItemSize = 11000"

definition writeOutPoint :: "OutPoint \<Rightarrow> byte list" where
  "writeOutPoint op = Hash op @ PutUint32 (Index op)"

definition readOutPoint :: "OutPoint reader" where
  "readOutPoint = bnd (ReadFull HashSize) (\<lambda>h. bnd Uint32 (\<lambda>i. ret \<lparr>Hash = h, Index = i\<rparr>))"

definition readScript :: "nat \<Rightarrow> byte list reader" where
  "readScript maxAllowed =
     bnd ReadVarInt (\<lambda>count.
       if unat count > maxAllowed then throw messageError else ReadFull (unat count))"

definition readTxIn :: "TxIn reader" where
  "readTxIn = bnd readOutPoint (\<lambda>op. bnd (readScript MaxMessagePayload) (\<lambda>script. bnd Uint32 (\<lambda>seq.
     ret \<lparr>PreviousOutPoint = op, SignatureScript = script, Witness = [], Sequence = seq\<rparr>)))"

definition writeTxIn :: "TxIn \<Rightarrow> byte list" where
  "writeTxIn ti = writeOutPoint (PreviousOutPoint ti) @ WriteVarBytes (SignatureScript ti) @
     PutUint32 (Sequence ti)"

definition readTxOut :: "TxOut reader" where
  "readTxOut = bnd Uint64 (\<lambda>v. bnd (readScript MaxMessagePayload) (\<lambda>script.
     ret \<lparr>Value = v, PkScript = script\<rparr>))"

definition WriteTxOut :: "TxOut \<Rightarrow> byte list" where
  "WriteTxOut to = PutUint64 (Value to) @ WriteVarBytes (PkScript to)"

definition writeTxWitness :: "TxWitness \<Rightarrow> byte list" where
  "writeTxWitness wit = WriteVarInt (word_of_nat (length wit)) @ concat (map WriteVarBytes wit)"

definition HasWitness :: "MsgTx \<Rightarrow> bool" where
  "HasWitness msg \<longleftrightarrow> (\<exists>ti \<in> set (txIns msg). length (Witness ti) \<noteq> 0)"

definition BtcEncode :: "MessageEncoding \<Rightarrow> MsgTx \<Rightarrow> byte list" where
  "BtcEncode enc msg =
     (let doWitness = (enc = WitnessEncoding \<and> HasWitness msg) in
      PutUint32 (Version msg) @
      (if doWitness then [0x00, 0x01] else []) @
      WriteVarInt (word_of_nat (length (txIns msg))) @
      concat (map writeTxIn (txIns msg)) @
      WriteVarInt (word_of_nat (length (txOuts msg))) @
      concat (map WriteTxOut (txOuts msg)) @
      (if doWitness then concat (map (\<lambda>ti. writeTxWitness (Witness ti)) (txIns msg)) else []) @
      PutUint32 (LockTime msg))"

text \<open>A loop that reads \<open>n\<close> elements.\<close>

primrec readN :: "nat \<Rightarrow> 'a reader \<Rightarrow> 'a list reader" where
  "readN 0 m = ret []"
| "readN (Suc n) m = bnd m (\<lambda>x. bnd (readN n m) (\<lambda>xs. ret (x # xs)))"

definition readWitness :: "TxWitness reader" where
  "readWitness = bnd ReadVarInt (\<lambda>witCount.
     if unat witCount > maxWitnessItemsPerInput then throw messageError
     else readN (unat witCount) (readScript maxWitnessItemSize))"

fun readWitnesses :: "TxIn list \<Rightarrow> TxIn list reader" where
  "readWitnesses [] = ret []"
| "readWitnesses (ti # tis) = bnd readWitness (\<lambda>wit. bnd (readWitnesses tis) (\<lambda>tis'.
     ret (ti\<lparr>Witness := wit\<rparr> # tis')))"

text \<open>The witnesses follow the outputs only behind the witness flag.\<close>

definition readWitnessSection :: "byte \<Rightarrow> MessageEncoding \<Rightarrow> TxIn list \<Rightarrow> TxIn list reader" where
  "readWitnessSection flag enc tis =
     (if flag \<noteq> 0 \<and> enc = WitnessEncoding then readWitnesses tis else ret tis)"

text \<open>The input count with the witness marker, if there is one: the flag byte and the count.\<close>

definition readTxInCount :: "MessageEncoding \<Rightarrow> (byte \<times> 64 word) reader" where
  "readTxInCount enc =
     bnd ReadVarInt (\<lambda>count.
       if count = 0 \<and> enc = WitnessEncoding then
         bnd (ReadFull 1) (\<lambda>flag.
           if flag ! 0 \<noteq> 0x01 then throw messageError
           else bnd ReadVarInt (\<lambda>count'. ret (flag ! 0, count')))
       else ret (0, count))"

definition BtcDecode :: "MessageEncoding \<Rightarrow> MsgTx reader" where
  "BtcDecode enc =
     bnd Uint32 (\<lambda>version.
     bnd (readTxInCount enc) (\<lambda>(flag, count).
       if unat count > maxTxInPerMessage then throw messageError
       else bnd (readN (unat count) readTxIn) (\<lambda>tis.
         bnd ReadVarInt (\<lambda>count'.
           if unat count' > maxTxOutPerMessage then throw messageError
           else bnd (readN (unat count') readTxOut) (\<lambda>tos.
             bnd (readWitnessSection flag enc tis) (\<lambda>tis'.
             bnd Uint32 (\<lambda>lockTime.
               ret \<lparr>Version = version, txIns = tis', txOuts = tos, LockTime = lockTime\<rparr>)))))))"

definition Serialize :: "MsgTx \<Rightarrow> byte list" where
  "Serialize msg = BtcEncode WitnessEncoding msg"

definition SerializeNoWitness :: "MsgTx \<Rightarrow> byte list" where
  "SerializeNoWitness msg = BtcEncode BaseEncoding msg"

definition Deserialize :: "MsgTx reader" where
  "Deserialize = BtcDecode WitnessEncoding"

definition DeserializeNoWitness :: "MsgTx reader" where
  "DeserializeNoWitness = BtcDecode BaseEncoding"

definition TxHash :: "MsgTx \<Rightarrow> byte list" where
  "TxHash msg = DoubleHashH (SerializeNoWitness msg)"

definition WitnessHash :: "MsgTx \<Rightarrow> byte list" where
  "WitnessHash msg = (if HasWitness msg then DoubleHashH (Serialize msg) else TxHash msg)"

subsection \<open>Sizes\<close>

definition TxIn_SerializeSize :: "TxIn \<Rightarrow> nat" where
  "TxIn_SerializeSize t =
     40 + VarIntSerializeSize (word_of_nat (length (SignatureScript t))) + length (SignatureScript t)"

definition TxOut_SerializeSize :: "TxOut \<Rightarrow> nat" where
  "TxOut_SerializeSize t =
     8 + VarIntSerializeSize (word_of_nat (length (PkScript t))) + length (PkScript t)"

definition TxWitness_SerializeSize :: "TxWitness \<Rightarrow> nat" where
  "TxWitness_SerializeSize t =
     foldl (\<lambda>n witItem. n + VarIntSerializeSize (word_of_nat (length witItem)) + length witItem)
       (VarIntSerializeSize (word_of_nat (length t))) t"

definition baseSize :: "MsgTx \<Rightarrow> nat" where
  "baseSize msg =
     8 + VarIntSerializeSize (word_of_nat (length (txIns msg))) +
     VarIntSerializeSize (word_of_nat (length (txOuts msg))) +
     sum_list (map TxIn_SerializeSize (txIns msg)) +
     sum_list (map TxOut_SerializeSize (txOuts msg))"

definition SerializeSize :: "MsgTx \<Rightarrow> nat" where
  "SerializeSize msg =
     baseSize msg +
     (if HasWitness msg
      then 2 + sum_list (map (\<lambda>ti. TxWitness_SerializeSize (Witness ti)) (txIns msg)) else 0)"

definition SerializeSizeStripped :: "MsgTx \<Rightarrow> nat" where
  "SerializeSizeStripped msg = baseSize msg"

subsection \<open>Codecs\<close>

locale codec =
  fixes encode :: "'a \<Rightarrow> byte list"
    and decode :: "'a reader"
    and wf :: "'a \<Rightarrow> bool"
  assumes decode_encode: "wf x \<Longrightarrow> decode (encode x @ rest) = (Ok x, rest)"
begin

lemma prefix_free: "wf x \<Longrightarrow> wf y \<Longrightarrow> encode x @ r = encode y @ r' \<Longrightarrow> x = y \<and> r = r'"
  by (metis decode_encode prod.inject res.inject(1))

lemma encode_inj: "inj_on encode {x. wf x}"
  by (rule inj_onI) (use prefix_free[where r = "[]" and r' = "[]"] in simp)

lemma bnd_decode [simp]: "wf x \<Longrightarrow> bnd decode f (encode x @ rest) = f x rest"
  by (simp add: bnd_def decode_encode)

lemma decode_many:
  "list_all wf xs \<Longrightarrow> readN (length xs) decode (concat (map encode xs) @ rest) = (Ok xs, rest)"
  by (induction xs) (simp_all add: op_simps)

end

locale canonical_codec = codec +
  assumes encode_decode: "decode r = (Ok x, rest) \<Longrightarrow> r = encode x @ rest \<and> wf x"
begin

lemma accepts_iff: "decode r = (Ok x, rest) \<longleftrightarrow> r = encode x @ rest \<and> wf x"
  using encode_decode decode_encode by blast

lemma accepts_many:
  "readN n decode r = (Ok xs, rest) \<Longrightarrow>
   r = concat (map encode xs) @ rest \<and> list_all wf xs \<and> length xs = n"
proof (induction n arbitrary: r xs)
  case (Suc n)
  then obtain y s ys where y: "decode r = (Ok y, s)" and ys: "readN n decode s = (Ok ys, rest)"
    and "xs = y # ys"
    by (auto simp: bnd_eq_Ok_iff ret_def)
  with Suc.IH[OF ys] encode_decode[OF y] show ?case by simp
qed (simp add: ret_def)

lemma many_iff:
  "readN n decode r = (Ok xs, rest) \<longleftrightarrow>
   r = concat (map encode xs) @ rest \<and> list_all wf xs \<and> length xs = n"
  using accepts_many decode_many by blast

end

subsection \<open>Integers\<close>

lemma length_le_enc [simp]: "length (le_enc n x) = n"
  by (induction n arbitrary: x) simp_all

lemma le_val_le_enc: "le_val (le_enc n x) = x mod 256 ^ n"
proof (induction n arbitrary: x)
  case (Suc n)
  have "x mod (256 * 256 ^ n) = 256 * (x div 256 mod 256 ^ n) + x mod 256"
    by (rule zmod_zmult2_eq) simp
  with Suc show ?case by (simp add: uint_byte_of_int)
qed simp

lemma le_enc_le_val: "length bs = n \<Longrightarrow> le_enc n (le_val bs) = bs"
  using le_val_inj[of "le_enc n (le_val bs)" bs] le_val_lt[of bs]
  by (simp add: le_val_le_enc)

lemma ReadFull_append [simp]: "length bs = n \<Longrightarrow> ReadFull n (bs @ rest) = (Ok bs, rest)"
  by (simp add: ReadFull_def)

lemma ReadFull_Ok_iff: "ReadFull n r = (Ok bs, rest) \<longleftrightarrow> r = bs @ rest \<and> length bs = n"
  by (auto simp: ReadFull_def split: if_splits)

lemma bnd_ReadFull [simp]: "length bs = n \<Longrightarrow> bnd (ReadFull n) f (bs @ rest) = f bs rest"
  by (simp add: bnd_def)

lemma le_codec:
  assumes "LENGTH('w :: len) = 8 * n"
  shows "canonical_codec (\<lambda>v :: 'w word. le_enc n (uint v))
     (bnd (ReadFull n) (\<lambda>buf. ret (word_of_int (le_val buf)))) (\<lambda>_. True)"
proof unfold_locales
  have pow: "(256 :: int) ^ n = 2 ^ LENGTH('w)" by (simp add: assms power_mult)
  fix x :: "'w word" and rest
  show "bnd (ReadFull n) (\<lambda>buf. ret (word_of_int (le_val buf))) (le_enc n (uint x) @ rest) = (Ok x, rest)"
    by (simp add: op_simps le_val_le_enc pow)
next
  have pow: "(256 :: int) ^ n = 2 ^ LENGTH('w)" by (simp add: assms power_mult)
  fix r and x :: "'w word" and rest
  assume "bnd (ReadFull n) (\<lambda>buf. ret (word_of_int (le_val buf))) r = (Ok x, rest)"
  then obtain bs where "r = bs @ rest" "length bs = n" "x = word_of_int (le_val bs)"
    by (auto simp: bnd_eq_Ok_iff ReadFull_Ok_iff ret_def)
  moreover have "uint (word_of_int (le_val bs) :: 'w word) = le_val bs" if "length bs = n" for bs
    using le_val_lt[of bs] that pow by (simp add: uint_word_of_int)
  ultimately show "r = le_enc n (uint x) @ rest \<and> True" by (simp add: le_enc_le_val)
qed

interpretation u8: canonical_codec PutUint8 Uint8 "\<lambda>_. True"
proof unfold_locales
  show "Uint8 (PutUint8 x @ rest) = (Ok x, rest)" for x rest
    by (simp add: Uint8_def PutUint8_def bnd_def ReadFull_def ret_def)
  show "r = PutUint8 x @ rest \<and> True" if "Uint8 r = (Ok x, rest)" for r x rest
    using that
    by (auto simp: Uint8_def PutUint8_def bnd_eq_Ok_iff ReadFull_Ok_iff ret_def length_Suc_conv)
qed

interpretation u16: canonical_codec PutUint16 Uint16 "\<lambda>_. True"
  unfolding PutUint16_def Uint16_def by (rule le_codec) simp

interpretation u32: canonical_codec PutUint32 Uint32 "\<lambda>_. True"
  unfolding PutUint32_def Uint32_def by (rule le_codec) simp

interpretation u64: canonical_codec PutUint64 Uint64 "\<lambda>_. True"
  unfolding PutUint64_def Uint64_def by (rule le_codec) simp


subsection \<open>Variable length integers and byte strings\<close>

lemma word_less_uint: "(a :: 64 word) < b \<longleftrightarrow> uint a < uint b"
  by (simp add: word_less_def)

lemma ucast_small:
  fixes w :: "64 word"
  assumes "uint w < 2 ^ LENGTH('b :: len)"
  shows "uint (ucast w :: 'b word) = uint w"
  using assms by (simp add: unsigned_ucast_eq take_bit_int_eq_self)

lemma ucast_up:
  fixes w :: "'b :: len word"
  assumes "LENGTH('b) \<le> 64"
  shows "uint (ucast w :: 64 word) = uint w"
proof -
  have "uint w < 2 ^ LENGTH('b)" by (rule uint_lt2p)
  also have "(2 :: int) ^ LENGTH('b) \<le> 2 ^ 64" using assms by (intro power_increasing) simp_all
  finally show ?thesis by (simp add: unsigned_ucast_eq take_bit_int_eq_self)
qed

lemma ucast_down_up:
  fixes w :: "64 word"
  assumes "uint w < 2 ^ LENGTH('b :: len)" "LENGTH('b) \<le> 64"
  shows "(ucast (ucast w :: 'b word) :: 64 word) = w"
  by (simp add: word_uint_eq_iff ucast_up assms ucast_small)

lemma ucast_up_down:
  fixes w :: "'b :: len word"
  assumes "LENGTH('b) \<le> 64"
  shows "(ucast (ucast w :: 64 word) :: 'b word) = w"
  using ucast_small[where 'b = 'b, of "ucast w"] uint_lt2p[of w]
  by (simp add: word_uint_eq_iff ucast_up assms)

lemma uint_ucast_up [simp]:
  "uint (ucast (w8 :: byte) :: 64 word) = uint w8"
  "uint (ucast (w16 :: 16 word) :: 64 word) = uint w16"
  "uint (ucast (w32 :: 32 word) :: 64 word) = uint w32"
  by (simp_all add: ucast_up)

lemma discriminants: "uint (b :: byte) < 0xfd \<or> b = 0xfd \<or> b = 0xfe \<or> b = 0xff"
proof -
  have "uint b = 0xfd \<or> uint b = 0xfe \<or> uint b = 0xff" if "\<not> uint b < 0xfd"
    using uint_byte_lt[of b] that by arith
  then show ?thesis by (auto simp: word_uint_eq_iff)
qed

lemma ReadVarInt_small: "uint (b :: byte) < 0xfd \<Longrightarrow> ReadVarInt (PutUint8 b @ r) = (Ok (ucast b), r)"
  by (auto simp: ReadVarInt_def op_simps)

lemma ReadVarInt_WriteVarInt: "ReadVarInt (WriteVarInt v @ rest) = (Ok v, rest)"
proof -
  consider "v < 0xfd" | "\<not> v < 0xfd" "v \<le> 0xffff" | "\<not> v \<le> 0xffff" "v \<le> 0xffffffff"
    | "\<not> v \<le> 0xffffffff" by fastforce
  then show ?thesis
  proof cases
    case 1
    then have v: "uint v < 0xfd" by (simp add: word_less_uint)
    then have "uint (ucast v :: byte) = uint v" by (simp add: ucast_small)
    with 1 v show ?thesis
      by (simp add: WriteVarInt_def ReadVarInt_small ucast_down_up)
  next
    case 2
    then have "uint v < 2 ^ 16" by (simp add: word_le_def)
    with 2 show ?thesis
      by (simp add: WriteVarInt_def ReadVarInt_def op_simps ucast_down_up Let_def)
  next
    case 3
    then have "uint v < 2 ^ 32" by (simp add: word_le_def)
    moreover have "\<not> v < 0xfd" "\<not> v < 0x10000" using 3 by (simp_all add: word_le_def word_less_uint)
    ultimately show ?thesis
      using 3 by (simp add: WriteVarInt_def ReadVarInt_def op_simps ucast_down_up Let_def)
  next
    case 4
    then have "\<not> v < 0xfd" "\<not> v \<le> 0xffff" "\<not> v < 0x100000000"
      by (simp_all add: word_le_def word_less_uint)
    with 4 show ?thesis
      by (simp add: WriteVarInt_def ReadVarInt_def op_simps)
  qed
qed

lemma ReadVarInt_accepts:
  assumes "ReadVarInt r = (Ok v, rest)"
  shows "r = WriteVarInt v @ rest"
proof -
  from assms obtain d s where r: "r = PutUint8 d @ s"
    unfolding ReadVarInt_def by (auto elim!: bnd_Ok_elim dest!: u8.encode_decode)
  consider "uint d < 0xfd" | "d = 0xfd" | "d = 0xfe" | "d = 0xff" using discriminants by blast
  then show ?thesis
  proof cases
    case 1
    with assms r have "v = ucast d" "s = rest" by (simp_all add: ReadVarInt_small)
    with 1 r show ?thesis
      by (simp add: WriteVarInt_def word_less_uint ucast_up_down)
  next
    case 2
    with assms r obtain w where "s = PutUint16 w @ rest" "v = ucast w" "\<not> ucast w < (0xfd :: 64 word)"
      by (auto simp: ReadVarInt_def bnd_eq_Ok_iff ret_def throw_def Let_def u16.accepts_iff
          u8.accepts_iff split: if_splits)
    moreover have "(ucast w :: 64 word) \<le> 0xffff" for w :: "16 word"
      using uint_lt2p[of w] by (simp add: word_le_def)
    ultimately show ?thesis
      using 2 r by (simp add: WriteVarInt_def ucast_up_down)
  next
    case 3
    with assms r obtain w where w: "s = PutUint32 w @ rest" "v = ucast w" "\<not> ucast w < (0x10000 :: 64 word)"
      by (auto simp: ReadVarInt_def bnd_eq_Ok_iff ret_def throw_def Let_def u32.accepts_iff
          u8.accepts_iff split: if_splits)
    moreover have "\<not> v < 0xfd" "\<not> v \<le> 0xffff" using w by (auto simp: word_le_def word_less_uint)
    moreover have "(ucast w :: 64 word) \<le> 0xffffffff" for w :: "32 word"
      using uint_lt2p[of w] by (simp add: word_le_def)
    ultimately show ?thesis
      using 3 r by (simp add: WriteVarInt_def ucast_up_down)
  next
    case 4
    with assms r have w: "s = PutUint64 v @ rest" "\<not> v < 0x100000000"
      by (auto simp: ReadVarInt_def bnd_eq_Ok_iff ret_def throw_def u64.accepts_iff
          u8.accepts_iff split: if_splits)
    moreover have "\<not> v < 0xfd" "\<not> v \<le> 0xffff" "\<not> v \<le> 0xffffffff"
      using w(2) by (auto simp: word_le_def word_less_uint)
    ultimately show ?thesis
      using 4 r by (simp add: WriteVarInt_def)
  qed
qed

interpretation varint: canonical_codec WriteVarInt ReadVarInt "\<lambda>_. True"
  by unfold_locales (simp_all add: ReadVarInt_WriteVarInt ReadVarInt_accepts)

lemma length_fixed [simp]:
  "length (PutUint8 a) = 1" "length (PutUint16 b) = 2" "length (PutUint32 c) = 4"
  "length (PutUint64 d) = 8"
  by (simp_all add: PutUint8_def PutUint16_def PutUint32_def PutUint64_def)

lemma length_WriteVarInt: "length (WriteVarInt v) = VarIntSerializeSize v"
  by (simp add: WriteVarInt_def VarIntSerializeSize_def)

text \<open>A length that fits Go's \<^verbatim>\<open>uint64\<close> survives the conversion.\<close>

lemma unat_of_len [simp]: "n < 2 ^ 64 \<Longrightarrow> unat (word_of_nat n :: 64 word) = n"
  by (simp add: unat_of_nat take_bit_nat_eq_self)

lemma bytes_codec:
  assumes "m < 2 ^ 64"
  shows "canonical_codec WriteVarBytes (readScript m) (\<lambda>bs. length bs \<le> m)"
proof unfold_locales
  show "readScript m (WriteVarBytes x @ rest) = (Ok x, rest)" if "length x \<le> m" for x rest
    using that assms by (simp add: readScript_def WriteVarBytes_def)
  show "r = WriteVarBytes x @ rest \<and> length x \<le> m" if run: "readScript m r = (Ok x, rest)" for r x rest
  proof -
    from run obtain c where "r = WriteVarInt c @ x @ rest" "length x = unat c" "unat c \<le> m"
      by (auto simp: readScript_def bnd_eq_Ok_iff throw_def varint.accepts_iff ReadFull_Ok_iff
          split: if_splits)
    then show ?thesis by (simp add: WriteVarBytes_def)
  qed
qed

interpretation script: canonical_codec WriteVarBytes "readScript MaxMessagePayload"
    "\<lambda>bs. length bs \<le> MaxMessagePayload"
  by (rule bytes_codec) (simp add: MaxMessagePayload_def)

interpretation witem: canonical_codec WriteVarBytes "readScript maxWitnessItemSize"
    "\<lambda>bs. length bs \<le> maxWitnessItemSize"
  by (rule bytes_codec) (simp add: maxWitnessItemSize_def)

interpretation str: canonical_codec WriteVarString ReadVarString
    "\<lambda>bs. length bs \<le> MaxMessagePayload"
proof -
  have "ReadVarString = readScript MaxMessagePayload" "WriteVarString = WriteVarBytes"
    by (simp_all add: fun_eq_iff ReadVarString_def readScript_def WriteVarString_def WriteVarBytes_def)
  then show "canonical_codec WriteVarString ReadVarString (\<lambda>bs. length bs \<le> MaxMessagePayload)"
    using script.canonical_codec_axioms by simp
qed


subsection \<open>Transactions\<close>

definition wf_OutPoint :: "OutPoint \<Rightarrow> bool" where
  "wf_OutPoint op \<longleftrightarrow> length (Hash op) = HashSize"

definition wf_TxIn :: "TxIn \<Rightarrow> bool" where
  "wf_TxIn ti \<longleftrightarrow> wf_OutPoint (PreviousOutPoint ti) \<and>
     length (SignatureScript ti) \<le> MaxMessagePayload"

definition wf_TxOut :: "TxOut \<Rightarrow> bool" where
  "wf_TxOut to \<longleftrightarrow> length (PkScript to) \<le> MaxMessagePayload"

definition wf_Witness :: "TxWitness \<Rightarrow> bool" where
  "wf_Witness wit \<longleftrightarrow> length wit \<le> maxWitnessItemsPerInput \<and>
     list_all (\<lambda>it. length it \<le> maxWitnessItemSize) wit"

text \<open>A transaction within the limits the decoder enforces.\<close>

definition wf_MsgTx :: "MsgTx \<Rightarrow> bool" where
  "wf_MsgTx tx \<longleftrightarrow> list_all wf_TxIn (txIns tx) \<and> list_all wf_TxOut (txOuts tx) \<and>
     length (txIns tx) \<le> maxTxInPerMessage \<and> length (txOuts tx) \<le> maxTxOutPerMessage"

definition stripTxIn :: "TxIn \<Rightarrow> TxIn" where
  "stripTxIn ti = ti\<lparr>Witness := []\<rparr>"

definition stripWitness :: "MsgTx \<Rightarrow> MsgTx" where
  "stripWitness tx = tx\<lparr>txIns := map stripTxIn (txIns tx)\<rparr>"

interpretation outpoint: canonical_codec writeOutPoint readOutPoint wf_OutPoint
  by unfold_locales
    (auto simp: wf_OutPoint_def writeOutPoint_def readOutPoint_def op_simps bnd_eq_Ok_iff
      ReadFull_Ok_iff u32.accepts_iff ret_def)

interpretation txin: canonical_codec writeTxIn readTxIn "\<lambda>ti. wf_TxIn ti \<and> Witness ti = []"
  by unfold_locales
    (auto simp: wf_TxIn_def writeTxIn_def readTxIn_def op_simps bnd_eq_Ok_iff
      outpoint.accepts_iff script.accepts_iff u32.accepts_iff ret_def)

interpretation txout: canonical_codec WriteTxOut readTxOut wf_TxOut
  by unfold_locales
    (auto simp: wf_TxOut_def WriteTxOut_def readTxOut_def op_simps bnd_eq_Ok_iff
      script.accepts_iff u64.accepts_iff ret_def)

lemma limits_fit:
  "n \<le> maxWitnessItemsPerInput \<Longrightarrow> n < 2 ^ 64" "n \<le> maxTxInPerMessage \<Longrightarrow> n < 2 ^ 64"
  "n \<le> maxTxOutPerMessage \<Longrightarrow> n < 2 ^ 64" "n \<le> MaxMessagePayload \<Longrightarrow> n < 2 ^ 64"
  "n \<le> maxWitnessItemSize \<Longrightarrow> n < 2 ^ 64"
  by (simp_all add: maxWitnessItemsPerInput_def maxTxInPerMessage_def maxTxOutPerMessage_def
      minTxInPayload_def MinTxOutPayload_def MaxMessagePayload_def maxWitnessItemSize_def HashSize_def)

lemma count_many:
  assumes "canonical_codec enc dec ok" "m < 2 ^ 64"
  shows "canonical_codec (\<lambda>xs. WriteVarInt (word_of_nat (length xs)) @ concat (map enc xs))
     (bnd ReadVarInt (\<lambda>c. if unat c > m then throw messageError else readN (unat c) dec))
     (\<lambda>xs. length xs \<le> m \<and> list_all ok xs)"
proof -
  have codec: "codec enc dec ok" using assms(1) by (rule canonical_codec.axioms)
  have many: "readN n dec r = (Ok xs, rest) \<longleftrightarrow>
      r = concat (map enc xs) @ rest \<and> list_all ok xs \<and> length xs = n" for n r xs rest
    by (rule canonical_codec.many_iff[OF assms(1)])
  show ?thesis
  proof unfold_locales
    show "bnd ReadVarInt (\<lambda>c. if unat c > m then throw messageError else readN (unat c) dec)
       ((WriteVarInt (word_of_nat (length xs)) @ concat (map enc xs)) @ rest) = (Ok xs, rest)"
      if "length xs \<le> m \<and> list_all ok xs" for xs rest
      using that assms(2) by (simp add: many)
    show "r = (WriteVarInt (word_of_nat (length xs)) @ concat (map enc xs)) @ rest \<and>
        length xs \<le> m \<and> list_all ok xs"
      if "bnd ReadVarInt (\<lambda>c. if unat c > m then throw messageError else readN (unat c) dec) r =
        (Ok xs, rest)" for r xs rest
      using that by (auto simp: bnd_eq_Ok_iff varint.accepts_iff throw_def many split: if_splits)
  qed
qed

interpretation witness: canonical_codec writeTxWitness readWitness wf_Witness
proof -
  have "writeTxWitness = (\<lambda>xs. WriteVarInt (word_of_nat (length xs)) @ concat (map WriteVarBytes xs))"
    "wf_Witness = (\<lambda>xs. length xs \<le> maxWitnessItemsPerInput \<and>
       list_all (\<lambda>it. length it \<le> maxWitnessItemSize) xs)"
    by (simp_all add: fun_eq_iff writeTxWitness_def wf_Witness_def)
  then show "canonical_codec writeTxWitness readWitness wf_Witness"
    unfolding readWitness_def
    using count_many[OF witem.canonical_codec_axioms limits_fit(1)[OF order_refl]] by simp
qed


lemma strip_simps [simp]:
  "wf_TxIn (stripTxIn ti) = wf_TxIn ti" "Witness (stripTxIn ti) = []"
  "writeTxIn (stripTxIn ti) = writeTxIn ti" "stripTxIn (ti\<lparr>Witness := w\<rparr>) = stripTxIn ti"
  "TxIn_SerializeSize (stripTxIn ti) = TxIn_SerializeSize ti"
  by (simp_all add: stripTxIn_def wf_TxIn_def writeTxIn_def TxIn_SerializeSize_def)

lemma strip_id: "Witness ti = [] \<longleftrightarrow> stripTxIn ti = ti"
  by (cases ti) (auto simp: stripTxIn_def)

lemma strip_all: "list_all (\<lambda>ti. Witness ti = []) tis \<longleftrightarrow> map stripTxIn tis = tis"
  by (induction tis) (auto simp: strip_id)

lemma readWitnesses_iff:
  "list_all (\<lambda>ti. Witness ti = []) tis \<Longrightarrow>
   readWitnesses tis r = (Ok tis', rest) \<longleftrightarrow>
     tis = map stripTxIn tis' \<and> list_all (\<lambda>ti. wf_Witness (Witness ti)) tis' \<and>
     r = concat (map (\<lambda>ti. writeTxWitness (Witness ti)) tis') @ rest"
proof (induction tis arbitrary: r tis')
  case (Cons ti tis)
  have upd: "ti\<lparr>Witness := w\<rparr> = ti' \<longleftrightarrow> ti = stripTxIn ti' \<and> w = Witness ti'" for w ti'
    using Cons.prems by (cases ti; cases ti') (auto simp: stripTxIn_def)
  show ?case
    using Cons by (cases tis') (auto simp: bnd_eq_Ok_iff ret_def witness.accepts_iff upd)
qed (auto simp: ret_def)

text \<open>The two forms of an encoded transaction.\<close>

definition txBody :: "MsgTx \<Rightarrow> byte list" where
  "txBody tx = WriteVarInt (word_of_nat (length (txIns tx))) @ concat (map writeTxIn (txIns tx)) @
     WriteVarInt (word_of_nat (length (txOuts tx))) @ concat (map WriteTxOut (txOuts tx))"

definition txBase :: "MsgTx \<Rightarrow> byte list" where
  "txBase tx = PutUint32 (Version tx) @ txBody tx @ PutUint32 (LockTime tx)"

definition txExtended :: "MsgTx \<Rightarrow> byte list" where
  "txExtended tx = PutUint32 (Version tx) @ [0, 1] @ txBody tx @
     concat (map (\<lambda>ti. writeTxWitness (Witness ti)) (txIns tx)) @ PutUint32 (LockTime tx)"

lemma BtcEncode_forms:
  "BtcEncode BaseEncoding tx = txBase tx"
  "BtcEncode WitnessEncoding tx = (if HasWitness tx then txExtended tx else txBase tx)"
  by (simp_all add: BtcEncode_def txBase_def txExtended_def txBody_def Let_def)

lemma strip_tx [simp]:
  "txBase (stripWitness tx) = txBase tx" "wf_MsgTx (stripWitness tx) = wf_MsgTx tx"
  by (simp_all add: stripWitness_def txBase_def txBody_def wf_MsgTx_def comp_def list_all_length)

lemma no_witness_strip: "\<not> HasWitness tx \<longleftrightarrow> stripWitness tx = tx"
  by (cases tx) (auto simp: HasWitness_def stripWitness_def strip_all[symmetric] list_all_iff)

lemma WriteVarInt_0: "WriteVarInt 0 = [0]"
  by (simp add: WriteVarInt_def PutUint8_def)

lemma WriteVarInt_zero_head: "WriteVarInt c @ s = 0 # t \<Longrightarrow> c = 0 \<and> s = t"
  using varint.prefix_free[of c s 0 t] by (simp add: WriteVarInt_0)

lemma readTxInCount_Base:
  "readTxInCount BaseEncoding r = (Ok (f, c), s) \<longleftrightarrow> f = 0 \<and> r = WriteVarInt c @ s"
  by (auto simp: readTxInCount_def bnd_eq_Ok_iff varint.accepts_iff ret_def)

lemma readTxInCount_Witness:
  "readTxInCount WitnessEncoding r = (Ok (f, c), s) \<longleftrightarrow>
     f = 0 \<and> c \<noteq> 0 \<and> r = WriteVarInt c @ s \<or> f = 1 \<and> r = [0, 1] @ WriteVarInt c @ s"
proof -
  show ?thesis
    by (auto simp: readTxInCount_def bnd_eq_Ok_iff varint.accepts_iff ret_def throw_def
        ReadFull_Ok_iff WriteVarInt_0 length_Suc_conv split: if_splits intro!: exI[of _ "[1]"])
qed


text \<open>What the decoder does after the input count.\<close>

lemma no_witness_list: "\<not> HasWitness tx \<longleftrightarrow> list_all (\<lambda>ti. Witness ti = []) (txIns tx)"
  by (simp add: HasWitness_def list_all_iff)

lemma BtcDecode_accepts:
  assumes "BtcDecode enc r = (Ok tx, rest)"
  obtains f c s tis t where
    "r = PutUint32 (Version tx) @ s"
    "readTxInCount enc s = (Ok (f, c), concat (map writeTxIn (txIns tx)) @
       WriteVarInt (word_of_nat (length (txOuts tx))) @ concat (map WriteTxOut (txOuts tx)) @ t)"
    "c = word_of_nat (length (txIns tx))" "wf_MsgTx tx"
    "map stripTxIn tis = tis" "tis = map stripTxIn (txIns tx)"
    "readWitnessSection f enc tis t =
       (Ok (txIns tx), PutUint32 (LockTime tx) @ rest)"
proof -
  from assms obtain v s f c s' tis s1 c' tos s3 t s4 l
    where r: "r = PutUint32 v @ s" "readTxInCount enc s = (Ok (f, c), s')"
    and ins: "unat c \<le> maxTxInPerMessage" "s' = concat (map writeTxIn tis) @ s1"
      "list_all (\<lambda>ti. wf_TxIn ti \<and> Witness ti = []) tis" "length tis = unat c"
    and outs: "s1 = WriteVarInt c' @ s3" "unat c' \<le> maxTxOutPerMessage"
      "s3 = concat (map WriteTxOut tos) @ t" "list_all wf_TxOut tos" "length tos = unat c'"
    and wit: "readWitnessSection f enc tis t = (Ok (txIns tx), s4)"
    and tl: "s4 = PutUint32 l @ rest" "Version tx = v" "txOuts tx = tos" "LockTime tx = l"
    by (auto simp: BtcDecode_def bnd_eq_Ok_iff u32.accepts_iff varint.accepts_iff txin.many_iff
        txout.many_iff ret_def[where a = "_ :: MsgTx"] throw_def not_less split: if_splits)
  have tis: "list_all (\<lambda>ti. Witness ti = []) tis" using ins(3) by (auto simp: list_all_iff)
  then have same: "map stripTxIn tis = tis" by (simp add: strip_all)
  have strip: "tis = map stripTxIn (txIns tx)"
    using wit same readWitnesses_iff[OF tis] by (auto simp: readWitnessSection_def ret_def split: if_splits)
  have "wf_MsgTx tx"
    using ins outs tl unfolding wf_MsgTx_def strip by (auto simp: list_all_iff)
  moreover have "c = word_of_nat (length (txIns tx))" "c' = word_of_nat (length (txOuts tx))"
    using ins(4) outs(5) tl arg_cong[OF strip, of length] by simp_all
  ultimately show thesis
    using r ins outs wit tl same strip by (intro that[of s f c t tis]) (simp_all add: comp_def)
qed


lemma BtcDecode_run:
  assumes wf: "wf_MsgTx tx"
    and cnt: "readTxInCount enc (s @ u) = (Ok (f, word_of_nat (length (txIns tx))), u)"
    and u: "u = concat (map writeTxIn (txIns tx)) @ WriteVarInt (word_of_nat (length (txOuts tx))) @
      concat (map WriteTxOut (txOuts tx)) @ t"
    and wit: "readWitnessSection f enc (map stripTxIn (txIns tx)) t = (Ok tis, PutUint32 (LockTime tx) @ rest)"
  shows "BtcDecode enc (PutUint32 (Version tx) @ s @ u) = (Ok (tx\<lparr>txIns := tis\<rparr>), rest)"
proof -
  have ins: "readN (length (txIns tx)) readTxIn u =
      (Ok (map stripTxIn (txIns tx)), WriteVarInt (word_of_nat (length (txOuts tx))) @
      concat (map WriteTxOut (txOuts tx)) @ t)"
    using wf by (simp add: txin.many_iff u wf_MsgTx_def comp_def list_all_length)
  have outs: "readN (length (txOuts tx)) readTxOut (concat (map WriteTxOut (txOuts tx)) @ t) =
      (Ok (txOuts tx), t)"
    using wf by (simp add: txout.many_iff wf_MsgTx_def)
  have "length (txIns tx) \<le> maxTxInPerMessage" "length (txOuts tx) \<le> maxTxOutPerMessage"
    using wf by (simp_all add: wf_MsgTx_def)
  note lim = this limits_fit(2)[OF this(1)] limits_fit(3)[OF this(2)]
  show ?thesis
    using lim by (simp add: BtcDecode_def bnd_Ok[of "readTxInCount enc", OF cnt]
        bnd_Ok[of "readN (length (txIns tx)) readTxIn", OF ins]
        bnd_Ok[of "readN (length (txOuts tx)) readTxOut", OF outs]
        bnd_Ok[of "readWitnessSection f enc (map stripTxIn (txIns tx))", OF wit]) (simp add: op_simps)
qed

lemma BtcDecode_Base_iff:
  "BtcDecode BaseEncoding r = (Ok tx, rest) \<longleftrightarrow>
     r = txBase tx @ rest \<and> wf_MsgTx tx \<and> \<not> HasWitness tx"
proof
  assume "BtcDecode BaseEncoding r = (Ok tx, rest)"
  then show "r = txBase tx @ rest \<and> wf_MsgTx tx \<and> \<not> HasWitness tx"
    by (rule BtcDecode_accepts)
      (auto simp: readTxInCount_Base readWitnessSection_def ret_def txBase_def txBody_def
        no_witness_list strip_all)
next
  assume asm: "r = txBase tx @ rest \<and> wf_MsgTx tx \<and> \<not> HasWitness tx"
  then have "map stripTxIn (txIns tx) = txIns tx" by (simp add: no_witness_list strip_all)
  then have "BtcDecode BaseEncoding r = (Ok (tx\<lparr>txIns := txIns tx\<rparr>), rest)"
    using asm BtcDecode_run[of tx BaseEncoding "WriteVarInt (word_of_nat (length (txIns tx)))"]
    by (simp add: txBase_def txBody_def readTxInCount_Base readWitnessSection_def ret_def)
  then show "BtcDecode BaseEncoding r = (Ok tx, rest)" by simp
qed

lemma BtcDecode_Witness_accepts:
  assumes "BtcDecode WitnessEncoding r = (Ok tx, rest)"
  shows "wf_MsgTx tx \<and> (r = txBase tx @ rest \<and> txIns tx \<noteq> [] \<and> \<not> HasWitness tx \<or>
      r = txExtended tx @ rest \<and> list_all (\<lambda>ti. wf_Witness (Witness ti)) (txIns tx))"
proof -
  from assms obtain f c s tis t where
    r: "r = PutUint32 (Version tx) @ s" and
    cnt: "readTxInCount WitnessEncoding s = (Ok (f, c), concat (map writeTxIn (txIns tx)) @
       WriteVarInt (word_of_nat (length (txOuts tx))) @ concat (map WriteTxOut (txOuts tx)) @ t)" and
    c: "c = word_of_nat (length (txIns tx))" and wf: "wf_MsgTx tx" and
    tis: "map stripTxIn tis = tis" "tis = map stripTxIn (txIns tx)" and
    wit: "readWitnessSection f WitnessEncoding tis t = (Ok (txIns tx), PutUint32 (LockTime tx) @ rest)"
    by (rule BtcDecode_accepts)
  show ?thesis
  proof (cases "f = 0")
    case True
    with wit have "tis = txIns tx" "t = PutUint32 (LockTime tx) @ rest"
      by (simp_all add: readWitnessSection_def ret_def)
    moreover have "txIns tx \<noteq> []" using cnt c True by (auto simp: readTxInCount_Witness)
    ultimately show ?thesis
      using r cnt c wf tis True
      by (simp add: readTxInCount_Witness txBase_def txBody_def no_witness_list strip_all)
  next
    case False
    have "list_all (\<lambda>ti. Witness ti = []) tis" using tis(1) by (simp add: strip_all)
    from readWitnesses_iff[OF this] wit False
    have "t = concat (map (\<lambda>ti. writeTxWitness (Witness ti)) (txIns tx)) @ PutUint32 (LockTime tx) @ rest"
      "list_all (\<lambda>ti. wf_Witness (Witness ti)) (txIns tx)"
      by (simp_all add: readWitnessSection_def)
    then show ?thesis
      using r cnt c wf False by (simp add: readTxInCount_Witness txExtended_def txBody_def)
  qed
qed

lemma BtcDecode_Witness_extended:
  assumes wf: "wf_MsgTx tx" and wit: "list_all (\<lambda>ti. wf_Witness (Witness ti)) (txIns tx)"
  shows "BtcDecode WitnessEncoding (txExtended tx @ rest) = (Ok tx, rest)"
proof -
  define t where "t = concat (map (\<lambda>ti. writeTxWitness (Witness ti)) (txIns tx)) @ PutUint32 (LockTime tx) @ rest"
  have "readWitnessSection 1 WitnessEncoding (map stripTxIn (txIns tx)) t =
      (Ok (txIns tx), PutUint32 (LockTime tx) @ rest)"
    using wit by (simp add: readWitnessSection_def readWitnesses_iff t_def list_all_length)
  from BtcDecode_run[OF wf _ refl this, of "[0, 1] @ WriteVarInt (word_of_nat (length (txIns tx)))"]
  show ?thesis by (simp add: txExtended_def txBody_def readTxInCount_Witness t_def)
qed

lemma BtcDecode_Witness_plain:
  assumes wf: "wf_MsgTx tx" and nw: "\<not> HasWitness tx" and ne: "txIns tx \<noteq> []"
  shows "BtcDecode WitnessEncoding (txBase tx @ rest) = (Ok tx, rest)"
proof -
  have "length (txIns tx) < 2 ^ 64" using wf by (intro limits_fit) (simp add: wf_MsgTx_def)
  then have "unat (word_of_nat (length (txIns tx)) :: 64 word) \<noteq> 0"
    using ne by simp
  then have cnt: "word_of_nat (length (txIns tx)) \<noteq> (0 :: 64 word)"
    by (metis unat_0)
  have "map stripTxIn (txIns tx) = txIns tx" using nw by (simp add: no_witness_list strip_all)
  then have "readWitnessSection 0 WitnessEncoding (map stripTxIn (txIns tx))
      (PutUint32 (LockTime tx) @ rest) = (Ok (txIns tx), PutUint32 (LockTime tx) @ rest)"
    by (simp add: readWitnessSection_def ret_def)
  from BtcDecode_run[OF wf _ refl this, of "WriteVarInt (word_of_nat (length (txIns tx)))"] cnt
  show ?thesis by (simp add: txBase_def txBody_def readTxInCount_Witness)
qed


lemma length_WriteVarBytes: "length (WriteVarBytes bs) =
    VarIntSerializeSize (word_of_nat (length bs)) + length bs"
  by (simp add: WriteVarBytes_def length_WriteVarInt)

lemma length_writeTxIn:
  "wf_OutPoint (PreviousOutPoint ti) \<Longrightarrow> length (writeTxIn ti) = TxIn_SerializeSize ti"
  by (simp add: writeTxIn_def writeOutPoint_def wf_OutPoint_def length_WriteVarBytes
      TxIn_SerializeSize_def HashSize_def)

lemma length_WriteTxOut: "length (WriteTxOut to) = TxOut_SerializeSize to"
  by (simp add: WriteTxOut_def length_WriteVarBytes TxOut_SerializeSize_def)

lemma length_writeTxWitness: "length (writeTxWitness wit) = TxWitness_SerializeSize wit"
proof -
  have "foldl (\<lambda>n it. n + VarIntSerializeSize (word_of_nat (length it)) + length it) k ws =
      k + length (concat (map WriteVarBytes ws))" for k ws
    by (induction ws arbitrary: k) (simp_all add: length_WriteVarBytes)
  then show ?thesis
    by (simp add: writeTxWitness_def TxWitness_SerializeSize_def length_WriteVarInt)
qed

lemma length_concat_map: "(\<And>x. x \<in> set xs \<Longrightarrow> length (f x) = g x) \<Longrightarrow>
    length (concat (map f xs)) = sum_list (map g xs)"
  by (induction xs) simp_all

lemma length_txBase:
  assumes "list_all (\<lambda>ti. wf_OutPoint (PreviousOutPoint ti)) (txIns tx)"
  shows "length (txBase tx) = baseSize tx"
    and "length (txExtended tx) =
      baseSize tx + 2 + sum_list (map (\<lambda>ti. TxWitness_SerializeSize (Witness ti)) (txIns tx))"
proof -
  have "length (concat (map writeTxIn (txIns tx))) = sum_list (map TxIn_SerializeSize (txIns tx))"
    using assms by (intro length_concat_map length_writeTxIn) (simp add: list_all_iff)
  moreover have "length (concat (map WriteTxOut (txOuts tx))) =
      sum_list (map TxOut_SerializeSize (txOuts tx))"
    by (intro length_concat_map length_WriteTxOut)
  moreover have "length (concat (map (\<lambda>ti. writeTxWitness (Witness ti)) (txIns tx))) =
      sum_list (map (\<lambda>ti. TxWitness_SerializeSize (Witness ti)) (txIns tx))"
    by (intro length_concat_map length_writeTxWitness)
  ultimately show "length (txBase tx) = baseSize tx"
    and "length (txExtended tx) =
      baseSize tx + 2 + sum_list (map (\<lambda>ti. TxWitness_SerializeSize (Witness ti)) (txIns tx))"
    by (simp_all only: txBase_def txExtended_def txBody_def baseSize_def length_append
        length_WriteVarInt length_fixed) simp_all
qed

subsection \<open>Properties\<close>

text \<open>A small transaction with a witness, for the concrete instances.\<close>

definition sampleTx :: MsgTx where
  "sampleTx = \<lparr>Version = 1,
     txIns = [\<lparr>PreviousOutPoint = \<lparr>Hash = replicate 32 7, Index = 1\<rparr>, SignatureScript = [0x51],
       Witness = [[1, 2], []], Sequence = 0xffffffff\<rparr>],
     txOuts = [\<lparr>Value = 5000000000, PkScript = [0x51, 0x87]\<rparr>], LockTime = 0\<rparr>"

text \<open>
  ReadVarInt accepts exactly the encodings WriteVarInt produces: it inverts the writer
  whatever bytes follow, it rejects every longer encoding of the same value, and the encoding has
  the length VarIntSerializeSize announces.
\<close>

theorem varint_canonical:
  "(ReadVarInt r = (Ok v, rest) \<longleftrightarrow> r = WriteVarInt v @ rest) \<and>
   length (WriteVarInt v) = VarIntSerializeSize v"
  by (simp add: varint.accepts_iff length_WriteVarInt)

text \<open>
  Claim C36. The encoding without witnesses is canonical: the decoder accepts a byte string with a
  transaction as its value if and only if the string starts with the encoding of that transaction,
  which is within the decoder's limits and has no witness.  So the hash of a transaction is the
  hash of the very bytes it was decoded from.
\<close>

theorem DeserializeNoWitness_canonical:
  "DeserializeNoWitness r = (Ok tx, rest) \<longleftrightarrow>
     r = SerializeNoWitness tx @ rest \<and> wf_MsgTx tx \<and> \<not> HasWitness tx"
  by (simp add: DeserializeNoWitness_def SerializeNoWitness_def BtcDecode_Base_iff BtcEncode_forms)

text \<open>
  Claim C17. A transaction with at least one input, within the limits, survives encoding with
  witnesses and decoding, whatever bytes follow; both forms, with and without the witness marker,
  are covered.  (Without inputs the input count is the witness marker, and the encoding is not
  decoded back.)
\<close>

theorem Deserialize_Serialize:
  assumes "wf_MsgTx tx" "list_all (\<lambda>ti. wf_Witness (Witness ti)) (txIns tx)" "txIns tx \<noteq> []"
  shows "Deserialize (Serialize tx @ rest) = (Ok tx, rest)"
  using assms BtcDecode_Witness_extended BtcDecode_Witness_plain
  by (simp add: Deserialize_def Serialize_def BtcEncode_forms)

theorem Deserialize_Serialize_witness:
  "Deserialize (Serialize sampleTx @ [1]) = (Ok sampleTx, [1])"
  by (rule Deserialize_Serialize)
    (simp_all add: sampleTx_def wf_MsgTx_def wf_TxIn_def wf_TxOut_def wf_OutPoint_def wf_Witness_def
      HashSize_def MaxMessagePayload_def maxTxInPerMessage_def maxTxOutPerMessage_def
      minTxInPayload_def MinTxOutPayload_def maxWitnessItemsPerInput_def maxWitnessItemSize_def)

text \<open>
  Claim C18. A byte string that decodes to a transaction with a witness, or without the witness
  marker, is the encoding of that transaction; the one exception is a marker in front of inputs
  whose witnesses are all empty, which decodes but is never produced.
\<close>

theorem Deserialize_canonical:
  assumes "Deserialize r = (Ok tx, rest)"
  shows "wf_MsgTx tx \<and> (r = Serialize tx @ rest \<or> \<not> HasWitness tx \<and> slice r 4 6 = [0, 1])"
proof (cases "r = Serialize tx @ rest")
  case False
  with BtcDecode_Witness_accepts[of r tx rest] assms
  have wf: "wf_MsgTx tx" and "r = txExtended tx @ rest" and "\<not> HasWitness tx"
    by (auto simp: Deserialize_def Serialize_def BtcEncode_forms split: if_splits)
  then show ?thesis by (simp add: txExtended_def slice_def)
next
  case True
  with BtcDecode_Witness_accepts[of r tx rest] assms show ?thesis by (simp add: Deserialize_def)
qed

theorem Deserialize_canonical_witness:
  "wf_MsgTx sampleTx \<and> (Serialize sampleTx @ [1] = Serialize sampleTx @ [1] \<or>
     \<not> HasWitness sampleTx \<and> slice (Serialize sampleTx @ [1]) 4 6 = [0, 1])"
  by (rule Deserialize_canonical[where rest = "[1]"])
    (simp add: Deserialize_def Serialize_def BtcEncode_forms HasWitness_def sampleTx_def
      BtcDecode_Witness_extended wf_MsgTx_def wf_TxIn_def wf_TxOut_def wf_OutPoint_def wf_Witness_def
      HashSize_def MaxMessagePayload_def maxTxInPerMessage_def maxTxOutPerMessage_def
      minTxInPayload_def MinTxOutPayload_def maxWitnessItemsPerInput_def maxWitnessItemSize_def)

text \<open>
  The size functions give the length of the two encodings of a transaction whose
  outpoint hashes have their 32 bytes.
\<close>

theorem SerializeSize_is_length:
  assumes "list_all (\<lambda>ti. length (Hash (PreviousOutPoint ti)) = HashSize) (txIns tx)"
  shows "length (Serialize tx) = SerializeSize tx \<and>
    length (SerializeNoWitness tx) = SerializeSizeStripped tx"
proof -
  have "list_all (\<lambda>ti. wf_OutPoint (PreviousOutPoint ti)) (txIns tx)"
    using assms by (simp add: wf_OutPoint_def)
  note sizes = length_txBase[OF this]
  show ?thesis
    by (simp add: Serialize_def SerializeNoWitness_def BtcEncode_forms sizes SerializeSize_def
        SerializeSizeStripped_def)
qed

theorem SerializeSize_is_length_witness:
  "length (Serialize sampleTx) = SerializeSize sampleTx \<and>
   length (SerializeNoWitness sampleTx) = SerializeSizeStripped sampleTx"
  by (rule SerializeSize_is_length) (simp add: sampleTx_def HashSize_def)

end
