(* ===== verification/Elliptic.thy ===== *)
theory Elliptic
  imports Prelude
begin

text \<open>
  Public keys and signatures on secp256k1 and their encodings
  (\<^verbatim>\<open>pkg/util/elliptic/pubkey.go\<close>, \<^verbatim>\<open>signature.go\<close> and the parameters of \<^verbatim>\<open>btcec.go\<close>).

  A \<^verbatim>\<open>big.Int\<close> is an \<open>int\<close>.  Arithmetic on field values, which the code does on ten limbs, is
  arithmetic modulo \<open>curveP\<close>.  The verification equation itself is Go's \<^verbatim>\<open>ecdsa.Verify\<close> and is a
  parameter of the script engine.  Errors carry their message without the values printed in it.
\<close>

unbundle bit_operations_syntax

subsection \<open>Big integers and bytes\<close>

text \<open>\<^verbatim>\<open>SetBytes\<close> and \<^verbatim>\<open>Bytes\<close> of \<^verbatim>\<open>big.Int\<close>: big endian, no leading zero.\<close>

definition be_val :: "byte list \<Rightarrow> int" where
  "be_val bs = le_val (rev bs)"

function le_bytes :: "int \<Rightarrow> byte list" where
  "le_bytes n = (if n \<le> 0 then [] else word_of_int (n mod 256) # le_bytes (n div 256))"
  by pat_completeness auto
termination
  by (relation "measure nat") auto

declare le_bytes.simps [simp del]

definition be_bytes :: "int \<Rightarrow> byte list" where
  "be_bytes n = rev (le_bytes n)"

text \<open>\<^verbatim>\<open>Exp\<close> of \<^verbatim>\<open>big.Int\<close>.\<close>

function powmod :: "int \<Rightarrow> int \<Rightarrow> int \<Rightarrow> int" where
  "powmod b e m =
     (if e \<le> 0 then 1 mod m
      else let h = powmod (b * b mod m) (e div 2) m in if odd e then b * h mod m else h)"
  by pat_completeness auto
termination
  by (relation "measure (\<lambda>(b, e, m). nat e)") auto

declare powmod.simps [simp del]

subsection \<open>The curve\<close>

definition curveP :: int where
  "curveP = 0xFFFFFFFFFFFFFFFFFFFFFFFFFFFFFFFFFFFFFFFFFFFFFFFFFFFFFFFEFFFFFC2F"

definition curveN :: int where
  "curveN = 0xFFFFFFFFFFFFFFFFFFFFFFFFFFFFFFFEBAAEDCE6AF48A03BBFD25E8CD0364141"

definition curveB :: int where
  "curveB = 7"

definition QPlus1Div4 :: int where
  "QPlus1Div4 = (curveP + 1) div 4"

definition halfOrder :: int where
  "halfOrder = curveN div 2"

definition IsOnCurve :: "int \<Rightarrow> int \<Rightarrow> bool" where
  "IsOnCurve x y \<longleftrightarrow> y * y mod curveP = (x * x * x + 7) mod curveP"

subsection \<open>Public keys\<close>

record PublicKey =
  X :: int
  Y :: int

definition PubKeyBytesLenCompressed :: nat where
  "PubKeyBytesLenCompressed = 33"

definition PubKeyBytesLenUncompressed :: nat where
  "PubKeyBytesLenUncompressed = 65"

definition pubkeyCompressed :: byte where
  "pubkeyCompressed = 0x2"

definition pubkeyUncompressed :: byte where
  "pubkeyUncompressed = 0x4"

definition pubkeyHybrid :: byte where
  "pubkeyHybrid = 0x6"

definition isOdd :: "int \<Rightarrow> bool" where
  "isOdd a \<longleftrightarrow> odd a"

definition decompressPoint :: "int \<Rightarrow> bool \<Rightarrow> (string, int) res" where
  "decompressPoint x ybit =
     (let x3 = (x * x * x + curveB) mod curveP;
          y = powmod x3 QPlus1Div4 curveP;
          y = (if ybit \<noteq> isOdd y then curveP - y else y);
          y2 = y * y mod curveP
      in if y2 \<noteq> x3 then Err ''invalid square root''
         else if ybit \<noteq> isOdd y then Err ''ybit doesn't match oddness''
         else Ok y)"

definition IsCompressedPubKey :: "byte list \<Rightarrow> bool" where
  "IsCompressedPubKey pubKey \<longleftrightarrow>
     length pubKey = PubKeyBytesLenCompressed \<and> pubKey ! 0 AND NOT 0x1 = pubkeyCompressed"

definition ParsePubKey :: "byte list \<Rightarrow> (string, PublicKey) res" where
  "ParsePubKey pubKeyStr =
     (if length pubKeyStr = 0 then Err ''pubkey string is empty''
      else
        let ybit = (pubKeyStr ! 0 AND 0x1 = 0x1);
            format = pubKeyStr ! 0 AND NOT 0x1
        in bind_res
          (if length pubKeyStr = PubKeyBytesLenUncompressed then
             (if format \<noteq> pubkeyUncompressed \<and> format \<noteq> pubkeyHybrid
              then Err ''invalid magic in pubkey str''
              else
                let x = be_val (slice pubKeyStr 1 33); y = be_val (drop 33 pubKeyStr) in
                if format = pubkeyHybrid \<and> ybit \<noteq> isOdd y then Err ''ybit doesn't match oddness''
                else Ok (x, y))
           else if length pubKeyStr = PubKeyBytesLenCompressed then
             (if format \<noteq> pubkeyCompressed then Err ''invalid magic in compressed pubkey string''
              else
                let x = be_val (slice pubKeyStr 1 33) in
                bind_res (decompressPoint x ybit) (\<lambda>y. Ok (x, y)))
           else Err ''invalid pub key length'')
          (\<lambda>(x, y).
             if x \<ge> curveP then Err ''pubkey X parameter is >= to P''
             else if y \<ge> curveP then Err ''pubkey Y parameter is >= to P''
             else if \<not> IsOnCurve x y then Err ''pubkey isn't on secp256k1 curve''
             else Ok \<lparr>X = x, Y = y\<rparr>))"

definition paddedAppend :: "nat \<Rightarrow> byte list \<Rightarrow> byte list \<Rightarrow> byte list" where
  "paddedAppend sz dst src = dst @ replicate (sz - length src) 0 @ src"

definition SerializeUncompressed :: "PublicKey \<Rightarrow> byte list" where
  "SerializeUncompressed p =
     paddedAppend 32 (paddedAppend 32 [pubkeyUncompressed] (be_bytes (X p))) (be_bytes (Y p))"

definition SerializeCompressed :: "PublicKey \<Rightarrow> byte list" where
  "SerializeCompressed p =
     paddedAppend 32 [if isOdd (Y p) then pubkeyCompressed OR 0x1 else pubkeyCompressed] (be_bytes (X p))"

definition SerializeHybrid :: "PublicKey \<Rightarrow> byte list" where
  "SerializeHybrid p =
     paddedAppend 32 (paddedAppend 32 [if isOdd (Y p) then pubkeyHybrid OR 0x1 else pubkeyHybrid]
       (be_bytes (X p))) (be_bytes (Y p))"

definition PublicKey_IsEqual :: "PublicKey \<Rightarrow> PublicKey \<Rightarrow> bool" where
  "PublicKey_IsEqual p otherPubKey \<longleftrightarrow> X p = X otherPubKey \<and> Y p = Y otherPubKey"

subsection \<open>Signatures\<close>

record Signature =
  R :: int
  S :: int

definition minSigLen :: nat where
  "minSigLen = 8"

definition canonicalizeInt :: "int \<Rightarrow> byte list" where
  "canonicalizeInt val =
     (let b = be_bytes val; b = (if length b = 0 then [0x00] else b) in
      if b ! 0 AND 0x80 \<noteq> 0 then 0x00 # b else b)"

definition Signature_Serialize :: "Signature \<Rightarrow> byte list" where
  "Signature_Serialize sig =
     (let sigS = (if S sig > halfOrder then curveN - S sig else S sig);
          rb = canonicalizeInt (R sig);
          sb = canonicalizeInt sigS;
          len = 6 + length rb + length sb
      in [0x30, word_of_nat (len - 2), 0x02, word_of_nat (length rb)] @ rb @
         [0x02, word_of_nat (length sb)] @ sb)"

definition Signature_IsEqual :: "Signature \<Rightarrow> Signature \<Rightarrow> bool" where
  "Signature_IsEqual sig otherSig \<longleftrightarrow> R sig = R otherSig \<and> S sig = S otherSig"

text \<open>\<open>canonicalPadding\<close> indexes the first byte; its callers pass at least one.\<close>

definition canonicalPadding :: "string \<Rightarrow> byte list \<Rightarrow> (string, unit) res" where
  "canonicalPadding what b =
     bind_res (nth_res b 0) (\<lambda>b0.
       if b0 AND 0x80 = 0x80 then Err (''signature '' @ what @ '' is negative'')
       else if length b > 1 \<and> b0 = 0x00 \<and> b ! 1 AND 0x80 \<noteq> 0x80
       then Err (''signature '' @ what @ '' is excessively padded'')
       else Ok ())"

text \<open>
  \<^verbatim>\<open>siglen+2\<close> is computed in a byte and wraps around.  The comparisons with
  \<^verbatim>\<open>len(sigStr)-index\<close> are written without the subtraction.
\<close>

definition parseSig :: "byte list \<Rightarrow> bool \<Rightarrow> (string, Signature) res" where
  "parseSig sigStr0 der =
     (if length sigStr0 < minSigLen then Err ''malformed signature: too short''
      else bind_res (nth_res sigStr0 0) (\<lambda>magic.
      if magic \<noteq> 0x30 then Err ''malformed signature: no header magic''
      else bind_res (nth_res sigStr0 1) (\<lambda>siglen.
      let total = unat (siglen + 2) in
      if total > length sigStr0 \<or> total < minSigLen then Err ''malformed signature: bad length''
      else bind_res (slice_res sigStr0 0 total) (\<lambda>sigStr.
      bind_res (nth_res sigStr 2) (\<lambda>m1.
      if m1 \<noteq> 0x02 then Err ''malformed signature: no 1st int marker''
      else bind_res (nth_res sigStr 3) (\<lambda>rl.
      let rLen = unat rl in
      if rLen \<le> 0 \<or> rLen + 4 + 3 > length sigStr then Err ''malformed signature: bogus R length''
      else bind_res (slice_res sigStr 4 (4 + rLen)) (\<lambda>rBytes.
      bind_res (if der then canonicalPadding ''R'' rBytes else Ok ()) (\<lambda>_.
      bind_res (nth_res sigStr (4 + rLen)) (\<lambda>m2.
      if m2 \<noteq> 0x02 then Err ''malformed signature: no 2nd int marker''
      else bind_res (nth_res sigStr (5 + rLen)) (\<lambda>sl.
      let sLen = unat sl; index = 6 + rLen in
      if sLen \<le> 0 \<or> sLen + index > length sigStr
      then Err ''malformed signature: bogus S length''
      else bind_res (slice_res sigStr index (index + sLen)) (\<lambda>sBytes.
      bind_res (if der then canonicalPadding ''S'' sBytes else Ok ()) (\<lambda>_.
      let r = be_val rBytes; s = be_val sBytes in
      if index + sLen \<noteq> length sigStr then Err ''malformed signature: bad final length''
      else if \<not> r > 0 then Err ''signature R isn't 1 or more''
      else if \<not> s > 0 then Err ''signature S isn't 1 or more''
      else if r \<ge> curveN then Err ''signature R is >= curve.N''
      else if s \<ge> curveN then Err ''signature S is >= curve.N''
      else Ok \<lparr>R = r, S = s\<rparr>))))))))))))"

definition ParseSignature :: "byte list \<Rightarrow> (string, Signature) res" where
  "ParseSignature sigStr = parseSig sigStr False"

definition ParseDERSignature :: "byte list \<Rightarrow> (string, Signature) res" where
  "ParseDERSignature sigStr = parseSig sigStr True"

subsection \<open>Lemmas on big-endian bytes\<close>

lemma le_val_le_bytes: "0 \<le> n \<Longrightarrow> le_val (le_bytes n) = n"
proof (induction n rule: le_bytes.induct)
  case (1 n)
  then show ?case by (cases "n \<le> 0") (simp_all add: le_bytes.simps[of n] le_bytes.simps[of 0] uint_byte_of_int)
qed

lemma length_le_bytes: "n < 256 ^ k \<Longrightarrow> length (le_bytes n) \<le> k"
proof (induction k arbitrary: n)
  case 0
  then show ?case by (simp add: le_bytes.simps)
next
  case (Suc k)
  have "n div 256 < 256 ^ k" using Suc.prems by (simp add: div_less_iff_less_mult)
  then show ?case using Suc.IH by (simp add: le_bytes.simps[of n])
qed

lemma le_bytes_last: "0 < n \<Longrightarrow> le_bytes n \<noteq> [] \<and> last (le_bytes n) \<noteq> 0"
proof (induction n rule: le_bytes.induct)
  case (1 n)
  show ?case
  proof (cases "n div 256 \<le> 0")
    case True
    then have "n < 256" by simp
    then have "word_of_int (n mod 256) \<noteq> (0 :: byte)"
      using \<open>0 < n\<close> uint_byte_of_int[of n] by auto
    with True \<open>0 < n\<close> show ?thesis
      by (simp add: le_bytes.simps[of n] le_bytes.simps[of 0] le_bytes.simps[of "n div 256"])
  next
    case False
    with 1 show ?thesis by (simp add: le_bytes.simps[of n])
  qed
qed

lemma le_val_snoc_zeros [simp]: "le_val (xs @ replicate n 0) = le_val xs"
proof -
  have "le_val (replicate n 0) = 0" by (induction n) simp_all
  then show ?thesis by (simp add: le_val_append)
qed

lemma le_bytes_le_val: "xs = [] \<or> last xs \<noteq> 0 \<Longrightarrow> le_bytes (le_val xs) = xs"
proof (induction xs)
  case (Cons x xs)
  then have IH: "le_bytes (le_val xs) = xs" by (auto split: if_splits)
  have "le_val (x # xs) \<noteq> 0"
  proof (cases xs)
    case Nil
    then show ?thesis using Cons.prems by (simp add: word_uint_eq_iff)
  next
    case (Cons y ys)
    then have "le_val xs \<noteq> 0"
      using IH by (metis le_bytes.simps list.distinct(1) order_refl)
    then show ?thesis using le_val_nonneg[of xs] by (simp add: add_nonneg_eq_0_iff)
  qed
  then have "0 < uint x + 256 * le_val xs"
    using le_val_nonneg[of "x # xs"] by (metis le_val.simps(2) order_less_le)
  moreover have "(uint x + 256 * le_val xs) div 256 = le_val xs" "(uint x + 256 * le_val xs) mod 256 = uint x"
    using uint_byte_lt[of x] by simp_all
  ultimately show ?case
    using IH by (simp add: le_bytes.simps[of "uint x + 256 * le_val xs"])
qed (simp add: le_bytes.simps)

lemma be_val_nonneg [simp]: "0 \<le> be_val bs"
  by (simp add: be_val_def)

lemma be_val_lt: "be_val bs < 256 ^ length bs"
  using le_val_lt[of "rev bs"] by (simp add: be_val_def)

lemma be_val_be_bytes: "0 \<le> n \<Longrightarrow> be_val (be_bytes n) = n"
  by (simp add: be_val_def be_bytes_def le_val_le_bytes)

lemma be_bytes_be_val: "bs \<noteq> [] \<Longrightarrow> hd bs \<noteq> 0 \<Longrightarrow> be_bytes (be_val bs) = bs"
  by (simp add: be_val_def be_bytes_def le_bytes_le_val last_rev)

lemma be_val_zeros [simp]: "be_val (replicate n 0 @ bs) = be_val bs"
  by (simp add: be_val_def)

lemma be_val_zero_Cons [simp]: "be_val (0 # bs) = be_val bs"
  using be_val_zeros[of 1 bs] by simp

lemma be_val_inj: "length xs = length ys \<Longrightarrow> be_val xs = be_val ys \<Longrightarrow> xs = ys"
  using le_val_inj[of "rev xs" "rev ys"] by (simp add: be_val_def)

lemma length_be_bytes: "n < 256 ^ k \<Longrightarrow> length (be_bytes n) \<le> k"
  by (simp add: be_bytes_def length_le_bytes)

lemma be_bytes_hd: "0 < n \<Longrightarrow> be_bytes n \<noteq> [] \<and> hd (be_bytes n) \<noteq> 0"
  using le_bytes_last[of n] by (simp add: be_bytes_def hd_rev)

lemma paddedAppend_be:
  "length bs = k \<Longrightarrow> paddedAppend k dst (be_bytes (be_val bs)) = dst @ bs"
  unfolding paddedAppend_def
  using be_val_lt[of bs] length_be_bytes[of "be_val bs" k]
  by (intro arg_cong[where f = "(@) dst"] be_val_inj) (simp_all add: be_val_be_bytes)

lemma length_paddedAppend: "0 \<le> n \<Longrightarrow> n < 256 ^ k \<Longrightarrow>
    length (paddedAppend k dst (be_bytes n)) = length dst + k"
  using length_be_bytes[of n k] by (simp add: paddedAppend_def)

subsection \<open>Lemmas on public keys\<close>

lemma byte_low_bit: "(b :: byte) AND 0x1 = 0 \<or> b AND 0x1 = 0x1"
  by (cases "even b") (simp_all add: and_one_eq even_iff_mod_2_eq_zero odd_iff_mod_2_eq_one)

lemma byte_low_split: "b = (b AND NOT 0x1) OR (b AND (0x1 :: byte))"
  by (rule bit_word_eqI) (auto simp: bit_simps)

lemma curve_small: "n < curveP \<Longrightarrow> n < 256 ^ 32" "n < curveN \<Longrightarrow> n < 256 ^ 32"
  by (simp_all add: curveP_def curveN_def)

definition wf_PublicKey :: "PublicKey \<Rightarrow> bool" where
  "wf_PublicKey p \<longleftrightarrow> 0 \<le> X p \<and> X p < curveP \<and> 0 \<le> Y p \<and> Y p < curveP \<and> IsOnCurve (X p) (Y p)"

lemma first_byte_cases:
  fixes b :: byte
  assumes "b AND NOT 0x1 = f"
  shows "b = (if b AND 0x1 = 0x1 then f OR 0x1 else f)"
  using byte_low_split[of b] byte_low_bit[of b] assms by auto

lemma decompressPoint_Ok:
  assumes "decompressPoint x ybit = Ok y"
  shows "ybit = isOdd y"
  using assms by (auto simp: decompressPoint_def Let_def split: if_splits)

lemma powmod_nonneg: "0 \<le> b \<Longrightarrow> 0 < m \<Longrightarrow> 0 \<le> powmod b e m \<and> powmod b e m < m"
proof (induction b e m rule: powmod.induct)
  case (1 b e m)
  then show ?case by (simp add: powmod.simps[of b e m] Let_def)
qed

lemma decompressPoint_nonneg: "decompressPoint x ybit = Ok y \<Longrightarrow> 0 \<le> y"
proof -
  have P: "0 < curveP" by (simp add: curveP_def)
  then have "0 \<le> powmod ((x * x * x + curveB) mod curveP) QPlus1Div4 curveP"
    "powmod ((x * x * x + curveB) mod curveP) QPlus1Div4 curveP < curveP"
    using powmod_nonneg[of "(x * x * x + curveB) mod curveP" curveP QPlus1Div4] by simp_all
  then show "decompressPoint x ybit = Ok y \<Longrightarrow> 0 \<le> y"
    by (auto simp: decompressPoint_def Let_def split: if_splits)
qed


lemma slices_65: "length str = 65 \<Longrightarrow> str = str ! 0 # slice str 1 33 @ drop 33 str"
  by (cases str) (simp_all add: slice_def)

lemma slices_33: "length str = 33 \<Longrightarrow> str = str ! 0 # slice str 1 33"
  by (cases str) (simp_all add: slice_def)

lemmas pubkey_consts = PubKeyBytesLenCompressed_def PubKeyBytesLenUncompressed_def
  pubkeyCompressed_def pubkeyUncompressed_def pubkeyHybrid_def

text \<open>The formats a key can be parsed from.\<close>

definition pubkey_forms :: "PublicKey \<Rightarrow> byte list set" where
  "pubkey_forms p = {SerializeCompressed p, SerializeUncompressed p, SerializeHybrid p,
     0x05 # tl (SerializeUncompressed p)}"

lemma ParsePubKey_compressed:
  assumes "ParsePubKey str = Ok p" "length str = 33"
  shows "wf_PublicKey p \<and> str = SerializeCompressed p"
proof -
  define x where "x = be_val (slice str 1 33)"
  from assms have fmt: "str ! 0 AND NOT 0x1 = pubkeyCompressed"
    by (auto simp: ParsePubKey_def pubkey_consts Let_def split: if_splits)
  with assms obtain y where y: "decompressPoint x (str ! 0 AND 0x1 = 0x1) = Ok y" "\<not> x \<ge> curveP" "\<not> y \<ge> curveP"
    "IsOnCurve x y" "p = \<lparr>X = x, Y = y\<rparr>"
    by (auto simp: ParsePubKey_def PubKeyBytesLenCompressed_def PubKeyBytesLenUncompressed_def
        Let_def x_def bind_res_Ok_iff split: if_splits)
  have "length (slice str 1 33) = 32" using assms(2) by simp
  then have "SerializeCompressed p = (str ! 0) # slice str 1 33"
    using y decompressPoint_Ok[OF y(1)] first_byte_cases[OF fmt] x_def
    by (simp add: SerializeCompressed_def paddedAppend_be)
  moreover have "wf_PublicKey p"
    using y decompressPoint_nonneg[OF y(1)] x_def by (simp add: wf_PublicKey_def)
  ultimately show ?thesis using slices_33[OF assms(2)] by simp
qed

lemma ParsePubKey_uncompressed:
  assumes "ParsePubKey str = Ok p" "length str = 65"
  shows "wf_PublicKey p \<and> str \<in> pubkey_forms p"
proof -
  define x where "x = be_val (slice str 1 33)"
  define y where "y = be_val (drop 33 str)"
  from assms have fmt: "str ! 0 AND NOT 0x1 = pubkeyUncompressed \<or> str ! 0 AND NOT 0x1 = pubkeyHybrid"
    and hyb: "str ! 0 AND NOT 0x1 = pubkeyHybrid \<Longrightarrow> (str ! 0 AND 0x1 = 0x1) = isOdd y"
    and p: "\<not> x \<ge> curveP" "\<not> y \<ge> curveP" "IsOnCurve x y" "p = \<lparr>X = x, Y = y\<rparr>"
    by (auto simp: ParsePubKey_def PubKeyBytesLenUncompressed_def Let_def x_def y_def bind_res_Ok_iff
        split: if_splits)
  have lens: "length (slice str 1 33) = 32" "length (drop 33 str) = 32" using assms(2) by simp_all
  then have xy: "paddedAppend 32 (paddedAppend 32 [b] (be_bytes (X p))) (be_bytes (Y p)) =
      b # slice str 1 33 @ drop 33 str" for b
    using p x_def y_def by (simp add: paddedAppend_be)
  have "str ! 0 = 0x04 \<or> str ! 0 = 0x05 \<or> str ! 0 = (if isOdd y then pubkeyHybrid OR 0x1 else pubkeyHybrid)"
  proof (cases "str ! 0 AND NOT 0x1 = pubkeyHybrid")
    case True
    then show ?thesis using first_byte_cases[OF True] hyb by simp
  next
    case False
    with fmt have "str ! 0 AND NOT 0x1 = pubkeyUncompressed" by simp
    from first_byte_cases[OF this] show ?thesis by (auto simp: pubkeyUncompressed_def split: if_splits)
  qed
  then have "str \<in> pubkey_forms p"
    using slices_65[OF assms(2)] p xy
    by (auto simp: pubkey_forms_def SerializeUncompressed_def SerializeHybrid_def pubkeyUncompressed_def)
  then show ?thesis using p by (simp add: wf_PublicKey_def x_def y_def)
qed

lemma ParsePubKey_length: "ParsePubKey str = Ok p \<Longrightarrow> length str = 33 \<or> length str = 65"
  by (auto simp: ParsePubKey_def PubKeyBytesLenCompressed_def PubKeyBytesLenUncompressed_def Let_def
      split: if_splits)

lemma Parse_uncompressed_forms:
  assumes "wf_PublicKey p" "b = 0x04 \<or> b = 0x05 \<or> b = (if isOdd (Y p) then 0x07 else 0x06)"
  shows "ParsePubKey (paddedAppend 32 (paddedAppend 32 [b] (be_bytes (X p))) (be_bytes (Y p))) = Ok p"
proof -
  define xs where "xs = paddedAppend 32 [] (be_bytes (X p))"
  define ys where "ys = paddedAppend 32 [] (be_bytes (Y p))"
  have len: "length xs = 32" "length ys = 32"
    using assms(1) length_paddedAppend[OF _ curve_small(1), of _ "[]"]
    by (simp_all add: xs_def ys_def wf_PublicKey_def)
  have val: "be_val xs = X p" "be_val ys = Y p"
    using assms(1) by (simp_all add: xs_def ys_def paddedAppend_def be_val_be_bytes wf_PublicKey_def)
  have str: "paddedAppend 32 (paddedAppend 32 [b] (be_bytes (X p))) (be_bytes (Y p)) = b # xs @ ys"
    by (simp add: xs_def ys_def paddedAppend_def)
  show ?thesis
    unfolding str using len val assms
    by (auto simp: ParsePubKey_def pubkey_consts Let_def slice_def wf_PublicKey_def)
qed


subsection \<open>Lemmas on signatures\<close>

lemma byte_top_bit: "(b :: byte) AND 0x80 = 0 \<or> b AND 0x80 = 0x80"
proof -
  have "b AND 0x80 = (if bit b 7 then 0x80 else 0)"
    by (rule bit_word_eqI) (auto simp: bit_simps numeral_eq_Suc elim!: less_SucE)
  then show ?thesis by simp
qed

lemma canonicalizeInt_props:
  assumes "0 < n"
  shows "canonicalizeInt n \<noteq> [] \<and> be_val (canonicalizeInt n) = n \<and>
    canonicalPadding w (canonicalizeInt n) = Ok ()"
proof -
  obtain b bs where bb: "be_bytes n = b # bs" "b \<noteq> 0"
    using be_bytes_hd[OF assms] by (cases "be_bytes n") auto
  have val: "be_val (b # bs) = n" using be_val_be_bytes[of n] assms bb by simp
  show ?thesis
    using bb val byte_top_bit[of b]
    by (auto simp: canonicalizeInt_def canonicalPadding_def)
qed

lemma length_canonicalizeInt: "0 < n \<Longrightarrow> n < 256 ^ 32 \<Longrightarrow> length (canonicalizeInt n) \<le> 33"
  using length_be_bytes[of n 32] be_bytes_hd[of n] by (auto simp: canonicalizeInt_def Let_def)

lemma canonicalizeInt_unique:
  assumes "canonicalPadding w bs = Ok ()" "0 < be_val bs"
  shows "canonicalizeInt (be_val bs) = bs"
proof (cases bs)
  case Nil
  with assms show ?thesis by (simp add: canonicalPadding_def nth_res_def)
next
  case (Cons b cs)
  with assms have top: "b AND 0x80 \<noteq> 0x80" "b = 0 \<Longrightarrow> cs \<noteq> [] \<Longrightarrow> cs ! 0 AND 0x80 = 0x80"
    by (auto simp: canonicalPadding_def split: if_splits)
  show ?thesis
  proof (cases "b = 0")
    case False
    then have "be_bytes (be_val bs) = bs" using Cons by (simp add: be_bytes_be_val)
    then show ?thesis using top byte_top_bit[of b] Cons by (simp add: canonicalizeInt_def)
  next
    case True
    then have cs: "cs \<noteq> []" using assms(2) Cons by (auto simp: be_val_def)
    with top True have "hd cs \<noteq> 0" "cs ! 0 AND 0x80 = 0x80" by (auto simp: hd_conv_nth)
    then have "be_bytes (be_val bs) = cs" using Cons True cs by (simp add: be_bytes_be_val)
    then show ?thesis using Cons True cs \<open>cs ! 0 AND 0x80 = 0x80\<close> by (simp add: canonicalizeInt_def)
  qed
qed

text \<open>The shape of a signature.\<close>

definition sig_bytes :: "byte list \<Rightarrow> byte list \<Rightarrow> byte list" where
  "sig_bytes rb sb = [0x30, word_of_nat (4 + length rb + length sb), 0x02, word_of_nat (length rb)] @ rb @
     [0x02, word_of_nat (length sb)] @ sb"

definition padding_ok :: "byte list \<Rightarrow> bool" where
  "padding_ok bs \<longleftrightarrow> canonicalPadding [] bs = Ok ()"

lemma canonicalPadding_Ok: "canonicalPadding w bs = Ok () \<longleftrightarrow> padding_ok bs"
  by (auto simp: canonicalPadding_def padding_ok_def nth_res_def split: if_splits)

lemma unat_small: "n < 256 \<Longrightarrow> unat (word_of_nat n :: byte) = n"
  by (simp add: unat_of_nat take_bit_nat_eq_self)

lemma parseSig_bytes:
  assumes "rb \<noteq> []" "sb \<noteq> []" "length rb + length sb < 250"
    and "der \<Longrightarrow> padding_ok rb \<and> padding_ok sb"
    and "0 < be_val rb" "be_val rb < curveN" "0 < be_val sb" "be_val sb < curveN"
  shows "parseSig (sig_bytes rb sb @ rest) der = Ok \<lparr>R = be_val rb, S = be_val sb\<rparr>"
proof -
  define n m where "n = length rb" and "m = length sb"
  have nm: "0 < n" "0 < m" "n + m < 250" using assms by (simp_all add: n_def m_def)
  have total: "unat (word_of_nat (4 + n + m) + 2 :: byte) = 6 + n + m"
    using nm unat_small[of "6 + n + m"] by (simp add: algebra_simps)
  have len: "unat (word_of_nat n :: byte) = n" "unat (word_of_nat m :: byte) = m"
    using nm by (simp_all add: unat_small)
  define str where "str = sig_bytes rb sb"
  have lstr: "length str = 6 + n + m" by (simp add: str_def sig_bytes_def n_def m_def)
  have els: "str ! 0 = 0x30" "str ! 1 = word_of_nat (4 + n + m)" "str ! 2 = 0x02" "str ! 3 = word_of_nat n"
    "str ! (4 + n) = 0x02" "str ! (5 + n) = word_of_nat m"
    by (simp_all add: str_def sig_bytes_def n_def m_def nth_append)
  have parts: "take n (drop 4 str) = rb" "drop (6 + n) str = sb" "take m sb = sb"
    by (simp_all add: str_def sig_bytes_def n_def m_def numeral_eq_Suc)
  have pad: "(if der then canonicalPadding w rb else Ok ()) = Ok ()"
    "(if der then canonicalPadding w sb else Ok ()) = Ok ()" for w
    using assms(4) by (simp_all add: canonicalPadding_Ok)
  show ?thesis
    unfolding str_def[symmetric] parseSig_def
    using nm total len lstr els parts assms(5-8)
    by (simp add: nth_append slice_res_def minSigLen_def Let_def pad add.commute add.left_commute del: One_nat_def)
qed


lemma sig_list_split:
  assumes "length str = 6 + n + m"
  shows "str = [str ! 0, str ! 1, str ! 2, str ! 3] @ take n (drop 4 str) @
    [str ! (4 + n), str ! (5 + n)] @ take m (drop (6 + n) str)"
proof -
  have "drop (4 + n) str = take 2 (drop (4 + n) str) @ drop (6 + n) str"
    using append_take_drop_id[of 2 "drop (4 + n) str"] by (simp add: add.commute)
  moreover have "drop 4 str = take n (drop 4 str) @ drop (4 + n) str"
    using append_take_drop_id[of n "drop 4 str"] by (simp add: add.commute)
  ultimately have "str = take 4 str @ take n (drop 4 str) @ take 2 (drop (4 + n) str) @ drop (6 + n) str"
    using append_take_drop_id[of 4 str] by simp
  moreover have "take 4 str = [str ! 0, str ! 1, str ! 2, str ! 3]"
    using assms by (intro nth_equalityI) (auto simp: nth_Cons' numeral_eq_Suc less_Suc_eq)
  moreover have "take 2 (drop (4 + n) str) = [str ! (4 + n), str ! (5 + n)]"
    using assms by (intro nth_equalityI) (auto simp: nth_Cons' numeral_eq_Suc less_Suc_eq)
  moreover have "drop (6 + n) str = take m (drop (6 + n) str)" using assms by simp
  ultimately show ?thesis by metis
qed

lemma when_Ok: "(if c then r else Ok ()) = Ok u \<longleftrightarrow> (c \<longrightarrow> r = Ok ())"
  by simp

lemma parseSig_accepts:
  assumes "parseSig str der = Ok sig"
  obtains rb sb rest where "str = sig_bytes rb sb @ rest" "rb \<noteq> []" "sb \<noteq> []"
    "length rb + length sb < 250" "der \<Longrightarrow> padding_ok rb \<and> padding_ok sb"
    "0 < be_val rb" "be_val rb < curveN" "0 < be_val sb" "be_val sb < curveN"
    "sig = \<lparr>R = be_val rb, S = be_val sb\<rparr>"
proof -
  define t where "t = unat (str ! 1 + 2)"
  define s where "s = take t str"
  define n m where "n = unat (s ! 3)" and "m = unat (s ! (5 + n))"
  define rb sb where "rb = take n (drop 4 s)" and "sb = take m (drop (6 + n) s)"
  have facts: "t \<le> length str" "8 \<le> t" "str ! 0 = 0x30" "0 < n" "n + 7 \<le> length s" "s ! 2 = 0x02"
    "0 < m" "6 + n + m = length s" "s ! (4 + n) = 0x02"
    "der \<longrightarrow> canonicalPadding ''R'' rb = Ok () \<and> canonicalPadding ''S'' sb = Ok ()"
    "0 < be_val rb" "be_val rb < curveN" "0 < be_val sb" "be_val sb < curveN"
    "sig = \<lparr>R = be_val rb, S = be_val sb\<rparr>"
    using assms unfolding parseSig_def Let_def res_Ok_iffs minSigLen_def
    unfolding t_def s_def n_def m_def rb_def sb_def by (simp_all add: not_less not_le when_Ok del: nth_take)
  note t = facts(1,2) and str0 = facts(3) and n = facts(4,5) and s2 = facts(6)
    and s4 = facts(9) and val = facts(11-14) and sig = facts(15)
  have ls: "length s = t" using t by (simp add: s_def)
  have m: "0 < m" "6 + n + m = t" using facts(7,8) ls by simp_all
  have der: "der \<Longrightarrow> padding_ok rb \<and> padding_ok sb" using facts(10) by (simp add: canonicalPadding_Ok)
  have nz: "length rb = n" "length sb = m" using n m ls by (simp_all add: rb_def sb_def)
  have "t < 256" by (simp add: t_def)
  then have bnd: "n + m < 250" using m by simp
  have s1: "s ! 1 = word_of_nat (4 + n + m)"
  proof -
    have "s ! 1 = str ! 1" using t by (simp add: s_def)
    moreover have "str ! 1 = word_of_nat t - 2" by (simp add: t_def)
    moreover have "word_of_nat t = (word_of_nat (4 + n + m) + 2 :: byte)"
      by (simp add: m(2)[symmetric])
    ultimately show ?thesis by simp
  qed
  have "s ! 0 = 0x30" using str0 t by (simp add: s_def)
  moreover have "s ! 3 = word_of_nat (length rb)" "s ! (5 + n) = word_of_nat (length sb)"
    by (simp_all add: nz) (simp_all add: n_def m_def)
  moreover have "s = [s ! 0, s ! 1, s ! 2, s ! 3] @ rb @ [s ! (4 + n), s ! (5 + n)] @ sb"
    unfolding rb_def sb_def by (rule sig_list_split) (simp add: ls m)
  ultimately have "s = sig_bytes rb sb"
    unfolding sig_bytes_def nz by (metis s1 s2 s4 nz)
  then have "str = sig_bytes rb sb @ drop t str" by (metis append_take_drop_id s_def)
  then show thesis
    using that der val sig bnd nz n m by auto
qed

lemma canonicalPadding_returns: "b \<noteq> [] \<Longrightarrow> returns (canonicalPadding w b)"
  unfolding canonicalPadding_def by (intro returns_intros) simp_all

lemma parseSig_returns: "returns (parseSig str der)"
  unfolding parseSig_def Let_def minSigLen_def
  by (intro returns_intros canonicalPadding_returns; auto simp: slice_res_Ok_iff)


lemma Signature_Serialize_bytes:
  "Signature_Serialize sig = sig_bytes (canonicalizeInt (R sig))
     (canonicalizeInt (if S sig > halfOrder then curveN - S sig else S sig))"
  by (simp add: Signature_Serialize_def sig_bytes_def Let_def)

lemma low_S: "0 < s \<Longrightarrow> s < curveN \<Longrightarrow>
    0 < (if s > halfOrder then curveN - s else s) \<and> (if s > halfOrder then curveN - s else s) < curveN"
  by (simp add: halfOrder_def curveN_def)

text \<open>The generator, for the concrete instances.\<close>

definition curveG :: PublicKey where
  "curveG = \<lparr>X = 0x79BE667EF9DCBBAC55A06295CE870B07029BFCDB2DCE28D959F2815B16F81798,
     Y = 0x483ADA7726A3C4655DA4FBFC0E1108A8FD17B448A68554199C47D08FFB10D4B8\<rparr>"

lemma wf_curveG: "wf_PublicKey curveG"
proof -
  have "X curveG * X curveG * X curveG + 7 - Y curveG * Y curveG =
      0x1b888e01a06e974017a28a5b4da436169761c9730b7aeedf75fc60f6a33cfc7792fe74711f025d590b10e57f1b3a7ce38ffc4c885c515894b45c19c9f413e5e9 * curveP"
    by (simp add: curveG_def curveP_def)
  then have "IsOnCurve (X curveG) (Y curveG)"
    unfolding IsOnCurve_def by (metis dvd_triv_right mod_eq_dvd_iff)
  then show ?thesis by (simp add: wf_PublicKey_def curveG_def curveP_def)
qed

lemma curveG_uncompressed: "ParsePubKey (SerializeUncompressed curveG) = Ok curveG"
  using Parse_uncompressed_forms[OF wf_curveG, of "0x04"]
  by (simp add: SerializeUncompressed_def pubkeyUncompressed_def)

subsection \<open>Properties\<close>

text \<open>
  Claim C37. A parsed public key is a point of the curve with both coordinates reduced, and the
  bytes are one of its serialisations: compressed, uncompressed or hybrid, or the uncompressed one
  with the first byte 0x05, which the parser also takes.  In the other direction the
  uncompressed and the hybrid serialisation of every point of the curve parse to that point.
\<close>

theorem ParsePubKey_forms:
  "(ParsePubKey str = Ok p \<longrightarrow> wf_PublicKey p \<and> str \<in> pubkey_forms p) \<and>
   (wf_PublicKey p \<longrightarrow> ParsePubKey (SerializeUncompressed p) = Ok p \<and>
      ParsePubKey (SerializeHybrid p) = Ok p \<and>
      ParsePubKey (0x05 # tl (SerializeUncompressed p)) = Ok p)"
proof (intro conjI impI)
  assume parse: "ParsePubKey str = Ok p"
  then consider "length str = 33" | "length str = 65" using ParsePubKey_length by blast
  then show "wf_PublicKey p" "str \<in> pubkey_forms p"
    using ParsePubKey_compressed[OF parse] ParsePubKey_uncompressed[OF parse]
    by (cases; simp add: pubkey_forms_def)+
next
  assume wf: "wf_PublicKey p"
  note run = Parse_uncompressed_forms[OF wf]
  show "ParsePubKey (SerializeUncompressed p) = Ok p"
    using run[of "0x04"] by (simp add: SerializeUncompressed_def pubkeyUncompressed_def)
  show "ParsePubKey (SerializeHybrid p) = Ok p"
    using run[of "if isOdd (Y p) then 0x07 else 0x06"]
    by (simp add: SerializeHybrid_def pubkeyHybrid_def split: if_splits)
  show "ParsePubKey (0x05 # tl (SerializeUncompressed p)) = Ok p"
    using run[of "0x05"] by (simp add: SerializeUncompressed_def paddedAppend_def)
qed

theorem ParsePubKey_forms_witness:
  "wf_PublicKey curveG \<and> SerializeUncompressed curveG \<in> pubkey_forms curveG \<and>
   ParsePubKey (SerializeHybrid curveG) = Ok curveG"
  using ParsePubKey_forms[of "SerializeUncompressed curveG" curveG] curveG_uncompressed by simp

text \<open>
  The parser of signatures never indexes or slices out of range, whatever the bytes and
  in both modes: it always returns a signature or an error.
\<close>

theorem parseSig_total: "parseSig str der \<noteq> Panic \<and> parseSig str der \<noteq> Hang"
  using parseSig_returns by (simp add: returns_def)

text \<open>
  Claim C20. A signature with both values in the range of the curve order survives serialisation
  and strict parsing, up to the replacement of a high S value by its complement; bytes that follow
  the signature are ignored.
\<close>

theorem Signature_DER_roundtrip:
  assumes "0 < R sig" "R sig < curveN" "0 < S sig" "S sig < curveN"
  shows "ParseDERSignature (Signature_Serialize sig @ rest) =
    Ok \<lparr>R = R sig, S = (if S sig > halfOrder then curveN - S sig else S sig)\<rparr>"
proof -
  define s where "s = (if S sig > halfOrder then curveN - S sig else S sig)"
  have s: "0 < s" "s < curveN" using low_S[OF assms(3,4)] by (simp_all add: s_def)
  have r: "length (canonicalizeInt (R sig)) \<le> 33" "length (canonicalizeInt s) \<le> 33"
    using assms s length_canonicalizeInt[OF _ curve_small(2)] by simp_all
  show ?thesis
    using canonicalizeInt_props[OF assms(1)] canonicalizeInt_props[OF s(1)] r assms s
      parseSig_bytes[of "canonicalizeInt (R sig)" "canonicalizeInt s" True rest]
    unfolding ParseDERSignature_def Signature_Serialize_bytes s_def[symmetric]
    by (simp add: canonicalPadding_Ok)
qed

theorem Signature_DER_roundtrip_witness:
  "ParseDERSignature (Signature_Serialize \<lparr>R = 5, S = 0x123456789\<rparr> @ [1]) =
    Ok \<lparr>R = 5, S = (if 0x123456789 > halfOrder then curveN - 0x123456789 else 0x123456789)\<rparr>"
  using Signature_DER_roundtrip[of "\<lparr>R = 5, S = 0x123456789\<rparr>" "[1]"] by (simp add: curveN_def)

text \<open>
  Strict parsing is canonical: bytes that parse to a signature with a low S value start
  with the serialisation of that signature, so two different strict encodings never parse to the
  same low-S signature.
\<close>

theorem ParseDERSignature_canonical:
  assumes "ParseDERSignature str = Ok sig" "S sig \<le> halfOrder"
  shows "\<exists>rest. str = Signature_Serialize sig @ rest"
proof -
  from assms(1) obtain rb sb rest where parts: "str = sig_bytes rb sb @ rest"
    "padding_ok rb \<and> padding_ok sb" "0 < be_val rb" "0 < be_val sb"
    "sig = \<lparr>R = be_val rb, S = be_val sb\<rparr>"
    unfolding ParseDERSignature_def by (rule parseSig_accepts) auto
  then have "canonicalizeInt (R sig) = rb" "canonicalizeInt (S sig) = sb"
    using canonicalizeInt_unique[of "[]"] by (simp_all add: padding_ok_def)
  with parts assms(2) show ?thesis by (simp add: Signature_Serialize_bytes)
qed

theorem ParseDERSignature_canonical_witness:
  "\<exists>rest. [0x30, 6, 2, 1, 5, 2, 1, 7, 9] = Signature_Serialize \<lparr>R = 5, S = 7\<rparr> @ rest"
  by (rule ParseDERSignature_canonical)
    (simp_all add: ParseDERSignature_def parseSig_def minSigLen_def nth_res_def slice_res_def
      canonicalPadding_def be_val_def curveN_def halfOrder_def)

end
