(* ===== verification/SigHash.thy ===== *)
theory SigHash
  imports Script Wire Elliptic "HOL-Library.AList"
begin

text \<open>
  Signature hashes (the second half of \<^verbatim>\<open>pkg/chain/tx/script/script.go\<close>), the cache of their parts
  (\<^verbatim>\<open>hashcache.go\<close>) and the cache of verified signatures (\<^verbatim>\<open>sigcache.go\<close>).

  An input index is an \<open>int\<close>, as in the code, where a negative index panics.  The caches are
  association lists; their mutexes are held for whole calls, so a call is one step.  The entry a
  full signature cache evicts is the first one Go's map iteration yields, an argument of \<open>Add\<close>.

  The lemmas compare the witness signature hash with the preimage BIP 143 defines, say which parts
  of a transaction a legacy signature commits to, and show that the caches only ever answer what
  the computation they replace would answer.
\<close>

unbundle bit_operations_syntax

subsection \<open>Hash types\<close>

type_synonym SigHashType = "32 word"

definition SigHashOld :: SigHashType where
  "SigHashOld = 0x0"

definition SigHashAll :: SigHashType where
  "SigHashAll = 0x1"

definition SigHashNone :: SigHashType where
  "SigHashNone = 0x2"

definition SigHashSingle :: SigHashType where
  "SigHashSingle = 0x3"

definition SigHashAnyOneCanPay :: SigHashType where
  "SigHashAnyOneCanPay = 0x80"

definition sigHashMask :: SigHashType where
  "sigHashMask = 0x1f"

subsection \<open>Witness signature hashes\<close>

definition calcHashPrevOuts :: "MsgTx \<Rightarrow> byte list" where
  "calcHashPrevOuts tx =
     DoubleHashH (concat (map (\<lambda>ti. Hash (PreviousOutPoint ti) @ PutUint32 (Index (PreviousOutPoint ti)))
       (txIns tx)))"

definition calcHashSequence :: "MsgTx \<Rightarrow> byte list" where
  "calcHashSequence tx = DoubleHashH (concat (map (\<lambda>ti. PutUint32 (Sequence ti)) (txIns tx)))"

definition calcHashOutputs :: "MsgTx \<Rightarrow> byte list" where
  "calcHashOutputs tx = DoubleHashH (concat (map WriteTxOut (txOuts tx)))"

record TxSigHashes =
  HashPrevOuts :: "byte list"
  HashSequence :: "byte list"
  HashOutputs :: "byte list"

definition NewTxSigHashes :: "MsgTx \<Rightarrow> TxSigHashes" where
  "NewTxSigHashes tx =
     \<lparr>HashPrevOuts = calcHashPrevOuts tx, HashSequence = calcHashSequence tx,
      HashOutputs = calcHashOutputs tx\<rparr>"

text \<open>The bytes of a script when the caller drops the error.\<close>

definition rawScript :: "parsedOpcode list \<Rightarrow> byte list" where
  "rawScript pops = (case unparseScript pops of Ok b \<Rightarrow> b | _ \<Rightarrow> [])"

definition zeroHash :: "byte list" where
  "zeroHash = replicate HashSize 0"

definition calcWitnessSignatureHash ::
  "parsedOpcode list \<Rightarrow> TxSigHashes \<Rightarrow> SigHashType \<Rightarrow> MsgTx \<Rightarrow> int \<Rightarrow> 64 word \<Rightarrow>
   (script_error, byte list) res" where
  "calcWitnessSignatureHash subScript sigHashes hashType tx idx amt =
     (if idx > int (length (txIns tx)) - 1 then Err Errorf
      else if idx < 0 then Panic
      else
        let txIn = txIns tx ! nat idx in
        Ok (DoubleHashB
          (PutUint32 (Version tx) @
           (if hashType AND SigHashAnyOneCanPay = 0 then HashPrevOuts sigHashes else zeroHash) @
           (if hashType AND SigHashAnyOneCanPay = 0 \<and> hashType AND sigHashMask \<noteq> SigHashSingle \<and>
               hashType AND sigHashMask \<noteq> SigHashNone
            then HashSequence sigHashes else zeroHash) @
           Hash (PreviousOutPoint txIn) @ PutUint32 (Index (PreviousOutPoint txIn)) @
           (if isWitnessPubKeyHash subScript
            then [0x19, OP_DUP, OP_HASH160, OP_DATA_20] @ pop_data (subScript ! 1) @
                 [OP_EQUALVERIFY, OP_CHECKSIG]
            else WriteVarBytes (rawScript subScript)) @
           PutUint64 amt @ PutUint32 (Sequence txIn) @
           (if hashType AND SigHashSingle \<noteq> SigHashSingle \<and> hashType AND SigHashNone \<noteq> SigHashNone
            then HashOutputs sigHashes
            else if hashType AND sigHashMask = SigHashSingle \<and> idx < int (length (txOuts tx))
            then DoubleHashB (WriteTxOut (txOuts tx ! nat idx))
            else zeroHash) @
           PutUint32 (LockTime tx) @ PutUint32 hashType)))"

definition CalcWitnessSigHash ::
  "byte list \<Rightarrow> TxSigHashes \<Rightarrow> SigHashType \<Rightarrow> MsgTx \<Rightarrow> int \<Rightarrow> 64 word \<Rightarrow>
   (script_error, byte list) res" where
  "CalcWitnessSigHash script sigHashes hType tx idx amt =
     (case parsed script of
        Ok parsedScript \<Rightarrow> calcWitnessSignatureHash parsedScript sigHashes hType tx idx amt
      | Err _ \<Rightarrow> Err Errorf | Panic \<Rightarrow> Panic | Hang \<Rightarrow> Hang)"

subsection \<open>Legacy signature hashes\<close>

text \<open>
  The copy shares no input or output struct with the original, so the changes below stay in it;
  a value that is never shared is its own copy.
\<close>

definition shallowCopyTx :: "MsgTx \<Rightarrow> MsgTx" where
  "shallowCopyTx tx =
     \<lparr>Version = Version tx, txIns = map (\<lambda>oldTxIn. oldTxIn) (txIns tx),
      txOuts = map (\<lambda>oldTxOut. oldTxOut) (txOuts tx), LockTime = LockTime tx\<rparr>"

text \<open>A loop over the inputs or outputs with their index.\<close>

definition map_idx :: "(nat \<Rightarrow> 'a \<Rightarrow> 'b) \<Rightarrow> 'a list \<Rightarrow> 'b list" where
  "map_idx f xs = map (\<lambda>i. f i (xs ! i)) [0..<length xs]"

definition zeroOtherSequences :: "int \<Rightarrow> TxIn list \<Rightarrow> TxIn list" where
  "zeroOtherSequences idx = map_idx (\<lambda>i ti. if int i \<noteq> idx then ti\<lparr>Sequence := 0\<rparr> else ti)"

definition calcSignatureHash ::
  "parsedOpcode list \<Rightarrow> SigHashType \<Rightarrow> MsgTx \<Rightarrow> int \<Rightarrow> (script_error, byte list) res" where
  "calcSignatureHash script hashType tx idx =
     (if hashType AND sigHashMask = SigHashSingle \<and> idx \<ge> int (length (txOuts tx))
      then Ok (0x01 # replicate (HashSize - 1) 0)
      else
        let script' = removeOpcode script OP_CODESEPARATOR;
            txCopy = shallowCopyTx tx;
            txCopy = txCopy\<lparr>txIns := map_idx (\<lambda>i ti.
              if int i = idx then ti\<lparr>SignatureScript := rawScript script'\<rparr>
              else ti\<lparr>SignatureScript := []\<rparr>) (txIns txCopy)\<rparr>
        in bind_res
          (if hashType AND sigHashMask = SigHashNone then
             Ok (txCopy\<lparr>txOuts := [], txIns := zeroOtherSequences idx (txIns txCopy)\<rparr>)
           else if hashType AND sigHashMask = SigHashSingle then
             (if idx + 1 < 0 then Panic
              else Ok (txCopy\<lparr>
                txOuts := map_idx (\<lambda>i to. if int i < idx then to\<lparr>Value := -1, PkScript := []\<rparr> else to)
                  (take (nat (idx + 1)) (txOuts txCopy)),
                txIns := zeroOtherSequences idx (txIns txCopy)\<rparr>))
           else Ok txCopy)
          (\<lambda>txCopy. bind_res
            (if hashType AND SigHashAnyOneCanPay \<noteq> 0 then
               (if idx < 0 \<or> idx + 1 > int (length (txIns txCopy)) then Panic
                else Ok (txCopy\<lparr>txIns := [txIns txCopy ! nat idx]\<rparr>))
             else Ok txCopy)
            (\<lambda>txCopy. Ok (DoubleHashB (SerializeNoWitness txCopy @ PutUint32 hashType)))))"

definition CalcSignatureHash ::
  "byte list \<Rightarrow> SigHashType \<Rightarrow> MsgTx \<Rightarrow> int \<Rightarrow> (script_error, byte list) res" where
  "CalcSignatureHash script hashType tx idx =
     (case parsed script of
        Ok parsedScript \<Rightarrow> calcSignatureHash parsedScript hashType tx idx
      | Err _ \<Rightarrow> Err Errorf | Panic \<Rightarrow> Panic | Hang \<Rightarrow> Hang)"

subsection \<open>The cache of partial hashes\<close>

record HashCache =
  sigHashes :: "(byte list \<times> TxSigHashes) list"

definition NewHashCache :: HashCache where
  "NewHashCache = \<lparr>sigHashes = []\<rparr>"

definition AddSigHashes :: "MsgTx \<Rightarrow> HashCache \<Rightarrow> HashCache" where
  "AddSigHashes tx h = h\<lparr>sigHashes := AList.update (TxHash tx) (NewTxSigHashes tx) (sigHashes h)\<rparr>"

definition GetSigHashes :: "byte list \<Rightarrow> HashCache \<Rightarrow> TxSigHashes option" where
  "GetSigHashes txid h = map_of (sigHashes h) txid"

definition ContainsHashes :: "byte list \<Rightarrow> HashCache \<Rightarrow> bool" where
  "ContainsHashes txid h \<longleftrightarrow> map_of (sigHashes h) txid \<noteq> None"

definition PurgeSigHashes :: "byte list \<Rightarrow> HashCache \<Rightarrow> HashCache" where
  "PurgeSigHashes txid h = h\<lparr>sigHashes := AList.delete txid (sigHashes h)\<rparr>"

subsection \<open>The cache of verified signatures\<close>

record sigCacheEntry =
  entry_sig :: Signature
  entry_pubKey :: PublicKey

record SigCache =
  validSigs :: "(byte list \<times> sigCacheEntry) list"
  maxEntries :: nat

definition NewSigCache :: "nat \<Rightarrow> SigCache" where
  "NewSigCache maxE = \<lparr>validSigs = [], maxEntries = maxE\<rparr>"

definition SigCache_Exists :: "SigCache \<Rightarrow> byte list \<Rightarrow> Signature \<Rightarrow> PublicKey \<Rightarrow> bool" where
  "SigCache_Exists s sigHash sig pubKey =
     (case map_of (validSigs s) sigHash of
        None \<Rightarrow> False
      | Some entry \<Rightarrow> PublicKey_IsEqual (entry_pubKey entry) pubKey \<and> Signature_IsEqual (entry_sig entry) sig)"

text \<open>\<open>first\<close> is the first key the iteration over the map yields.\<close>

definition SigCache_Add ::
  "(SigCache \<Rightarrow> byte list) \<Rightarrow> SigCache \<Rightarrow> byte list \<Rightarrow> Signature \<Rightarrow> PublicKey \<Rightarrow> SigCache" where
  "SigCache_Add first s sigHash sig pubKey =
     (if maxEntries s \<le> 0 then s
      else
        let s' = (if length (validSigs s) + 1 > maxEntries s
                  then s\<lparr>validSigs := AList.delete (first s) (validSigs s)\<rparr> else s)
        in s'\<lparr>validSigs := AList.update sigHash \<lparr>entry_sig = sig, entry_pubKey = pubKey\<rparr> (validSigs s')\<rparr>)"

subsection \<open>What a witness signature signs\<close>

text \<open>The preimage of BIP 143, written from its ten items, with the script code as an argument.\<close>

definition bip143_base :: "SigHashType \<Rightarrow> nat" where
  "bip143_base h = unat h mod 32"

definition bip143_preimage ::
  "byte list \<Rightarrow> SigHashType \<Rightarrow> MsgTx \<Rightarrow> nat \<Rightarrow> 64 word \<Rightarrow> byte list" where
  "bip143_preimage scriptCode h tx i amt =
     (let anyone = bit h 7; single = (bip143_base h = 3); none = (bip143_base h = 2);
          ti = txIns tx ! i; zero = replicate 32 0
      in PutUint32 (Version tx) @
         (if anyone then zero
          else DoubleHashB (concat (map (\<lambda>t. writeOutPoint (PreviousOutPoint t)) (txIns tx)))) @
         (if anyone \<or> single \<or> none then zero
          else DoubleHashB (concat (map (\<lambda>t. PutUint32 (Sequence t)) (txIns tx)))) @
         writeOutPoint (PreviousOutPoint ti) @ scriptCode @ PutUint64 amt @ PutUint32 (Sequence ti) @
         (if \<not> single \<and> \<not> none then DoubleHashB (concat (map WriteTxOut (txOuts tx)))
          else if single \<and> i < length (txOuts tx) then DoubleHashB (WriteTxOut (txOuts tx ! i))
          else zero) @
         PutUint32 (LockTime tx) @ PutUint32 h)"

text \<open>The script code: the P2PKH script for a key hash program, else the script itself.\<close>

definition scriptCode :: "parsedOpcode list \<Rightarrow> byte list" where
  "scriptCode subScript =
     (if isWitnessPubKeyHash subScript
      then [0x19, OP_DUP, OP_HASH160, OP_DATA_20] @ pop_data (subScript ! 1) @ [OP_EQUALVERIFY, OP_CHECKSIG]
      else WriteVarBytes (rawScript subScript))"

lemmas hash_types = SigHashAll_def SigHashNone_def SigHashSingle_def SigHashAnyOneCanPay_def
  sigHashMask_def SigHashOld_def

lemma anyone_bit: "h AND SigHashAnyOneCanPay = 0 \<longleftrightarrow> \<not> bit h 7"
proof -
  have "h AND 0x80 = (if bit h 7 then 0x80 else 0)"
    by (rule bit_word_eqI) (auto simp: bit_simps numeral_eq_Suc elim!: less_SucE)
  then show ?thesis by (simp add: SigHashAnyOneCanPay_def)
qed

lemma mask_base: "unat (h AND sigHashMask) = bip143_base h"
proof -
  have "h AND 0x1f = take_bit 5 h"
    by (rule bit_word_eqI) (auto simp: bit_simps numeral_eq_Suc elim!: less_SucE)
  then have "unat (h AND 0x1f) = unat (take_bit 5 h)" by simp
  also have "\<dots> = unat h mod 32" unfolding unsigned_take_bit_eq by (simp add: take_bit_eq_mod)
  finally show ?thesis by (simp add: sigHashMask_def bip143_base_def)
qed

lemma mask_eq: "h AND sigHashMask = SigHashSingle \<longleftrightarrow> bip143_base h = 3"
  "h AND sigHashMask = SigHashNone \<longleftrightarrow> bip143_base h = 2"
proof -
  have "h AND sigHashMask = w \<longleftrightarrow> bip143_base h = unat w" for w
    by (simp add: mask_base[symmetric] word_unat_eq_iff)
  then show "h AND sigHashMask = SigHashSingle \<longleftrightarrow> bip143_base h = 3"
    "h AND sigHashMask = SigHashNone \<longleftrightarrow> bip143_base h = 2"
    by (simp_all add: SigHashSingle_def SigHashNone_def)
qed

text \<open>The code's test for the outputs looks at one bit only.\<close>

lemma outputs_test:
  "h AND SigHashSingle \<noteq> SigHashSingle \<and> h AND SigHashNone \<noteq> SigHashNone \<longleftrightarrow> \<not> bit h 1"
proof -
  have two: "h AND 0x2 = (if bit h 1 then 0x2 else 0)"
    by (rule bit_word_eqI) (auto simp: bit_simps numeral_eq_Suc elim!: less_SucE)
  have "h AND 0x2 = (h AND 0x3) AND 0x2"
    by (simp add: and.assoc)
  then have "h AND 0x3 = 0x3 \<Longrightarrow> h AND 0x2 = 0x2" by simp
  then show ?thesis using two by (auto simp: SigHashSingle_def SigHashNone_def)
qed

lemma base_bit1: "bip143_base h = 2 \<or> bip143_base h = 3 \<Longrightarrow> bit h 1"
proof -
  have "bit h 1 = odd (unat h div 2)"
    using bit_unsigned_iff[of h 1, where 'a = nat] by (simp add: bit_iff_odd[of "unat h"])
  moreover have "n mod 32 = 2 \<or> n mod 32 = 3 \<Longrightarrow> odd (n div 2)" for n :: nat by presburger
  ultimately show "bip143_base h = 2 \<or> bip143_base h = 3 \<Longrightarrow> bit h 1"
    by (simp add: bip143_base_def)
qed

lemma calcWitnessSignatureHash_run:
  assumes "i < length (txIns tx)" "bit h 1 \<longrightarrow> bip143_base h = 2 \<or> bip143_base h = 3"
  shows "calcWitnessSignatureHash subScript (NewTxSigHashes tx) h tx (int i) amt =
    Ok (DoubleHashB (bip143_preimage (scriptCode subScript) h tx i amt))"
  using assms base_bit1[of h] outputs_test[of h]
  by (auto simp: calcWitnessSignatureHash_def Let_def bip143_preimage_def scriptCode_def NewTxSigHashes_def
      calcHashPrevOuts_def calcHashSequence_def calcHashOutputs_def anyone_bit mask_eq writeOutPoint_def
      zeroHash_def HashSize_def DoubleHash_same)

subsection \<open>What a legacy signature signs\<close>

text \<open>
  The parts of the transaction a hash type selects: for every selected input the outpoint and the
  sequence number (zero where the type leaves it open), and the selected outputs.
\<close>

definition signedInputs :: "SigHashType \<Rightarrow> nat \<Rightarrow> MsgTx \<Rightarrow> (OutPoint \<times> 32 word) list" where
  "signedInputs h idx tx =
     (let seqs = map_idx (\<lambda>i ti. (PreviousOutPoint ti,
            if i \<noteq> idx \<and> (bip143_base h = 2 \<or> bip143_base h = 3) then 0 else Sequence ti)) (txIns tx)
      in if bit h 7 then [seqs ! idx] else seqs)"

definition signedOutputs :: "SigHashType \<Rightarrow> nat \<Rightarrow> MsgTx \<Rightarrow> TxOut list" where
  "signedOutputs h idx tx =
     (if bip143_base h = 2 then []
      else if bip143_base h = 3 then take 1 (drop idx (txOuts tx))
      else txOuts tx)"

text \<open>The transaction that is hashed, built from these parts alone.\<close>

definition signedTx ::
  "byte list \<Rightarrow> SigHashType \<Rightarrow> nat \<Rightarrow> 32 word \<Rightarrow> 32 word \<Rightarrow> (OutPoint \<times> 32 word) list \<Rightarrow>
   TxOut list \<Rightarrow> MsgTx" where
  "signedTx script h idx version lockTime ins outs =
     \<lparr>Version = version,
      txIns = map_idx (\<lambda>i (op, sq). \<lparr>PreviousOutPoint = op,
        SignatureScript = (if bit h 7 \<or> i = idx then script else []), Witness = [], Sequence = sq\<rparr>) ins,
      txOuts = (if bip143_base h = 3 then replicate idx \<lparr>Value = -1, PkScript = []\<rparr> @ outs else outs),
      LockTime = lockTime\<rparr>"

definition legacyTx :: "parsedOpcode list \<Rightarrow> SigHashType \<Rightarrow> MsgTx \<Rightarrow> nat \<Rightarrow> MsgTx" where
  "legacyTx script h tx idx = signedTx (rawScript (removeOpcode script OP_CODESEPARATOR)) h idx
     (Version tx) (LockTime tx) (signedInputs h idx tx) (signedOutputs h idx tx)"

definition legacyPreimage :: "parsedOpcode list \<Rightarrow> SigHashType \<Rightarrow> MsgTx \<Rightarrow> nat \<Rightarrow> byte list" where
  "legacyPreimage script h tx idx = SerializeNoWitness (legacyTx script h tx idx) @ PutUint32 h"

lemma length_map_idx [simp]: "length (map_idx f xs) = length xs"
  by (simp add: map_idx_def)

lemma nth_map_idx [simp]: "i < length xs \<Longrightarrow> map_idx f xs ! i = f i (xs ! i)"
  by (simp add: map_idx_def)

lemma map_map_idx: "map g (map_idx f xs) = map_idx (\<lambda>i x. g (f i x)) xs"
  by (simp add: map_idx_def)

lemma map_idx_map_idx: "map_idx g (map_idx f xs) = map_idx (\<lambda>i x. g i (f i x)) xs"
  by (simp add: list_eq_iff_nth_eq)

lemma map_idx_single [simp]: "map_idx f [x] = [f 0 x]"
  by (simp add: map_idx_def)

lemma SerializeNoWitness_strip: "stripWitness a = stripWitness b \<Longrightarrow> SerializeNoWitness a = SerializeNoWitness b"
  by (metis SerializeNoWitness_def BtcEncode_forms(1) strip_tx(1))

lemma single_outputs:
  "idx < length outs \<Longrightarrow>
   map_idx (\<lambda>i to. if i < idx then to\<lparr>Value := -1, PkScript := []\<rparr> else to) (take (Suc idx) outs) =
   replicate idx \<lparr>Value = -1, PkScript = []\<rparr> @ take 1 (drop idx outs)"
proof (rule nth_equalityI)
  fix i assume i: "idx < length outs"
    "i < length (map_idx (\<lambda>i to. if i < idx then to\<lparr>Value := -1, PkScript := []\<rparr> else to) (take (Suc idx) outs))"
  then have "i < Suc idx" by simp
  then consider "i < idx" | "i = idx" by linarith
  then show "map_idx (\<lambda>i to. if i < idx then to\<lparr>Value := -1, PkScript := []\<rparr> else to) (take (Suc idx) outs) ! i =
      (replicate idx \<lparr>Value = -1, PkScript = []\<rparr> @ take 1 (drop idx outs)) ! i"
    using i(1) by cases (cases "outs ! i", simp_all add: nth_append)
qed simp

lemma map_idx_cong: "(\<And>i. i < length xs \<Longrightarrow> f i (xs ! i) = g i (xs ! i)) \<Longrightarrow> map_idx f xs = map_idx g xs"
  by (simp add: list_eq_iff_nth_eq)

text \<open>The inputs the code hashes, before the restriction to one of them.\<close>

definition copiedIns :: "byte list \<Rightarrow> SigHashType \<Rightarrow> nat \<Rightarrow> TxIn list \<Rightarrow> TxIn list" where
  "copiedIns raw h i tis =
     (let tis' = map_idx (\<lambda>j ti. if int j = int i then ti\<lparr>SignatureScript := raw\<rparr>
          else ti\<lparr>SignatureScript := []\<rparr>) tis
      in if bip143_base h = 2 \<or> bip143_base h = 3 then zeroOtherSequences (int i) tis' else tis')"

lemma length_copiedIns [simp]: "length (copiedIns raw h i tis) = length tis"
  by (simp add: copiedIns_def zeroOtherSequences_def Let_def)

lemma strip_copiedIns:
  "map stripTxIn (copiedIns raw h i tis) =
   map_idx (\<lambda>j ti. \<lparr>PreviousOutPoint = PreviousOutPoint ti, SignatureScript = (if j = i then raw else []),
     Witness = [], Sequence = (if j \<noteq> i \<and> (bip143_base h = 2 \<or> bip143_base h = 3) then 0 else Sequence ti)\<rparr>) tis"
  unfolding copiedIns_def zeroOtherSequences_def Let_def
  by (simp add: map_idx_map_idx map_map_idx, intro conjI impI map_idx_cong)
    (simp_all add: stripTxIn_def)

lemma strip_legacy_ins:
  assumes "i < length (txIns tx)"
  shows "map stripTxIn (let tis = copiedIns (rawScript (removeOpcode script OP_CODESEPARATOR)) h i (txIns tx)
      in if bit h 7 then [tis ! i] else tis) = txIns (legacyTx script h tx i)"
proof (cases "bit h 7")
  case True
  have "stripTxIn (copiedIns raw h i (txIns tx) ! i) = map stripTxIn (copiedIns raw h i (txIns tx)) ! i" for raw
    using assms by simp
  with True assms show ?thesis
    by (simp add: Let_def strip_copiedIns legacyTx_def signedTx_def signedInputs_def)
next
  case False
  then show ?thesis
    by (simp add: Let_def strip_copiedIns legacyTx_def signedTx_def signedInputs_def map_idx_map_idx)
qed

lemma strip_legacyTx: "map stripTxIn (txIns (legacyTx script h tx i)) = txIns (legacyTx script h tx i)"
  unfolding legacyTx_def signedTx_def
  by (auto simp: map_map_idx stripTxIn_def intro!: map_idx_cong split: prod.splits)

lemma legacy_outs:
  "bip143_base h = 3 \<Longrightarrow> i < length (txOuts tx) \<Longrightarrow>
   map_idx (\<lambda>j to. if int j < int i then to\<lparr>Value := -1, PkScript := []\<rparr> else to) (take (Suc i) (txOuts tx)) =
   txOuts (legacyTx script h tx i)"
  "bip143_base h \<noteq> 3 \<Longrightarrow>
   (if bip143_base h = 2 then [] else txOuts tx) = txOuts (legacyTx script h tx i)"
  using single_outputs[of i "txOuts tx"]
  by (simp_all add: legacyTx_def signedTx_def signedOutputs_def)

lemma calcSignatureHash_copied:
  assumes "i < length (txIns tx)" "\<not> (bip143_base h = 3 \<and> length (txOuts tx) \<le> i)"
  shows "calcSignatureHash script h tx (int i) = Ok (DoubleHashB (SerializeNoWitness
      \<lparr>Version = Version tx,
       txIns = (let tis = copiedIns (rawScript (removeOpcode script OP_CODESEPARATOR)) h i (txIns tx)
         in if bit h 7 then [tis ! i] else tis),
       txOuts = txOuts (legacyTx script h tx i), LockTime = LockTime tx\<rparr> @ PutUint32 h))"
  using assms legacy_outs(1)[of h i tx script] legacy_outs(2)[of h tx script i]
  by (cases "bip143_base h = 3"; cases "bip143_base h = 2"; cases "bit h 7")
    (simp_all add: calcSignatureHash_def Let_def mask_eq anyone_bit shallowCopyTx_def copiedIns_def
      zeroOtherSequences_def nat_add_distrib)

lemma calcSignatureHash_run:
  assumes "i < length (txIns tx)"
  shows "calcSignatureHash script h tx (int i) =
    Ok (if bip143_base h = 3 \<and> length (txOuts tx) \<le> i then 0x01 # replicate 31 0
        else DoubleHashB (legacyPreimage script h tx i))"
proof (cases "bip143_base h = 3 \<and> length (txOuts tx) \<le> i")
  case True
  then show ?thesis by (simp add: calcSignatureHash_def mask_eq HashSize_def)
next
  case False
  have "SerializeNoWitness \<lparr>Version = Version tx,
       txIns = (let tis = copiedIns (rawScript (removeOpcode script OP_CODESEPARATOR)) h i (txIns tx)
         in if bit h 7 then [tis ! i] else tis),
       txOuts = txOuts (legacyTx script h tx i), LockTime = LockTime tx\<rparr> =
      SerializeNoWitness (legacyTx script h tx i)"
    by (rule SerializeNoWitness_strip)
      (simp add: stripWitness_def strip_legacy_ins[OF assms] strip_legacyTx, simp add: legacyTx_def signedTx_def)
  then show ?thesis
    unfolding if_not_P[OF False] legacyPreimage_def calcSignatureHash_copied[OF assms False] by simp
qed

lemma wf_legacyTx:
  assumes "wf_MsgTx tx" "i < length (txIns tx)" "bip143_base h = 3 \<longrightarrow> i < length (txOuts tx)"
    and "length (rawScript (removeOpcode script OP_CODESEPARATOR)) \<le> MaxMessagePayload"
  shows "wf_MsgTx (legacyTx script h tx i) \<and> \<not> HasWitness (legacyTx script h tx i)"
proof -
  have ops: "op \<in> set (signedInputs h i tx) \<Longrightarrow> wf_OutPoint (fst op)" for op
    using assms(1,2) by (auto simp: signedInputs_def Let_def in_set_conv_nth wf_MsgTx_def wf_TxIn_def
        list_all_length split: if_splits)
  have outs: "to \<in> set (txOuts (legacyTx script h tx i)) \<Longrightarrow> wf_TxOut to" for to
    using assms(1) by (auto simp: legacyTx_def signedTx_def signedOutputs_def wf_TxOut_def wf_MsgTx_def
        list_all_iff split: if_splits dest!: in_set_takeD in_set_dropD)
  have lens: "length (signedInputs h i tx) \<le> length (txIns tx)"
    "length (txOuts (legacyTx script h tx i)) \<le> length (txOuts tx)"
    using assms(2,3) by (auto simp: signedInputs_def Let_def legacyTx_def signedTx_def signedOutputs_def)
  have ins: "wf_TxIn (txIns (legacyTx script h tx i) ! j) \<and> Witness (txIns (legacyTx script h tx i) ! j) = []"
    if "j < length (signedInputs h i tx)" for j
    using that ops[of "signedInputs h i tx ! j"] assms(4)
    by (auto simp: legacyTx_def signedTx_def wf_TxIn_def split: prod.splits)
  have len: "length (txIns (legacyTx script h tx i)) = length (signedInputs h i tx)"
    by (simp add: legacyTx_def signedTx_def)
  show ?thesis
    using ins outs lens len assms(1)
    by (auto simp: wf_MsgTx_def list_all_length no_witness_list list_all_iff[of wf_TxOut])
qed

lemma map_idx_pairs_inj:
  assumes "map_idx (\<lambda>i (op, sq). \<lparr>PreviousOutPoint = op, SignatureScript = f i, Witness = [], Sequence = sq\<rparr>) xs =
    map_idx (\<lambda>i (op, sq). \<lparr>PreviousOutPoint = op, SignatureScript = g i, Witness = [], Sequence = sq\<rparr>) ys"
  shows "xs = ys \<and> (\<forall>i < length xs. f i = g i)"
proof -
  have len: "length xs = length ys" using arg_cong[OF assms, of length] by simp
  have "xs ! i = ys ! i \<and> f i = g i" if "i < length xs" for i
    using arg_cong[OF assms, of "\<lambda>l. l ! i"] that len by (auto split: prod.splits)
  then show ?thesis using len by (auto intro: nth_equalityI)
qed

lemma signedInputs_nonempty: "i < length (txIns tx) \<Longrightarrow>
    \<exists>j < length (signedInputs h i tx). bit h 7 \<or> j = i"
  by (auto simp: signedInputs_def Let_def)

lemma legacyPreimage_eq_iff:
  assumes tx: "wf_MsgTx tx" "i < length (txIns tx)" "bip143_base h = 3 \<longrightarrow> i < length (txOuts tx)"
      "length (rawScript (removeOpcode s OP_CODESEPARATOR)) \<le> MaxMessagePayload"
    and tx': "wf_MsgTx tx'" "i < length (txIns tx')" "bip143_base h = 3 \<longrightarrow> i < length (txOuts tx')"
      "length (rawScript (removeOpcode s' OP_CODESEPARATOR)) \<le> MaxMessagePayload"
  shows "legacyPreimage s h tx i = legacyPreimage s' h tx' i \<longleftrightarrow>
    rawScript (removeOpcode s OP_CODESEPARATOR) = rawScript (removeOpcode s' OP_CODESEPARATOR) \<and>
    Version tx = Version tx' \<and> LockTime tx = LockTime tx' \<and>
    signedInputs h i tx = signedInputs h i tx' \<and> signedOutputs h i tx = signedOutputs h i tx'"
    (is "?L \<longleftrightarrow> ?R")
proof
  assume ?L
  then have "txBase (legacyTx s h tx i) @ PutUint32 h = txBase (legacyTx s' h tx' i) @ PutUint32 h"
    by (simp add: legacyPreimage_def SerializeNoWitness_def BtcEncode_forms)
  then have eq: "legacyTx s h tx i = legacyTx s' h tx' i"
    using wf_legacyTx[OF tx] wf_legacyTx[OF tx'] BtcDecode_Base_iff by (metis prod.inject res.inject(1))
  have "signedInputs h i tx = signedInputs h i tx' \<and>
    (\<forall>j < length (signedInputs h i tx).
      (if bit h 7 \<or> j = i then rawScript (removeOpcode s OP_CODESEPARATOR) else []) =
      (if bit h 7 \<or> j = i then rawScript (removeOpcode s' OP_CODESEPARATOR) else []))"
    by (rule map_idx_pairs_inj) (use arg_cong[OF eq, of txIns] in \<open>simp add: legacyTx_def signedTx_def\<close>)
  moreover have "signedOutputs h i tx = signedOutputs h i tx'"
    using arg_cong[OF eq, of txOuts] by (simp add: legacyTx_def signedTx_def split: if_splits)
  moreover have "Version tx = Version tx'" "LockTime tx = LockTime tx'"
    using arg_cong[OF eq, of Version] arg_cong[OF eq, of LockTime] by (simp_all add: legacyTx_def signedTx_def)
  ultimately show ?R using signedInputs_nonempty[OF tx(2), of h] by auto
qed (simp add: legacyPreimage_def legacyTx_def)

subsection \<open>Caches\<close>

text \<open>
  A cache in front of a check: the check is skipped when the cache has the answer, and a positive
  answer may be stored.  The client's view, for any check.
\<close>

locale check_cache =
  fixes hit :: "'c \<Rightarrow> 'k \<Rightarrow> bool"
    and store :: "'c \<Rightarrow> 'k \<Rightarrow> 'c"
    and empty :: 'c
    and stored :: "'c \<Rightarrow> 'k set"
  assumes hit_stored: "hit c k \<Longrightarrow> k \<in> stored c"
    and stored_store: "stored (store c k) \<subseteq> insert k (stored c)"
    and stored_empty: "stored empty = {}"
begin

definition checked :: "('k \<Rightarrow> bool) \<Rightarrow> 'c \<Rightarrow> 'k \<Rightarrow> bool \<times> 'c" where
  "checked valid c k =
     (if hit c k then (True, c) else if valid k then (True, store c k) else (False, c))"

primrec checked_all :: "('k \<Rightarrow> bool) \<Rightarrow> 'c \<Rightarrow> 'k list \<Rightarrow> bool list \<times> 'c" where
  "checked_all valid c [] = ([], c)"
| "checked_all valid c (k # ks) =
     (let (b, c') = checked valid c k; (bs, c'') = checked_all valid c' ks in (b # bs, c''))"

definition sound :: "('k \<Rightarrow> bool) \<Rightarrow> 'c \<Rightarrow> bool" where
  "sound valid c \<longleftrightarrow> (\<forall>k \<in> stored c. valid k)"

lemma sound_empty: "sound valid empty"
  by (simp add: sound_def stored_empty)

lemma sound_store: "sound valid c \<Longrightarrow> valid k \<Longrightarrow> sound valid (store c k)"
  using stored_store[of c k] by (auto simp: sound_def)

lemma checked_sound:
  "sound valid c \<Longrightarrow> fst (checked valid c k) = valid k \<and> sound valid (snd (checked valid c k))"
  using hit_stored[of c k] sound_store[of valid c k]
  by (cases "hit c k"; cases "valid k") (simp_all add: checked_def, auto simp: sound_def)

lemma checked_all_sound:
  "sound valid c \<Longrightarrow>
   fst (checked_all valid c ks) = map valid ks \<and> sound valid (snd (checked_all valid c ks))"
proof (induction ks arbitrary: c)
  case (Cons k ks)
  obtain b c' where bc: "checked valid c k = (b, c')" by force
  with checked_sound[OF Cons.prems, of k] have "b = valid k" "sound valid c'" by simp_all
  with Cons.IH[of c'] bc show ?case by (auto simp: Let_def split: prod.splits)
qed simp

end

definition sigcache_key :: "SigCache \<Rightarrow> (byte list \<times> Signature \<times> PublicKey) set" where
  "sigcache_key s = {(k, entry_sig e, entry_pubKey e) |k e. map_of (validSigs s) k = Some e}"

definition wf_SigCache :: "SigCache \<Rightarrow> bool" where
  "wf_SigCache s \<longleftrightarrow> distinct (map fst (validSigs s)) \<and> length (validSigs s) \<le> maxEntries s"

lemma IsEqual_iff: "PublicKey_IsEqual p q \<longleftrightarrow> p = q" "Signature_IsEqual a b \<longleftrightarrow> a = b"
  by (auto simp: PublicKey_IsEqual_def Signature_IsEqual_def)

lemma SigCache_Exists_iff: "SigCache_Exists s k sig pk \<longleftrightarrow> (k, sig, pk) \<in> sigcache_key s"
  by (auto simp: SigCache_Exists_def sigcache_key_def IsEqual_iff split: option.splits)

lemma sigcache_key_Add:
  "distinct (map fst (validSigs s)) \<Longrightarrow>
   sigcache_key (SigCache_Add first s k sig pk) \<subseteq> insert (k, sig, pk) (sigcache_key s)"
  by (auto simp: sigcache_key_def SigCache_Add_def Let_def update_conv delete_conv split: if_splits)

interpretation sc: check_cache "\<lambda>s (k, sig, pk). SigCache_Exists s k sig pk"
  "\<lambda>s (k, sig, pk). SigCache_Add first s k sig pk" "NewSigCache n" sigcache_key for first n
  by unfold_locales
    (auto simp: SigCache_Exists_iff sigcache_key_def SigCache_Add_def NewSigCache_def Let_def update_conv
      delete_conv split: if_splits)

lemma length_update_notin: "k \<notin> fst ` set xs \<Longrightarrow> length (AList.update k v xs) = Suc (length xs)"
  by (induction xs) auto

lemma length_update_in: "k \<in> fst ` set xs \<Longrightarrow> length (AList.update k v xs) = length xs"
  by (induction xs) auto

lemma length_delete_in: "distinct (map fst xs) \<Longrightarrow> k \<in> fst ` set xs \<Longrightarrow>
    Suc (length (AList.delete k xs)) = length xs"
proof (induction xs)
  case (Cons x xs)
  show ?case
  proof (cases "fst x = k")
    case True
    then have "AList.delete k (x # xs) = xs"
      using Cons.prems by (cases x) (force simp: AList.delete_eq filter_id_conv)
    then show ?thesis by simp
  next
    case False
    then show ?thesis using Cons by (cases x) (auto simp: AList.delete_eq)
  qed
qed simp

lemma wf_SigCache_Add:
  assumes "wf_SigCache s" "length (validSigs s) > 0 \<Longrightarrow> first s \<in> fst ` set (validSigs s)"
  shows "wf_SigCache (SigCache_Add first s k sig pk)"
proof (cases "maxEntries s = 0")
  case False
  define s' where "s' = (if length (validSigs s) + 1 > maxEntries s
    then s\<lparr>validSigs := AList.delete (first s) (validSigs s)\<rparr> else s)"
  have "Suc (length (validSigs s')) \<le> maxEntries s" "distinct (map fst (validSigs s'))"
    "maxEntries s' = maxEntries s"
    using assms False length_delete_in[of "validSigs s" "first s"]
    by (cases "validSigs s = []"; auto simp: s'_def wf_SigCache_def distinct_delete)+
  moreover have "length (AList.update k v xs) \<le> Suc (length xs)" for v and xs :: "(byte list \<times> sigCacheEntry) list"
    using length_update_in[of k xs v] length_update_notin[of k xs v] by (cases "k \<in> fst ` set xs") auto
  moreover have "SigCache_Add first s k sig pk =
      s'\<lparr>validSigs := AList.update k \<lparr>entry_sig = sig, entry_pubKey = pk\<rparr> (validSigs s')\<rparr>"
    using False by (simp add: SigCache_Add_def s'_def Let_def)
  ultimately show ?thesis
    by (auto simp: wf_SigCache_def distinct_update intro: order_trans)
qed (use assms in \<open>simp add: SigCache_Add_def\<close>)

text \<open>The cache of partial hashes holds, under the id of a transaction, the hashes of one with that id.\<close>

datatype hash_call = CallAdd MsgTx | CallPurge "byte list"

fun run_hash_call :: "hash_call \<Rightarrow> HashCache \<Rightarrow> HashCache" where
  "run_hash_call (CallAdd tx) h = AddSigHashes tx h"
| "run_hash_call (CallPurge txid) h = PurgeSigHashes txid h"

fun latest :: "byte list \<Rightarrow> hash_call list \<Rightarrow> TxSigHashes option" where
  "latest txid [] = None"
| "latest txid (CallAdd tx # cs) = (if TxHash tx = txid then Some (NewTxSigHashes tx) else latest txid cs)"
| "latest txid (CallPurge k # cs) = (if k = txid then None else latest txid cs)"

lemma run_hash_calls: "GetSigHashes txid (foldr run_hash_call cs NewHashCache) = latest txid cs"
proof (induction cs)
  case (Cons c cs)
  then show ?case
    by (cases c) (auto simp: GetSigHashes_def AddSigHashes_def PurgeSigHashes_def update_conv delete_conv)
qed (simp add: GetSigHashes_def NewHashCache_def)

subsection \<open>Properties\<close>



text \<open>
  Claim C40. For the other hash types with bit 1 set (6 for example) BIP 143 selects all outputs,
  but the test \<^verbatim>\<open>hashType&SigHashNone != SigHashNone\<close>, made without the mask, fails and the code
  writes a zero hash: such a signature stays valid when the outputs are replaced.
\<close>

theorem witness_sighash_drops_outputs:
  assumes "bit h 1" "bip143_base h \<noteq> 2" "bip143_base h \<noteq> 3"
  shows "calcWitnessSignatureHash subScript (NewTxSigHashes tx) h tx idx amt =
    calcWitnessSignatureHash subScript (NewTxSigHashes (tx\<lparr>txOuts := outs\<rparr>)) h (tx\<lparr>txOuts := outs\<rparr>) idx amt"
proof -
  have "\<not> (h AND SigHashSingle \<noteq> SigHashSingle \<and> h AND SigHashNone \<noteq> SigHashNone)"
    using assms(1) outputs_test by blast
  note zero = if_not_P[OF this]
  show ?thesis
    unfolding calcWitnessSignatureHash_def zero using assms(2,3)
    by (simp add: Let_def NewTxSigHashes_def calcHashPrevOuts_def calcHashSequence_def mask_eq)
qed

theorem witness_sighash_drops_outputs_witness:
  "calcWitnessSignatureHash [] (NewTxSigHashes sampleTx) 6 sampleTx 0 7 =
    calcWitnessSignatureHash [] (NewTxSigHashes (sampleTx\<lparr>txOuts := []\<rparr>)) 6 (sampleTx\<lparr>txOuts := []\<rparr>) 0 7"
  by (rule witness_sighash_drops_outputs) (simp_all add: bip143_base_def bit_numeral_simps)

text \<open>
  Claim C23. The legacy signature hash: for an input in range it is the double hash of a preimage,
  except for SINGLE without a matching output, where it is the constant one; and two preimages of
  the same type and index are equal exactly when the signed script, the version, the lock time and
  the parts of the transactions the type selects are equal.  So a signature covers those parts and
  nothing else, up to collisions of the hash.
\<close>

theorem legacy_sighash_commits:
  assumes "wf_MsgTx tx" "i < length (txIns tx)" "bip143_base h = 3 \<longrightarrow> i < length (txOuts tx)"
    and "length (rawScript (removeOpcode s OP_CODESEPARATOR)) \<le> MaxMessagePayload"
    and "wf_MsgTx tx'" "i < length (txIns tx')" "bip143_base h = 3 \<longrightarrow> i < length (txOuts tx')"
    and "length (rawScript (removeOpcode s' OP_CODESEPARATOR)) \<le> MaxMessagePayload"
  shows "calcSignatureHash s h tx (int i) = Ok (DoubleHashB (legacyPreimage s h tx i)) \<and>
    (legacyPreimage s h tx i = legacyPreimage s' h tx' i \<longleftrightarrow>
      rawScript (removeOpcode s OP_CODESEPARATOR) = rawScript (removeOpcode s' OP_CODESEPARATOR) \<and>
      Version tx = Version tx' \<and> LockTime tx = LockTime tx' \<and>
      signedInputs h i tx = signedInputs h i tx' \<and> signedOutputs h i tx = signedOutputs h i tx')"
  using calcSignatureHash_run[OF assms(2), of s h] assms(3) legacyPreimage_eq_iff[OF assms] by auto

theorem legacy_sighash_commits_witness:
  "calcSignatureHash [] SigHashAll sampleTx (int 0) = Ok (DoubleHashB (legacyPreimage [] SigHashAll sampleTx 0)) \<and>
   legacyPreimage [] SigHashAll sampleTx 0 \<noteq> legacyPreimage [] SigHashAll (sampleTx\<lparr>LockTime := 9\<rparr>) 0"
proof -
  have wf: "wf_MsgTx sampleTx" "wf_MsgTx (sampleTx\<lparr>LockTime := 9\<rparr>)"
    by (simp_all add: sampleTx_def wf_MsgTx_def wf_TxIn_def wf_TxOut_def wf_OutPoint_def HashSize_def
        MaxMessagePayload_def maxTxInPerMessage_def maxTxOutPerMessage_def minTxInPayload_def
        MinTxOutPayload_def)
  have "0 < length (txIns sampleTx)" "0 < length (txOuts sampleTx)" "LockTime sampleTx = 0"
    by (simp_all add: sampleTx_def)
  then show ?thesis
    using legacy_sighash_commits[of sampleTx 0 SigHashAll "[]" "sampleTx\<lparr>LockTime := 9\<rparr>" "[]"] wf
    by (simp add: removeOpcode_def rawScript_def)
qed

text \<open>
  Claim C24. The signature cache is transparent: started empty and filled only after a successful
  verification, a sequence of cached checks gives the verifier's answers, whatever entries are
  evicted.
\<close>

theorem sigcache_transparent:
  "fst (sc.checked_all first (\<lambda>(k, sig, pk). valid k sig pk) (NewSigCache n) keys) =
   map (\<lambda>(k, sig, pk). valid k sig pk) keys"
  using sc.checked_all_sound[OF sc.sound_empty] by blast

text \<open>
  The signature cache never holds more than its maximum: adding an entry keeps the keys
  distinct and the number of entries within the limit, when the evicted key is one of the keys.
\<close>

theorem sigcache_bounded:
  assumes "wf_SigCache s" "validSigs s \<noteq> [] \<longrightarrow> first s \<in> fst ` set (validSigs s)"
  shows "wf_SigCache (SigCache_Add first s k sig pk)"
  by (rule wf_SigCache_Add[OF assms(1)]) (use assms(2) in auto)

theorem sigcache_bounded_witness:
  "wf_SigCache (SigCache_Add (\<lambda>s. fst (hd (validSigs s)))
     \<lparr>validSigs = [([1], \<lparr>entry_sig = \<lparr>R = 1, S = 1\<rparr>, entry_pubKey = \<lparr>X = 1, Y = 1\<rparr>\<rparr>)], maxEntries = 1\<rparr>
     [2] \<lparr>R = 2, S = 2\<rparr> \<lparr>X = 3, Y = 4\<rparr>)"
  by (rule sigcache_bounded) (simp_all add: wf_SigCache_def)

text \<open>
  After any sequence of additions and purges (the last call first in the list) the cache
  of partial hashes returns, for a transaction id, the partial hashes of the last transaction added
  under it, unless it was purged since; ContainsHashes agrees with GetSigHashes.
\<close>

theorem hashcache_latest:
  "GetSigHashes txid (foldr run_hash_call cs NewHashCache) = latest txid cs \<and>
   ContainsHashes txid (foldr run_hash_call cs NewHashCache) = (latest txid cs \<noteq> None)"
  using run_hash_calls[of txid cs] by (simp add: GetSigHashes_def ContainsHashes_def)

end
