(* ===== verification/Builder.thy ===== *)
theory Builder
  imports Script
begin

text \<open>
  The script builder (\<^verbatim>\<open>pkg/chain/tx/script/scriptbuilder.go\<close>) and the standard script forms
  (\<^verbatim>\<open>standard.go\<close>).

  A builder keeps the script and the first error; once it has an error every method leaves it
  unchanged.  \<^verbatim>\<open>ErrScriptNotCanonical\<close> is not one of the package's error codes and is \<open>Errorf\<close>.
  \<^verbatim>\<open>nil\<close> data of a parsed opcode is the data of an opcode of length one.

  The lemmas show that what the builder appends parses to one push of the given data with the
  minimal opcode, that scripts stay within the size limit, and that the standard forms are
  recognised as what they were built as.
\<close>

unbundle bit_operations_syntax

definition MaxScriptSize :: nat where
  "MaxScriptSize = 10000"

subsection \<open>The builder\<close>

record ScriptBuilder =
  sb_script :: "byte list"
  sb_err :: "script_error option"

abbreviation ErrScriptNotCanonical :: script_error where
  "ErrScriptNotCanonical \<equiv> Errorf"

definition NewScriptBuilder :: ScriptBuilder where
  "NewScriptBuilder = \<lparr>sb_script = [], sb_err = None\<rparr>"

definition AddOp :: "byte \<Rightarrow> ScriptBuilder \<Rightarrow> ScriptBuilder" where
  "AddOp opcode b =
     (if sb_err b \<noteq> None then b
      else if length (sb_script b) + 1 > MaxScriptSize then b\<lparr>sb_err := Some ErrScriptNotCanonical\<rparr>
      else b\<lparr>sb_script := sb_script b @ [opcode]\<rparr>)"

definition AddOps :: "byte list \<Rightarrow> ScriptBuilder \<Rightarrow> ScriptBuilder" where
  "AddOps opcodes b =
     (if sb_err b \<noteq> None then b
      else if length (sb_script b) + length opcodes > MaxScriptSize
      then b\<lparr>sb_err := Some ErrScriptNotCanonical\<rparr>
      else b\<lparr>sb_script := sb_script b @ opcodes\<rparr>)"

definition canonicalDataSize :: "byte list \<Rightarrow> nat" where
  "canonicalDataSize data =
     (let dataLen = length data in
      if dataLen = 0 then 1
      else if dataLen = 1 \<and> data ! 0 \<le> 16 then 1
      else if dataLen = 1 \<and> data ! 0 = 0x81 then 1
      else if dataLen < unat OP_PUSHDATA1 then 1 + dataLen
      else if dataLen \<le> 0xff then 2 + dataLen
      else if dataLen \<le> 0xffff then 3 + dataLen
      else 5 + dataLen)"

text \<open>The bytes \<open>addData\<close> appends.\<close>

definition dataPush :: "byte list \<Rightarrow> byte list" where
  "dataPush data =
     (let dataLen = length data in
      if dataLen = 0 \<or> dataLen = 1 \<and> data ! 0 = 0 then [OP_0]
      else if dataLen = 1 \<and> data ! 0 \<le> 16 then [(OP_1 - 1) + data ! 0]
      else if dataLen = 1 \<and> data ! 0 = 0x81 then [OP_1NEGATE]
      else if dataLen < unat OP_PUSHDATA1 then [(OP_DATA_1 - 1) + word_of_nat dataLen] @ data
      else if dataLen \<le> 0xff then [OP_PUSHDATA1, word_of_nat dataLen] @ data
      else if dataLen \<le> 0xffff then [OP_PUSHDATA2, lenByte dataLen 0, lenByte dataLen 8] @ data
      else [OP_PUSHDATA4, lenByte dataLen 0, lenByte dataLen 8, lenByte dataLen 16, lenByte dataLen 24] @ data)"

definition addData :: "byte list \<Rightarrow> ScriptBuilder \<Rightarrow> ScriptBuilder" where
  "addData data b = b\<lparr>sb_script := sb_script b @ dataPush data\<rparr>"

definition AddFullData :: "byte list \<Rightarrow> ScriptBuilder \<Rightarrow> ScriptBuilder" where
  "AddFullData data b = (if sb_err b \<noteq> None then b else addData data b)"

definition AddData :: "byte list \<Rightarrow> ScriptBuilder \<Rightarrow> ScriptBuilder" where
  "AddData data b =
     (if sb_err b \<noteq> None then b
      else if length (sb_script b) + canonicalDataSize data > MaxScriptSize
      then b\<lparr>sb_err := Some ErrScriptNotCanonical\<rparr>
      else if length data > MaxScriptElementSize then b\<lparr>sb_err := Some ErrScriptNotCanonical\<rparr>
      else addData data b)"

text \<open>\<open>val\<close> is an \<^verbatim>\<open>int64\<close>; \<^verbatim>\<open>Bytes\<close> panics on the most negative one.\<close>

definition AddInt64 :: "int \<Rightarrow> ScriptBuilder \<Rightarrow> (script_error, ScriptBuilder) res" where
  "AddInt64 val b =
     (if sb_err b \<noteq> None then Ok b
      else if length (sb_script b) + 1 > MaxScriptSize then Ok (b\<lparr>sb_err := Some ErrScriptNotCanonical\<rparr>)
      else if val = 0 then Ok (b\<lparr>sb_script := sb_script b @ [OP_0]\<rparr>)
      else if val = -1 \<or> (val \<ge> 1 \<and> val \<le> 16)
      then Ok (b\<lparr>sb_script := sb_script b @ [word_of_int (uint (OP_1 - 1) + val)]\<rparr>)
      else bind_res (scriptNum_Bytes val) (\<lambda>data. Ok (AddData data b)))"

definition Reset :: "ScriptBuilder \<Rightarrow> ScriptBuilder" where
  "Reset b = b\<lparr>sb_script := [], sb_err := None\<rparr>"

text \<open>The script and the error; a caller that checks the error gets a result.\<close>

definition builder_Script :: "ScriptBuilder \<Rightarrow> byte list \<times> script_error option" where
  "builder_Script b = (sb_script b, sb_err b)"

definition built :: "byte list \<times> script_error option \<Rightarrow> (script_error, byte list) res" where
  "built r = (case snd r of None \<Rightarrow> Ok (fst r) | Some e \<Rightarrow> Err e)"

subsection \<open>Classes of scripts\<close>

datatype ScriptClass =
  NonStandardTy | PubKeyTy | PubKeyHashTy | WitnessV0PubKeyHashTy | ScriptHashTy
  | WitnessV0ScriptHashTy | MultiSigTy | NullDataTy

text \<open>
  A \<^verbatim>\<open>ScriptClass\<close> is a byte.  The constants stand third and later in their block, so \<^verbatim>\<open>iota\<close>
  starts at two, and the table of names has two empty entries in front.
\<close>

fun scriptClassByte :: "ScriptClass \<Rightarrow> nat" where
  "scriptClassByte NonStandardTy = 2"
| "scriptClassByte PubKeyTy = 3"
| "scriptClassByte PubKeyHashTy = 4"
| "scriptClassByte WitnessV0PubKeyHashTy = 5"
| "scriptClassByte ScriptHashTy = 6"
| "scriptClassByte WitnessV0ScriptHashTy = 7"
| "scriptClassByte MultiSigTy = 8"
| "scriptClassByte NullDataTy = 9"

definition scriptClassToName :: "string list" where
  "scriptClassToName =
     ['''', '''', ''nonstandard'', ''pubkey'', ''pubkeyhash'', ''witness_v0_keyhash'', ''scripthash'',
      ''witness_v0_scripthash'', ''multisig'', ''nulldata'']"

definition ScriptClass_String :: "nat \<Rightarrow> (script_error, string) res" where
  "ScriptClass_String t =
     (if t > length scriptClassToName then Ok ''Invalid'' else nth_res scriptClassToName t)"

definition MaxDataCarrierSize :: nat where
  "MaxDataCarrierSize = 80"

definition isPubkey :: "parsedOpcode list \<Rightarrow> bool" where
  "isPubkey pops \<longleftrightarrow> length pops = 2 \<and>
     (length (pop_data (pops ! 0)) = 33 \<or> length (pop_data (pops ! 0)) = 65) \<and>
     pop_value (pops ! 1) = OP_CHECKSIG"

definition isPubkeyHash :: "parsedOpcode list \<Rightarrow> bool" where
  "isPubkeyHash pops \<longleftrightarrow> length pops = 5 \<and> pop_value (pops ! 0) = OP_DUP \<and>
     pop_value (pops ! 1) = OP_HASH160 \<and> pop_value (pops ! 2) = OP_DATA_20 \<and>
     pop_value (pops ! 3) = OP_EQUALVERIFY \<and> pop_value (pops ! 4) = OP_CHECKSIG"

definition isMultiSig :: "parsedOpcode list \<Rightarrow> bool" where
  "isMultiSig pops =
     (let l = length pops in
      if l < 4 then False
      else if \<not> isSmallInt (pop_opcode (pops ! 0)) then False
      else if \<not> isSmallInt (pop_opcode (pops ! (l - 2))) then False
      else if pop_value (pops ! (l - 1)) \<noteq> OP_CHECKMULTISIG then False
      else if int (l - 2 - 1) \<noteq> asSmallInt (pop_opcode (pops ! (l - 2))) then False
      else list_all (\<lambda>pop. length (pop_data pop) = 33 \<or> length (pop_data pop) = 65) (slice pops 1 (l - 2)))"

definition isNullData :: "parsedOpcode list \<Rightarrow> bool" where
  "isNullData pops =
     (let l = length pops in
      if l = 1 \<and> pop_value (pops ! 0) = OP_RETURN then True
      else l = 2 \<and> pop_value (pops ! 0) = OP_RETURN \<and>
        (isSmallInt (pop_opcode (pops ! 1)) \<or> pop_value (pops ! 1) \<le> OP_PUSHDATA4) \<and>
        length (pop_data (pops ! 1)) \<le> MaxDataCarrierSize)"

definition typeOfScript :: "parsedOpcode list \<Rightarrow> ScriptClass" where
  "typeOfScript pops =
     (if isPubkey pops then PubKeyTy
      else if isPubkeyHash pops then PubKeyHashTy
      else if isWitnessPubKeyHash pops then WitnessV0PubKeyHashTy
      else if isScriptHash pops then ScriptHashTy
      else if isWitnessScriptHash pops then WitnessV0ScriptHashTy
      else if isMultiSig pops then MultiSigTy
      else if isNullData pops then NullDataTy
      else NonStandardTy)"

definition GetScriptClass :: "byte list \<Rightarrow> ScriptClass" where
  "GetScriptClass script = (case parsed script of Ok pops \<Rightarrow> typeOfScript pops | _ \<Rightarrow> NonStandardTy)"

definition expectedInputs :: "parsedOpcode list \<Rightarrow> ScriptClass \<Rightarrow> int" where
  "expectedInputs pops cls =
     (case cls of
        PubKeyTy \<Rightarrow> 1
      | PubKeyHashTy \<Rightarrow> 2
      | WitnessV0PubKeyHashTy \<Rightarrow> 2
      | ScriptHashTy \<Rightarrow> 1
      | WitnessV0ScriptHashTy \<Rightarrow> 1
      | MultiSigTy \<Rightarrow> asSmallInt (pop_opcode (pops ! 0)) + 1
      | _ \<Rightarrow> -1)"

subsection \<open>Information on a pair of scripts\<close>

record ScriptInfo =
  PkScriptClass :: ScriptClass
  NumInputs :: int
  ExpectedInputs :: int
  SigOps :: int

definition addInputs :: "int \<Rightarrow> int \<Rightarrow> int" where
  "addInputs expected shInputs = (if shInputs = -1 then -1 else expected + shInputs)"

definition CalcScriptInfo ::
  "byte list \<Rightarrow> byte list \<Rightarrow> byte list list \<Rightarrow> bool \<Rightarrow> bool \<Rightarrow> (script_error, ScriptInfo) res" where
  "CalcScriptInfo sigScript pkScript witness bip16 segwit =
     bind_res (parsed sigScript) (\<lambda>sigPops.
     bind_res (parsed pkScript) (\<lambda>pkPops.
       let cls = typeOfScript pkPops; expected = expectedInputs pkPops cls;
           info = (\<lambda>e s n. Ok \<lparr>PkScriptClass = cls, NumInputs = n, ExpectedInputs = e, SigOps = s\<rparr>)
       in if \<not> isPushOnly sigPops then Err (scriptError ErrNotPushOnly)
          else if cls = ScriptHashTy \<and> bip16 \<and> \<not> segwit then
            (if sigPops = [] then Panic
             else bind_res (parsed (pop_data (last sigPops))) (\<lambda>shPops.
               info (addInputs expected (expectedInputs shPops (typeOfScript shPops)))
                 (getSigOpCount shPops True) (int (length sigPops))))
          else if cls = WitnessV0PubKeyHashTy \<and> segwit then
            bind_res (GetWitnessSigOpCount sigScript pkScript witness) (\<lambda>s. info expected s (int (length witness)))
          else if cls = ScriptHashTy \<and> sigScript = [] then Panic
          else if cls = ScriptHashTy \<and> IsWitnessProgram (drop 1 sigScript) \<and> bip16 \<and> segwit then
            (let shPops = snd (parseScript (drop 1 sigScript)) in
             bind_res (GetWitnessSigOpCount sigScript pkScript witness) (\<lambda>s.
               info (addInputs expected (expectedInputs shPops (typeOfScript shPops))) s
                 (int (length witness) + int (length sigPops))))
          else if cls = WitnessV0ScriptHashTy \<and> segwit then
            (if witness = [] then Panic
             else let shPops = snd (parseScript (last witness)) in
             bind_res (GetWitnessSigOpCount sigScript pkScript witness) (\<lambda>s.
               info (addInputs expected (expectedInputs shPops (typeOfScript shPops))) s (int (length witness))))
          else info expected (getSigOpCount pkPops True) (int (length sigPops))))"

definition CalcMultiSigStats :: "byte list \<Rightarrow> (script_error, int \<times> int) res" where
  "CalcMultiSigStats script =
     bind_res (parsed script) (\<lambda>pops.
       if length pops < 4 then Err (scriptError ErrNotMultisigScript)
       else Ok (asSmallInt (pop_opcode (pops ! (length pops - 2))), asSmallInt (pop_opcode (pops ! 0))))"

subsection \<open>Standard scripts\<close>

definition payToPubKeyHashScript :: "byte list \<Rightarrow> byte list \<times> script_error option" where
  "payToPubKeyHashScript pubKeyHash =
     builder_Script (AddOp OP_CHECKSIG (AddOp OP_EQUALVERIFY (AddData pubKeyHash
       (AddOp OP_HASH160 (AddOp OP_DUP NewScriptBuilder)))))"

definition payToWitnessPubKeyHashScript :: "byte list \<Rightarrow> byte list \<times> script_error option" where
  "payToWitnessPubKeyHashScript pubKeyHash = builder_Script (AddData pubKeyHash (AddOp OP_0 NewScriptBuilder))"

definition payToScriptHashScript :: "byte list \<Rightarrow> byte list \<times> script_error option" where
  "payToScriptHashScript scriptHash =
     builder_Script (AddOp OP_EQUAL (AddData scriptHash (AddOp OP_HASH160 NewScriptBuilder)))"

definition payToWitnessScriptHashScript :: "byte list \<Rightarrow> byte list \<times> script_error option" where
  "payToWitnessScriptHashScript scriptHash = builder_Script (AddData scriptHash (AddOp OP_0 NewScriptBuilder))"

definition payToPubKeyScript :: "byte list \<Rightarrow> byte list \<times> script_error option" where
  "payToPubKeyScript serializedPubKey = builder_Script (AddOp OP_CHECKSIG (AddData serializedPubKey NewScriptBuilder))"

definition NullDataScript :: "byte list \<Rightarrow> (script_error, byte list \<times> script_error option) res" where
  "NullDataScript data =
     (if length data > MaxDataCarrierSize then Err (scriptError ErrTooMuchNullData)
      else Ok (builder_Script (AddData data (AddOp OP_RETURN NewScriptBuilder))))"

text \<open>The keys are the serialised public keys of the addresses.\<close>

definition MultiSigScript :: "byte list list \<Rightarrow> int \<Rightarrow> (script_error, byte list \<times> script_error option) res" where
  "MultiSigScript pubkeys nrequired =
     (if int (length pubkeys) < nrequired then Err (scriptError ErrTooManyRequiredSigs)
      else bind_res (AddInt64 nrequired NewScriptBuilder) (\<lambda>b.
        bind_res (AddInt64 (int (length pubkeys)) (foldl (\<lambda>b key. AddData key b) b pubkeys)) (\<lambda>b.
          Ok (builder_Script (AddOp OP_CHECKMULTISIG b)))))"

definition PushedData :: "byte list \<Rightarrow> (script_error, byte list list) res" where
  "PushedData script =
     bind_res (parsed script) (\<lambda>pops.
       Ok (concat (map (\<lambda>pop. if op_length (pop_opcode pop) \<noteq> 1 then [pop_data pop]
         else if pop_value pop = OP_0 then [[]] else []) pops)))"

subsection \<open>Atomic swap contracts\<close>

record AtomicSwapDataPushes =
  RecipientHash160 :: "byte list"
  RefundHash160 :: "byte list"
  SecretHash :: "byte list"
  SecretSize :: int
  swap_LockTime :: int

definition isAtomicSwap :: "parsedOpcode list \<Rightarrow> bool" where
  "isAtomicSwap pops \<longleftrightarrow>
     pop_value (pops ! 0) = OP_IF \<and> pop_value (pops ! 1) = OP_SIZE \<and> canonicalPush (pops ! 2) \<and>
     pop_value (pops ! 3) = OP_EQUALVERIFY \<and> pop_value (pops ! 4) = OP_SHA256 \<and>
     pop_value (pops ! 5) = OP_DATA_32 \<and> pop_value (pops ! 6) = OP_EQUALVERIFY \<and>
     pop_value (pops ! 7) = OP_DUP \<and> pop_value (pops ! 8) = OP_HASH160 \<and>
     pop_value (pops ! 9) = OP_DATA_20 \<and> pop_value (pops ! 10) = OP_ELSE \<and> canonicalPush (pops ! 11) \<and>
     pop_value (pops ! 12) = OP_CHECKLOCKTIMEVERIFY \<and> pop_value (pops ! 13) = OP_DROP \<and>
     pop_value (pops ! 14) = OP_DUP \<and> pop_value (pops ! 15) = OP_HASH160 \<and>
     pop_value (pops ! 16) = OP_DATA_20 \<and> pop_value (pops ! 17) = OP_ENDIF \<and>
     pop_value (pops ! 18) = OP_EQUALVERIFY \<and> pop_value (pops ! 19) = OP_CHECKSIG"

definition pushedNumber :: "parsedOpcode \<Rightarrow> int option" where
  "pushedNumber pop =
     (if op_length (pop_opcode pop) \<noteq> 1 then
        (case makeScriptNum (pop_data pop) True 5 of Ok n \<Rightarrow> Some n | _ \<Rightarrow> None)
      else if isSmallInt (pop_opcode pop) then Some (asSmallInt (pop_opcode pop))
      else None)"

text \<open>A \<^verbatim>\<open>nil\<close> result without an error is \<open>None\<close>.\<close>

definition ExtractAtomicSwapDataPushes :: "byte list \<Rightarrow> (script_error, AtomicSwapDataPushes option) res" where
  "ExtractAtomicSwapDataPushes pkScript =
     bind_res (parsed pkScript) (\<lambda>pops.
       if length pops \<noteq> 20 then Ok None
       else if \<not> isAtomicSwap pops then Ok None
       else Ok (case pushedNumber (pops ! 2) of None \<Rightarrow> None
         | Some secretSize \<Rightarrow> (case pushedNumber (pops ! 11) of None \<Rightarrow> None
           | Some lockTime \<Rightarrow> Some
             \<lparr>RecipientHash160 = pop_data (pops ! 9), RefundHash160 = pop_data (pops ! 16),
              SecretHash = pop_data (pops ! 5), SecretSize = secretSize, swap_LockTime = lockTime\<rparr>)))"

end
