(* ===== verification/Engine.thy ===== *)
theory Engine
  imports SigHash Builder
begin

text \<open>
  The script engine: its state, the checks on signatures and keys, and every opcode handler
  (\<^verbatim>\<open>pkg/chain/tx/script/engine.go\<close> and the handlers of \<^verbatim>\<open>opcode.go\<close>).

  A handler is an operation on the engine.  \<^verbatim>\<open>ecdsa.Verify\<close>, RIPEMD-160 and the order in which Go
  iterates over the signature cache are the fields of \<open>env\<close>, the first argument of the
  definitions that need them.  The engine's pointer to the shared signature cache is the cache
  itself.  \<open>witnessProgram\<close>, \<open>hashCache\<close> and \<open>sigCache\<close> can be \<^verbatim>\<open>nil\<close> and are options.
\<close>

unbundle bit_operations_syntax

subsection \<open>Flags\<close>

type_synonym ScriptFlags = "32 word"

definition ScriptBip16 :: ScriptFlags where "ScriptBip16 = push_bit 0 1"
definition ScriptStrictMultiSig :: ScriptFlags where "ScriptStrictMultiSig = push_bit 1 1"
definition ScriptDiscourageUpgradableNops :: ScriptFlags where
  "ScriptDiscourageUpgradableNops = push_bit 2 1"
definition ScriptVerifyCheckLockTimeVerify :: ScriptFlags where
  "ScriptVerifyCheckLockTimeVerify = push_bit 3 1"
definition ScriptVerifyCheckSequenceVerify :: ScriptFlags where
  "ScriptVerifyCheckSequenceVerify = push_bit 4 1"
definition ScriptVerifyCleanStack :: ScriptFlags where "ScriptVerifyCleanStack = push_bit 5 1"
definition ScriptVerifyDERSignatures :: ScriptFlags where "ScriptVerifyDERSignatures = push_bit 6 1"
definition ScriptVerifyLowS :: ScriptFlags where "ScriptVerifyLowS = push_bit 7 1"
definition ScriptVerifyMinimalData :: ScriptFlags where "ScriptVerifyMinimalData = push_bit 8 1"
definition ScriptVerifyNullFail :: ScriptFlags where "ScriptVerifyNullFail = push_bit 9 1"
definition ScriptVerifySigPushOnly :: ScriptFlags where "ScriptVerifySigPushOnly = push_bit 10 1"
definition ScriptVerifyStrictEncoding :: ScriptFlags where "ScriptVerifyStrictEncoding = push_bit 11 1"
definition ScriptVerifyWitness :: ScriptFlags where "ScriptVerifyWitness = push_bit 12 1"
definition ScriptVerifyDiscourageUpgradeableWitnessProgram :: ScriptFlags where
  "ScriptVerifyDiscourageUpgradeableWitnessProgram = push_bit 13 1"
definition ScriptVerifyMinimalIf :: ScriptFlags where "ScriptVerifyMinimalIf = push_bit 14 1"
definition ScriptVerifyWitnessPubKeyType :: ScriptFlags where
  "ScriptVerifyWitnessPubKeyType = push_bit 15 1"

definition MaxStackSize :: int where
  "MaxStackSize = 1000"

definition LockTimeThreshold :: int where
  "LockTimeThreshold = 500000000"

definition SequenceLockTimeDisabled :: int where
  "SequenceLockTimeDisabled = 2 ^ 31"

definition SequenceLockTimeIsSeconds :: int where
  "SequenceLockTimeIsSeconds = 2 ^ 22"

definition SequenceLockTimeMask :: int where
  "SequenceLockTimeMask = 0x0000ffff"

subsection \<open>State\<close>

datatype OpCond = OpCondFalse | OpCondTrue | OpCondSkip

record env =
  ec_verify :: "byte list \<Rightarrow> Signature \<Rightarrow> PublicKey \<Rightarrow> bool"
  ripemd160 :: "byte list \<Rightarrow> byte list"
  cache_first :: "SigCache \<Rightarrow> byte list"

record Engine =
  scripts :: "parsedOpcode list list"
  scriptIdx :: nat
  scriptOff :: nat
  lastCodeSep :: nat
  dstack :: stack
  astack :: stack
  vm_tx :: MsgTx
  txIdx :: int
  condStack :: "OpCond list"
  numOps :: int
  flags :: ScriptFlags
  sigCache :: "SigCache option"
  hashCache :: "TxSigHashes option"
  bip16 :: bool
  savedFirstStack :: "byte list list"
  witnessVersion :: int
  witnessProgram :: "byte list option"
  inputAmount :: "64 word"

type_synonym 'a eop = "(Engine, 'a) sop"

definition on_d :: "(stack, 'a) sop \<Rightarrow> 'a eop" where
  "on_d m = on_part dstack (\<lambda>s vm. vm\<lparr>dstack := s\<rparr>) m"

definition on_a :: "(stack, 'a) sop \<Rightarrow> 'a eop" where
  "on_a m = on_part astack (\<lambda>s vm. vm\<lparr>astack := s\<rparr>) m"

definition hasFlag :: "ScriptFlags \<Rightarrow> Engine \<Rightarrow> bool" where
  "hasFlag flag vm \<longleftrightarrow> flags vm AND flag = flag"

definition isBranchExecuting :: "Engine \<Rightarrow> bool" where
  "isBranchExecuting vm \<longleftrightarrow>
     (if length (condStack vm) = 0 then True else last (condStack vm) = OpCondTrue)"

definition isWitnessVersionActive :: "int \<Rightarrow> Engine \<Rightarrow> bool" where
  "isWitnessVersionActive version vm \<longleftrightarrow> witnessProgram vm \<noteq> None \<and> witnessVersion vm = version"

subsection \<open>Checks on signatures and keys\<close>

definition checkHashTypeEncoding :: "SigHashType \<Rightarrow> unit eop" where
  "checkHashTypeEncoding hashType vm =
     (if \<not> hasFlag ScriptVerifyStrictEncoding vm then (Ok (), vm)
      else let sigHashType = hashType AND NOT SigHashAnyOneCanPay in
        if sigHashType < SigHashAll \<or> sigHashType > SigHashSingle
        then (Err (scriptError ErrInvalidSigHashType), vm)
        else (Ok (), vm))"

definition checkPubKeyEncoding :: "byte list \<Rightarrow> unit eop" where
  "checkPubKeyEncoding pubKey vm =
     (if hasFlag ScriptVerifyWitnessPubKeyType vm \<and> isWitnessVersionActive 0 vm \<and>
         \<not> IsCompressedPubKey pubKey
      then (Err (scriptError ErrWitnessPubKeyType), vm)
      else if \<not> hasFlag ScriptVerifyStrictEncoding vm then (Ok (), vm)
      else if length pubKey = 33 \<and> (pubKey ! 0 = 0x02 \<or> pubKey ! 0 = 0x03) then (Ok (), vm)
      else if length pubKey = 65 \<and> pubKey ! 0 = 0x04 then (Ok (), vm)
      else (Err (scriptError ErrPubKeyType), vm))"

text \<open>The checks of \<open>checkSignatureEncoding\<close> once one of its flags is set, with every index checked.\<close>

definition sigEncoding :: "bool \<Rightarrow> byte list \<Rightarrow> (script_error, unit) res" where
  "sigEncoding lowS sig =
     (let sigLen = length sig; fail = (\<lambda>c. Err (scriptError c)) in
      if sigLen < 8 then fail ErrSigTooShort
      else if sigLen > 72 then fail ErrSigTooLong
      else bind_res (nth_res sig 0) (\<lambda>seqID.
      if seqID \<noteq> 0x30 then fail ErrSigInvalidSeqID
      else bind_res (nth_res sig 1) (\<lambda>dataLen.
      if int (unat dataLen) \<noteq> int sigLen - 2 then fail ErrSigInvalidDataLen
      else bind_res (nth_res sig 3) (\<lambda>rl.
      let rLen = unat rl; sTypeOffset = 4 + rLen; sLenOffset = sTypeOffset + 1 in
      if sTypeOffset \<ge> sigLen then fail ErrSigMissingSTypeID
      else if sLenOffset \<ge> sigLen then fail ErrSigMissingSLen
      else bind_res (nth_res sig sLenOffset) (\<lambda>sl.
      let sOffset = sLenOffset + 1; sLen = unat sl in
      if sOffset + sLen \<noteq> sigLen then fail ErrSigInvalidSLen
      else bind_res (nth_res sig 2) (\<lambda>rType.
      if rType \<noteq> 0x02 then fail ErrSigInvalidRIntID
      else if rLen = 0 then fail ErrSigZeroRLen
      else bind_res (nth_res sig 4) (\<lambda>r0.
      if r0 AND 0x80 \<noteq> 0 then fail ErrSigNegativeR
      else bind_res (if rLen > 1 \<and> r0 = 0x00 then nth_res sig 5 else Ok 0x80) (\<lambda>r1.
      if r1 AND 0x80 = 0 then fail ErrSigTooMuchRPadding
      else bind_res (nth_res sig sTypeOffset) (\<lambda>sType.
      if sType \<noteq> 0x02 then fail ErrSigInvalidSIntID
      else if sLen = 0 then fail ErrSigZeroSLen
      else bind_res (nth_res sig sOffset) (\<lambda>s0.
      if s0 AND 0x80 \<noteq> 0 then fail ErrSigNegativeS
      else bind_res (if sLen > 1 \<and> s0 = 0x00 then nth_res sig (sOffset + 1) else Ok 0x80) (\<lambda>s1.
      if s1 AND 0x80 = 0 then fail ErrSigTooMuchSPadding
      else if lowS then
        bind_res (slice_res sig sOffset (sOffset + sLen)) (\<lambda>sb.
          if be_val sb > halfOrder then fail ErrSigHighS else Ok ())
      else Ok ())))))))))))"

definition checkSignatureEncoding :: "byte list \<Rightarrow> unit eop" where
  "checkSignatureEncoding sig vm =
     (if \<not> hasFlag ScriptVerifyDERSignatures vm \<and> \<not> hasFlag ScriptVerifyLowS vm \<and>
         \<not> hasFlag ScriptVerifyStrictEncoding vm
      then (Ok (), vm)
      else (sigEncoding (hasFlag ScriptVerifyLowS vm) sig, vm))"

subsection \<open>Constants and control\<close>

definition fail_op :: "ErrorCode \<Rightarrow> 'a eop" where
  "fail_op c = throw (scriptError c)"

definition opcodeDisabled :: "parsedOpcode \<Rightarrow> unit eop" where
  "opcodeDisabled pop = fail_op ErrDisabledOpcode"

definition opcodeReserved :: "parsedOpcode \<Rightarrow> unit eop" where
  "opcodeReserved pop = fail_op ErrReservedOpcode"

definition opcodeInvalid :: "parsedOpcode \<Rightarrow> unit eop" where
  "opcodeInvalid pop = fail_op ErrReservedOpcode"

definition opcodeFalse :: "parsedOpcode \<Rightarrow> unit eop" where
  "opcodeFalse pop = on_d (PushByteArray [])"

definition opcodePushData :: "parsedOpcode \<Rightarrow> unit eop" where
  "opcodePushData pop = on_d (PushByteArray (pop_data pop))"

definition opcode1Negate :: "parsedOpcode \<Rightarrow> unit eop" where
  "opcode1Negate pop = on_d (PushInt (-1))"

definition opcodeN :: "parsedOpcode \<Rightarrow> unit eop" where
  "opcodeN pop = on_d (PushInt (uint (pop_value pop - (OP_1 - 1))))"

definition opcodeNop :: "parsedOpcode \<Rightarrow> unit eop" where
  "opcodeNop pop vm =
     (if pop_value pop \<in> {OP_NOP1, OP_NOP4, OP_NOP5, OP_NOP6, OP_NOP7, OP_NOP8, OP_NOP9, OP_NOP10} \<and>
         hasFlag ScriptDiscourageUpgradableNops vm
      then (Err (scriptError ErrDiscourageUpgradableNOPs), vm) else (Ok (), vm))"

definition popIfBool :: "bool eop" where
  "popIfBool vm =
     (if \<not> isWitnessVersionActive 0 vm \<or> \<not> hasFlag ScriptVerifyMinimalIf vm then on_d PopBool vm
      else bnd (on_d PopByteArray) (\<lambda>so.
        if length so > 1 then fail_op ErrMinimalIf
        else if length so = 1 \<and> so ! 0 \<noteq> 0x01 then fail_op ErrMinimalIf
        else ret (asBool so)) vm)"

definition pushCond :: "OpCond \<Rightarrow> unit eop" where
  "pushCond c = mod_st (\<lambda>vm. vm\<lparr>condStack := condStack vm @ [c]\<rparr>)"

definition opcodeIf :: "parsedOpcode \<Rightarrow> unit eop" where
  "opcodeIf pop vm =
     (if isBranchExecuting vm
      then bnd popIfBool (\<lambda>ok. pushCond (if ok then OpCondTrue else OpCondFalse)) vm
      else pushCond OpCondSkip vm)"

definition opcodeNotIf :: "parsedOpcode \<Rightarrow> unit eop" where
  "opcodeNotIf pop vm =
     (if isBranchExecuting vm
      then bnd popIfBool (\<lambda>ok. pushCond (if \<not> ok then OpCondTrue else OpCondFalse)) vm
      else pushCond OpCondSkip vm)"

fun invertCond :: "OpCond \<Rightarrow> OpCond" where
  "invertCond OpCondTrue = OpCondFalse"
| "invertCond OpCondFalse = OpCondTrue"
| "invertCond OpCondSkip = OpCondSkip"

definition opcodeElse :: "parsedOpcode \<Rightarrow> unit eop" where
  "opcodeElse pop vm =
     (if length (condStack vm) = 0 then (Err (scriptError ErrUnbalancedConditional), vm)
      else (Ok (), vm\<lparr>condStack := (condStack vm)[length (condStack vm) - 1 := invertCond (last (condStack vm))]\<rparr>))"

definition opcodeEndif :: "parsedOpcode \<Rightarrow> unit eop" where
  "opcodeEndif pop vm =
     (if length (condStack vm) = 0 then (Err (scriptError ErrUnbalancedConditional), vm)
      else (Ok (), vm\<lparr>condStack := take (length (condStack vm) - 1) (condStack vm)\<rparr>))"

definition abstractVerify :: "ErrorCode \<Rightarrow> unit eop" where
  "abstractVerify c = bnd (on_d PopBool) (\<lambda>verified. if \<not> verified then fail_op c else ret ())"

definition opcodeVerify :: "parsedOpcode \<Rightarrow> unit eop" where
  "opcodeVerify pop = abstractVerify ErrVerify"

definition opcodeReturn :: "parsedOpcode \<Rightarrow> unit eop" where
  "opcodeReturn pop = fail_op ErrEarlyReturn"

subsection \<open>Lock times\<close>

definition verifyLockTime :: "int \<Rightarrow> int \<Rightarrow> int \<Rightarrow> (script_error, unit) res" where
  "verifyLockTime txLockTime threshold lockTime =
     (if \<not> ((txLockTime < threshold \<and> lockTime < threshold) \<or>
            (txLockTime \<ge> threshold \<and> lockTime \<ge> threshold))
      then Err (scriptError ErrUnsatisfiedLockTime)
      else if lockTime > txLockTime then Err (scriptError ErrUnsatisfiedLockTime)
      else Ok ())"

text \<open>The input the engine runs for; the index was checked when the engine was made.\<close>

definition curTxIn :: "TxIn eop" where
  "curTxIn vm =
     (if 0 \<le> txIdx vm \<and> txIdx vm < int (length (txIns (vm_tx vm)))
      then (Ok (txIns (vm_tx vm) ! nat (txIdx vm)), vm) else (Panic, vm))"

definition peekLockTime :: "int eop" where
  "peekLockTime =
     bnd (on_d (PeekByteArray 0)) (\<lambda>so.
     bnd (\<lambda>vm. (makeScriptNum so (verifyMinimalData (dstack vm)) 5, vm)) (\<lambda>n.
       if n < 0 then fail_op ErrNegativeLockTime else ret n))"

definition opcodeCheckLockTimeVerify :: "parsedOpcode \<Rightarrow> unit eop" where
  "opcodeCheckLockTimeVerify pop vm =
     (if \<not> hasFlag ScriptVerifyCheckLockTimeVerify vm then
        (if hasFlag ScriptDiscourageUpgradableNops vm
         then (Err (scriptError ErrDiscourageUpgradableNOPs), vm) else (Ok (), vm))
      else
        bnd peekLockTime (\<lambda>lockTime.
        bnd (lift_res (verifyLockTime (uint (LockTime (vm_tx vm))) LockTimeThreshold lockTime)) (\<lambda>_.
        bnd curTxIn (\<lambda>ti.
          if Sequence ti = MaxTxInSequenceNum then fail_op ErrUnsatisfiedLockTime else ret ()))) vm)"

definition opcodeCheckSequenceVerify :: "parsedOpcode \<Rightarrow> unit eop" where
  "opcodeCheckSequenceVerify pop vm =
     (if \<not> hasFlag ScriptVerifyCheckSequenceVerify vm then
        (if hasFlag ScriptDiscourageUpgradableNops vm
         then (Err (scriptError ErrDiscourageUpgradableNOPs), vm) else (Ok (), vm))
      else
        bnd peekLockTime (\<lambda>sequence.
          if sequence AND SequenceLockTimeDisabled \<noteq> 0 then ret ()
          else if sint (Version (vm_tx vm)) < 2 then fail_op ErrUnsatisfiedLockTime
          else bnd curTxIn (\<lambda>ti.
            let txSequence = uint (Sequence ti);
                lockTimeMask = SequenceLockTimeIsSeconds OR SequenceLockTimeMask
            in if txSequence AND SequenceLockTimeDisabled \<noteq> 0 then fail_op ErrUnsatisfiedLockTime
               else lift_res (verifyLockTime (txSequence AND lockTimeMask) SequenceLockTimeIsSeconds
                 (sequence AND lockTimeMask)))) vm)"

subsection \<open>Stack handlers\<close>

definition opcodeToAltStack :: "parsedOpcode \<Rightarrow> unit eop" where
  "opcodeToAltStack pop = bnd (on_d PopByteArray) (\<lambda>so. on_a (PushByteArray so))"

definition opcodeFromAltStack :: "parsedOpcode \<Rightarrow> unit eop" where
  "opcodeFromAltStack pop = bnd (on_a PopByteArray) (\<lambda>so. on_d (PushByteArray so))"

definition opcode2Drop :: "parsedOpcode \<Rightarrow> unit eop" where
  "opcode2Drop pop = on_d (DropN 2)"

definition opcode2Dup :: "parsedOpcode \<Rightarrow> unit eop" where
  "opcode2Dup pop = on_d (DupN 2)"

definition opcode3Dup :: "parsedOpcode \<Rightarrow> unit eop" where
  "opcode3Dup pop = on_d (DupN 3)"

definition opcode2Over :: "parsedOpcode \<Rightarrow> unit eop" where
  "opcode2Over pop = on_d (OverN 2)"

definition opcode2Rot :: "parsedOpcode \<Rightarrow> unit eop" where
  "opcode2Rot pop = on_d (RotN 2)"

definition opcode2Swap :: "parsedOpcode \<Rightarrow> unit eop" where
  "opcode2Swap pop = on_d (SwapN 2)"

definition opcodeIfDup :: "parsedOpcode \<Rightarrow> unit eop" where
  "opcodeIfDup pop = bnd (on_d (PeekByteArray 0)) (\<lambda>so. if asBool so then on_d (PushByteArray so) else ret ())"

definition opcodeDepth :: "parsedOpcode \<Rightarrow> unit eop" where
  "opcodeDepth pop = bnd (on_d Depth) (\<lambda>n. on_d (PushInt n))"

definition opcodeDrop :: "parsedOpcode \<Rightarrow> unit eop" where
  "opcodeDrop pop = on_d (DropN 1)"

definition opcodeDup :: "parsedOpcode \<Rightarrow> unit eop" where
  "opcodeDup pop = on_d (DupN 1)"

definition opcodeNip :: "parsedOpcode \<Rightarrow> unit eop" where
  "opcodeNip pop = on_d (NipN 1)"

definition opcodeOver :: "parsedOpcode \<Rightarrow> unit eop" where
  "opcodeOver pop = on_d (OverN 1)"

definition opcodePick :: "parsedOpcode \<Rightarrow> unit eop" where
  "opcodePick pop = bnd (on_d PopInt) (\<lambda>val. on_d (PickN (scriptNum_Int32 val)))"

definition opcodeRoll :: "parsedOpcode \<Rightarrow> unit eop" where
  "opcodeRoll pop = bnd (on_d PopInt) (\<lambda>val. on_d (RollN (scriptNum_Int32 val)))"

definition opcodeRot :: "parsedOpcode \<Rightarrow> unit eop" where
  "opcodeRot pop = on_d (RotN 1)"

definition opcodeSwap :: "parsedOpcode \<Rightarrow> unit eop" where
  "opcodeSwap pop = on_d (SwapN 1)"

definition opcodeTuck :: "parsedOpcode \<Rightarrow> unit eop" where
  "opcodeTuck pop = on_d Tuck"

definition opcodeSize :: "parsedOpcode \<Rightarrow> unit eop" where
  "opcodeSize pop = bnd (on_d (PeekByteArray 0)) (\<lambda>so. on_d (PushInt (int (length so))))"

definition opcodeEqual :: "parsedOpcode \<Rightarrow> unit eop" where
  "opcodeEqual pop = bnd (on_d PopByteArray) (\<lambda>a. bnd (on_d PopByteArray) (\<lambda>b. on_d (PushBool (a = b))))"

definition opcodeEqualVerify :: "parsedOpcode \<Rightarrow> unit eop" where
  "opcodeEqualVerify pop = bnd (opcodeEqual pop) (\<lambda>_. abstractVerify ErrEqualVerify)"

subsection \<open>Arithmetic\<close>

text \<open>The handlers that replace the top number, or the two top numbers, by a result.\<close>

definition unary :: "(int \<Rightarrow> int) \<Rightarrow> unit eop" where
  "unary f = bnd (on_d PopInt) (\<lambda>m. on_d (PushInt (f m)))"

definition binary :: "(int \<Rightarrow> int \<Rightarrow> int) \<Rightarrow> unit eop" where
  "binary f = bnd (on_d PopInt) (\<lambda>v0. bnd (on_d PopInt) (\<lambda>v1. on_d (PushInt (f v0 v1))))"

abbreviation num_of_bool :: "bool \<Rightarrow> int" where
  "num_of_bool b \<equiv> (if b then 1 else 0)"

definition opcode1Add :: "parsedOpcode \<Rightarrow> unit eop" where
  "opcode1Add pop = unary (\<lambda>m. i64 (m + 1))"

definition opcode1Sub :: "parsedOpcode \<Rightarrow> unit eop" where
  "opcode1Sub pop = unary (\<lambda>m. i64 (m - 1))"

definition opcodeNegate :: "parsedOpcode \<Rightarrow> unit eop" where
  "opcodeNegate pop = unary (\<lambda>m. i64 (- m))"

definition opcodeAbs :: "parsedOpcode \<Rightarrow> unit eop" where
  "opcodeAbs pop = unary (\<lambda>m. if m < 0 then i64 (- m) else m)"

definition opcodeNot :: "parsedOpcode \<Rightarrow> unit eop" where
  "opcodeNot pop = unary (\<lambda>m. num_of_bool (m = 0))"

definition opcode0NotEqual :: "parsedOpcode \<Rightarrow> unit eop" where
  "opcode0NotEqual pop = unary (\<lambda>m. if m \<noteq> 0 then 1 else m)"

definition opcodeAdd :: "parsedOpcode \<Rightarrow> unit eop" where
  "opcodeAdd pop = binary (\<lambda>v0 v1. i64 (v0 + v1))"

definition opcodeSub :: "parsedOpcode \<Rightarrow> unit eop" where
  "opcodeSub pop = binary (\<lambda>v0 v1. i64 (v1 - v0))"

definition opcodeBoolAnd :: "parsedOpcode \<Rightarrow> unit eop" where
  "opcodeBoolAnd pop = binary (\<lambda>v0 v1. num_of_bool (v0 \<noteq> 0 \<and> v1 \<noteq> 0))"

definition opcodeBoolOr :: "parsedOpcode \<Rightarrow> unit eop" where
  "opcodeBoolOr pop = binary (\<lambda>v0 v1. num_of_bool (v0 \<noteq> 0 \<or> v1 \<noteq> 0))"

definition opcodeNumEqual :: "parsedOpcode \<Rightarrow> unit eop" where
  "opcodeNumEqual pop = binary (\<lambda>v0 v1. num_of_bool (v0 = v1))"

definition opcodeNumEqualVerify :: "parsedOpcode \<Rightarrow> unit eop" where
  "opcodeNumEqualVerify pop = bnd (opcodeNumEqual pop) (\<lambda>_. abstractVerify ErrNumEqualVerify)"

definition opcodeNumNotEqual :: "parsedOpcode \<Rightarrow> unit eop" where
  "opcodeNumNotEqual pop = binary (\<lambda>v0 v1. num_of_bool (v0 \<noteq> v1))"

definition opcodeLessThan :: "parsedOpcode \<Rightarrow> unit eop" where
  "opcodeLessThan pop = binary (\<lambda>v0 v1. num_of_bool (v1 < v0))"

definition opcodeGreaterThan :: "parsedOpcode \<Rightarrow> unit eop" where
  "opcodeGreaterThan pop = binary (\<lambda>v0 v1. num_of_bool (v1 > v0))"

definition opcodeLessThanOrEqual :: "parsedOpcode \<Rightarrow> unit eop" where
  "opcodeLessThanOrEqual pop = binary (\<lambda>v0 v1. num_of_bool (v1 \<le> v0))"

definition opcodeGreaterThanOrEqual :: "parsedOpcode \<Rightarrow> unit eop" where
  "opcodeGreaterThanOrEqual pop = binary (\<lambda>v0 v1. num_of_bool (v1 \<ge> v0))"

definition opcodeMin :: "parsedOpcode \<Rightarrow> unit eop" where
  "opcodeMin pop = binary (\<lambda>v0 v1. if v1 < v0 then v1 else v0)"

definition opcodeMax :: "parsedOpcode \<Rightarrow> unit eop" where
  "opcodeMax pop = binary (\<lambda>v0 v1. if v1 > v0 then v1 else v0)"

definition opcodeWithin :: "parsedOpcode \<Rightarrow> unit eop" where
  "opcodeWithin pop =
     bnd (on_d PopInt) (\<lambda>maxVal. bnd (on_d PopInt) (\<lambda>minVal. bnd (on_d PopInt) (\<lambda>x.
       on_d (PushInt (num_of_bool (x \<ge> minVal \<and> x < maxVal))))))"

subsection \<open>Hashing\<close>

definition hash_op :: "(byte list \<Rightarrow> byte list) \<Rightarrow> unit eop" where
  "hash_op h = bnd (on_d PopByteArray) (\<lambda>buf. on_d (PushByteArray (h buf)))"

definition opcodeRipeMD160 :: "env \<Rightarrow> parsedOpcode \<Rightarrow> unit eop" where
  "opcodeRipeMD160 E pop = hash_op (ripemd160 E)"

definition opcodeSHA1 :: "parsedOpcode \<Rightarrow> unit eop" where
  "opcodeSHA1 pop = hash_op Sum1"

definition opcodeSHA256 :: "parsedOpcode \<Rightarrow> unit eop" where
  "opcodeSHA256 pop = hash_op Sum256"

definition opcodeHash160 :: "env \<Rightarrow> parsedOpcode \<Rightarrow> unit eop" where
  "opcodeHash160 E pop = hash_op (\<lambda>buf. ripemd160 E (Sum256 buf))"

definition opcodeHash256 :: "parsedOpcode \<Rightarrow> unit eop" where
  "opcodeHash256 pop = hash_op DoubleHashB"

definition opcodeCodeSeparator :: "parsedOpcode \<Rightarrow> unit eop" where
  "opcodeCodeSeparator pop = mod_st (\<lambda>vm. vm\<lparr>lastCodeSep := scriptOff vm\<rparr>)"

subsection \<open>Signatures\<close>

definition subScript :: "parsedOpcode list eop" where
  "subScript vm =
     (if scriptIdx vm < length (scripts vm) \<and> lastCodeSep vm \<le> length (scripts vm ! scriptIdx vm)
      then (Ok (drop (lastCodeSep vm) (scripts vm ! scriptIdx vm)), vm) else (Panic, vm))"

text \<open>The signature hash of a version 0 witness program or of a plain script.\<close>

definition sigHash :: "parsedOpcode list \<Rightarrow> SigHashType \<Rightarrow> byte list eop" where
  "sigHash script hashType vm =
     (if isWitnessVersionActive 0 vm then
        let sigHashes = (case hashCache vm of Some h \<Rightarrow> h | None \<Rightarrow> NewTxSigHashes (vm_tx vm))
        in (calcWitnessSignatureHash script sigHashes hashType (vm_tx vm) (txIdx vm) (inputAmount vm), vm)
      else (calcSignatureHash script hashType (vm_tx vm) (txIdx vm), vm))"

definition parseSigFlags :: "byte list \<Rightarrow> Engine \<Rightarrow> (string, Signature) res" where
  "parseSigFlags sigBytes vm =
     (if hasFlag ScriptVerifyStrictEncoding vm \<or> hasFlag ScriptVerifyDERSignatures vm
      then ParseDERSignature sigBytes else ParseSignature sigBytes)"

text \<open>The check of a signature through the cache, if the engine has one.\<close>

definition checkSig :: "env \<Rightarrow> byte list \<Rightarrow> Signature \<Rightarrow> PublicKey \<Rightarrow> bool eop" where
  "checkSig E hash signature pubKey vm =
     (case sigCache vm of
        Some cache \<Rightarrow>
          if SigCache_Exists cache hash signature pubKey then (Ok True, vm)
          else if ec_verify E hash signature pubKey
          then (Ok True, vm\<lparr>sigCache := Some (SigCache_Add (cache_first E) cache hash signature pubKey)\<rparr>)
          else (Ok False, vm)
      | None \<Rightarrow> (Ok (ec_verify E hash signature pubKey), vm))"

text \<open>The parsers of keys and signatures as calls whose error is a value.\<close>

definition try_parse :: "(string, 'a) res \<Rightarrow> 'a option eop" where
  "try_parse r vm =
     (case r of Ok a \<Rightarrow> (Ok (Some a), vm) | Err _ \<Rightarrow> (Ok None, vm) | Panic \<Rightarrow> (Panic, vm) | Hang \<Rightarrow> (Hang, vm))"

definition opcodeCheckSig :: "env \<Rightarrow> parsedOpcode \<Rightarrow> unit eop" where
  "opcodeCheckSig E pop =
     bnd (on_d PopByteArray) (\<lambda>pkBytes.
     bnd (on_d PopByteArray) (\<lambda>fullSigBytes.
       if length fullSigBytes < 1 then on_d (PushBool False)
       else
         let hashType = ucast (last fullSigBytes); sigBytes = butlast fullSigBytes in
         bnd (checkHashTypeEncoding hashType) (\<lambda>_.
         bnd (checkSignatureEncoding sigBytes) (\<lambda>_.
         bnd (checkPubKeyEncoding pkBytes) (\<lambda>_.
         bnd subScript (\<lambda>sub.
         bnd (get_st (isWitnessVersionActive 0)) (\<lambda>wit.
         bnd (sigHash (if wit then sub else removeOpcodeByData sub fullSigBytes) hashType) (\<lambda>hash.
         bnd (try_parse (ParsePubKey pkBytes)) (\<lambda>mpk.
           case mpk of None \<Rightarrow> on_d (PushBool False)
           | Some pubKey \<Rightarrow>
             bnd (\<lambda>vm. try_parse (parseSigFlags sigBytes vm) vm) (\<lambda>msig.
               case msig of None \<Rightarrow> on_d (PushBool False)
               | Some signature \<Rightarrow>
                 bnd (checkSig E hash signature pubKey) (\<lambda>valid.
                 bnd (get_st (hasFlag ScriptVerifyNullFail)) (\<lambda>nullFail.
                   if \<not> valid \<and> nullFail \<and> length sigBytes > 0 then fail_op ErrNullFail
                   else on_d (PushBool valid)))))))))))))"

definition opcodeCheckSigVerify :: "env \<Rightarrow> parsedOpcode \<Rightarrow> unit eop" where
  "opcodeCheckSigVerify E pop = bnd (opcodeCheckSig E pop) (\<lambda>_. abstractVerify ErrCheckSigVerify)"

text \<open>Popping a counted list: the first element popped comes first.\<close>

primrec popN :: "nat \<Rightarrow> byte list list eop" where
  "popN 0 = ret []"
| "popN (Suc n) = bnd (on_d PopByteArray) (\<lambda>x. bnd (popN n) (\<lambda>xs. ret (x # xs)))"

text \<open>
  A signature with the state of its parsing: not parsed yet, parsed without success, or parsed.
\<close>

record parsedSigInfo =
  signature :: "byte list"
  parsedSig :: "Signature option option"

text \<open>
  The loop over keys and signatures.  Its arguments are the signatures that are still to be
  verified and the keys that are still to be tried, so that \<^verbatim>\<open>numSignatures\<close> and the decremented
  \<^verbatim>\<open>numPubKeys\<close> are their lengths.  Only the first signature is looked at in a round.
\<close>

fun multiSigLoop :: "env \<Rightarrow> parsedOpcode list \<Rightarrow> parsedSigInfo list \<Rightarrow> byte list list \<Rightarrow> bool eop" where
  "multiSigLoop E script [] ks = ret True"
| "multiSigLoop E script (sigInfo # sigs) [] = ret False"
| "multiSigLoop E script (sigInfo # sigs) (pubKey # ks) =
     (if length (sigInfo # sigs) > length (pubKey # ks) then ret False
      else
        let rawSig = signature sigInfo in
        if length rawSig = 0 then multiSigLoop E script (sigInfo # sigs) ks
        else
          let hashType = ucast (last rawSig); sig = butlast rawSig in
          bnd (case parsedSig sigInfo of
              None \<Rightarrow>
                bnd (checkHashTypeEncoding hashType) (\<lambda>_.
                bnd (checkSignatureEncoding sig) (\<lambda>_.
                  (\<lambda>vm. try_parse (parseSigFlags sig vm) vm)))
            | Some p \<Rightarrow> ret p) (\<lambda>mp.
            let sigInfo' = sigInfo\<lparr>parsedSig := Some mp\<rparr> in
            case mp of
              None \<Rightarrow> multiSigLoop E script (sigInfo' # sigs) ks
            | Some psig \<Rightarrow>
                bnd (checkPubKeyEncoding pubKey) (\<lambda>_.
                bnd (try_parse (ParsePubKey pubKey)) (\<lambda>mpk.
                  case mpk of
                    None \<Rightarrow> multiSigLoop E script (sigInfo' # sigs) ks
                  | Some pk \<Rightarrow>
                      bnd (sigHash script hashType) (\<lambda>hash.
                      bnd (checkSig E hash psig pk) (\<lambda>valid.
                        if valid then multiSigLoop E script sigs ks
                        else multiSigLoop E script (sigInfo' # sigs) ks))))))"

definition opcodeCheckMultiSig :: "env \<Rightarrow> parsedOpcode \<Rightarrow> unit eop" where
  "opcodeCheckMultiSig E pop =
     bnd (on_d PopInt) (\<lambda>numKeys.
     let numPubKeys = scriptNum_Int32 numKeys in
     if numPubKeys < 0 then fail_op ErrInvalidPubKeyCount
     else if numPubKeys > MaxPubKeysPerMultiSig then fail_op ErrInvalidPubKeyCount
     else
       bnd (mod_st (\<lambda>vm. vm\<lparr>numOps := numOps vm + numPubKeys\<rparr>)) (\<lambda>_.
       bnd (get_st numOps) (\<lambda>ops.
       if ops > MaxOpsPerScript then fail_op ErrTooManyOperations
       else
         bnd (popN (nat numPubKeys)) (\<lambda>pubKeys.
         bnd (on_d PopInt) (\<lambda>numSigs.
         let numSignatures = scriptNum_Int32 numSigs in
         if numSignatures < 0 then fail_op ErrInvalidSignatureCount
         else if numSignatures > numPubKeys then fail_op ErrInvalidSignatureCount
         else
           bnd (popN (nat numSignatures)) (\<lambda>sigs.
           bnd (on_d PopByteArray) (\<lambda>dummy.
           bnd (get_st (hasFlag ScriptStrictMultiSig)) (\<lambda>strict.
           if strict \<and> length dummy \<noteq> 0 then fail_op ErrSigNullDummy
           else
             bnd subScript (\<lambda>sub.
             bnd (get_st (isWitnessVersionActive 0)) (\<lambda>wit.
             bnd (multiSigLoop E (if wit then sub else foldl removeOpcodeByData sub sigs)
                   (map (\<lambda>s. \<lparr>signature = s, parsedSig = None\<rparr>) sigs) pubKeys) (\<lambda>success.
             bnd (get_st (hasFlag ScriptVerifyNullFail)) (\<lambda>nullFail.
               if \<not> success \<and> nullFail \<and> (\<exists>s \<in> set sigs. length s > 0) then fail_op ErrNullFail
               else on_d (PushBool success)))))))))))))"

definition opcodeCheckMultiSigVerify :: "env \<Rightarrow> parsedOpcode \<Rightarrow> unit eop" where
  "opcodeCheckMultiSigVerify E pop = bnd (opcodeCheckMultiSig E pop) (\<lambda>_. abstractVerify ErrCheckMultiSigVerify)"

end
