(* ===== verification/EngineRun.thy ===== *)
theory EngineRun
  imports Engine
begin

text \<open>
  Running scripts (\<^verbatim>\<open>pkg/chain/tx/script/engine.go\<close>): the opcode dispatch, the program counter,
  one step, the loop over all scripts, witness programs, and the making of an engine.

  \<open>Step\<close> gives \<^verbatim>\<open>done\<close> when it returns no error.  \<open>Execute\<close> is a loop whose end is a theorem, so it
  is a partial function and not returning would be \<open>None\<close>.
\<close>

unbundle bit_operations_syntax

subsection \<open>Opcode dispatch\<close>

text \<open>The handler behind each tag of the opcode table.\<close>

primrec opfunc_run :: "env \<Rightarrow> opfunc \<Rightarrow> parsedOpcode \<Rightarrow> unit eop" where
  "opfunc_run E fn_opcodeFalse = opcodeFalse"
| "opfunc_run E fn_opcodePushData = opcodePushData"
| "opfunc_run E fn_opcode1Negate = opcode1Negate"
| "opfunc_run E fn_opcodeReserved = opcodeReserved"
| "opfunc_run E fn_opcodeN = opcodeN"
| "opfunc_run E fn_opcodeNop = opcodeNop"
| "opfunc_run E fn_opcodeIf = opcodeIf"
| "opfunc_run E fn_opcodeNotIf = opcodeNotIf"
| "opfunc_run E fn_opcodeElse = opcodeElse"
| "opfunc_run E fn_opcodeEndif = opcodeEndif"
| "opfunc_run E fn_opcodeVerify = opcodeVerify"
| "opfunc_run E fn_opcodeReturn = opcodeReturn"
| "opfunc_run E fn_opcodeToAltStack = opcodeToAltStack"
| "opfunc_run E fn_opcodeFromAltStack = opcodeFromAltStack"
| "opfunc_run E fn_opcode2Drop = opcode2Drop"
| "opfunc_run E fn_opcode2Dup = opcode2Dup"
| "opfunc_run E fn_opcode3Dup = opcode3Dup"
| "opfunc_run E fn_opcode2Over = opcode2Over"
| "opfunc_run E fn_opcode2Rot = opcode2Rot"
| "opfunc_run E fn_opcode2Swap = opcode2Swap"
| "opfunc_run E fn_opcodeIfDup = opcodeIfDup"
| "opfunc_run E fn_opcodeDepth = opcodeDepth"
| "opfunc_run E fn_opcodeDrop = opcodeDrop"
| "opfunc_run E fn_opcodeDup = opcodeDup"
| "opfunc_run E fn_opcodeNip = opcodeNip"
| "opfunc_run E fn_opcodeOver = opcodeOver"
| "opfunc_run E fn_opcodePick = opcodePick"
| "opfunc_run E fn_opcodeRoll = opcodeRoll"
| "opfunc_run E fn_opcodeRot = opcodeRot"
| "opfunc_run E fn_opcodeSwap = opcodeSwap"
| "opfunc_run E fn_opcodeTuck = opcodeTuck"
| "opfunc_run E fn_opcodeDisabled = opcodeDisabled"
| "opfunc_run E fn_opcodeSize = opcodeSize"
| "opfunc_run E fn_opcodeEqual = opcodeEqual"
| "opfunc_run E fn_opcodeEqualVerify = opcodeEqualVerify"
| "opfunc_run E fn_opcode1Add = opcode1Add"
| "opfunc_run E fn_opcode1Sub = opcode1Sub"
| "opfunc_run E fn_opcodeNegate = opcodeNegate"
| "opfunc_run E fn_opcodeAbs = opcodeAbs"
| "opfunc_run E fn_opcodeNot = opcodeNot"
| "opfunc_run E fn_opcode0NotEqual = opcode0NotEqual"
| "opfunc_run E fn_opcodeAdd = opcodeAdd"
| "opfunc_run E fn_opcodeSub = opcodeSub"
| "opfunc_run E fn_opcodeBoolAnd = opcodeBoolAnd"
| "opfunc_run E fn_opcodeBoolOr = opcodeBoolOr"
| "opfunc_run E fn_opcodeNumEqual = opcodeNumEqual"
| "opfunc_run E fn_opcodeNumEqualVerify = opcodeNumEqualVerify"
| "opfunc_run E fn_opcodeNumNotEqual = opcodeNumNotEqual"
| "opfunc_run E fn_opcodeLessThan = opcodeLessThan"
| "opfunc_run E fn_opcodeGreaterThan = opcodeGreaterThan"
| "opfunc_run E fn_opcodeLessThanOrEqual = opcodeLessThanOrEqual"
| "opfunc_run E fn_opcodeGreaterThanOrEqual = opcodeGreaterThanOrEqual"
| "opfunc_run E fn_opcodeMin = opcodeMin"
| "opfunc_run E fn_opcodeMax = opcodeMax"
| "opfunc_run E fn_opcodeWithin = opcodeWithin"
| "opfunc_run E fn_opcodeRipeMD160 = opcodeRipeMD160 E"
| "opfunc_run E fn_opcodeSHA1 = opcodeSHA1"
| "opfunc_run E fn_opcodeSHA256 = opcodeSHA256"
| "opfunc_run E fn_opcodeHash160 = opcodeHash160 E"
| "opfunc_run E fn_opcodeHash256 = opcodeHash256"
| "opfunc_run E fn_opcodeCodeSeparator = opcodeCodeSeparator"
| "opfunc_run E fn_opcodeCheckSig = opcodeCheckSig E"
| "opfunc_run E fn_opcodeCheckSigVerify = opcodeCheckSigVerify E"
| "opfunc_run E fn_opcodeCheckMultiSig = opcodeCheckMultiSig E"
| "opfunc_run E fn_opcodeCheckMultiSigVerify = opcodeCheckMultiSigVerify E"
| "opfunc_run E fn_opcodeCheckLockTimeVerify = opcodeCheckLockTimeVerify"
| "opfunc_run E fn_opcodeCheckSequenceVerify = opcodeCheckSequenceVerify"
| "opfunc_run E fn_opcodeInvalid = opcodeInvalid"

text \<open>The count of operations, or the limit on pushed elements.\<close>

definition countOp :: "parsedOpcode \<Rightarrow> unit eop" where
  "countOp pop =
     (if pop_value pop > OP_16 then
        bnd (mod_st (\<lambda>vm. vm\<lparr>numOps := numOps vm + 1\<rparr>)) (\<lambda>_.
        bnd (get_st numOps) (\<lambda>n. if n > MaxOpsPerScript then fail_op ErrTooManyOperations else ret ()))
      else if length (pop_data pop) > MaxScriptElementSize then fail_op ErrElementTooBig
      else ret ())"

definition executeOpcode :: "env \<Rightarrow> parsedOpcode \<Rightarrow> unit eop" where
  "executeOpcode E pop =
     (if isDisabled pop then fail_op ErrDisabledOpcode
      else if alwaysIllegal pop then fail_op ErrReservedOpcode
      else
        bnd (countOp pop) (\<lambda>_ vm.
          if \<not> isBranchExecuting vm \<and> \<not> isConditional pop then (Ok (), vm)
          else
            bnd (if verifyMinimalData (dstack vm) \<and> isBranchExecuting vm \<and> pop_value pop \<le> OP_PUSHDATA4
                 then lift_res (checkMinimalDataPush pop) else ret ())
              (\<lambda>_. opfunc_run E (op_func (pop_opcode pop)) pop) vm))"

subsection \<open>The program counter\<close>

text \<open>
  The error of the first check of \<open>validPC\<close> is stored in the named result and then overwritten by the
  final \<^verbatim>\<open>return nil\<close>; the second check indexes the scripts when the index is past their end.
\<close>

definition validPC :: "unit eop" where
  "validPC vm =
     (if length (scripts vm) < scriptIdx vm
      then bind_res (nth_res (scripts vm) (scriptIdx vm)) (\<lambda>script.
        if scriptOff vm \<ge> length script then Err (scriptError ErrInvalidProgramCounter) else Ok ())
      else Ok (), vm)"

definition curPC :: "(nat \<times> nat) eop" where
  "curPC = bnd validPC (\<lambda>_. get_st (\<lambda>vm. (scriptIdx vm, scriptOff vm)))"

definition disasm :: "nat \<Rightarrow> nat \<Rightarrow> Engine \<Rightarrow> string" where
  "disasm idx off vm =
     (if idx \<ge> length (scripts vm)
      then ''disasm array index out of bounds ERR: '' @ fmtX 2 idx @ '':'' @ fmtX 4 off
      else if off \<ge> length (scripts vm ! idx)
      then ''disasm scriptoff array index out of bounds ERR: '' @ fmtX 2 idx @ '':'' @ fmtX 4 off
      else fmtX 2 idx @ '':'' @ fmtX 4 off @ '': '' @ pop_print (scripts vm ! idx ! off) False)"

definition DisasmPC :: "string eop" where
  "DisasmPC = bnd curPC (\<lambda>(idx, off). get_st (disasm idx off))"

definition DisasmScript :: "int \<Rightarrow> string eop" where
  "DisasmScript idx vm =
     (if idx \<ge> int (length (scripts vm)) then (Err (scriptError ErrInvalidIndex), vm)
      else if idx < 0 then (Panic, vm)
      else (Ok (concat (map (\<lambda>i. disasm (nat idx) i vm @ [CHR 0x0A])
             [0..<length (scripts vm ! nat idx)])), vm))"

subsection \<open>Whole stacks\<close>

text \<open>A call whose error is dropped.\<close>

definition ignore_err :: "('s, 'e, unit) op \<Rightarrow> ('s, 'e, unit) op" where
  "ignore_err m s = (case m s of (Err _, s') \<Rightarrow> (Ok (), s') | r \<Rightarrow> r)"

definition getStack :: "(stack, byte list list) sop" where
  "getStack = bnd Depth (\<lambda>n s.
     (if n < 0 then Panic
      else Ok (rev (map (\<lambda>i. case fst (PeekByteArray (i32 (int i)) s) of Ok so \<Rightarrow> so | _ \<Rightarrow> [])
             [0..<nat n])), s))"

primrec pushAll :: "byte list list \<Rightarrow> (stack, unit) sop" where
  "pushAll [] = ret ()"
| "pushAll (x # xs) = bnd (PushByteArray x) (\<lambda>_. pushAll xs)"

definition setStack :: "byte list list \<Rightarrow> (stack, unit) sop" where
  "setStack data = bnd Depth (\<lambda>n. bnd (ignore_err (DropN n)) (\<lambda>_. pushAll data))"

definition GetStack :: "byte list list eop" where
  "GetStack = on_d getStack"

definition SetStack :: "byte list list \<Rightarrow> unit eop" where
  "SetStack data = on_d (setStack data)"

definition GetAltStack :: "byte list list eop" where
  "GetAltStack = on_a getStack"

definition SetAltStack :: "byte list list \<Rightarrow> unit eop" where
  "SetAltStack data = on_a (setStack data)"

subsection \<open>Witness programs\<close>

definition appendScript :: "parsedOpcode list \<Rightarrow> unit eop" where
  "appendScript pops = mod_st (\<lambda>vm. vm\<lparr>scripts := scripts vm @ [pops]\<rparr>)"

text \<open>The script and the stack of a program, by its version and length.\<close>

definition loadWitnessProgram :: "byte list list \<Rightarrow> unit eop" where
  "loadWitnessProgram witness vm =
     (if isWitnessVersionActive 0 vm then
        let prog = the (witnessProgram vm) in
        if length prog = payToWitnessPubKeyHashDataSize then
          (if length witness \<noteq> 2 then fail_op ErrWitnessProgramMismatch
           else bnd (lift_res (built (payToPubKeyHashScript prog))) (\<lambda>pkScript.
             bnd (lift_res (parsed pkScript)) (\<lambda>pops.
             bnd (appendScript pops) (\<lambda>_. SetStack witness))))
        else if length prog = payToWitnessScriptHashDataSize then
          (if length witness = 0 then fail_op ErrWitnessProgramEmpty
           else let witnessScript = last witness in
             if length witnessScript > MaxScriptSize then fail_op ErrScriptTooBig
             else if Sum256 witnessScript \<noteq> prog then fail_op ErrWitnessProgramMismatch
             else bnd (lift_res (parsed witnessScript)) (\<lambda>pops.
               bnd (appendScript pops) (\<lambda>_. SetStack (butlast witness))))
        else fail_op ErrWitnessProgramWrongLength
      else if hasFlag ScriptVerifyDiscourageUpgradeableWitnessProgram vm
      then fail_op ErrDiscourageUpgradableWitnessProgram
      else mod_st (\<lambda>vm. vm\<lparr>witnessProgram := None\<rparr>)) vm"

definition checkWitnessElements :: "unit eop" where
  "checkWitnessElements vm =
     (if isWitnessVersionActive 0 vm
      then bnd GetStack (\<lambda>st.
        if \<exists>witElement \<in> set st. length witElement > MaxScriptElementSize then fail_op ErrElementTooBig
        else ret ()) vm
      else (Ok (), vm))"

definition verifyWitnessProgram :: "byte list list \<Rightarrow> unit eop" where
  "verifyWitnessProgram witness = bnd (loadWitnessProgram witness) (\<lambda>_. checkWitnessElements)"

subsection \<open>Steps\<close>

definition CheckErrorCondition :: "bool \<Rightarrow> unit eop" where
  "CheckErrorCondition finalScript vm =
     (if scriptIdx vm < length (scripts vm) then (Err (scriptError ErrScriptUnfinished), vm)
      else
        bnd (if finalScript \<and> isWitnessVersionActive 0 vm
             then bnd (on_d Depth) (\<lambda>d. if d \<noteq> 1 then fail_op ErrEvalFalse else ret ()) else ret ()) (\<lambda>_.
        bnd (if finalScript \<and> hasFlag ScriptVerifyCleanStack vm
             then bnd (on_d Depth) (\<lambda>d. if d \<noteq> 1 then fail_op ErrCleanStack else ret ()) else ret ()) (\<lambda>_.
        bnd (on_d Depth) (\<lambda>d.
          if d < 1 then fail_op ErrEmptyStack
          else bnd (on_d PopBool) (\<lambda>v. if \<not> v then fail_op ErrEvalFalse else ret ())))) vm)"

definition incIdx :: "unit eop" where
  "incIdx = mod_st (\<lambda>vm. vm\<lparr>scriptIdx := scriptIdx vm + 1\<rparr>)"

text \<open>The opcode at the program counter; an index out of range panics.\<close>

definition fetchOpcode :: "parsedOpcode eop" where
  "fetchOpcode vm =
     (bind_res (nth_res (scripts vm) (scriptIdx vm)) (\<lambda>script. nth_res script (scriptOff vm)), vm)"

text \<open>The choice of what to run after the end of a script.\<close>

definition enterNextScript :: "unit eop" where
  "enterNextScript vm =
     (if scriptIdx vm = 0 \<and> bip16 vm then
        bnd incIdx (\<lambda>_. bnd GetStack (\<lambda>st. mod_st (\<lambda>vm. vm\<lparr>savedFirstStack := st\<rparr>)))
      else if scriptIdx vm = 1 \<and> bip16 vm then
        bnd incIdx (\<lambda>_.
        bnd (CheckErrorCondition False) (\<lambda>_.
        bnd (get_st savedFirstStack) (\<lambda>saved.
          if saved = [] then panic
          else bnd (lift_res (parsed (last saved))) (\<lambda>pops.
            bnd (appendScript pops) (\<lambda>_. SetStack (butlast saved))))))
      else if (scriptIdx vm = 1 \<and> witnessProgram vm \<noteq> None) \<or>
              (scriptIdx vm = 2 \<and> witnessProgram vm \<noteq> None \<and> bip16 vm) then
        bnd incIdx (\<lambda>_. bnd curTxIn (\<lambda>ti. verifyWitnessProgram (Witness ti)))
      else incIdx) vm"

definition skipEmptyScript :: "unit eop" where
  "skipEmptyScript vm =
     (if scriptIdx vm < length (scripts vm) \<and> scriptOff vm \<ge> length (scripts vm ! scriptIdx vm)
      then incIdx vm else (Ok (), vm))"

definition endOfScript :: "bool eop" where
  "endOfScript =
     bnd (get_st condStack) (\<lambda>conds.
       if length conds \<noteq> 0 then fail_op ErrUnbalancedConditional
       else
         bnd (on_a Depth) (\<lambda>n.
         bnd (on_a (ignore_err (DropN n))) (\<lambda>_.
         bnd (mod_st (\<lambda>vm. vm\<lparr>numOps := 0, scriptOff := 0\<rparr>)) (\<lambda>_.
         bnd enterNextScript (\<lambda>_.
         bnd skipEmptyScript (\<lambda>_.
         bnd (mod_st (\<lambda>vm. vm\<lparr>lastCodeSep := 0\<rparr>)) (\<lambda>_.
           get_st (\<lambda>vm. scriptIdx vm \<ge> length (scripts vm)))))))))"

definition Step :: "env \<Rightarrow> bool eop" where
  "Step E =
     bnd validPC (\<lambda>_.
     bnd fetchOpcode (\<lambda>opcode.
     bnd (mod_st (\<lambda>vm. vm\<lparr>scriptOff := scriptOff vm + 1\<rparr>)) (\<lambda>_.
     bnd (executeOpcode E opcode) (\<lambda>_.
     bnd (on_d Depth) (\<lambda>d.
     bnd (on_a Depth) (\<lambda>a.
       if d + a > MaxStackSize then fail_op ErrStackOverflow
       else (\<lambda>vm. if scriptOff vm \<ge> length (scripts vm ! scriptIdx vm) then endOfScript vm
                  else (Ok False, vm))))))))"

partial_function (option) Execute :: "env \<Rightarrow> Engine \<Rightarrow> ((script_error, unit) res \<times> Engine) option" where
  "Execute E vm =
     (case Step E vm of
        (Ok done, vm') \<Rightarrow> if done then Some (CheckErrorCondition True vm') else Execute E vm'
      | (Err e, vm') \<Rightarrow> Some (Err e, vm')
      | (Panic, vm') \<Rightarrow> Some (Panic, vm')
      | (Hang, vm') \<Rightarrow> Some (Hang, vm'))"

subsection \<open>Making an engine\<close>

definition parseScripts :: "byte list list \<Rightarrow> (script_error, parsedOpcode list list) res" where
  "parseScripts scrs =
     foldr (\<lambda>scr r.
       if length scr > MaxScriptSize then Err (scriptError ErrScriptTooBig)
       else bind_res (parsed scr) (\<lambda>pops. bind_res r (\<lambda>ps. Ok (pops # ps)))) scrs (Ok [])"

definition emptyStack :: "bool \<Rightarrow> stack" where
  "emptyStack minimal = \<lparr>stk = [], stkMutex = False, verifyMinimalData = minimal\<rparr>"

text \<open>The program a witness must satisfy, if the scripts or the witness ask for one.\<close>

definition findWitnessProgram ::
  "parsedOpcode list list \<Rightarrow> byte list \<Rightarrow> byte list \<Rightarrow> byte list list \<Rightarrow> bool \<Rightarrow>
   (script_error, byte list option) res" where
  "findWitnessProgram pops scriptSig scriptPubKey witness isBip16 =
     (if isWitnessProgram (pops ! 1) then
        (if length scriptSig \<noteq> 0 then Err (scriptError ErrWitnessMalleated) else Ok (Some scriptPubKey))
      else if length witness \<noteq> 0 \<and> isBip16 then
        (if length (pops ! 0) = 1 \<and> canonicalPush (pops ! 0 ! 0) \<and> IsWitnessProgram (pop_data (pops ! 0 ! 0))
         then Ok (Some (pop_data (pops ! 0 ! 0)))
         else Err (scriptError ErrWitnessMalleatedP2SH))
      else Ok None)"

definition NewEngine ::
  "byte list \<Rightarrow> MsgTx \<Rightarrow> int \<Rightarrow> ScriptFlags \<Rightarrow> SigCache option \<Rightarrow> TxSigHashes option \<Rightarrow> 64 word \<Rightarrow>
   (script_error, Engine) res" where
  "NewEngine scriptPubKey tx idx flgs cache hashes amount =
     (if idx < 0 \<or> idx \<ge> int (length (txIns tx)) then Err (scriptError ErrInvalidIndex)
      else
        let txIn = txIns tx ! nat idx; scriptSig = SignatureScript txIn;
            vm = \<lparr>scripts = [], scriptIdx = 0, scriptOff = 0, lastCodeSep = 0,
                  dstack = emptyStack False, astack = emptyStack False, vm_tx = tx, txIdx = idx,
                  condStack = [], numOps = 0, flags = flgs, sigCache = cache, hashCache = hashes,
                  bip16 = False, savedFirstStack = [], witnessVersion = 0, witnessProgram = None,
                  inputAmount = amount\<rparr>
        in
        if length scriptSig = 0 \<and> length scriptPubKey = 0 then Err (scriptError ErrEvalFalse)
        else if hasFlag ScriptVerifyCleanStack vm \<and> (\<not> hasFlag ScriptBip16 vm \<and> \<not> hasFlag ScriptVerifyWitness vm)
        then Err (scriptError ErrInvalidFlags)
        else if hasFlag ScriptVerifySigPushOnly vm \<and> \<not> IsPushOnlyScript scriptSig
        then Err (scriptError ErrNotPushOnly)
        else bind_res (parseScripts [scriptSig, scriptPubKey]) (\<lambda>pops.
          let isBip16 = hasFlag ScriptBip16 vm \<and> isScriptHash (pops ! 1);
              minimal = hasFlag ScriptVerifyMinimalData vm;
              vm' = vm\<lparr>scripts := pops, scriptIdx := if length scriptSig = 0 then 1 else 0,
                       bip16 := isBip16, dstack := emptyStack minimal, astack := emptyStack minimal\<rparr>
          in
          if isBip16 \<and> \<not> isPushOnly (pops ! 0) then Err (scriptError ErrNotPushOnly)
          else if hasFlag ScriptVerifyWitness vm then
            (if \<not> hasFlag ScriptBip16 vm then Err (scriptError ErrInvalidFlags)
             else bind_res (findWitnessProgram pops scriptSig scriptPubKey (Witness txIn) isBip16) (\<lambda>prog.
               case prog of
                 Some witProgram \<Rightarrow>
                   bind_res (ExtractWitnessProgramInfo witProgram) (\<lambda>(version, program).
                     Ok (vm'\<lparr>witnessVersion := version, witnessProgram := Some program\<rparr>))
               | None \<Rightarrow>
                   if length (Witness txIn) \<noteq> 0 then Err (scriptError ErrWitnessUnexpected) else Ok vm'))
          else Ok vm'))"

end
