(* ===== verification/EngineSafe.thy ===== *)
theory EngineSafe
  imports Triples EngineRun
begin

text \<open>
  The invariant of a running engine and what it gives.

  The first part is about nested conditionals.  The second fixes what every opcode handler keeps
  (\<open>ready\<close>): the scripts, the program counter, the transaction and the flags are those of the engine
  at the start of the step, both mutexes are free, no element is longer than 520 bytes, the operation count
  is within its limit and the conditionals are well nested.  The third part lifts this to steps and
  whole runs.
\<close>

subsection \<open>Nested conditionals\<close>

text \<open>Enclosing branches run, the first one that does not hides all inner ones.\<close>

fun wf_conds :: "OpCond list \<Rightarrow> bool" where
  "wf_conds [] = True"
| "wf_conds (OpCondTrue # cs) = wf_conds cs"
| "wf_conds (OpCondFalse # cs) = (\<forall>c \<in> set cs. c = OpCondSkip)"
| "wf_conds (OpCondSkip # cs) = False"

lemma wf_conds_snoc:
  "wf_conds (cs @ [c]) \<longleftrightarrow>
     wf_conds cs \<and> (if \<forall>x \<in> set cs. x = OpCondTrue then c \<noteq> OpCondSkip else c = OpCondSkip)"
  by (induction cs rule: wf_conds.induct) (cases c; auto)+

lemma wf_conds_executing:
  assumes "wf_conds (condStack vm)"
  shows "isBranchExecuting vm \<longleftrightarrow> (\<forall>c \<in> set (condStack vm). c = OpCondTrue)"
  using assms by (cases "condStack vm" rule: rev_cases) (auto simp: isBranchExecuting_def wf_conds_snoc split: if_splits)

lemma wf_conds_push:
  "wf_conds (condStack vm) \<Longrightarrow> (isBranchExecuting vm \<longleftrightarrow> c \<noteq> OpCondSkip) \<Longrightarrow> wf_conds (condStack vm @ [c])"
  by (auto simp: wf_conds_snoc wf_conds_executing)

lemma invertCond_Skip [simp]: "invertCond c = OpCondSkip \<longleftrightarrow> c = OpCondSkip"
  by (cases c) simp_all

lemma wf_conds_else:
  assumes "wf_conds cs" "cs \<noteq> []"
  shows "wf_conds (cs[length cs - 1 := invertCond (last cs)])"
  using assms by (cases cs rule: rev_cases) (simp_all add: wf_conds_snoc)

lemma wf_conds_endif: "wf_conds cs \<Longrightarrow> wf_conds (take (length cs - 1) cs)"
  by (cases cs rule: rev_cases) (simp_all add: wf_conds_snoc)

subsection \<open>What a handler keeps\<close>

definition frame :: "Engine \<Rightarrow> Engine \<Rightarrow> bool" where
  "frame v vm \<longleftrightarrow>
     scripts vm = scripts v \<and> scriptIdx vm = scriptIdx v \<and> scriptOff vm = scriptOff v \<and>
     vm_tx vm = vm_tx v \<and> txIdx vm = txIdx v \<and> flags vm = flags v \<and> hashCache vm = hashCache v \<and>
     bip16 vm = bip16 v \<and> savedFirstStack vm = savedFirstStack v \<and> inputAmount vm = inputAmount v \<and>
     witnessVersion vm = witnessVersion v \<and> witnessProgram vm = witnessProgram v"

definition pc_ok :: "Engine \<Rightarrow> bool" where
  "pc_ok v \<longleftrightarrow> 0 \<le> txIdx v \<and> txIdx v < int (length (txIns (vm_tx v))) \<and>
     scriptIdx v < length (scripts v) \<and> scriptOff v \<le> length (scripts v ! scriptIdx v)"

definition ready :: "Engine \<Rightarrow> nat \<Rightarrow> Engine \<Rightarrow> bool" where
  "ready v n vm \<longleftrightarrow> frame v vm \<and> pc_ok v \<and>
     stack_inv MaxScriptElementSize n (dstack vm) \<and> stack_inv MaxScriptElementSize n (astack vm) \<and>
     lastCodeSep vm \<le> scriptOff v \<and> numOps vm \<le> MaxOpsPerScript \<and> wf_conds (condStack vm)"

lemma ready_mono: "ready v n vm \<Longrightarrow> n \<le> m \<Longrightarrow> ready v m vm"
  by (auto simp: ready_def intro: stack_inv_mono)

lemma ready_on_d:
  assumes "spec (stack_inv MaxScriptElementSize n) m (\<lambda>a s. Rv a \<and> stack_inv MaxScriptElementSize k s)" "n \<le> k"
  shows "spec (ready v n) (on_d m) (\<lambda>a vm. Rv a \<and> ready v k vm)"
  unfolding on_d_def
  by (rule spec_on_part[OF assms(1)]) (use assms(2) in \<open>auto simp: ready_def frame_def intro: stack_inv_mono\<close>)

lemma ready_on_a:
  assumes "spec (stack_inv MaxScriptElementSize n) m (\<lambda>a s. Rv a \<and> stack_inv MaxScriptElementSize k s)" "n \<le> k"
  shows "spec (ready v n) (on_a m) (\<lambda>a vm. Rv a \<and> ready v k vm)"
  unfolding on_a_def
  by (rule spec_on_part[OF assms(1)]) (use assms(2) in \<open>auto simp: ready_def frame_def intro: stack_inv_mono\<close>)

lemma ready_on_d':
  assumes "spec (stack_inv MaxScriptElementSize n) m (\<lambda>_. stack_inv MaxScriptElementSize k)" "n \<le> k"
  shows "spec (ready v n) (on_d m) (\<lambda>_. ready v k)"
  using ready_on_d[of n m "\<lambda>_. True"] assms by simp

lemma ready_on_a':
  assumes "spec (stack_inv MaxScriptElementSize n) m (\<lambda>_. stack_inv MaxScriptElementSize k)" "n \<le> k"
  shows "spec (ready v n) (on_a m) (\<lambda>_. ready v k)"
  using ready_on_a[of n m "\<lambda>_. True"] assms by simp

lemmas ready_pop = ready_on_d[OF spec_Pop order_refl]
lemmas ready_popInt = ready_on_d[OF spec_PopInt order_refl]
lemmas ready_popBool = ready_on_d'[OF spec_PopBool order_refl]
lemmas ready_peek = ready_on_d[OF spec_Peek order_refl]

lemma ready_push:
  "length x \<le> MaxScriptElementSize \<Longrightarrow> n < k \<Longrightarrow> spec (ready v n) (on_d (PushByteArray x)) (\<lambda>_. ready v k)"
  by (rule ready_on_d') (simp_all add: spec_Push)

lemma ready_pushInt: "\<bar>x\<bar> < 2 ^ 63 \<Longrightarrow> n < k \<Longrightarrow> spec (ready v n) (on_d (PushInt x)) (\<lambda>_. ready v k)"
  by (rule ready_on_d') (auto intro!: spec_PushInt simp: MaxScriptElementSize_def)

lemma ready_pushBool: "n < k \<Longrightarrow> spec (ready v n) (on_d (PushBool b)) (\<lambda>_. ready v k)"
  by (rule ready_on_d') (auto intro!: spec_PushBool simp: MaxScriptElementSize_def)

lemma ready_ret: "n \<le> k \<Longrightarrow> spec (ready v n) (ret a) (\<lambda>_. ready v k)"
  by (rule spec_ret) (rule ready_mono)

lemma ready_fail: "spec P (fail_op c) Q"
  by (simp add: fail_op_def spec_throw)

lemma ready_lift: "returns r \<Longrightarrow> n \<le> k \<Longrightarrow> spec (ready v n) (lift_res r) (\<lambda>_. ready v k)"
  by (rule spec_lift) (auto intro: ready_mono)

lemma ready_get: "spec (ready v n) (get_st g) (\<lambda>_. ready v n)"
  by (rule spec_get)

lemma ready_pure: "(\<And>vm. ready v n vm \<Longrightarrow> snd (m vm) = vm \<and> returns (fst (m vm))) \<Longrightarrow> n \<le> k \<Longrightarrow>
  spec (ready v n) m (\<lambda>_. ready v k)"
  by (rule specI) (auto intro: ready_mono, metis snd_conv ready_mono)

lemma abstractVerify_ready: "n < 2 ^ 30 \<Longrightarrow> n \<le> k \<Longrightarrow> spec (ready v n) (abstractVerify c) (\<lambda>_. ready v k)"
  unfolding abstractVerify_def
  by (rule spec_bnd_same[OF ready_popBool]) (auto intro!: ready_ret ready_fail spec_if)

subsection \<open>Every handler keeps it\<close>

lemmas ready_rules = spec_if ready_fail ready_ret ready_push ready_pushInt ready_pushBool

text \<open>What the model asks of RIPEMD-160: digests of twenty bytes.\<close>

definition env_ok :: "env \<Rightarrow> bool" where
  "env_ok E \<longleftrightarrow> (\<forall>x. length (ripemd160 E x) = 20)"

lemma constants_ready:
  "spec (ready v 0) (opcodeDisabled pop) (\<lambda>_. ready v 3)"
  "spec (ready v 0) (opcodeReserved pop) (\<lambda>_. ready v 3)"
  "spec (ready v 0) (opcodeInvalid pop) (\<lambda>_. ready v 3)"
  "spec (ready v 0) (opcodeReturn pop) (\<lambda>_. ready v 3)"
  "spec (ready v 0) (opcodeFalse pop) (\<lambda>_. ready v 3)"
  "spec (ready v 0) (opcode1Negate pop) (\<lambda>_. ready v 3)"
  "spec (ready v 0) (opcodeN pop) (\<lambda>_. ready v 3)"
  "length (pop_data pop) \<le> MaxScriptElementSize \<Longrightarrow> spec (ready v 0) (opcodePushData pop) (\<lambda>_. ready v 3)"
proof -
  have "\<bar>uint w\<bar> < 2 ^ 63" for w :: byte
    using order_less_trans[OF uint_byte_lt[of w], of "2 ^ 63"] by simp
  then show "spec (ready v 0) (opcodeN pop) (\<lambda>_. ready v 3)"
    unfolding opcodeN_def by (intro ready_pushInt) simp_all
qed (simp_all add: opcodeDisabled_def opcodeReserved_def opcodeInvalid_def opcodeReturn_def
  opcodeFalse_def opcode1Negate_def opcodePushData_def ready_rules)

lemma opcodeNop_ready: "spec (ready v 0) (opcodeNop pop) (\<lambda>_. ready v 3)"
  by (rule ready_pure) (simp_all add: opcodeNop_def)

lemma popIfBool_ready: "n < 2 ^ 30 \<Longrightarrow> spec (ready v n) popIfBool (\<lambda>_. ready v n)"
proof -
  assume n: "n < 2 ^ 30"
  have "spec (ready v n) (bnd (on_d PopByteArray) (\<lambda>so.
        if length so > 1 then fail_op ErrMinimalIf
        else if length so = 1 \<and> so ! 0 \<noteq> 0x01 then fail_op ErrMinimalIf
        else ret (asBool so))) (\<lambda>_. ready v n)"
    by (rule spec_bnd_val[OF ready_pop[OF n]]) (simp add: ready_rules)
  note branches = spec_pre[OF ready_popBool[OF n]] spec_pre[OF this]
  show ?thesis unfolding popIfBool_def by (rule spec_read_if; rule branches; simp)
qed

text \<open>
  A taken conditional: the branch that was executing still is after the condition was popped, since
  popping does not touch the conditionals.
\<close>

lemma popIfBool_conds:
  "popIfBool vm = (Ok b, vm') \<Longrightarrow> condStack vm' = condStack vm"
  by (auto simp: popIfBool_def on_d_def on_part_def fail_op_def bnd_eq_Ok_iff op_simps
      split: if_splits prod.splits)

lemma cond_ready:
  assumes "c \<noteq> OpCondSkip" "c' \<noteq> OpCondSkip"
  shows "spec (ready v 0) (\<lambda>vm. if isBranchExecuting vm
      then bnd popIfBool (\<lambda>ok. pushCond (if ok then c else c')) vm
      else pushCond OpCondSkip vm) (\<lambda>_. ready v 3)"
proof (rule spec_read_if)
  have "spec (\<lambda>vm. ready v 0 vm \<and> isBranchExecuting vm) popIfBool (\<lambda>_ vm. ready v 0 vm \<and> isBranchExecuting vm)"
    using popIfBool_ready[of 0 v] by (auto simp: spec_def isBranchExecuting_def popIfBool_conds)
  then show "spec (\<lambda>vm. ready v 0 vm \<and> isBranchExecuting vm)
     (bnd popIfBool (\<lambda>ok. pushCond (if ok then c else c'))) (\<lambda>_. ready v 3)"
    unfolding pushCond_def
    by (rule spec_bnd, intro spec_mod)
      (use assms in \<open>auto simp: ready_def frame_def wf_conds_push intro: stack_inv_mono\<close>)
  show "spec (\<lambda>vm. ready v 0 vm \<and> \<not> isBranchExecuting vm) (pushCond OpCondSkip) (\<lambda>_. ready v 3)"
    unfolding pushCond_def
    by (rule spec_mod) (auto simp: ready_def frame_def wf_conds_push intro: stack_inv_mono)
qed

lemma opcodeIf_ready: "spec (ready v 0) (opcodeIf pop) (\<lambda>_. ready v 3)"
  using cond_ready[of OpCondTrue OpCondFalse v] by (simp add: opcodeIf_def[abs_def])

lemma opcodeNotIf_ready: "spec (ready v 0) (opcodeNotIf pop) (\<lambda>_. ready v 3)"
proof -
  have "opcodeNotIf pop = (\<lambda>vm. if isBranchExecuting vm
      then bnd popIfBool (\<lambda>ok. pushCond (if ok then OpCondFalse else OpCondTrue)) vm
      else pushCond OpCondSkip vm)"
    by (rule ext) (auto simp: opcodeNotIf_def bnd_def split: prod.split res.split)
  then show ?thesis using cond_ready[of OpCondFalse OpCondTrue v] by simp
qed

lemma opcodeElse_ready: "spec (ready v 0) (opcodeElse pop) (\<lambda>_. ready v 3)"
  by (rule specI)
    (auto simp: opcodeElse_def ready_def frame_def returns_def
      intro: stack_inv_mono wf_conds_else[simplified] split: if_splits)

lemma opcodeEndif_ready: "spec (ready v 0) (opcodeEndif pop) (\<lambda>_. ready v 3)"
  by (rule specI)
    (auto simp: opcodeEndif_def ready_def frame_def returns_def
      intro: stack_inv_mono wf_conds_endif[simplified] split: if_splits)

lemma opcodeVerify_ready: "spec (ready v 0) (opcodeVerify pop) (\<lambda>_. ready v 3)"
  unfolding opcodeVerify_def by (rule abstractVerify_ready) simp_all

lemma curTxIn_ready: "spec (ready v n) curTxIn (\<lambda>_. ready v n)"
  by (rule ready_pure) (auto simp: curTxIn_def ready_def frame_def pc_ok_def)

lemma peekLockTime_ready: "n < 2 ^ 30 \<Longrightarrow> spec (ready v n) peekLockTime (\<lambda>_. ready v n)"
  unfolding peekLockTime_def
  by (rule spec_bnd_val[OF ready_peek], assumption, rule spec_bnd_same[of _ _ "ready v n"])
    (auto intro!: ready_pure ready_rules simp: makeScriptNum_returns)

lemma verifyLockTime_returns: "returns (verifyLockTime a b c)"
  by (simp add: verifyLockTime_def)

lemma opcodeCheckLockTimeVerify_ready: "spec (ready v 0) (opcodeCheckLockTimeVerify pop) (\<lambda>_. ready v 3)"
proof -
  have "spec (ready v 0) (bnd peekLockTime (\<lambda>lockTime.
        bnd (lift_res (verifyLockTime tl LockTimeThreshold lockTime)) (\<lambda>_.
        bnd curTxIn (\<lambda>ti. if Sequence ti = MaxTxInSequenceNum then fail_op ErrUnsatisfiedLockTime else ret ()))))
      (\<lambda>_. ready v 3)" for tl
    by (intro spec_bnd_same[OF peekLockTime_ready] spec_bnd_same[OF ready_lift[OF verifyLockTime_returns order_refl]]
        spec_bnd_same[OF curTxIn_ready] ready_rules) simp_all
  then show ?thesis
    unfolding opcodeCheckLockTimeVerify_def
    by (auto simp: spec_def intro: ready_mono[of _ 0])
qed

lemma opcodeCheckSequenceVerify_ready: "spec (ready v 0) (opcodeCheckSequenceVerify pop) (\<lambda>_. ready v 3)"
proof -
  have "spec (ready v 0) (bnd peekLockTime (\<lambda>sequence.
          if sequence AND SequenceLockTimeDisabled \<noteq> 0 then ret ()
          else if ver < (2 :: int) then fail_op ErrUnsatisfiedLockTime
          else bnd curTxIn (\<lambda>ti.
            let txSequence = uint (Sequence ti);
                lockTimeMask = SequenceLockTimeIsSeconds OR SequenceLockTimeMask
            in if txSequence AND SequenceLockTimeDisabled \<noteq> 0 then fail_op ErrUnsatisfiedLockTime
               else lift_res (verifyLockTime (txSequence AND lockTimeMask) SequenceLockTimeIsSeconds
                 (sequence AND lockTimeMask))))) (\<lambda>_. ready v 3)" for ver
    unfolding Let_def
    by (intro spec_bnd_same[OF peekLockTime_ready] spec_bnd_same[OF curTxIn_ready]
        ready_lift[OF verifyLockTime_returns] ready_rules) simp_all
  then show ?thesis
    unfolding opcodeCheckSequenceVerify_def
    by (auto simp: spec_def intro: ready_mono[of _ 0])
qed

lemma stack_handlers_ready:
  "spec (ready v 0) (opcode2Drop pop) (\<lambda>_. ready v 3)"
  "spec (ready v 0) (opcodeDrop pop) (\<lambda>_. ready v 3)"
  "spec (ready v 0) (opcode2Dup pop) (\<lambda>_. ready v 3)"
  "spec (ready v 0) (opcode3Dup pop) (\<lambda>_. ready v 3)"
  "spec (ready v 0) (opcodeDup pop) (\<lambda>_. ready v 3)"
  "spec (ready v 0) (opcode2Over pop) (\<lambda>_. ready v 3)"
  "spec (ready v 0) (opcodeOver pop) (\<lambda>_. ready v 3)"
  "spec (ready v 0) (opcode2Rot pop) (\<lambda>_. ready v 3)"
  "spec (ready v 0) (opcodeRot pop) (\<lambda>_. ready v 3)"
  "spec (ready v 0) (opcode2Swap pop) (\<lambda>_. ready v 3)"
  "spec (ready v 0) (opcodeSwap pop) (\<lambda>_. ready v 3)"
  "spec (ready v 0) (opcodeNip pop) (\<lambda>_. ready v 3)"
  "spec (ready v 0) (opcodeTuck pop) (\<lambda>_. ready v 3)"
proof -
  have mono: "spec (stack_inv M 0) m (\<lambda>_. stack_inv M 3)" if "spec (stack_inv M 0) m (\<lambda>_. stack_inv M 0)" for M m
    using that by (rule spec_post) (rule stack_inv_mono, assumption, simp)
  show "spec (ready v 0) (opcode2Drop pop) (\<lambda>_. ready v 3)" "spec (ready v 0) (opcodeDrop pop) (\<lambda>_. ready v 3)"
    "spec (ready v 0) (opcodeNip pop) (\<lambda>_. ready v 3)"
    unfolding opcode2Drop_def opcodeDrop_def opcodeNip_def
    by (auto intro!: ready_on_d' mono spec_DropN spec_NipN)
qed (auto simp: opcode2Dup_def opcode3Dup_def opcodeDup_def opcode2Over_def opcodeOver_def
  opcode2Rot_def opcodeRot_def opcode2Swap_def opcodeSwap_def opcodeTuck_def
  intro!: ready_on_d' spec_counted spec_Tuck)

lemma opcodeToAltStack_ready: "spec (ready v 0) (opcodeToAltStack pop) (\<lambda>_. ready v 3)"
  unfolding opcodeToAltStack_def
  by (rule spec_bnd_val[OF ready_pop]) (auto intro!: ready_on_a' spec_Push)

lemma opcodeFromAltStack_ready: "spec (ready v 0) (opcodeFromAltStack pop) (\<lambda>_. ready v 3)"
  unfolding opcodeFromAltStack_def
  by (rule spec_bnd_val[OF ready_on_a[OF spec_Pop order_refl]]) (auto intro!: ready_rules)

lemma opcodeIfDup_ready: "spec (ready v 0) (opcodeIfDup pop) (\<lambda>_. ready v 3)"
  unfolding opcodeIfDup_def by (rule spec_bnd_val[OF ready_peek]) (auto intro!: ready_rules)

lemma opcodeSize_ready: "spec (ready v 0) (opcodeSize pop) (\<lambda>_. ready v 3)"
  unfolding opcodeSize_def
  by (rule spec_bnd_val[OF ready_peek]) (auto intro!: ready_rules simp: MaxScriptElementSize_def)

lemma ready_depth:
  "spec (ready v 0) (on_d Depth) (\<lambda>d vm. \<bar>d\<bar> < 2 ^ 31 \<and> ready v 0 vm)"
  by (rule ready_on_d, rule spec_post[OF spec_Depth]) (auto simp: stack_inv_def)

lemma opcodeDepth_ready: "spec (ready v 0) (opcodeDepth pop) (\<lambda>_. ready v 3)"
  unfolding opcodeDepth_def by (rule spec_bnd_val[OF ready_depth]) (auto intro!: ready_rules)

lemma opcodePick_ready: "spec (ready v 0) (opcodePick pop) (\<lambda>_. ready v 3)"
  unfolding opcodePick_def
  by (rule spec_bnd_val[OF ready_popInt]) (auto intro!: ready_on_d' spec_Pick_Roll)

lemma opcodeRoll_ready: "spec (ready v 0) (opcodeRoll pop) (\<lambda>_. ready v 3)"
  unfolding opcodeRoll_def
  by (rule spec_bnd_val[OF ready_popInt]) (auto intro!: ready_on_d' spec_Pick_Roll)

lemma opcodeEqual_ready: "0 < k \<Longrightarrow> spec (ready v 0) (opcodeEqual pop) (\<lambda>_. ready v k)"
  unfolding opcodeEqual_def
  by (intro spec_bnd_val[OF ready_pop] ready_rules) simp_all

lemma opcodeEqualVerify_ready: "spec (ready v 0) (opcodeEqualVerify pop) (\<lambda>_. ready v 3)"
  unfolding opcodeEqualVerify_def
  by (rule spec_bnd_same[OF opcodeEqual_ready[of 1]]) (simp_all add: abstractVerify_ready)

text \<open>Arithmetic on numbers of at most 31 bits cannot leave the range of 64-bit numbers.\<close>

lemma unary_ready:
  "(\<And>m. \<bar>m\<bar> < 2 ^ 31 \<Longrightarrow> \<bar>f m\<bar> < 2 ^ 63) \<Longrightarrow> 0 < k \<Longrightarrow> spec (ready v 0) (unary f) (\<lambda>_. ready v k)"
  unfolding unary_def by (intro spec_bnd_val[OF ready_popInt] ready_pushInt) simp_all

lemma binary_ready:
  assumes "\<And>a b. \<bar>a\<bar> < 2 ^ 31 \<Longrightarrow> \<bar>b\<bar> < 2 ^ 31 \<Longrightarrow> \<bar>f a b\<bar> < 2 ^ 63" "0 < k"
  shows "spec (ready v 0) (binary f) (\<lambda>_. ready v k)"
  unfolding binary_def
  by (intro spec_bnd_val[OF ready_popInt] ready_pushInt) (use assms in simp_all)

lemma i64_small: "\<bar>x\<bar> < 2 ^ 33 \<Longrightarrow> \<bar>i64 x\<bar> < 2 ^ 63"
  by (subst i64_id) auto

lemma unary_handlers_ready:
  "spec (ready v 0) (opcode1Add pop) (\<lambda>_. ready v 3)" "spec (ready v 0) (opcode1Sub pop) (\<lambda>_. ready v 3)"
  "spec (ready v 0) (opcodeNegate pop) (\<lambda>_. ready v 3)" "spec (ready v 0) (opcodeAbs pop) (\<lambda>_. ready v 3)"
  "spec (ready v 0) (opcodeNot pop) (\<lambda>_. ready v 3)" "spec (ready v 0) (opcode0NotEqual pop) (\<lambda>_. ready v 3)"
  unfolding opcode1Add_def opcode1Sub_def opcodeNegate_def opcodeAbs_def opcodeNot_def opcode0NotEqual_def
  by (rule unary_ready; auto intro!: i64_small[simplified])+

lemma opcodeNumEqual_ready: "0 < k \<Longrightarrow> spec (ready v 0) (opcodeNumEqual pop) (\<lambda>_. ready v k)"
  unfolding opcodeNumEqual_def by (rule binary_ready) simp_all

lemma opcodeNumEqualVerify_ready: "spec (ready v 0) (opcodeNumEqualVerify pop) (\<lambda>_. ready v 3)"
  unfolding opcodeNumEqualVerify_def
  by (rule spec_bnd_same[OF opcodeNumEqual_ready[of 1]]) (simp_all add: abstractVerify_ready)

lemma binary_handlers_ready:
  "spec (ready v 0) (opcodeAdd pop) (\<lambda>_. ready v 3)" "spec (ready v 0) (opcodeSub pop) (\<lambda>_. ready v 3)"
  "spec (ready v 0) (opcodeBoolAnd pop) (\<lambda>_. ready v 3)" "spec (ready v 0) (opcodeBoolOr pop) (\<lambda>_. ready v 3)"
  "spec (ready v 0) (opcodeNumNotEqual pop) (\<lambda>_. ready v 3)"
  "spec (ready v 0) (opcodeLessThan pop) (\<lambda>_. ready v 3)" "spec (ready v 0) (opcodeGreaterThan pop) (\<lambda>_. ready v 3)"
  "spec (ready v 0) (opcodeLessThanOrEqual pop) (\<lambda>_. ready v 3)"
  "spec (ready v 0) (opcodeGreaterThanOrEqual pop) (\<lambda>_. ready v 3)"
  "spec (ready v 0) (opcodeMin pop) (\<lambda>_. ready v 3)" "spec (ready v 0) (opcodeMax pop) (\<lambda>_. ready v 3)"
  unfolding opcodeAdd_def opcodeSub_def opcodeBoolAnd_def opcodeBoolOr_def opcodeNumNotEqual_def
    opcodeLessThan_def opcodeGreaterThan_def opcodeLessThanOrEqual_def opcodeGreaterThanOrEqual_def
    opcodeMin_def opcodeMax_def
  by (rule binary_ready; auto intro!: i64_small[simplified])+

lemma opcodeWithin_ready: "spec (ready v 0) (opcodeWithin pop) (\<lambda>_. ready v 3)"
  unfolding opcodeWithin_def by (intro spec_bnd_val[OF ready_popInt] ready_pushInt) simp_all

lemma hash_op_ready:
  "(\<And>x. length (h x) \<le> MaxScriptElementSize) \<Longrightarrow> spec (ready v 0) (hash_op h) (\<lambda>_. ready v 3)"
  unfolding hash_op_def by (intro spec_bnd_val[OF ready_pop] ready_push) simp_all

lemma hash_handlers_ready:
  "env_ok E \<Longrightarrow> spec (ready v 0) (opcodeRipeMD160 E pop) (\<lambda>_. ready v 3)"
  "spec (ready v 0) (opcodeSHA1 pop) (\<lambda>_. ready v 3)"
  "spec (ready v 0) (opcodeSHA256 pop) (\<lambda>_. ready v 3)"
  "env_ok E \<Longrightarrow> spec (ready v 0) (opcodeHash160 E pop) (\<lambda>_. ready v 3)"
  "spec (ready v 0) (opcodeHash256 pop) (\<lambda>_. ready v 3)"
  unfolding opcodeRipeMD160_def opcodeSHA1_def opcodeSHA256_def opcodeHash160_def opcodeHash256_def
  by (rule hash_op_ready; simp add: env_ok_def MaxScriptElementSize_def)+

lemma opcodeCodeSeparator_ready: "spec (ready v 0) (opcodeCodeSeparator pop) (\<lambda>_. ready v 3)"
  unfolding opcodeCodeSeparator_def
  by (rule spec_mod) (auto simp: ready_def frame_def intro: stack_inv_mono)

lemma checks_ready:
  "spec (ready v n) (checkHashTypeEncoding h) (\<lambda>_. ready v n)"
  "spec (ready v n) (checkPubKeyEncoding pk) (\<lambda>_. ready v n)"
  by (rule ready_pure; simp add: checkHashTypeEncoding_def checkPubKeyEncoding_def Let_def)+

lemma sigEncoding_returns: "returns (sigEncoding lowS sig)"
  unfolding sigEncoding_def Let_def by (intro returns_intros; simp del: length_greater_0_conv)

lemma checkSignatureEncoding_ready: "spec (ready v n) (checkSignatureEncoding sig) (\<lambda>_. ready v n)"
  by (rule ready_pure) (simp_all add: checkSignatureEncoding_def sigEncoding_returns)

lemma subScript_ready: "spec (ready v n) subScript (\<lambda>_. ready v n)"
  by (rule ready_pure) (auto simp: subScript_def ready_def frame_def pc_ok_def)

lemma calcSignatureHash_returns:
  assumes "0 \<le> i" "i < int (length (txIns tx))"
  shows "returns (calcSignatureHash script h tx i)" "returns (calcWitnessSignatureHash script hs h tx i amt)"
  using assms calcSignatureHash_run[of "nat i" tx script h]
  by (simp_all add: calcWitnessSignatureHash_def Let_def nat_less_iff)

lemma sigHash_ready: "spec (ready v n) (sigHash script h) (\<lambda>_. ready v n)"
  by (rule ready_pure)
    (auto simp: sigHash_def Let_def ready_def frame_def pc_ok_def calcSignatureHash_returns)

lemma checkSig_ready: "spec (ready v n) (checkSig E hash sg pk) (\<lambda>_. ready v n)"
  by (rule specI) (auto simp: checkSig_def ready_def frame_def split: option.splits if_splits)

lemma try_parse_run:
  "returns r \<Longrightarrow> snd (try_parse r vm) = vm \<and> returns (fst (try_parse r vm))"
  by (cases r) (simp_all add: try_parse_def returns_def)

lemma try_parse_ready: "returns r \<Longrightarrow> spec (ready v n) (try_parse r) (\<lambda>_. ready v n)"
  by (rule ready_pure, rule try_parse_run, assumption, rule order_refl)

lemma decompressPoint_returns [returns_intros]: "returns (decompressPoint x ybit)"
  unfolding decompressPoint_def Let_def by (intro returns_intros returns_Ok returns_Err)

lemma ParsePubKey_returns: "returns (ParsePubKey str)"
  unfolding ParsePubKey_def Let_def by (intro returns_intros returns_Ok returns_Err)

lemma parseSigFlags_ready: "spec (ready v n) (\<lambda>vm. try_parse (parseSigFlags sig vm) vm) (\<lambda>_. ready v n)"
  by (rule ready_pure, rule try_parse_run)
    (simp_all add: parseSigFlags_def ParseDERSignature_def ParseSignature_def parseSig_returns)

lemmas sig_binds = spec_bnd_val[OF ready_pop] spec_bnd_same[OF checks_ready(1)] spec_bnd_same[OF checks_ready(2)]
  spec_bnd_same[OF checkSignatureEncoding_ready] spec_bnd_same[OF subScript_ready]
  spec_bnd_same[OF ready_get] spec_bnd_same[OF sigHash_ready] spec_bnd_same[OF parseSigFlags_ready]
  spec_bnd_same[OF try_parse_ready[OF ParsePubKey_returns]] spec_bnd_same[OF checkSig_ready]

lemma opcodeCheckSig_ready: "0 < k \<Longrightarrow> spec (ready v 0) (opcodeCheckSig E pop) (\<lambda>_. ready v k)"
  unfolding opcodeCheckSig_def Let_def
  by (intro sig_binds ready_rules spec_case_option) simp_all

lemma opcodeCheckSigVerify_ready: "spec (ready v 0) (opcodeCheckSigVerify E pop) (\<lambda>_. ready v 3)"
  unfolding opcodeCheckSigVerify_def
  by (rule spec_bnd_same[OF opcodeCheckSig_ready[of 1]]) (simp_all add: abstractVerify_ready)

lemma popN_ready: "n < 2 ^ 30 \<Longrightarrow> spec (ready v n) (popN k) (\<lambda>_. ready v n)"
proof (induction k)
  case (Suc k)
  show ?case
    unfolding popN.simps
    by (rule spec_bnd_val[OF ready_pop[OF Suc.prems]], rule spec_bnd_same[OF Suc.IH[OF Suc.prems]], rule spec_ret)
qed (simp add: spec_ret)

lemma multiSigLoop_ready: "spec (ready v n) (multiSigLoop E script sigs ks) (\<lambda>_. ready v n)"
proof (induction E script sigs ks rule: multiSigLoop.induct)
  case (3 E script sigInfo sigs pubKey ks)
  have parse: "spec (ready v n)
      (case parsedSig sigInfo of
         None \<Rightarrow> bnd (checkHashTypeEncoding h) (\<lambda>_. bnd (checkSignatureEncoding sg) (\<lambda>_.
                   (\<lambda>vm. try_parse (parseSigFlags sg vm) vm)))
       | Some p \<Rightarrow> ret p) (\<lambda>_. ready v n)" for h sg
    by (intro sig_binds parseSigFlags_ready spec_case_option ready_ret) simp
  show ?case
    unfolding multiSigLoop.simps Let_def
    by (intro spec_if ready_ret spec_bnd_same[OF parse] spec_case_option sig_binds "3.IH") (simp_all)
qed (simp_all add: ready_ret)

text \<open>A higher count of operations is checked at once.\<close>

lemma count_ready:
  assumes "\<And>ops. spec (ready v n) (rest ops) Q"
  shows "spec (ready v n) (bnd (mod_st (\<lambda>vm. vm\<lparr>numOps := numOps vm + k\<rparr>)) (\<lambda>_.
    bnd (get_st numOps) (\<lambda>ops. if ops > MaxOpsPerScript then fail_op c else rest ops))) Q"
proof -
  have "ready v n (vm\<lparr>numOps := j\<rparr>)" if "ready v n vm" "j \<le> MaxOpsPerScript" for vm j
    using that by (simp add: ready_def frame_def)
  with assms show ?thesis
    by (auto simp: spec_def op_simps fail_op_def not_less)
qed

lemma opcodeCheckMultiSig_ready:
  "0 < k \<Longrightarrow> spec (ready v 0) (opcodeCheckMultiSig E pop) (\<lambda>_. ready v k)"
  unfolding opcodeCheckMultiSig_def Let_def
  by (intro spec_bnd_val[OF ready_popInt] ready_rules count_ready spec_bnd_same[OF popN_ready]
      spec_bnd_same[OF multiSigLoop_ready] sig_binds) simp_all

lemma opcodeCheckMultiSigVerify_ready: "spec (ready v 0) (opcodeCheckMultiSigVerify E pop) (\<lambda>_. ready v 3)"
  unfolding opcodeCheckMultiSigVerify_def
  by (rule spec_bnd_same[OF opcodeCheckMultiSig_ready[of 1]]) (simp_all add: abstractVerify_ready)

lemmas handlers_ready = constants_ready opcodeNop_ready opcodeIf_ready opcodeNotIf_ready opcodeElse_ready
  opcodeEndif_ready opcodeVerify_ready opcodeCheckLockTimeVerify_ready opcodeCheckSequenceVerify_ready
  stack_handlers_ready opcodeToAltStack_ready opcodeFromAltStack_ready opcodeIfDup_ready opcodeSize_ready
  opcodeDepth_ready opcodePick_ready opcodeRoll_ready opcodeEqual_ready opcodeEqualVerify_ready
  unary_handlers_ready opcodeNumEqual_ready opcodeNumEqualVerify_ready binary_handlers_ready
  opcodeWithin_ready hash_handlers_ready opcodeCodeSeparator_ready opcodeCheckSig_ready
  opcodeCheckSigVerify_ready opcodeCheckMultiSig_ready opcodeCheckMultiSigVerify_ready

lemma opfunc_ready:
  assumes "env_ok E" "f = fn_opcodePushData \<Longrightarrow> length (pop_data pop) \<le> MaxScriptElementSize"
  shows "spec (ready v 0) (opfunc_run E f pop) (\<lambda>_. ready v 3)"
  using assms by (cases f) (simp_all add: handlers_ready)

end
