(* ===== verification/RunSafe.thy ===== *)
theory RunSafe
  imports EngineSafe
begin

text \<open>
  Steps and whole runs.  An engine between two steps satisfies \<open>running\<close>; a step from there returns, and
  when it does not end the run it gives a \<open>running\<close> engine again, further on in its scripts.  So
  \<open>Execute\<close> ends on every engine that \<open>NewEngine\<close> makes, with a verdict or an error.
\<close>

subsection \<open>One opcode\<close>

lemma OpcodeArray_push_values:
  "list_all (\<lambda>op. op_func op = fn_opcodePushData \<longrightarrow> op_value op \<le> OP_16) OpcodeArray"
  unfolding OpcodeArray_def opcode_tables mk_opcode_def by simp

lemma OpcodeArray_hash160: "op_func (OpcodeArray ! unat OP_HASH160) = fn_opcodeHash160"
  unfolding OpcodeArray_def opcode_tables mk_opcode_def by (simp add: nth_append)

lemma from_table_entry: "from_table pop \<Longrightarrow> pop_opcode pop = OpcodeArray ! unat (pop_value pop)"
  by (auto simp: from_table_def)

lemma from_table_push:
  assumes "from_table pop" "op_func (pop_opcode pop) = fn_opcodePushData"
  shows "\<not> pop_value pop > OP_16"
proof -
  have "op_func (OpcodeArray ! unat (pop_value pop)) = fn_opcodePushData \<longrightarrow> op_value (OpcodeArray ! unat (pop_value pop)) \<le> OP_16"
    using OpcodeArray_push_values unat_byte_lt[of "pop_value pop"]
    unfolding list_all_length length_OpcodeArray by blast
  then show ?thesis using assms from_table_entry[OF assms(1)] by (simp add: not_less)
qed

lemma countOp_ready:
  "spec (ready v 0) (countOp pop)
     (\<lambda>_ vm. (\<not> pop_value pop > OP_16 \<longrightarrow> length (pop_data pop) \<le> MaxScriptElementSize) \<and> ready v 0 vm)"
proof (cases "pop_value pop > OP_16")
  case True
  then show ?thesis
    unfolding countOp_def by (simp, intro count_ready spec_ret) simp
qed (simp add: countOp_def spec_ret ready_fail)

lemma checkMinimalDataPush_returns: "returns (checkMinimalDataPush pop)"
  by (simp add: checkMinimalDataPush_def Let_def)

lemma executeOpcode_ready:
  assumes "env_ok E" "from_table pop"
  shows "spec (ready v 0) (executeOpcode E pop) (\<lambda>_. ready v 3)"
proof -
  have run: "spec (ready v 0) (bnd (if c then lift_res (checkMinimalDataPush pop) else ret ())
      (\<lambda>_. opfunc_run E (op_func (pop_opcode pop)) pop)) (\<lambda>_. ready v 3)"
    if "\<not> pop_value pop > OP_16 \<longrightarrow> length (pop_data pop) \<le> MaxScriptElementSize" for c
    by (rule spec_bnd_same[of _ _ "ready v 0"], intro spec_if ready_lift checkMinimalDataPush_returns ready_ret)
      (use assms that from_table_push in \<open>auto intro!: opfunc_ready\<close>)
  have rest: "spec (ready v 0) (\<lambda>vm.
          if \<not> isBranchExecuting vm \<and> \<not> isConditional pop then (Ok (), vm)
          else bnd (if verifyMinimalData (dstack vm) \<and> isBranchExecuting vm \<and> pop_value pop \<le> OP_PUSHDATA4
                 then lift_res (checkMinimalDataPush pop) else ret ())
              (\<lambda>_. opfunc_run E (op_func (pop_opcode pop)) pop) vm) (\<lambda>_. ready v 3)"
    if "\<not> pop_value pop > OP_16 \<longrightarrow> length (pop_data pop) \<le> MaxScriptElementSize"
    by (rule specI) (use spec_returns[OF run[OF that]] spec_Ok[OF run[OF that]] ready_mono[of v 0 _ 3]
        in \<open>auto split: if_split_asm\<close>)
  show ?thesis
    unfolding executeOpcode_def
    by (intro spec_if ready_fail spec_bnd_val[OF countOp_ready] rest)
qed

text \<open>OP_HASH160 in an executing branch needs an element on the stack.\<close>

lemma hash160_needs_element:
  assumes "ready v 0 v" "from_table pop" "pop_value pop = OP_HASH160" "condStack v = []"
    and "executeOpcode E pop v = (Ok (), vm)"
  shows "stk (dstack v) \<noteq> []"
proof
  assume empty: "stk (dstack v) = []"
  have func: "op_func (pop_opcode pop) = fn_opcodeHash160"
    using assms(3) from_table_entry[OF assms(2)] OpcodeArray_hash160 by simp
  have "PopByteArray (dstack v) = stack_underflow (dstack v)"
    using assms(1) empty by (subst Pop_run) (auto simp: ready_def stack_inv_def stack_fits_def items_def)
  then have "opcodeHash160 E pop (v\<lparr>numOps := k\<rparr>) =
      (Err (scriptError ErrInvalidStackOperation), v\<lparr>numOps := k, dstack := (dstack v)\<lparr>stkMutex := True\<rparr>\<rparr>)" for k
    by (simp add: opcodeHash160_def hash_op_def on_d_def bnd_def on_part_def)
  then show False
    using assms(3,4,5) func
    by (auto simp: executeOpcode_def countOp_def isBranchExecuting_def bnd_def ret_def get_st_def mod_st_def
        fail_op_def throw_def split: if_splits)
qed

subsection \<open>Whole stacks\<close>

lemma pushAll_run: "stack_free s \<Longrightarrow> pushAll xs s = (Ok (), with_items s (rev xs @ items s))"
  by (induction xs arbitrary: s) (simp_all add: ret_def bnd_def Push_run)

lemma drop_all_run:
  assumes "stack_free s" "stack_fits s"
  shows "bnd Depth (\<lambda>n. bnd (ignore_err (DropN n)) f) s = f () (with_items s [])"
proof (cases "items s = []")
  case True
  then have "DropN (int (length (items s))) s = (Err (scriptError ErrInvalidStackOperation), s)" "with_items s [] = s"
    by (simp add: DropN_def throw_def) (metis True with_items_items)
  then show ?thesis using assms by (simp add: bnd_def Depth_run ignore_err_def)
next
  case False
  then have "DropN (int (length (items s))) s = (Ok (), with_items s [])"
    using assms by (intro DropN_run[where a = "items s"]) (cases "items s"; simp)+
  then show ?thesis using assms by (simp add: bnd_def Depth_run ignore_err_def)
qed

lemma setStack_run:
  "stack_free s \<Longrightarrow> stack_fits s \<Longrightarrow> setStack data s = (Ok (), s\<lparr>stk := data\<rparr>)"
  by (simp add: setStack_def drop_all_run pushAll_run) (simp add: with_items_def)

lemma getStack_run:
  assumes "stack_free s" "stack_fits s"
  shows "getStack s = (Ok (stk s), s)"
proof -
  have "(case fst (PeekByteArray (i32 (int i)) s) of Ok so \<Rightarrow> so | _ \<Rightarrow> []) = items s ! i"
    if "i < length (items s)" for i
    using that assms(2) by (simp add: Peek_run stack_fits_def)
  then have "map (\<lambda>i. case fst (PeekByteArray (i32 (int i)) s) of Ok so \<Rightarrow> so | _ \<Rightarrow> []) [0..<length (items s)] = items s"
    by (intro nth_equalityI) simp_all
  then show ?thesis using assms by (simp add: getStack_def bnd_def Depth_run items_def)
qed

subsection \<open>Between two scripts\<close>

text \<open>
  What does not depend on the position: the input exists and its witness is not absurdly long, every
  parsed opcode is an entry of the table, and a pay-to-script-hash run has the script it was recognised by.
\<close>

definition run_ok :: "Engine \<Rightarrow> bool" where
  "run_ok vm \<longleftrightarrow>
     0 \<le> txIdx vm \<and> txIdx vm < int (length (txIns (vm_tx vm))) \<and>
     length (Witness (txIns (vm_tx vm) ! nat (txIdx vm))) \<le> 2 ^ 30 \<and>
     (\<forall>s \<in> set (scripts vm). \<forall>p \<in> set s. from_table p) \<and>
     length (savedFirstStack vm) \<le> 2 ^ 30 \<and> (\<forall>x \<in> set (savedFirstStack vm). length x \<le> MaxScriptElementSize) \<and>
     2 \<le> length (scripts vm) \<and> (bip16 vm \<longrightarrow> isScriptHash (scripts vm ! 1))"

definition stacks_ok :: "Engine \<Rightarrow> bool" where
  "stacks_ok vm \<longleftrightarrow> stack_inv MaxScriptElementSize 0 (dstack vm) \<and> stack_inv MaxScriptElementSize 0 (astack vm)"

text \<open>At the start of script \<open>k\<close>, or past the end of the scripts.\<close>

definition entered :: "nat \<Rightarrow> Engine \<Rightarrow> bool" where
  "entered k vm \<longleftrightarrow> run_ok vm \<and> stacks_ok vm \<and> scriptIdx vm = k \<and> 1 \<le> k \<and> scriptOff vm = 0 \<and>
     condStack vm = [] \<and> numOps vm = 0 \<and>
     (length (scripts vm) = max 2 (k + 1) \<and> k \<le> 3 \<or> length (scripts vm) = k) \<and>
     (bip16 vm \<and> k = 1 \<longrightarrow> savedFirstStack vm = stk (dstack vm))"

text \<open>At the end of script \<open>k\<close>, with the counters reset.\<close>

definition leaving :: "nat \<Rightarrow> Engine \<Rightarrow> bool" where
  "leaving k vm \<longleftrightarrow> run_ok vm \<and> stacks_ok vm \<and> scriptIdx vm = k \<and> scriptOff vm = 0 \<and>
     condStack vm = [] \<and> numOps vm = 0 \<and> length (scripts vm) = max 2 (k + 1) \<and>
     (bip16 vm \<and> k = 1 \<longrightarrow> savedFirstStack vm \<noteq> [])"

lemma stacks_okD:
  "stacks_ok vm \<Longrightarrow> stack_free (dstack vm)" "stacks_ok vm \<Longrightarrow> stack_fits (dstack vm)"
  by (simp_all add: stacks_ok_def stack_inv_def stack_fits_def)

lemma SetStack_run:
  "stack_free (dstack vm) \<Longrightarrow> stack_fits (dstack vm) \<Longrightarrow>
   SetStack data vm = (Ok (), vm\<lparr>dstack := (dstack vm)\<lparr>stk := data\<rparr>\<rparr>)"
  by (simp add: SetStack_def on_d_def on_part_def setStack_run)

lemma GetStack_run:
  "stack_free (dstack vm) \<Longrightarrow> stack_fits (dstack vm) \<Longrightarrow> GetStack vm = (Ok (stk (dstack vm)), vm)"
  by (simp add: GetStack_def on_d_def on_part_def getStack_run)

lemma parsed_from_table: "parsed s = Ok pops \<Longrightarrow> p \<in> set pops \<Longrightarrow> from_table p"
  by (rule parseScript_cases[of s]) (auto simp: parsed_Ok_iff list_all_iff)

lemma parsed_returns: "returns (parsed s)"
  using parsed_no_abort[of s] by (simp add: returns_def)

lemma built_returns: "returns (built r)"
  by (simp add: built_def split: option.split)

lemma on_d_runs:
  "stacks_ok vm \<Longrightarrow> on_d Depth vm = (Ok (int (length (items (dstack vm)))), vm)"
  "stacks_ok vm \<Longrightarrow> items (dstack vm) = x # xs \<Longrightarrow>
     on_d PopBool vm = (Ok (asBool x), vm\<lparr>dstack := with_items (dstack vm) xs\<rparr>)"
  using stacks_okD[of vm] by (simp_all add: on_d_def on_part_def Depth_run PopBool_run)

lemma CheckErrorCondition_run:
  assumes "stacks_ok vm"
  shows "CheckErrorCondition fin vm =
    (if scriptIdx vm < length (scripts vm) then (Err (scriptError ErrScriptUnfinished), vm)
     else if fin \<and> isWitnessVersionActive 0 vm \<and> length (items (dstack vm)) \<noteq> 1 then (Err (scriptError ErrEvalFalse), vm)
     else if fin \<and> hasFlag ScriptVerifyCleanStack vm \<and> length (items (dstack vm)) \<noteq> 1
     then (Err (scriptError ErrCleanStack), vm)
     else case items (dstack vm) of
         [] \<Rightarrow> (Err (scriptError ErrEmptyStack), vm)
       | x # xs \<Rightarrow> (if asBool x then Ok () else Err (scriptError ErrEvalFalse),
                    vm\<lparr>dstack := with_items (dstack vm) xs\<rparr>))"
  using on_d_runs[OF assms]
  by (cases "items (dstack vm)")
    (simp_all add: CheckErrorCondition_def bnd_def ret_def fail_op_def throw_def del: length_items)

lemma stacks_ok_pop:
  "stacks_ok vm \<Longrightarrow> items (dstack vm) = x # xs \<Longrightarrow> stacks_ok (vm\<lparr>dstack := with_items (dstack vm) xs\<rparr>)"
proof -
  assume ok: "stacks_ok vm" and "items (dstack vm) = x # xs"
  then have "stk (dstack vm) = rev xs @ [x]" by (metis items_def rev.simps(2) rev_rev_ident)
  then show ?thesis using ok by (simp add: stacks_ok_def stack_inv_def with_items_def stack_free_def)
qed

lemma stacks_ok_set:
  "stacks_ok vm \<Longrightarrow> length data \<le> 2 ^ 30 \<Longrightarrow> (\<forall>x \<in> set data. length x \<le> MaxScriptElementSize) \<Longrightarrow>
   stacks_ok (vm\<lparr>dstack := (dstack vm)\<lparr>stk := data\<rparr>\<rparr>)"
  by (simp add: stacks_ok_def stack_inv_def stack_free_def)

text \<open>Pay-to-script-hash: the stack of the signature script is kept, then its top element is run.\<close>

lemma enter_save:
  assumes "leaving k vm" "k = 0" "bip16 vm"
  shows "spec (\<lambda>s. s = vm) (bnd incIdx (\<lambda>_. bnd GetStack (\<lambda>st. mod_st (\<lambda>vm. vm\<lparr>savedFirstStack := st\<rparr>))))
    (\<lambda>_. entered (k + 1))"
proof -
  let ?vm = "vm\<lparr>scriptIdx := scriptIdx vm + 1\<rparr>"
  have ok: "stacks_ok ?vm" using assms(1) by (simp add: leaving_def stacks_ok_def)
  have "bnd incIdx (\<lambda>_. bnd GetStack (\<lambda>st. mod_st (\<lambda>vm. vm\<lparr>savedFirstStack := st\<rparr>))) vm =
      (Ok (), ?vm\<lparr>savedFirstStack := stk (dstack vm)\<rparr>)"
    using GetStack_run[OF stacks_okD[OF ok]] by (simp add: incIdx_def bnd_def mod_st_def)
  then show ?thesis
    using assms by (auto simp: spec_def leaving_def entered_def run_ok_def stacks_ok_def stack_inv_def)
qed

lemma enter_redeem:
  assumes "leaving k vm" "k = 1" "bip16 vm"
  shows "spec (\<lambda>s. s = vm) (bnd incIdx (\<lambda>_. bnd (CheckErrorCondition False) (\<lambda>_.
      bnd (get_st savedFirstStack) (\<lambda>saved.
        if saved = [] then panic
        else bnd (lift_res (parsed (last saved))) (\<lambda>pops. bnd (appendScript pops) (\<lambda>_. SetStack (butlast saved)))))))
    (\<lambda>_. entered (k + 1))"
proof -
  let ?vm = "vm\<lparr>scriptIdx := scriptIdx vm + 1\<rparr>"
  let ?saved = "savedFirstStack vm"
  have ok: "stacks_ok ?vm" "?saved \<noteq> []" using assms by (simp_all add: leaving_def stacks_ok_def)
  have saved: "length (butlast ?saved) \<le> 2 ^ 30" "\<forall>x \<in> set (butlast ?saved). length x \<le> MaxScriptElementSize"
    using assms(1) by (auto simp: leaving_def run_ok_def dest: in_set_butlastD)
  have rest: "spec (\<lambda>s. s = ?vm\<lparr>dstack := with_items (dstack vm) xs\<rparr>)
      (bnd (get_st savedFirstStack) (\<lambda>saved.
        if saved = [] then panic
        else bnd (lift_res (parsed (last saved))) (\<lambda>pops. bnd (appendScript pops) (\<lambda>_. SetStack (butlast saved)))))
      (\<lambda>_. entered (k + 1))" if items: "items (dstack vm) = x # xs" for x xs
  proof -
    let ?w = "?vm\<lparr>dstack := with_items (dstack vm) xs\<rparr>"
    have w: "stacks_ok ?w" using stacks_ok_pop[OF ok(1)] items by simp
    have "run_ok ?w" using assms(1) by (simp add: leaving_def run_ok_def)
    then have "entered (k + 1) (?w\<lparr>scripts := scripts ?w @ [pops], dstack := (dstack ?w)\<lparr>stk := butlast ?saved\<rparr>\<rparr>)"
      if "parsed (last ?saved) = Ok pops" for pops
      using parsed_from_table[OF that] stacks_ok_set[OF w saved] assms
      by (auto simp: entered_def leaving_def run_ok_def stacks_ok_def nth_append)
    moreover have "stacks_ok (?w\<lparr>scripts := scs\<rparr>)" for scs using w by (simp add: stacks_ok_def)
    ultimately show ?thesis
      using ok(2) parsed_returns[of "last ?saved"] SetStack_run[OF stacks_okD]
      by (cases "parsed (last ?saved)") (auto simp: spec_def bnd_def get_st_def lift_res_def appendScript_def mod_st_def returns_def)
  qed
  show ?thesis
    using CheckErrorCondition_run[OF ok(1), of False] rest
    by (cases "items (dstack vm)") (auto simp: spec_def incIdx_def bnd_def mod_st_def)
qed

text \<open>
  Witness programs: the script of the program and its stack, whose elements are checked last; an
  unknown version switches the witness rules off.
\<close>

definition loaded :: "nat \<Rightarrow> Engine \<Rightarrow> bool" where
  "loaded k s \<longleftrightarrow>
     (if isWitnessVersionActive 0 s
      then stack_free (dstack s) \<and> stack_fits (dstack s) \<and>
        ((\<forall>x \<in> set (stk (dstack s)). length x \<le> MaxScriptElementSize) \<longrightarrow> entered k s)
      else entered k s)"

lemma load_script:
  assumes vm: "leaving k w" "1 \<le> k" "k \<le> 2" "bip16 w \<longrightarrow> k = 2" "vm = w\<lparr>scriptIdx := k + 1\<rparr>"
    and data: "length data \<le> 2 ^ 30" "isWitnessVersionActive 0 vm"
  shows "spec (\<lambda>s. s = vm) (bnd (lift_res (parsed script)) (\<lambda>pops. bnd (appendScript pops) (\<lambda>_. SetStack data)))
    (\<lambda>_. loaded (k + 1))"
proof -
  have ok: "stacks_ok vm" using vm by (simp add: leaving_def stacks_ok_def)
  have "loaded (k + 1) (vm\<lparr>scripts := scripts vm @ [pops], dstack := (dstack vm)\<lparr>stk := data\<rparr>\<rparr>)"
    if pops: "parsed script = Ok pops" for pops
  proof -
    let ?s = "vm\<lparr>scripts := scripts vm @ [pops], dstack := (dstack vm)\<lparr>stk := data\<rparr>\<rparr>"
    have "isWitnessVersionActive 0 ?s" using data(2) by (simp add: isWitnessVersionActive_def)
    moreover have "stack_free (dstack ?s)" "stack_fits (dstack ?s)"
      using stacks_okD[OF ok] data(1) by (simp_all add: stack_free_def stack_fits_def)
    moreover have "entered (k + 1) ?s" if "\<forall>x \<in> set (stk (dstack ?s)). length x \<le> MaxScriptElementSize"
      using parsed_from_table[OF pops] stacks_ok_set[OF ok data(1)] that vm
      by (auto simp: entered_def leaving_def run_ok_def stacks_ok_def nth_append)
    ultimately show ?thesis by (simp add: loaded_def)
  qed
  moreover have "stacks_ok (vm\<lparr>scripts := scs\<rparr>)" for scs using ok by (simp add: stacks_ok_def)
  ultimately show ?thesis
    using parsed_returns[of script] SetStack_run[OF stacks_okD]
    by (cases "parsed script") (auto simp: spec_def bnd_def lift_res_def appendScript_def mod_st_def returns_def)
qed

lemma enter_witness_program:
  assumes vm: "leaving k w" "1 \<le> k" "k \<le> 2" "bip16 w \<longrightarrow> k = 2" "vm = w\<lparr>scriptIdx := k + 1\<rparr>"
    and wit: "length witness \<le> 2 ^ 30"
  shows "spec (\<lambda>s. s = vm) (verifyWitnessProgram witness) (\<lambda>_. entered (k + 1))"
proof -
  note load = load_script[OF vm]
  have built: "spec (\<lambda>s. s = vm) (bnd (lift_res (built r)) (\<lambda>script. bnd (lift_res (parsed script)) (\<lambda>pops.
      bnd (appendScript pops) (\<lambda>_. SetStack witness)))) (\<lambda>_. loaded (k + 1))"
    if "isWitnessVersionActive 0 vm" for r
    by (rule spec_bnd, rule spec_lift[OF built_returns], assumption, rule load[OF wit that])
  have off: "spec (\<lambda>s. s = vm) (mod_st (\<lambda>vm. vm\<lparr>witnessProgram := None\<rparr>)) (\<lambda>_. loaded (k + 1))"
    using vm by (auto simp: spec_def mod_st_def loaded_def isWitnessVersionActive_def entered_def leaving_def
        run_ok_def stacks_ok_def)
  have last: "length (butlast witness) \<le> 2 ^ 30" using wit by simp
  have "spec (\<lambda>s. s = vm) (loadWitnessProgram witness) (\<lambda>_. loaded (k + 1))"
    unfolding loadWitnessProgram_def Let_def
    by (rule spec_read, intro spec_if ready_fail) (use built load[OF last] off in simp_all)
  moreover have "spec (loaded (k + 1)) checkWitnessElements (\<lambda>_. entered (k + 1))"
    using GetStack_run
    by (auto simp: checkWitnessElements_def spec_def loaded_def bnd_def ret_def fail_op_def throw_def not_less
        split: if_splits)
  ultimately show ?thesis unfolding verifyWitnessProgram_def by (rule spec_bnd_same)
qed

lemma enterNextScript_spec:
  assumes "leaving k vm"
  shows "spec (\<lambda>s. s = vm) enterNextScript (\<lambda>_. entered (k + 1))"
proof -
  have idx: "scriptIdx vm = k" using assms by (simp add: leaving_def)
  have tx: "0 \<le> txIdx vm" "txIdx vm < int (length (txIns (vm_tx vm)))"
    and wit: "length (Witness (txIns (vm_tx vm) ! nat (txIdx vm))) \<le> 2 ^ 30"
    using assms by (auto simp: leaving_def run_ok_def)
  have witness: "spec (\<lambda>s. s = vm) (bnd incIdx (\<lambda>_. bnd curTxIn (\<lambda>ti. verifyWitnessProgram (Witness ti))))
      (\<lambda>_. entered (k + 1))" if "1 \<le> k" "k \<le> 2" "bip16 vm \<longrightarrow> k = 2"
    using enter_witness_program[OF assms that refl wit] tx idx
    by (simp add: spec_def incIdx_def bnd_def mod_st_def curTxIn_def)
  have plain: "spec (\<lambda>s. s = vm) incIdx (\<lambda>_. entered (k + 1))" if "\<not> (k \<le> 1 \<and> bip16 vm)"
    unfolding incIdx_def
    by (rule spec_mod) (use assms that in \<open>auto simp: entered_def leaving_def run_ok_def stacks_ok_def\<close>)
  show ?thesis
    unfolding enterNextScript_def
    by (rule spec_read, intro spec_if)
      (use idx enter_save[OF assms] enter_redeem[OF assms] witness plain in auto)
qed

subsection \<open>Steps\<close>

definition running :: "Engine \<Rightarrow> bool" where
  "running vm \<longleftrightarrow> ready vm 0 vm \<and> run_ok vm \<and>
     scriptOff vm < length (scripts vm ! scriptIdx vm) \<and>
     length (scripts vm) = max 2 (scriptIdx vm + 1) \<and>
     (scriptOff vm = 0 \<longrightarrow> condStack vm = []) \<and>
     (0 < scriptOff vm \<longrightarrow> length (stk (dstack vm)) + length (stk (astack vm)) \<le> 1000) \<and>
     (bip16 vm \<and> scriptIdx vm = 1 \<longrightarrow>
       (if scriptOff vm = 0 then savedFirstStack vm = stk (dstack vm) else savedFirstStack vm \<noteq> []))"

text \<open>The order in which the program counter advances.\<close>

definition pc_left :: "Engine \<Rightarrow> nat \<times> nat" where
  "pc_left vm = (4 - scriptIdx vm, length (scripts vm ! scriptIdx vm) - scriptOff vm)"

definition advances :: "Engine \<Rightarrow> bool \<Rightarrow> Engine \<Rightarrow> bool" where
  "advances v done vm \<longleftrightarrow>
     (if done then stacks_ok vm \<and> length (scripts vm) \<le> scriptIdx vm
      else running vm \<and> (pc_left vm, pc_left v) \<in> less_than <*lex*> less_than)"

lemma entered_start:
  assumes "entered k vm" "k < length (scripts vm)" "scripts vm ! k \<noteq> []"
  shows "running (vm\<lparr>lastCodeSep := 0\<rparr>)"
  using assms
  by (auto simp: entered_def running_def ready_def frame_def pc_ok_def run_ok_def stacks_ok_def MaxOpsPerScript_def)

lemma enter_finish:
  assumes k: "scriptIdx v = k"
  shows "spec (entered (k + 1)) (bnd skipEmptyScript (\<lambda>_. bnd (mod_st (\<lambda>vm. vm\<lparr>lastCodeSep := 0\<rparr>)) (\<lambda>_.
      get_st (\<lambda>vm. scriptIdx vm \<ge> length (scripts vm))))) (advances v)"
proof -
  have "advances v (k + 1 \<ge> length (scripts vm)) (vm\<lparr>lastCodeSep := 0\<rparr>)"
    if e: "entered (k + 1) vm" "\<not> (k + 1 < length (scripts vm) \<and> scripts vm ! (k + 1) = [])" for vm
  proof (cases "k + 1 < length (scripts vm)")
    case True
    then have "k + 1 \<le> 3" using e(1) by (auto simp: entered_def)
    then show ?thesis
      using True e entered_start[OF e(1)] k by (auto simp: advances_def pc_left_def entered_def)
  qed (use e k in \<open>simp add: advances_def entered_def stacks_ok_def\<close>)
  moreover have "advances v True (vm\<lparr>scriptIdx := k + 2, lastCodeSep := 0\<rparr>)" "length (scripts vm) \<le> k + 2"
    if "entered (k + 1) vm" "k + 1 < length (scripts vm)" for vm
    using that k by (auto simp: advances_def entered_def stacks_ok_def)
  ultimately show ?thesis
    by (auto simp: spec_def bnd_def skipEmptyScript_def incIdx_def mod_st_def get_st_def entered_def)
qed

text \<open>The end of a script: the conditionals are closed, the alternate stack is emptied.\<close>

lemma endOfScript_spec:
  assumes vm: "stacks_ok vm" "run_ok vm" "scriptIdx vm = k" "length (scripts vm) = max 2 (k + 1)"
    and saved: "bip16 vm \<and> k = 1 \<longrightarrow> savedFirstStack vm \<noteq> []"
    and v: "scriptIdx v = k"
  shows "spec (\<lambda>s. s = vm) endOfScript (advances v)"
proof (cases "condStack vm = []")
  case True
  let ?vm = "vm\<lparr>astack := with_items (astack vm) [], numOps := 0, scriptOff := 0\<rparr>"
  have a: "stack_free (astack vm)" "stack_fits (astack vm)"
    using vm(1) by (simp_all add: stacks_ok_def stack_inv_def stack_fits_def)
  have drop: "bnd (on_a Depth) (\<lambda>n. bnd (on_a (ignore_err (DropN n))) f) vm =
      f () (vm\<lparr>astack := with_items (astack vm) []\<rparr>)" for f :: "unit \<Rightarrow> bool eop"
    using drop_all_run[OF a, of ret] Depth_run[OF a]
    by (auto simp: on_a_def on_part_def bnd_def ret_def split: prod.splits res.splits)
  have "stack_inv MaxScriptElementSize 0 (with_items (astack vm) [])"
    using vm(1) unfolding stacks_ok_def by (intro stack_inv_with_items) auto
  then have leave: "leaving k ?vm"
    using vm saved True by (auto simp: leaving_def run_ok_def stacks_ok_def)
  have "endOfScript vm = bnd enterNextScript (\<lambda>_. bnd skipEmptyScript (\<lambda>_.
      bnd (mod_st (\<lambda>vm. vm\<lparr>lastCodeSep := 0\<rparr>)) (\<lambda>_. get_st (\<lambda>vm. scriptIdx vm \<ge> length (scripts vm))))) ?vm"
    using True unfolding endOfScript_def bnd_Ok[OF get_st_run] by (simp add: drop bnd_Ok[OF mod_st_run])
  with spec_bnd_same[OF enterNextScript_spec[OF leave] enter_finish[OF v]] show ?thesis
    by (auto simp: spec_def)
qed (simp add: spec_def endOfScript_def bnd_def get_st_def fail_op_def throw_def)

text \<open>The opcode a step runs, and the engine it runs it on.\<close>

definition cur_opcode :: "Engine \<Rightarrow> parsedOpcode" where
  "cur_opcode v = scripts v ! scriptIdx v ! scriptOff v"

abbreviation fetched :: "Engine \<Rightarrow> Engine" where
  "fetched v \<equiv> v\<lparr>scriptOff := scriptOff v + 1\<rparr>"

lemma running_fetch:
  assumes "running v"
  shows "from_table (cur_opcode v)" "ready (fetched v) 0 (fetched v)"
    and "Step E v = bnd (executeOpcode E (cur_opcode v)) (\<lambda>_.
     bnd (on_d Depth) (\<lambda>d.
     bnd (on_a Depth) (\<lambda>a.
       if d + a > MaxStackSize then fail_op ErrStackOverflow
       else (\<lambda>vm. if scriptOff vm \<ge> length (scripts vm ! scriptIdx vm) then endOfScript vm
                  else (Ok False, vm))))) (fetched v)"
proof -
  have pc: "scriptIdx v < length (scripts v)" "scriptOff v < length (scripts v ! scriptIdx v)"
    using assms by (simp_all add: running_def ready_def pc_ok_def)
  then have "scripts v ! scriptIdx v \<in> set (scripts v)" "cur_opcode v \<in> set (scripts v ! scriptIdx v)"
    by (simp_all add: cur_opcode_def)
  then show "from_table (cur_opcode v)" using assms by (auto simp: running_def run_ok_def)
  show "ready (fetched v) 0 (fetched v)"
    using assms pc by (auto simp: running_def ready_def frame_def pc_ok_def)
  show "Step E v = bnd (executeOpcode E (cur_opcode v)) (\<lambda>_.
     bnd (on_d Depth) (\<lambda>d.
     bnd (on_a Depth) (\<lambda>a.
       if d + a > MaxStackSize then fail_op ErrStackOverflow
       else (\<lambda>vm. if scriptOff vm \<ge> length (scripts vm ! scriptIdx vm) then endOfScript vm
                  else (Ok False, vm))))) (fetched v)"
    using pc by (simp add: Step_def validPC_def fetchOpcode_def cur_opcode_def bnd_Ok[OF mod_st_run] bnd_def[of validPC]
        bnd_def[of fetchOpcode])
qed

lemma depths_run:
  assumes "ready v 3 vm"
  shows "on_d Depth vm = (Ok (int (length (stk (dstack vm)))), vm)"
    and "on_a Depth vm = (Ok (int (length (stk (astack vm)))), vm)"
  using assms stack_inv_fits[of MaxScriptElementSize 3]
  by (simp_all add: on_d_def on_a_def on_part_def ready_def stack_inv_def stack_fits_def Depth_run)

text \<open>After the checks of a step: the state of the same script, within the stack limit.\<close>

lemma ready_limited:
  assumes "running v" "ready (fetched v) 3 vm" "length (stk (dstack vm)) + length (stk (astack vm)) \<le> 1000"
  shows "ready vm 0 vm" "run_ok vm" "stacks_ok vm"
proof -
  show "ready vm 0 vm" "stacks_ok vm"
    using assms(2,3) by (auto simp: ready_def frame_def pc_ok_def stack_inv_def stacks_ok_def)
  show "run_ok vm" using assms(1,2) by (auto simp: running_def run_ok_def ready_def frame_def)
qed

lemma saved_kept:
  assumes "running v" "executeOpcode E (cur_opcode v) (fetched v) = (Ok (), vm)" "ready (fetched v) 3 vm"
    and "bip16 vm" "scriptIdx vm = 1"
  shows "savedFirstStack vm \<noteq> []"
proof -
  have same: "bip16 v" "scriptIdx v = 1" "savedFirstStack vm = savedFirstStack v"
    using assms(3-5) by (simp_all add: ready_def frame_def)
  show ?thesis
  proof (cases "scriptOff v = 0")
    case True
    then have "pop_value (cur_opcode v) = OP_HASH160" "condStack v = []" "savedFirstStack v = stk (dstack v)"
      using assms(1) same by (auto simp: running_def run_ok_def isScriptHash_def cur_opcode_def)
    then show ?thesis
      using hash160_needs_element[OF running_fetch(2,1)[OF assms(1)] _ _ assms(2)] same by simp
  qed (use assms(1) same in \<open>simp add: running_def\<close>)
qed

lemma Step_spec:
  assumes E: "env_ok E" and v: "running v"
  shows "spec (\<lambda>s. s = v) (Step E) (advances v)"
proof -
  note fetch = running_fetch[OF v]
  have exec: "spec (\<lambda>s. s = fetched v) (executeOpcode E (cur_opcode v))
      (\<lambda>_ vm. ready (fetched v) 3 vm \<and> (bip16 vm \<and> scriptIdx vm = 1 \<longrightarrow> savedFirstStack vm \<noteq> []))"
    using executeOpcode_ready[OF E fetch(1)] fetch(2) saved_kept[OF v] by (auto simp: spec_def)
  have rest: "spec (\<lambda>s. s = vm) (bnd (on_d Depth) (\<lambda>d. bnd (on_a Depth) (\<lambda>a.
       if d + a > MaxStackSize then fail_op ErrStackOverflow
       else (\<lambda>vm. if scriptOff vm \<ge> length (scripts vm ! scriptIdx vm) then endOfScript vm
                  else (Ok False, vm))))) (advances v)"
    if vm: "ready (fetched v) 3 vm" "bip16 vm \<and> scriptIdx vm = 1 \<longrightarrow> savedFirstStack vm \<noteq> []" for vm
  proof (cases "length (stk (dstack vm)) + length (stk (astack vm)) \<le> 1000")
    case True
    note ok = ready_limited[OF v vm(1) True]
    have same: "scriptIdx vm = scriptIdx v" "scripts vm = scripts v" "scriptOff vm = scriptOff v + 1"
      using vm(1) by (simp_all add: ready_def frame_def)
    have len: "length (scripts vm) = max 2 (scriptIdx vm + 1)" using v same by (simp add: running_def)
    have "advances v False vm" if "scriptOff vm < length (scripts vm ! scriptIdx vm)"
      using that ok same len vm(2) True by (auto simp: advances_def running_def pc_left_def)
    moreover have "spec (\<lambda>s. s = vm) endOfScript (advances v)"
      using endOfScript_spec[OF ok(3,2) refl len vm(2), of v] same by simp
    ultimately show ?thesis
      using True depths_run[OF vm(1)] by (auto simp: spec_def bnd_def MaxStackSize_def)
  next
    case False
    then show ?thesis
      using depths_run[OF vm(1)] by (auto simp: spec_def bnd_def MaxStackSize_def fail_op_def throw_def)
  qed
  have "spec (\<lambda>s. s = fetched v) (bnd (executeOpcode E (cur_opcode v)) (\<lambda>_. bnd (on_d Depth) (\<lambda>d. bnd (on_a Depth) (\<lambda>a.
       if d + a > MaxStackSize then fail_op ErrStackOverflow
       else (\<lambda>vm. if scriptOff vm \<ge> length (scripts vm ! scriptIdx vm) then endOfScript vm
                  else (Ok False, vm)))))) (advances v)"
    by (rule spec_bnd_same[OF exec]) (use rest in \<open>auto simp: spec_def\<close>)
  then show ?thesis by (simp add: spec_def fetch(3))
qed

subsection \<open>Whole runs\<close>

inductive reaches :: "env \<Rightarrow> Engine \<Rightarrow> Engine \<Rightarrow> bool" for E vm where
  reaches_refl: "reaches E vm vm"
| reaches_step: "reaches E vm w \<Longrightarrow> Step E w = (Ok False, w') \<Longrightarrow> reaches E vm w'"

lemma Step_Ok:
  assumes "env_ok E" "running v" "Step E v = (Ok done, w)"
  shows "advances v done w"
  using spec_Ok[OF Step_spec[OF assms(1,2)] refl assms(3)] .

lemma reaches_running: "reaches E vm w \<Longrightarrow> env_ok E \<Longrightarrow> running vm \<Longrightarrow> running w"
proof (induction rule: reaches.induct)
  case (reaches_step w w')
  then have "advances w False w'" using Step_Ok by blast
  then show ?case by (simp add: advances_def)
qed

lemma reaches_trans: "reaches E w x \<Longrightarrow> reaches E v w \<Longrightarrow> reaches E v x"
  by (induction rule: reaches.induct) (auto intro: reaches_step)

lemma CheckErrorCondition_returns: "stacks_ok vm \<Longrightarrow> returns (fst (CheckErrorCondition fin vm))"
  by (auto simp: CheckErrorCondition_run split: list.split)

text \<open>
  A run from a \<open>running\<close> engine: it either stops with an error, or reaches an engine whose next step is the
  last one and whose verdict is the result.
\<close>

lemma Execute_run:
  assumes "env_ok E" "running v"
  shows "\<exists>r vm. Execute E v = Some (r, vm) \<and> returns r \<and>
    (r = Ok () \<longrightarrow> (\<exists>w u. reaches E v w \<and> Step E w = (Ok True, u) \<and> stacks_ok u \<and>
       CheckErrorCondition True u = (Ok (), vm)))"
  using assms(2)
proof (induction "pc_left v" arbitrary: v rule: wf_induct_rule[OF wf_lex_prod[OF wf_less_than wf_less_than]])
  case (1 v)
  note exec = Execute.simps[of E v]
  obtain r w where step: "Step E v = (r, w)" by force
  have ret: "returns r" using spec_returns[OF Step_spec[OF assms(1) 1(2)] refl] step by simp
  show ?case
  proof (cases r)
    case (Ok fin)
    then have adv: "advances v fin w" using Step_Ok[OF assms(1) 1(2)] step by simp
    show ?thesis
    proof (cases fin)
      case True
      then have ok: "stacks_ok w" using adv by (simp add: advances_def)
      obtain r' u where c: "CheckErrorCondition True w = (r', u)" by force
      then have "Execute E v = Some (r', u)" using exec step Ok True by simp
      moreover have "returns r'" using CheckErrorCondition_returns[OF ok, of True] c by simp
      ultimately show ?thesis using c ok step Ok True reaches_refl by (metis (full_types))
    next
      case False
      then obtain r' u where ih: "Execute E w = Some (r', u)" "returns r'"
          "r' = Ok () \<longrightarrow> (\<exists>x y. reaches E w x \<and> Step E x = (Ok True, y) \<and> stacks_ok y \<and>
             CheckErrorCondition True y = (Ok (), u))"
        using 1(1)[of w] adv by (auto simp: advances_def)
      have "reaches E v w" using reaches_step[OF reaches_refl] step Ok False by simp
      then have "reaches E v x" if "reaches E w x" for x using reaches_trans that by blast
      then show ?thesis using ih exec step Ok False by auto
    qed
  qed (use exec step ret in \<open>auto simp: returns_def\<close>)
qed

subsection \<open>A new engine is ready to run\<close>

lemma parsed_nonempty: "parsed s = Ok pops \<Longrightarrow> s \<noteq> [] \<Longrightarrow> pops \<noteq> []"
  by (rule parseScript_cases[of s]) (auto simp: parsed_Ok_iff)

lemma parseScripts_two:
  assumes "parseScripts [a, b] = Ok pops"
  shows "\<exists>p q. pops = [p, q] \<and> parsed a = Ok p \<and> parsed b = Ok q"
  using assms by (auto simp: parseScripts_def bind_res_Ok_iff split: if_splits)

lemma NewEngine_forms:
  assumes "NewEngine pk tx idx flgs cache hashes amt = Ok vm"
  obtains p q version program where
    "0 \<le> idx" "idx < int (length (txIns tx))"
    "SignatureScript (txIns tx ! nat idx) = [] \<longrightarrow> pk \<noteq> []"
    "parsed (SignatureScript (txIns tx ! nat idx)) = Ok p" "parsed pk = Ok q"
    "vm = \<lparr>scripts = [p, q], scriptIdx = (if SignatureScript (txIns tx ! nat idx) = [] then 1 else 0),
        scriptOff = 0, lastCodeSep = 0,
        dstack = emptyStack (flgs AND ScriptVerifyMinimalData = ScriptVerifyMinimalData),
        astack = emptyStack (flgs AND ScriptVerifyMinimalData = ScriptVerifyMinimalData),
        vm_tx = tx, txIdx = idx, condStack = [], numOps = 0, flags = flgs, sigCache = cache, hashCache = hashes,
        bip16 = (flgs AND ScriptBip16 = ScriptBip16 \<and> isScriptHash q), savedFirstStack = [],
        witnessVersion = version, witnessProgram = program, inputAmount = amt\<rparr>"
  using assms
  by (auto simp: NewEngine_def Let_def hasFlag_def bind_res_Ok_iff dest!: parseScripts_two
      split: if_splits option.splits)

lemma NewEngine_running:
  assumes "NewEngine pk tx idx flgs cache hashes amt = Ok vm"
    and "length (Witness (txIns tx ! nat idx)) \<le> 2 ^ 30"
  shows "running vm"
proof -
  obtain p q version program where vm: "0 \<le> idx" "idx < int (length (txIns tx))"
      "SignatureScript (txIns tx ! nat idx) = [] \<longrightarrow> pk \<noteq> []"
      "parsed (SignatureScript (txIns tx ! nat idx)) = Ok p" "parsed pk = Ok q"
      "vm = \<lparr>scripts = [p, q], scriptIdx = (if SignatureScript (txIns tx ! nat idx) = [] then 1 else 0),
        scriptOff = 0, lastCodeSep = 0,
        dstack = emptyStack (flgs AND ScriptVerifyMinimalData = ScriptVerifyMinimalData),
        astack = emptyStack (flgs AND ScriptVerifyMinimalData = ScriptVerifyMinimalData),
        vm_tx = tx, txIdx = idx, condStack = [], numOps = 0, flags = flgs, sigCache = cache, hashCache = hashes,
        bip16 = (flgs AND ScriptBip16 = ScriptBip16 \<and> isScriptHash q), savedFirstStack = [],
        witnessVersion = version, witnessProgram = program, inputAmount = amt\<rparr>"
    using assms(1) by (rule NewEngine_forms)
  show ?thesis
    using vm(1-5) assms(2) parsed_from_table[OF vm(4)] parsed_from_table[OF vm(5)]
      parsed_nonempty[OF vm(4)] parsed_nonempty[OF vm(5)]
    by (auto simp: vm(6) running_def ready_def frame_def pc_ok_def run_ok_def stack_inv_def stack_free_def
        emptyStack_def MaxOpsPerScript_def)
qed

end
