(* ===== verification/EngineSpec.thy ===== *)
theory EngineSpec
  imports RunSafe
begin

text \<open>
  What the engine promises: runs end, the limits of the script rules hold throughout, success means a
  true result on the stack, conditionals follow the execution stack of the consensus rules, and branches
  that are not taken have no effect.
\<close>

subsection \<open>A small instance\<close>

definition demo_env :: env where
  "demo_env = \<lparr>ec_verify = \<lambda>_ _ _. True, ripemd160 = \<lambda>_. replicate 20 0, cache_first = \<lambda>_. []\<rparr>"

definition demo_tx :: "byte list \<Rightarrow> MsgTx" where
  "demo_tx sig = \<lparr>Version = 1, txIns = [\<lparr>PreviousOutPoint = \<lparr>Hash = zeroHash, Index = 0\<rparr>,
     SignatureScript = sig, Witness = [], Sequence = 0xffffffff\<rparr>], txOuts = [], LockTime = 0\<rparr>"

text \<open>An engine for the signature script OP_1 and an empty public key script.\<close>

definition demo_engine :: Engine where
  "demo_engine = \<lparr>scripts = [[\<lparr>pop_opcode = OpcodeArray ! 0x51, pop_data = []\<rparr>], []], scriptIdx = 0,
     scriptOff = 0, lastCodeSep = 0, dstack = emptyStack False, astack = emptyStack False,
     vm_tx = demo_tx [0x51], txIdx = 0, condStack = [], numOps = 0, flags = 0, sigCache = None,
     hashCache = None, bip16 = False, savedFirstStack = [], witnessVersion = 0, witnessProgram = None,
     inputAmount = 0\<rparr>"

lemma demo_env_ok: "env_ok demo_env"
  by (simp add: env_ok_def demo_env_def)

lemma op1_entry: "OpcodeArray ! 0x51 = mk_opcode 0x51 ''OP_1'' 1 fn_opcodeN"
  unfolding OpcodeArray_def opcode_tables by (simp add: nth_append)

lemma parsed_demo: "parsed [0x51] = Ok [\<lparr>pop_opcode = OpcodeArray ! 0x51, pop_data = []\<rparr>]" "parsed [] = Ok []"
  by (simp_all add: parsed_def parseScript_def ParseScriptTemplate_def parseLoop.simps op1_entry mk_opcode_def)

lemmas flag_defs = ScriptBip16_def ScriptStrictMultiSig_def ScriptDiscourageUpgradableNops_def
  ScriptVerifyCheckLockTimeVerify_def ScriptVerifyCheckSequenceVerify_def ScriptVerifyCleanStack_def
  ScriptVerifyDERSignatures_def ScriptVerifyLowS_def ScriptVerifyMinimalData_def ScriptVerifyNullFail_def
  ScriptVerifySigPushOnly_def ScriptVerifyStrictEncoding_def ScriptVerifyWitness_def
  ScriptVerifyDiscourageUpgradeableWitnessProgram_def ScriptVerifyMinimalIf_def
  ScriptVerifyWitnessPubKeyType_def

lemma demo_NewEngine: "NewEngine [] (demo_tx [0x51]) 0 0 None None 0 = Ok demo_engine"
  by (simp add: NewEngine_def demo_tx_def demo_engine_def Let_def hasFlag_def parseScripts_def parsed_demo
      MaxScriptSize_def flag_defs)

lemma demo_no_witness: "length (Witness (txIns (demo_tx s) ! nat 0)) \<le> 2 ^ 30"
  by (simp add: demo_tx_def)

lemma scriptNum_Bytes_1: "scriptNum_Bytes 1 = Ok [1]"
  by (simp add: scriptNum_Bytes_def bytesLoop.simps)

lemma demo_Step:
  "Step demo_env demo_engine = (Ok True, demo_engine\<lparr>scriptIdx := 2, dstack := (emptyStack False)\<lparr>stk := [[1]]\<rparr>\<rparr>)"
  by (simp add: Step_def demo_engine_def validPC_def fetchOpcode_def executeOpcode_def countOp_def op1_entry mk_opcode_def
      bnd_def mod_st_def ret_def get_st_def on_d_def on_a_def on_part_def isDisabled_def alwaysIllegal_def
      isBranchExecuting_def opcodeN_def PushInt_def lift_res_def scriptNum_Bytes_1 PushByteArray_def Depth_def
      Lock_def Unlock_def emptyStack_def MaxStackSize_def endOfScript_def ignore_err_def DropN_def throw_def
      enterNextScript_def incIdx_def skipEmptyScript_def)

lemma demo_Execute: "Execute demo_env demo_engine =
    Some (Ok (), demo_engine\<lparr>scriptIdx := 2\<rparr>)"
  by (subst Execute.simps, subst demo_Step)
    (simp add: CheckErrorCondition_def demo_engine_def emptyStack_def bnd_def ret_def on_d_def on_part_def
      Depth_def PopBool_def PopByteArray_def nipN_def Lock_def Unlock_def get_st_def isWitnessVersionActive_def
      hasFlag_def flag_defs Let_def)

subsection \<open>Runs\<close>

text \<open>
  Claim C4. A run always ends.  For every engine that \<^verbatim>\<open>NewEngine\<close> accepts, whatever the scripts, the
  transaction, the flags and the caches, \<^verbatim>\<open>Execute\<close> terminates and returns nil or an error: no
  index is out of range, no mutex of a stack is left locked for a later call, and the loop over steps is
  finite.  The input's witness has at most two to the thirtieth items, and RIPEMD-160 digests have twenty bytes.
\<close>

theorem Execute_terminates:
  assumes "NewEngine pk tx idx flgs cache hashes amt = Ok vm" "env_ok E"
    and "length (Witness (txIns tx ! nat idx)) \<le> 2 ^ 30"
  shows "\<exists>r vm'. Execute E vm = Some (r, vm') \<and> r \<noteq> Panic \<and> r \<noteq> Hang"
  using Execute_run[OF assms(2) NewEngine_running[OF assms(1,3)]] by (auto simp: returns_def)

theorem Execute_terminates_witness:
  "\<exists>r vm'. Execute demo_env demo_engine = Some (r, vm') \<and> r \<noteq> Panic \<and> r \<noteq> Hang"
  by (rule Execute_terminates[OF demo_NewEngine demo_env_ok demo_no_witness])

text \<open>
  Claim C7. The limits of the script rules are invariants of a run.  In every engine reached from a
  new one by successful steps at most 201 operations have been counted, no element on either stack is
  longer than 520 bytes, both stacks together have at most 1000 elements once an opcode of the current script
  has run, both mutexes are free, the program counter points at an opcode, and the current branch is
  executing exactly when every enclosing conditional is.
\<close>

theorem engine_limits:
  assumes "NewEngine pk tx idx flgs cache hashes amt = Ok vm" "env_ok E"
    and "length (Witness (txIns tx ! nat idx)) \<le> 2 ^ 30" "reaches E vm w"
  shows "numOps w \<le> 201 \<and>
    (\<forall>x \<in> set (stk (dstack w)) \<union> set (stk (astack w)). length x \<le> 520) \<and>
    (0 < scriptOff w \<longrightarrow> length (stk (dstack w)) + length (stk (astack w)) \<le> 1000) \<and>
    \<not> stkMutex (dstack w) \<and> \<not> stkMutex (astack w) \<and>
    scriptIdx w < length (scripts w) \<and> scriptOff w < length (scripts w ! scriptIdx w) \<and>
    (isBranchExecuting w \<longleftrightarrow> (\<forall>c \<in> set (condStack w). c = OpCondTrue))"
proof -
  have run: "running w" using reaches_running[OF assms(4,2) NewEngine_running[OF assms(1,3)]] .
  then have "ready w 0 w" by (simp add: running_def)
  then have "numOps w \<le> 201" "\<forall>x \<in> set (stk (dstack w)) \<union> set (stk (astack w)). length x \<le> 520"
    "\<not> stkMutex (dstack w)" "\<not> stkMutex (astack w)" "scriptIdx w < length (scripts w)" "wf_conds (condStack w)"
    by (auto simp: ready_def pc_ok_def stack_inv_def stack_free_def MaxOpsPerScript_def MaxScriptElementSize_def)
  with run wf_conds_executing[of w] show ?thesis by (simp add: running_def)
qed

theorem engine_limits_witness:
  "numOps demo_engine \<le> 201 \<and> \<not> stkMutex (dstack demo_engine) \<and> \<not> stkMutex (astack demo_engine) \<and>
    scriptIdx demo_engine < length (scripts demo_engine) \<and>
    scriptOff demo_engine < length (scripts demo_engine ! scriptIdx demo_engine)"
  using engine_limits[OF demo_NewEngine demo_env_ok demo_no_witness reaches_refl] by simp

text \<open>
  Claim C8. Success means a true result: when \<^verbatim>\<open>Execute\<close> returns nil, the last step left a stack
  whose top element is true, with every script run to its end, and this element was the only one if the
  clean-stack flag is set or a version 0 witness program was run.
\<close>

theorem Execute_success:
  assumes "NewEngine pk tx idx flgs cache hashes amt = Ok vm" "env_ok E"
    and "length (Witness (txIns tx ! nat idx)) \<le> 2 ^ 30" "Execute E vm = Some (Ok (), vm')"
  shows "\<exists>w u top below. reaches E vm w \<and> Step E w = (Ok True, u) \<and> length (scripts u) \<le> scriptIdx u \<and>
    items (dstack u) = top # below \<and> asBool top \<and> items (dstack vm') = below \<and>
    (hasFlag ScriptVerifyCleanStack u \<or> isWitnessVersionActive 0 u \<longrightarrow> below = [])"
proof -
  obtain w u where w: "reaches E vm w" "Step E w = (Ok True, u)" "stacks_ok u"
      "CheckErrorCondition True u = (Ok (), vm')"
    using Execute_run[OF assms(2) NewEngine_running[OF assms(1,3)]] assms(4) by auto
  then have "\<exists>top below. length (scripts u) \<le> scriptIdx u \<and>
      items (dstack u) = top # below \<and> asBool top \<and> items (dstack vm') = below \<and>
      (hasFlag ScriptVerifyCleanStack u \<or> isWitnessVersionActive 0 u \<longrightarrow> below = [])"
    by (auto simp: CheckErrorCondition_run not_less simp del: length_items split: if_splits list.splits)
  with w show ?thesis by blast
qed

theorem Execute_success_witness:
  "\<exists>w u top below. reaches demo_env demo_engine w \<and> Step demo_env w = (Ok True, u) \<and>
    length (scripts u) \<le> scriptIdx u \<and> items (dstack u) = top # below \<and> asBool top \<and>
    items (dstack (demo_engine\<lparr>scriptIdx := 2\<rparr>)) = below"
  using Execute_success[OF demo_NewEngine demo_env_ok demo_no_witness demo_Execute] by blast

text \<open>
  An engine whose scripts have all run must not be stepped again: \<^verbatim>\<open>validPC\<close> finds the
  program counter past the scripts, stores its error in the named result and then returns nil, so \<^verbatim>\<open>Step\<close>
  panics with an index out of range where its callers expect ErrInvalidProgramCounter.
\<close>

theorem Step_past_end_panics:
  assumes "length (scripts vm) \<le> scriptIdx vm"
  shows "Step E vm = (Panic, vm) \<and> (length (scripts vm) = scriptIdx vm \<longrightarrow> validPC vm = (Ok (), vm))"
  using assms by (auto simp: Step_def validPC_def fetchOpcode_def bnd_def nth_res_def)

theorem Step_past_end_panics_witness:
  "Step demo_env (demo_engine\<lparr>scriptIdx := 2\<rparr>) = (Panic, demo_engine\<lparr>scriptIdx := 2\<rparr>) \<and>
   validPC (demo_engine\<lparr>scriptIdx := 2\<rparr>) = (Ok (), demo_engine\<lparr>scriptIdx := 2\<rparr>)"
  using Step_past_end_panics[of "demo_engine\<lparr>scriptIdx := 2\<rparr>" demo_env] by (simp add: demo_engine_def)

subsection \<open>Conditionals\<close>

text \<open>
  The consensus rules keep one boolean per open conditional; code runs when all are true.  An
  IF pushes its condition, or false inside a branch that is not taken, ELSE flips the innermost one, ENDIF
  removes it.
\<close>

definition vf_if :: "bool \<Rightarrow> bool list \<Rightarrow> bool list" where
  "vf_if b vf = vf @ [list_all id vf \<and> b]"

definition vf_else :: "bool list \<Rightarrow> bool list" where
  "vf_else vf = butlast vf @ [\<not> last vf]"

definition cond_rel :: "OpCond list \<Rightarrow> bool list \<Rightarrow> bool" where
  "cond_rel cs vf \<longleftrightarrow> wf_conds cs \<and> list_all2 (\<lambda>c b. c \<noteq> OpCondSkip \<longrightarrow> b = (c = OpCondTrue)) cs vf"

lemma cond_rel_all:
  "cond_rel cs vf \<Longrightarrow> (\<forall>c \<in> set cs. c = OpCondTrue) \<longleftrightarrow> list_all id vf"
  unfolding cond_rel_def
proof (induction cs arbitrary: vf rule: wf_conds.induct)
  case (2 cs)
  then obtain b bs where "vf = b # bs" "b" "list_all2 (\<lambda>c b. c \<noteq> OpCondSkip \<longrightarrow> b = (c = OpCondTrue)) cs bs"
    by (auto simp: list_all2_Cons1)
  then show ?case using 2 by simp
qed (auto simp: list_all2_Cons1)

lemma list_all2_snoc: "list_all2 P (xs @ [x]) (ys @ [y]) \<longleftrightarrow> list_all2 P xs ys \<and> P x y"
  by (auto simp: list_all2_conv_all_nth nth_append less_Suc_eq)

lemma cond_rel_snoc:
  "cond_rel (cs @ [c]) (vf @ [b]) \<longleftrightarrow>
     cond_rel cs vf \<and> (if list_all id vf then c \<noteq> OpCondSkip \<and> b = (c = OpCondTrue) else c = OpCondSkip)"
  using cond_rel_all[of cs vf] by (auto simp: cond_rel_def wf_conds_snoc list_all2_snoc)

lemma cond_rel_executing: "cond_rel (condStack vm) vf \<Longrightarrow> isBranchExecuting vm \<longleftrightarrow> list_all id vf"
  using cond_rel_all wf_conds_executing by (auto simp: cond_rel_def)

lemma cond_rel_if:
  assumes "cond_rel (condStack vm) vf"
    "if isBranchExecuting vm then c = (if b then OpCondTrue else OpCondFalse) else c = OpCondSkip"
  shows "cond_rel (condStack vm @ [c]) (vf_if b vf)"
  using assms cond_rel_executing[OF assms(1)] by (simp add: vf_if_def cond_rel_snoc split: if_splits)

lemma cond_rel_opcodeIf:
  assumes "cond_rel (condStack vm) vf" "opcodeIf pop vm = (Ok (), vm')"
  shows "\<exists>b w. (isBranchExecuting vm \<longrightarrow> popIfBool vm = (Ok b, w)) \<and> cond_rel (condStack vm') (vf_if b vf)"
proof (cases "isBranchExecuting vm")
  case True
  then obtain b w where pop: "popIfBool vm = (Ok b, w)" "vm' = snd (pushCond (if b then OpCondTrue else OpCondFalse) w)"
    using assms(2) by (auto simp: opcodeIf_def bnd_eq_Ok_iff)
  then have "condStack vm' = condStack vm @ [if b then OpCondTrue else OpCondFalse]"
    using popIfBool_conds[OF pop(1)] by (simp add: pushCond_def mod_st_def)
  then show ?thesis using pop(1) True cond_rel_if[OF assms(1)] by force
qed (use assms(2) cond_rel_if[OF assms(1)] in \<open>force simp: opcodeIf_def pushCond_def mod_st_def\<close>)

lemma cond_rel_opcodeNotIf:
  assumes "cond_rel (condStack vm) vf" "opcodeNotIf pop vm = (Ok (), vm')"
  shows "\<exists>b w. (isBranchExecuting vm \<longrightarrow> popIfBool vm = (Ok b, w)) \<and> cond_rel (condStack vm') (vf_if (\<not> b) vf)"
proof (cases "isBranchExecuting vm")
  case True
  then obtain b w where pop: "popIfBool vm = (Ok b, w)" "vm' = snd (pushCond (if \<not> b then OpCondTrue else OpCondFalse) w)"
    using assms(2) by (auto simp: opcodeNotIf_def bnd_eq_Ok_iff)
  then have "condStack vm' = condStack vm @ [if \<not> b then OpCondTrue else OpCondFalse]"
    using popIfBool_conds[OF pop(1)] by (simp add: pushCond_def mod_st_def)
  then show ?thesis using pop(1) True cond_rel_if[OF assms(1), of _ "\<not> b"] by force
qed (use assms(2) cond_rel_if[OF assms(1)] in \<open>force simp: opcodeNotIf_def pushCond_def mod_st_def\<close>)

lemma cond_rel_else_endif:
  assumes "cond_rel (condStack vm) vf"
  shows "if vf = [] then opcodeElse pop vm = (Err (scriptError ErrUnbalancedConditional), vm)
       else \<exists>cs. opcodeElse pop vm = (Ok (), vm\<lparr>condStack := cs\<rparr>) \<and> cond_rel cs (vf_else vf)"
    and "if vf = [] then opcodeEndif pop vm = (Err (scriptError ErrUnbalancedConditional), vm)
       else \<exists>cs. opcodeEndif pop vm = (Ok (), vm\<lparr>condStack := cs\<rparr>) \<and> cond_rel cs (butlast vf)"
proof -
  have "length (condStack vm) = length vf" using assms by (auto simp: cond_rel_def dest: list_all2_lengthD)
  then consider "condStack vm = []" "vf = []"
    | cs c vf' b where "condStack vm = cs @ [c]" "vf = vf' @ [b]"
    by (cases vf rule: rev_cases; cases "condStack vm" rule: rev_cases) auto
  then have "(if vf = [] then opcodeElse pop vm = (Err (scriptError ErrUnbalancedConditional), vm)
       else \<exists>cs. opcodeElse pop vm = (Ok (), vm\<lparr>condStack := cs\<rparr>) \<and> cond_rel cs (vf_else vf)) \<and>
     (if vf = [] then opcodeEndif pop vm = (Err (scriptError ErrUnbalancedConditional), vm)
       else \<exists>cs. opcodeEndif pop vm = (Ok (), vm\<lparr>condStack := cs\<rparr>) \<and> cond_rel cs (butlast vf))"
  proof cases
    case (2 cs c vf' b)
    have "cond_rel (cs @ [invertCond c]) (vf' @ [\<not> b])" "cond_rel cs vf'"
      using assms unfolding 2 by (cases c; auto simp: cond_rel_snoc split: if_splits)+
    then show ?thesis by (auto simp: 2 opcodeElse_def opcodeEndif_def vf_else_def)
  qed (simp add: opcodeElse_def opcodeEndif_def)
  then show "if vf = [] then opcodeElse pop vm = (Err (scriptError ErrUnbalancedConditional), vm)
       else \<exists>cs. opcodeElse pop vm = (Ok (), vm\<lparr>condStack := cs\<rparr>) \<and> cond_rel cs (vf_else vf)"
    and "if vf = [] then opcodeEndif pop vm = (Err (scriptError ErrUnbalancedConditional), vm)
       else \<exists>cs. opcodeEndif pop vm = (Ok (), vm\<lparr>condStack := cs\<rparr>) \<and> cond_rel cs (butlast vf)"
    by blast+
qed

text \<open>
  Claim C11. The three-valued condition stack refines the execution stack of the consensus rules.  When the
  two are related, code is executing in one exactly when it is in the other; an IF that succeeds pushes the
  condition it popped (negated for NOTIF), or any value inside a branch that is not executing, and ELSE and
  ENDIF fail exactly on an empty stack and otherwise keep the relation.
\<close>

theorem conditionals_refine:
  assumes "cond_rel (condStack vm) vf"
  shows "(isBranchExecuting vm \<longleftrightarrow> list_all id vf) \<and>
    (\<forall>vm'. opcodeIf pop vm = (Ok (), vm') \<longrightarrow>
       (\<exists>b w. (isBranchExecuting vm \<longrightarrow> popIfBool vm = (Ok b, w)) \<and> cond_rel (condStack vm') (vf_if b vf))) \<and>
    (\<forall>vm'. opcodeNotIf pop vm = (Ok (), vm') \<longrightarrow>
       (\<exists>b w. (isBranchExecuting vm \<longrightarrow> popIfBool vm = (Ok b, w)) \<and> cond_rel (condStack vm') (vf_if (\<not> b) vf))) \<and>
    (if vf = [] then opcodeElse pop vm = (Err (scriptError ErrUnbalancedConditional), vm)
       else \<exists>cs. opcodeElse pop vm = (Ok (), vm\<lparr>condStack := cs\<rparr>) \<and> cond_rel cs (vf_else vf)) \<and>
    (if vf = [] then opcodeEndif pop vm = (Err (scriptError ErrUnbalancedConditional), vm)
       else \<exists>cs. opcodeEndif pop vm = (Ok (), vm\<lparr>condStack := cs\<rparr>) \<and> cond_rel cs (butlast vf))"
  using cond_rel_executing[OF assms] cond_rel_opcodeIf[OF assms] cond_rel_opcodeNotIf[OF assms]
    cond_rel_else_endif[OF assms, of pop]
  by (intro conjI allI impI)

theorem conditionals_refine_witness:
  "let vm = demo_engine\<lparr>condStack := [OpCondTrue, OpCondFalse]\<rparr>; pop = cur_opcode vm in
   \<not> isBranchExecuting vm \<and>
   (\<exists>cs. opcodeElse pop vm = (Ok (), vm\<lparr>condStack := cs\<rparr>) \<and> cond_rel cs [True, True]) \<and>
   (\<exists>cs. opcodeEndif pop vm = (Ok (), vm\<lparr>condStack := cs\<rparr>) \<and> cond_rel cs [True])"
  using conditionals_refine[of "demo_engine\<lparr>condStack := [OpCondTrue, OpCondFalse]\<rparr>" "[True, False]"]
  unfolding Let_def by (simp add: cond_rel_def vf_else_def)

text \<open>
  Claim C30. A branch that is not executing has no effect: an opcode that is not a conditional changes
  nothing there but the count of operations, and it fails only if it is disabled or always illegal, if it
  exceeds the count, or if it is a push longer than 520 bytes.
\<close>

theorem skipped_opcode_no_effect:
  assumes "\<not> isBranchExecuting vm" "\<not> isConditional pop" "executeOpcode E pop vm = (r, vm')"
  shows "vm' = vm\<lparr>numOps := numOps vm'\<rparr> \<and>
    (r = Ok () \<longleftrightarrow> \<not> isDisabled pop \<and> \<not> alwaysIllegal pop \<and>
       (if pop_value pop > OP_16 then numOps vm < MaxOpsPerScript else length (pop_data pop) \<le> MaxScriptElementSize))"
proof -
  have branch: "\<not> isBranchExecuting (vm\<lparr>numOps := k\<rparr>)" for k using assms(1) by (simp add: isBranchExecuting_def split: if_splits)
  show ?thesis
    using assms branch
    by (cases "pop_value pop > OP_16")
      (auto simp: executeOpcode_def countOp_def bnd_def mod_st_def get_st_def ret_def fail_op_def throw_def split: if_splits)
qed

theorem skipped_opcode_no_effect_witness:
  "let vm = demo_engine\<lparr>condStack := [OpCondFalse]\<rparr>; pop = cur_opcode vm; r = fst (executeOpcode demo_env pop vm);
       vm' = snd (executeOpcode demo_env pop vm)
   in vm' = vm\<lparr>numOps := numOps vm'\<rparr> \<and>
    (r = Ok () \<longleftrightarrow> \<not> isDisabled pop \<and> \<not> alwaysIllegal pop \<and>
       (if pop_value pop > OP_16 then numOps vm < MaxOpsPerScript else length (pop_data pop) \<le> MaxScriptElementSize))"
  unfolding Let_def
  by (rule skipped_opcode_no_effect[OF _ _ surjective_pairing])
    (simp_all add: demo_engine_def isBranchExecuting_def isConditional_def cur_opcode_def op1_entry mk_opcode_def)

end
