(* ===== verification/MultiSig.thy ===== *)
theory MultiSig
  imports EngineSpec "HOL-Library.Sublist"
begin

text \<open>
  Signature checks of the engine.  A check through the cache has the verifier's answer, and the loop of
  OP_CHECKMULTISIG decides whether the signatures can be assigned to keys in order.
\<close>

subsection \<open>The cache behind the engine\<close>

definition cache_sound :: "env \<Rightarrow> Engine \<Rightarrow> bool" where
  "cache_sound E vm \<longleftrightarrow>
     (case sigCache vm of None \<Rightarrow> True
      | Some c \<Rightarrow> \<forall>(k, sig, pk) \<in> sigcache_key c. ec_verify E k sig pk)"

lemma checkSig_run:
  assumes "cache_sound E vm"
  shows "\<exists>c. checkSig E hash sg pk vm = (Ok (ec_verify E hash sg pk), vm\<lparr>sigCache := c\<rparr>) \<and>
    cache_sound E (vm\<lparr>sigCache := c\<rparr>)"
proof (cases "sigCache vm")
  case None
  then show ?thesis using assms by (intro exI[of _ None]) (simp add: checkSig_def cache_sound_def)
next
  case (Some c)
  have sound: "sc.sound (\<lambda>(k, sig, pk). ec_verify E k sig pk) c"
    using assms by (simp add: cache_sound_def Some sc.sound_def)
  let ?c = "snd (sc.checked (cache_first E) (\<lambda>(k, sig, pk). ec_verify E k sig pk) c (hash, sg, pk))"
  have "checkSig E hash sg pk vm =
      (Ok (fst (sc.checked (cache_first E) (\<lambda>(k, sig, pk). ec_verify E k sig pk) c (hash, sg, pk))),
       vm\<lparr>sigCache := Some ?c\<rparr>)"
    using Some by (simp add: checkSig_def sc.checked_def)
  then show ?thesis
    using sc.checked_sound[OF sound] by (intro exI[of _ "Some ?c"]) (simp add: cache_sound_def sc.sound_def)
qed

subsection \<open>Assigning signatures to keys\<close>

text \<open>A raw signature is valid for a key: both parse and the verifier accepts the hash of the script.\<close>

definition sig_key_valid :: "env \<Rightarrow> parsedOpcode list \<Rightarrow> Engine \<Rightarrow> byte list \<Rightarrow> byte list \<Rightarrow> bool" where
  "sig_key_valid E script vm rawSig pubKey \<longleftrightarrow> rawSig \<noteq> [] \<and>
     (\<exists>psig pk h. parseSigFlags (butlast rawSig) vm = Ok psig \<and> ParsePubKey pubKey = Ok pk \<and>
        fst (sigHash script (ucast (last rawSig)) vm) = Ok h \<and> ec_verify E h psig pk)"

definition info_ok :: "Engine \<Rightarrow> parsedSigInfo \<Rightarrow> bool" where
  "info_ok vm info \<longleftrightarrow> parsedSig info = None \<or> 
     parsedSig info = Some (case parseSigFlags (butlast (signature info)) vm of Ok s \<Rightarrow> Some s | _ \<Rightarrow> None)"

lemma frame_sigCache [simp]:
  "parseSigFlags sg (vm\<lparr>sigCache := c\<rparr>) = parseSigFlags sg vm"
  "fst (sigHash script h (vm\<lparr>sigCache := c\<rparr>)) = fst (sigHash script h vm)"
  "sig_key_valid E script (vm\<lparr>sigCache := c\<rparr>) = sig_key_valid E script vm"
  "info_ok (vm\<lparr>sigCache := c\<rparr>) = info_ok vm"
proof -
  show p: "parseSigFlags sg (vm\<lparr>sigCache := c\<rparr>) = parseSigFlags sg vm" for sg
    by (simp add: parseSigFlags_def hasFlag_def)
  show h: "fst (sigHash script h (vm\<lparr>sigCache := c\<rparr>)) = fst (sigHash script h vm)" for h
    by (simp add: sigHash_def isWitnessVersionActive_def Let_def split: option.split)
  show "sig_key_valid E script (vm\<lparr>sigCache := c\<rparr>) = sig_key_valid E script vm"
    "info_ok (vm\<lparr>sigCache := c\<rparr>) = info_ok vm"
    by (intro ext, simp add: sig_key_valid_def p h info_ok_def)+
qed

lemma sigHash_state: "sigHash script h vm = (fst (sigHash script h vm), vm)"
  by (simp add: sigHash_def Let_def)

lemma checks_Ok:
  "checkHashTypeEncoding h vm = (Ok (), w) \<Longrightarrow> w = vm"
  "checkSignatureEncoding s vm = (Ok (), w) \<Longrightarrow> w = vm"
  "checkPubKeyEncoding k vm = (Ok (), w) \<Longrightarrow> w = vm"
  by (auto simp: checkHashTypeEncoding_def checkSignatureEncoding_def checkPubKeyEncoding_def Let_def split: if_splits)

lemma try_parse_Ok:
  "try_parse r vm = (Ok mp, w) \<Longrightarrow> w = vm \<and> mp = (case r of Ok s \<Rightarrow> Some s | _ \<Rightarrow> None)"
  by (cases r) (auto simp: try_parse_def)

text \<open>One signature against one key, as the loop does it.\<close>

lemma round_parse:
  assumes "info_ok vm info" "(case parsedSig info of
       None \<Rightarrow> bnd (checkHashTypeEncoding h) (\<lambda>_. bnd (checkSignatureEncoding (butlast (signature info))) (\<lambda>_.
                 (\<lambda>vm. try_parse (parseSigFlags (butlast (signature info)) vm) vm)))
     | Some p \<Rightarrow> ret p) vm = (Ok mp, w)"
  shows "w = vm \<and> mp = (case parseSigFlags (butlast (signature info)) vm of Ok s \<Rightarrow> Some s | _ \<Rightarrow> None)"
  using assms
  by (auto simp: info_ok_def bnd_eq_Ok_iff ret_def dest!: checks_Ok try_parse_Ok split: option.splits)

lemma check_key_Ok:
  assumes "bnd (checkPubKeyEncoding k) (\<lambda>_.
      bnd (try_parse (ParsePubKey k)) (\<lambda>mpk.
        case mpk of
          None \<Rightarrow> no
        | Some pk \<Rightarrow> bnd (sigHash script h) (\<lambda>hash. bnd (checkSig E hash psig pk) (\<lambda>valid. if valid then yes else no)))) vm =
      (Ok b, vm')"
    and "cache_sound E vm"
  shows "\<exists>c. cache_sound E (vm\<lparr>sigCache := c\<rparr>) \<and>
    (if \<exists>pk hash. ParsePubKey k = Ok pk \<and> fst (sigHash script h vm) = Ok hash \<and> ec_verify E hash psig pk then yes else no)
      (vm\<lparr>sigCache := c\<rparr>) = (Ok b, vm')"
proof -
  have "(case (case ParsePubKey k of Ok pk \<Rightarrow> Some pk | _ \<Rightarrow> None) of
          None \<Rightarrow> no
        | Some pk \<Rightarrow> bnd (sigHash script h) (\<lambda>hash. bnd (checkSig E hash psig pk) (\<lambda>valid. if valid then yes else no))) vm =
      (Ok b, vm')"
    using assms(1)
    by (auto simp: bnd_eq_Ok_iff[of "checkPubKeyEncoding k"] bnd_eq_Ok_iff[of "try_parse (ParsePubKey k)"]
        dest!: checks_Ok try_parse_Ok)
  note after = this
  show ?thesis
  proof (cases "\<exists>pk. ParsePubKey k = Ok pk")
    case False
    then have "no (vm\<lparr>sigCache := sigCache vm\<rparr>) = (Ok b, vm')" using after by (auto split: res.splits)
    then show ?thesis using False assms(2) by (intro exI[of _ "sigCache vm"]) auto
  next
    case True
    then obtain pk where pk: "ParsePubKey k = Ok pk" by blast
    then obtain hash where hash: "fst (sigHash script h vm) = Ok hash"
        "bnd (checkSig E hash psig pk) (\<lambda>valid. if valid then yes else no) vm = (Ok b, vm')"
      using after sigHash_state[of script h vm] by (auto simp: bnd_eq_Ok_iff[of "sigHash script h"])
    obtain c where c: "checkSig E hash psig pk vm = (Ok (ec_verify E hash psig pk), vm\<lparr>sigCache := c\<rparr>)"
        "cache_sound E (vm\<lparr>sigCache := c\<rparr>)"
      using checkSig_run[OF assms(2)] by blast
    then show ?thesis using hash pk by (intro exI[of _ c]) (auto simp: bnd_def)
  qed
qed

lemma round_Ok:
  assumes "multiSigLoop E script (info # sigs) (k # ks) vm = (Ok b, vm')"
    and "\<not> length (info # sigs) > length (k # ks)" "cache_sound E vm" "info_ok vm info"
  shows "\<exists>c infos. cache_sound E (vm\<lparr>sigCache := c\<rparr>) \<and>
    multiSigLoop E script infos ks (vm\<lparr>sigCache := c\<rparr>) = (Ok b, vm') \<and>
    (if sig_key_valid E script vm (signature info) k then infos = sigs
     else \<exists>info'. infos = info' # sigs \<and> signature info' = signature info \<and> info_ok vm info')"
proof (cases "signature info = []")
  case True
  then have "multiSigLoop E script (info # sigs) ks (vm\<lparr>sigCache := sigCache vm\<rparr>) = (Ok b, vm')"
    using assms(1,2) by simp
  moreover have "\<not> sig_key_valid E script vm (signature info) k" using True by (simp add: sig_key_valid_def)
  ultimately show ?thesis using assms(3,4) by (intro exI[of _ "sigCache vm"] exI[of _ "info # sigs"]) simp
next
  case False
  let ?mp = "case parseSigFlags (butlast (signature info)) vm of Ok s \<Rightarrow> Some s | _ \<Rightarrow> None"
  let ?info = "info\<lparr>parsedSig := Some ?mp\<rparr>"
  have info: "info_ok vm ?info" "signature ?info = signature info" by (simp_all add: info_ok_def)
  have rest: "(case ?mp of
        None \<Rightarrow> multiSigLoop E script (?info # sigs) ks
      | Some psig \<Rightarrow>
          bnd (checkPubKeyEncoding k) (\<lambda>_.
          bnd (try_parse (ParsePubKey k)) (\<lambda>mpk.
            case mpk of
              None \<Rightarrow> multiSigLoop E script (?info # sigs) ks
            | Some pk \<Rightarrow>
                bnd (sigHash script (ucast (last (signature info)))) (\<lambda>hash.
                bnd (checkSig E hash psig pk) (\<lambda>valid.
                  if valid then multiSigLoop E script sigs ks
                  else multiSigLoop E script (?info # sigs) ks))))) vm = (Ok b, vm')"
    using assms(1,2) False
    by (auto simp: Let_def bnd_eq_Ok_iff[of "case parsedSig info of None \<Rightarrow> _ | Some p \<Rightarrow> _ p"]
        dest!: round_parse[OF assms(4)])
  have "\<exists>c. cache_sound E (vm\<lparr>sigCache := c\<rparr>) \<and>
      multiSigLoop E script (if sig_key_valid E script vm (signature info) k then sigs else ?info # sigs) ks
        (vm\<lparr>sigCache := c\<rparr>) = (Ok b, vm')"
  proof (cases ?mp)
    case None
    then have "\<not> sig_key_valid E script vm (signature info) k" by (auto simp: sig_key_valid_def)
    with rest None assms(3) show ?thesis by (intro exI[of _ "sigCache vm"]) simp
  next
    case (Some psig)
    then have valid: "sig_key_valid E script vm (signature info) k \<longleftrightarrow> (\<exists>pk hash. ParsePubKey k = Ok pk \<and>
        fst (sigHash script (ucast (last (signature info))) vm) = Ok hash \<and> ec_verify E hash psig pk)"
      using False by (auto simp: sig_key_valid_def split: res.splits)
    from check_key_Ok[OF rest[unfolded Some option.case] assms(3), folded valid] show ?thesis
      unfolding Some by (cases "sig_key_valid E script vm (signature info) k") (simp_all only: if_True if_False)
  qed
  then obtain c where "cache_sound E (vm\<lparr>sigCache := c\<rparr>)"
      "multiSigLoop E script (if sig_key_valid E script vm (signature info) k then sigs else ?info # sigs) ks
        (vm\<lparr>sigCache := c\<rparr>) = (Ok b, vm')"
    by blast
  with info show ?thesis
    by (intro exI[of _ c] exI[of _ "if sig_key_valid E script vm (signature info) k then sigs else ?info # sigs"]) simp
qed

lemma multiSigLoop_Ok:
  assumes "multiSigLoop E script infos ks vm = (Ok b, vm')" "cache_sound E vm" "\<forall>i \<in> set infos. info_ok vm i"
  shows "\<exists>c. vm' = vm\<lparr>sigCache := c\<rparr> \<and> cache_sound E vm' \<and>
    b = list_emb (sig_key_valid E script vm) (map signature infos) ks"
  using assms
proof (induction ks arbitrary: infos vm)
  case Nil
  then show ?case by (intro exI[of _ "sigCache vm"]) (cases infos; simp add: ret_def)
next
  case (Cons k ks)
  let ?V = "sig_key_valid E script vm"
  show ?case
  proof (cases infos)
    case Nil
    then show ?thesis using Cons.prems by (intro exI[of _ "sigCache vm"]) (simp add: ret_def)
  next
    case (Cons info sigs)
    show ?thesis
    proof (cases "length (info # sigs) > length (k # ks)")
      case True
      then have "\<not> list_emb ?V (map signature infos) (k # ks)"
        using list_emb_length[of ?V "map signature infos" "k # ks"] Cons by auto
      then show ?thesis
        using True \<open>infos = info # sigs\<close> Cons.prems by (intro exI[of _ "sigCache vm"]) (simp add: ret_def)
    next
      case False
      have run: "multiSigLoop E script (info # sigs) (k # ks) vm = (Ok b, vm')" and ok: "info_ok vm info"
        using Cons.prems(1,3) \<open>infos = info # sigs\<close> by (simp_all only: list.set_intros ball_simps)
      obtain c infos' where r: "cache_sound E (vm\<lparr>sigCache := c\<rparr>)"
          "multiSigLoop E script infos' ks (vm\<lparr>sigCache := c\<rparr>) = (Ok b, vm')"
          "if ?V (signature info) k then infos' = sigs
           else \<exists>info'. infos' = info' # sigs \<and> signature info' = signature info \<and> info_ok vm info'"
        using round_Ok[OF run False Cons.prems(2) ok] by blast
      have "\<forall>i \<in> set infos'. info_ok (vm\<lparr>sigCache := c\<rparr>) i"
        using r(3) Cons.prems(3) \<open>infos = info # sigs\<close> by (auto split: if_splits)
      from Cons.IH[OF r(2,1) this] show ?thesis
        using r(3) \<open>infos = info # sigs\<close> by (auto split: if_splits)
    qed
  qed
qed

subsection \<open>The opcode\<close>

lemma popN_run:
  assumes "stack_free (dstack vm)" "stack_fits (dstack vm)" "items (dstack vm) = xs @ r"
  shows "popN (length xs) vm = (Ok xs, vm\<lparr>dstack := with_items (dstack vm) r\<rparr>)"
  using assms
proof (induction xs arbitrary: vm)
  case Nil
  then have "with_items (dstack vm) r = dstack vm" using with_items_items[of "dstack vm"] by simp
  then show ?case by (simp add: ret_def)
next
  case (Cons x xs)
  have "stack_fits (with_items (dstack vm) (xs @ r))"
    using Cons.prems(2,3) length_items[of "dstack vm"] by (simp add: stack_fits_def)
  then show ?case
    using Cons.IH[of "vm\<lparr>dstack := with_items (dstack vm) (xs @ r)\<rparr>"] Cons.prems
    by (simp add: bnd_def on_d_def on_part_def Pop_run ret_def)
qed

lemma popInt_on_d:
  assumes "stack_free (dstack vm)" "stack_fits (dstack vm)" "items (dstack vm) = x # xs"
    "makeScriptNum x (verifyMinimalData (dstack vm)) defaultScriptNumLen = Ok (int n)" "n \<le> 20"
  shows "on_d PopInt vm = (Ok (int n), vm\<lparr>dstack := with_items (dstack vm) xs\<rparr>)" "scriptNum_Int32 (int n) = int n"
  using assms by (simp_all add: on_d_def on_part_def PopInt_run scriptNum_Int32_def maxInt32_def minInt32_def)

lemma subScript_Ok: "subScript vm = (Ok sub, w) \<Longrightarrow> w = vm"
  by (auto simp: subScript_def split: if_splits)

text \<open>The script a signature of OP_CHECKMULTISIG signs.\<close>

definition multisig_script :: "Engine \<Rightarrow> byte list list \<Rightarrow> parsedOpcode list" where
  "multisig_script vm sigs =
     (let sub = drop (lastCodeSep vm) (scripts vm ! scriptIdx vm)
      in if isWitnessVersionActive 0 vm then sub else foldl removeOpcodeByData sub sigs)"

lemma frame_multisig:
  "sig_key_valid E script (vm\<lparr>numOps := n, dstack := s\<rparr>) = sig_key_valid E script vm"
  by (intro ext) (simp add: sig_key_valid_def parseSigFlags_def sigHash_def hasFlag_def isWitnessVersionActive_def
      Let_def split: option.split)

lemma checkmultisig_stages:
  assumes "stacks_ok vm"
    and "items (dstack vm) = nb # keys @ mb # sigs @ dummy # rest"
    and "makeScriptNum nb (verifyMinimalData (dstack vm)) defaultScriptNumLen = Ok (int (length keys))"
    and "makeScriptNum mb (verifyMinimalData (dstack vm)) defaultScriptNumLen = Ok (int (length sigs))"
    and "length sigs \<le> length keys" "length keys \<le> 20"
    and run: "opcodeCheckMultiSig E pop vm = (Ok (), vm')"
  shows "\<exists>ops sub success vm7. let w = vm\<lparr>numOps := ops, dstack := with_items (dstack vm) rest\<rparr> in
      subScript w = (Ok sub, w) \<and>
      multiSigLoop E (if isWitnessVersionActive 0 vm then sub else foldl removeOpcodeByData sub sigs)
        (map (\<lambda>s. \<lparr>signature = s, parsedSig = None\<rparr>) sigs) keys w = (Ok success, vm7) \<and>
      on_d (PushBool success) vm7 = (Ok (), vm')"
proof -
  let ?d = "dstack vm"
  define ops where "ops = numOps vm + int (length keys)"
  let ?w = "\<lambda>r. vm\<lparr>numOps := ops, dstack := with_items ?d r\<rparr>"
  note free = stacks_okD(1)[OF assms(1)]
  have fits: "length keys + (length sigs + length rest) < 2147483645"
    using stacks_okD(2)[OF assms(1)] length_items[of ?d] assms(2) by (simp add: stack_fits_def)
  have p1: "on_d PopInt vm = (Ok (int (length keys)), vm\<lparr>dstack := with_items ?d (keys @ mb # sigs @ dummy # rest)\<rparr>)"
    "scriptNum_Int32 (int (length keys)) = int (length keys)"
    using popInt_on_d[OF free stacks_okD(2)[OF assms(1)] assms(2,3,6)] by simp_all
  have p2: "popN (length keys) (vm\<lparr>dstack := with_items ?d (keys @ mb # sigs @ dummy # rest), numOps := ops\<rparr>) =
      (Ok keys, ?w (mb # sigs @ dummy # rest))"
    using popN_run[of "vm\<lparr>dstack := with_items ?d (keys @ mb # sigs @ dummy # rest), numOps := ops\<rparr>" keys "mb # sigs @ dummy # rest"] free fits by simp
  have p3: "on_d PopInt (?w (mb # sigs @ dummy # rest)) = (Ok (int (length sigs)), ?w (sigs @ dummy # rest))"
    "scriptNum_Int32 (int (length sigs)) = int (length sigs)"
    using popInt_on_d[of "?w (mb # sigs @ dummy # rest)" mb "sigs @ dummy # rest" "length sigs"] free fits assms(4-6)
    by simp_all
  have p4: "popN (length sigs) (?w (sigs @ dummy # rest)) = (Ok sigs, ?w (dummy # rest))"
    using popN_run[of "?w (sigs @ dummy # rest)" sigs "dummy # rest"] free fits by simp
  have p5: "on_d PopByteArray (?w (dummy # rest)) = (Ok dummy, ?w rest)"
    using Pop_run[of "with_items ?d (dummy # rest)"] free fits by (simp add: on_d_def on_part_def)
  have wit: "isWitnessVersionActive 0 (?w rest) = isWitnessVersionActive 0 vm" by (simp add: isWitnessVersionActive_def)
  let ?script = "\<lambda>sub. if isWitnessVersionActive 0 vm then sub else foldl removeOpcodeByData sub sigs"
  have tail: "bnd subScript (\<lambda>sub. bnd (get_st (isWitnessVersionActive 0)) (\<lambda>wit.
      bnd (multiSigLoop E (if wit then sub else foldl removeOpcodeByData sub sigs) (map (\<lambda>s. \<lparr>signature = s, parsedSig = None\<rparr>) sigs) keys)
      (\<lambda>success. bnd (get_st (hasFlag ScriptVerifyNullFail)) (\<lambda>nullFail.
         if \<not> success \<and> nullFail \<and> (\<exists>s \<in> set sigs. length s > 0) then fail_op ErrNullFail
         else on_d (PushBool success))))) (?w rest) = (Ok (), vm')"
    using run
    by (simp add: opcodeCheckMultiSig_def Let_def bnd_Ok[of "on_d PopInt" vm, OF p1(1)]
        bnd_Ok[of "popN (length keys)", OF p2] bnd_Ok[of "on_d PopInt" "?w _", OF p3(1)]
        bnd_Ok[of "popN (length sigs)" "?w _", OF p4] bnd_Ok[of "on_d PopByteArray" "?w _", OF p5]
        bnd_Ok[OF mod_st_run] bnd_Ok[OF get_st_run] p1(2) p3(2) ops_def[symmetric] fail_op_def throw_def
        split: if_split_asm)
  from tail obtain sub w1 where s: "subScript (?w rest) = (Ok sub, w1)"
      "bnd (get_st (isWitnessVersionActive 0)) (\<lambda>wit.
        bnd (multiSigLoop E (if wit then sub else foldl removeOpcodeByData sub sigs)
          (map (\<lambda>s. \<lparr>signature = s, parsedSig = None\<rparr>) sigs) keys)
        (\<lambda>success. bnd (get_st (hasFlag ScriptVerifyNullFail)) (\<lambda>nullFail.
           if \<not> success \<and> nullFail \<and> (\<exists>s \<in> set sigs. length s > 0) then fail_op ErrNullFail
           else on_d (PushBool success)))) w1 = (Ok (), vm')"
    by (rule bnd_Ok_elim)
  have "w1 = ?w rest" using s(1) by (rule subScript_Ok)
  with s(2) wit have "bnd (multiSigLoop E (?script sub) (map (\<lambda>s. \<lparr>signature = s, parsedSig = None\<rparr>) sigs) keys)
        (\<lambda>success. bnd (get_st (hasFlag ScriptVerifyNullFail)) (\<lambda>nullFail.
           if \<not> success \<and> nullFail \<and> (\<exists>s \<in> set sigs. length s > 0) then fail_op ErrNullFail
           else on_d (PushBool success))) (?w rest) = (Ok (), vm')"
    by (simp add: bnd_Ok[OF get_st_run])
  then obtain success vm7 where loop:
      "multiSigLoop E (?script sub) (map (\<lambda>s. \<lparr>signature = s, parsedSig = None\<rparr>) sigs) keys (?w rest) = (Ok success, vm7)"
      "on_d (PushBool success) vm7 = (Ok (), vm')"
    by (rule bnd_Ok_elim) (auto simp: bnd_Ok[OF get_st_run] fail_op_def throw_def split: if_split_asm)
  have "subScript (?w rest) = (Ok sub, ?w rest)" using s(1) \<open>w1 = ?w rest\<close> by simp
  with loop show ?thesis unfolding Let_def by blast
qed

text \<open>
  Claim C9. OP_CHECKMULTISIG decides the threshold rule: with n keys, m signatures and the extra
  element on the stack, if it succeeds it replaces them by true exactly when the signatures can be
  assigned to the keys in order, each to a key it verifies for, over the script after the last
  OP_CODESEPARATOR (without the signatures themselves outside witness programs), and by false otherwise;
  a sound signature cache stays sound.
\<close>

theorem checkmultisig_threshold:
  assumes "stacks_ok vm" "cache_sound E vm"
    and "items (dstack vm) = nb # keys @ mb # sigs @ dummy # rest"
    and "makeScriptNum nb (verifyMinimalData (dstack vm)) defaultScriptNumLen = Ok (int (length keys))"
    and "makeScriptNum mb (verifyMinimalData (dstack vm)) defaultScriptNumLen = Ok (int (length sigs))"
    and "length sigs \<le> length keys" "length keys \<le> 20"
    and run: "opcodeCheckMultiSig E pop vm = (Ok (), vm')"
  shows "items (dstack vm') =
      fromBool (list_emb (sig_key_valid E (multisig_script vm sigs) vm) sigs keys) # rest \<and> cache_sound E vm'"
proof -
  obtain ops sub success vm7 where
      s: "subScript (vm\<lparr>numOps := ops, dstack := with_items (dstack vm) rest\<rparr>) =
        (Ok sub, vm\<lparr>numOps := ops, dstack := with_items (dstack vm) rest\<rparr>)"
      and loop: "multiSigLoop E (if isWitnessVersionActive 0 vm then sub else foldl removeOpcodeByData sub sigs)
          (map (\<lambda>s. \<lparr>signature = s, parsedSig = None\<rparr>) sigs) keys
          (vm\<lparr>numOps := ops, dstack := with_items (dstack vm) rest\<rparr>) = (Ok success, vm7)"
        "on_d (PushBool success) vm7 = (Ok (), vm')"
    using checkmultisig_stages[OF assms(1,3-7) run] unfolding Let_def by blast
  let ?w = "vm\<lparr>numOps := ops, dstack := with_items (dstack vm) rest\<rparr>"
  have sub: "(if isWitnessVersionActive 0 vm then sub else foldl removeOpcodeByData sub sigs) = multisig_script vm sigs"
    using s by (auto simp: subScript_def multisig_script_def Let_def split: if_splits)
  have "cache_sound E ?w" using assms(2) by (simp add: cache_sound_def)
  then obtain c where vm7: "vm7 = ?w\<lparr>sigCache := c\<rparr>" "cache_sound E vm7"
      "success = list_emb (sig_key_valid E (multisig_script vm sigs) vm) sigs keys"
    using multiSigLoop_Ok[OF loop(1)[unfolded sub]] by (auto simp: info_ok_def comp_def frame_multisig)
  then show ?thesis
    using loop(2) stacks_okD(1)[OF assms(1)] by (auto simp: on_d_def on_part_def PushBool_run cache_sound_def)
qed

text \<open>A stack with one key and one empty signature.\<close>

definition demo_multisig :: Engine where
  "demo_multisig = demo_engine\<lparr>dstack := \<lparr>stk = [[], [], [1], [], [1]], stkMutex = False, verifyMinimalData = False\<rparr>\<rparr>"

lemma demo_multisig_run: "\<exists>vm'. opcodeCheckMultiSig demo_env pop demo_multisig = (Ok (), vm')"
  by (simp add: opcodeCheckMultiSig_def demo_multisig_def demo_engine_def on_d_def on_part_def bnd_def PopInt_def
      PopByteArray_def nipN_def Lock_def Unlock_def Let_def ret_def makeScriptNum_cases defaultScriptNumLen_def sn_val_def
      scriptNum_Int32_def maxInt32_def minInt32_def MaxPubKeysPerMultiSig_def MaxOpsPerScript_def mod_st_def get_st_def
      hasFlag_def flag_defs subScript_def isWitnessVersionActive_def PushBool_def PushByteArray_def)

theorem checkmultisig_threshold_witness:
  "\<exists>vm'. opcodeCheckMultiSig demo_env (cur_opcode demo_engine) demo_multisig = (Ok (), vm') \<and>
    items (dstack vm') = [fromBool (list_emb (sig_key_valid demo_env (multisig_script demo_multisig [[]]) demo_multisig) [[]] [[]])]"
proof -
  obtain vm' where run: "opcodeCheckMultiSig demo_env (cur_opcode demo_engine) demo_multisig = (Ok (), vm')"
    using demo_multisig_run by blast
  have "stacks_ok demo_multisig"
    by (simp add: stacks_ok_def stack_inv_def demo_multisig_def demo_engine_def stack_free_def emptyStack_def MaxScriptElementSize_def)
  from checkmultisig_threshold[OF this _ _ _ _ _ _ run, of "[1]" "[[]]" "[1]" "[[]]" "[]" "[]"] run show ?thesis
    by (simp add: cache_sound_def demo_multisig_def demo_engine_def items_def makeScriptNum_cases defaultScriptNumLen_def sn_val_def)
qed

end
