(* ===== verification/SigEncoding.thy ===== *)
theory SigEncoding
  imports EngineSpec
begin

text \<open>
  The encoding rules for signatures in the engine (\<^verbatim>\<open>checkSignatureEncoding\<close>) against the serialiser of
  signatures: with the low-S flag a signature has exactly one accepted encoding.
\<close>

lemma padding_ok_iff:
  "padding_ok bs \<longleftrightarrow> bs \<noteq> [] \<and> bs ! 0 AND 0x80 = 0 \<and> (length bs > 1 \<and> bs ! 0 = 0 \<longrightarrow> bs ! 1 AND 0x80 \<noteq> 0)"
  using byte_top_bit[of "bs ! 0"] byte_top_bit[of "bs ! 1"]
  by (cases bs) (auto simp: padding_ok_def canonicalPadding_def nth_res_def split: if_splits)

definition der_form :: "bool \<Rightarrow> byte list \<Rightarrow> byte list \<Rightarrow> byte list \<Rightarrow> bool" where
  "der_form lowS sig rb sb \<longleftrightarrow> sig = sig_bytes rb sb \<and> padding_ok rb \<and> padding_ok sb \<and> length sig \<le> 72 \<and>
     (lowS \<longrightarrow> be_val sb \<le> halfOrder)"

lemma sigEncoding_accepts:
  assumes "sigEncoding lowS sig = Ok ()"
  shows "\<exists>rb sb. der_form lowS sig rb sb"
proof -
  define n m where "n = unat (sig ! 3)" and "m = unat (sig ! (5 + n))"
  define rb sb where "rb = take n (drop 4 sig)" and "sb = take m (drop (6 + n) sig)"
  have facts: "length sig \<le> 72" "sig ! 0 = 0x30" "int (unat (sig ! 1)) = int (length sig) - 2" "5 + n < length sig"
    "6 + n + m = length sig" "sig ! 2 = 0x02" "0 < n" "sig ! 4 AND 0x80 = 0" "1 < n \<and> sig ! 4 = 0 \<longrightarrow> sig ! 5 AND 0x80 \<noteq> 0"
    "sig ! (4 + n) = 0x02" "0 < m" "sig ! (6 + n) AND 0x80 = 0" "1 < m \<and> sig ! (6 + n) = 0 \<longrightarrow> sig ! (7 + n) AND 0x80 \<noteq> 0"
    "lowS \<longrightarrow> be_val sb \<le> halfOrder"
    using assms unfolding sigEncoding_def Let_def res_Ok_iffs
    unfolding n_def m_def sb_def
    by (auto simp: not_less not_le slice_res_def split: if_splits)
  have len: "length rb = n" "length sb = m" using facts(4,5) by (simp_all add: rb_def sb_def)
  have "sig ! 1 = word_of_nat (4 + n + m)"
  proof -
    have "unat (sig ! 1) = 4 + n + m" using facts(3,5) by linarith
    moreover have "word_of_nat (unat (sig ! 1)) = sig ! 1" by simp
    ultimately show ?thesis by metis
  qed
  moreover have "sig ! 3 = word_of_nat n" "sig ! (5 + n) = word_of_nat m" by (simp_all add: n_def m_def)
  moreover have "sig = [sig ! 0, sig ! 1, sig ! 2, sig ! 3] @ rb @ [sig ! (4 + n), sig ! (5 + n)] @ sb"
    unfolding rb_def sb_def by (rule sig_list_split) (use facts(5) in simp)
  ultimately have "sig = sig_bytes rb sb"
    unfolding sig_bytes_def len by (metis facts(2,6,10))
  moreover have "padding_ok rb" "padding_ok sb"
    using facts(7-9,11-13) len facts(5) by (auto simp: padding_ok_iff rb_def sb_def add.commute)
  ultimately show ?thesis using facts(1,14) by (auto simp: der_form_def)
qed

lemma sigEncoding_complete:
  assumes "der_form lowS sig rb sb"
  shows "sigEncoding lowS sig = Ok ()"
proof -
  define n m where "n = length rb" and "m = length sb"
  have pad: "rb \<noteq> []" "sb \<noteq> []" "padding_ok rb" "padding_ok sb" and low: "lowS \<longrightarrow> be_val sb \<le> halfOrder"
    and sig: "sig = sig_bytes rb sb"
    using assms by (auto simp: der_form_def padding_ok_iff)
  have nm: "0 < n" "0 < m" "length sig = 6 + n + m" "n + m \<le> 66"
    using assms pad by (auto simp: der_form_def n_def m_def sig_bytes_def)
  have vals: "unat (word_of_nat (4 + n + m) :: byte) = 4 + n + m" "unat (word_of_nat n :: byte) = n"
    "unat (word_of_nat m :: byte) = m"
    using nm by (simp_all only: unat_small)
  have els: "sig ! 0 = 0x30" "sig ! Suc 0 = word_of_nat (4 + n + m)" "sig ! 2 = 0x02" "sig ! 3 = word_of_nat n"
    "sig ! (4 + n) = 0x02" "sig ! (5 + n) = word_of_nat m" "sig ! 4 = rb ! 0" "sig ! (6 + n) = sb ! 0"
    "1 < n \<Longrightarrow> sig ! 5 = rb ! 1" "1 < m \<Longrightarrow> sig ! (7 + n) = sb ! 1"
    using pad by (simp_all add: sig sig_bytes_def n_def m_def nth_append)
  have sb: "take m (drop (6 + n) sig) = sb" "drop (6 + n) sig = sb"
    by (simp_all add: sig sig_bytes_def n_def m_def numeral_eq_Suc)
  have u: "uint (word_of_nat (4 + n + m) :: byte) = int (length sig) - 2"
    using vals(1) nm(3) by (simp add: uint_nat)
  have pads: "rb ! 0 AND 0x80 = 0" "sb ! 0 AND 0x80 = 0"
    "1 < n \<Longrightarrow> rb ! 0 = 0 \<Longrightarrow> rb ! 1 AND 0x80 \<noteq> 0" "1 < m \<Longrightarrow> sb ! 0 = 0 \<Longrightarrow> sb ! 1 AND 0x80 \<noteq> 0"
    using pad(3,4) by (auto simp: padding_ok_iff n_def m_def)
  show ?thesis
    using nm els vals u pads low sb
    by (cases lowS) (simp_all add: sigEncoding_def Let_def slice_res_def leD)
qed

lemma sigEncoding_iff: "sigEncoding lowS sig = Ok () \<longleftrightarrow> (\<exists>rb sb. der_form lowS sig rb sb)"
  using sigEncoding_accepts sigEncoding_complete by blast

lemma sig_bytes_inj:
  assumes "sig_bytes rb sb = sig_bytes rb' sb' @ rest" "length rb + length sb < 250" "length rb' + length sb' < 250"
  shows "rb = rb' \<and> sb = sb'"
proof -
  have u: "unat (word_of_nat (length rb) :: byte) = length rb" "unat (word_of_nat (length rb') :: byte) = length rb'"
    "unat (word_of_nat (length sb) :: byte) = length sb" "unat (word_of_nat (length sb') :: byte) = length sb'"
    using assms(2,3) by (intro unat_small; linarith)+
  have eq: "(word_of_nat (length rb) :: byte) = word_of_nat (length rb')"
    "rb @ 2 # word_of_nat (length sb) # sb = rb' @ 2 # word_of_nat (length sb') # sb' @ rest"
    using assms(1) unfolding sig_bytes_def append_Cons append_Nil append_assoc list.inject by blast+
  have "length rb = length rb'" using arg_cong[OF eq(1), of unat] u by argo
  with eq(2) have tail: "rb = rb'" "(word_of_nat (length sb) :: byte) = word_of_nat (length sb')" "sb = sb' @ rest"
    using append_eq_append_conv[of rb rb'] by (metis list.inject)+
  have "length sb = length sb'" using arg_cong[OF tail(2), of unat] u by argo
  with tail show ?thesis by simp
qed

text \<open>
  Claim C21. With the DER and low-S rules on, the engine accepts exactly one encoding of a signature: the bytes pass
  \<^verbatim>\<open>checkSignatureEncoding\<close> and parse to a signature if and only if that signature has its values in the
  range of the curve order, S in the lower half, and the bytes are its serialisation.  So a third party cannot
  re-encode a signature.
\<close>

theorem low_S_encoding_unique:
  assumes "hasFlag ScriptVerifyDERSignatures vm" "hasFlag ScriptVerifyLowS vm"
  shows "checkSignatureEncoding bytes vm = (Ok (), vm) \<and> parseSigFlags bytes vm = Ok sig \<longleftrightarrow>
    0 < R sig \<and> R sig < curveN \<and> 0 < S sig \<and> S sig \<le> halfOrder \<and> bytes = Signature_Serialize sig"
    (is "?L \<longleftrightarrow> ?R")
proof
  assume ?L
  then obtain rb sb where form: "der_form True bytes rb sb"
    using assms sigEncoding_accepts[of True bytes] by (auto simp: checkSignatureEncoding_def)
  from \<open>?L\<close> have "parseSig bytes True = Ok sig"
    using assms by (simp add: parseSigFlags_def ParseDERSignature_def)
  then obtain rb' sb' rest where parts: "bytes = sig_bytes rb' sb' @ rest" "padding_ok rb'" "padding_ok sb'"
      "length rb' + length sb' < 250" "0 < be_val rb'" "be_val rb' < curveN" "0 < be_val sb'" "be_val sb' < curveN"
      "sig = \<lparr>R = be_val rb', S = be_val sb'\<rparr>"
    by (rule parseSig_accepts) auto
  have "length rb + length sb < 250" using form by (auto simp: der_form_def sig_bytes_def)
  then have same: "rb = rb'" "sb = sb'"
    using sig_bytes_inj[of rb sb rb' sb' rest] form parts(1,4) by (auto simp: der_form_def)
  have "canonicalizeInt (be_val rb) = rb" "canonicalizeInt (be_val sb) = sb"
    using canonicalizeInt_unique[of "[]"] parts(2,3,5,7) same by (simp_all add: padding_ok_def)
  then show ?R using form parts(5-9) same by (auto simp: der_form_def Signature_Serialize_bytes)
next
  assume r: ?R
  let ?rb = "canonicalizeInt (R sig)" and ?sb = "canonicalizeInt (S sig)"
  have sN: "S sig < curveN" using r by (simp add: halfOrder_def curveN_def)
  have len: "length ?rb \<le> 33" "length ?sb \<le> 33"
    using r sN length_canonicalizeInt[OF _ curve_small(2)] by simp_all
  have bytes: "bytes = sig_bytes ?rb ?sb" using r by (simp add: Signature_Serialize_bytes)
  have props: "?rb \<noteq> []" "?sb \<noteq> []" "padding_ok ?rb" "padding_ok ?sb" "be_val ?rb = R sig" "be_val ?sb = S sig"
    using canonicalizeInt_props[of "R sig" "[]"] canonicalizeInt_props[of "S sig" "[]"] r by (simp_all add: padding_ok_def)
  have "length bytes \<le> 72" using len unfolding bytes by (simp add: sig_bytes_def)
  then have "der_form True bytes ?rb ?sb" using r props bytes by (simp add: der_form_def)
  moreover have "parseSig bytes True = Ok sig"
    using parseSig_bytes[of ?rb ?sb True "[]"] props len r sN bytes by simp
  ultimately show ?L
    using assms sigEncoding_complete by (auto simp: checkSignatureEncoding_def parseSigFlags_def ParseDERSignature_def)
qed

theorem low_S_encoding_unique_witness:
  "let vm = demo_engine\<lparr>flags := ScriptVerifyDERSignatures OR ScriptVerifyLowS\<rparr>;
       sig = \<lparr>R = 5, S = 7\<rparr>
   in checkSignatureEncoding (Signature_Serialize sig) vm = (Ok (), vm) \<and>
      parseSigFlags (Signature_Serialize sig) vm = Ok sig"
  using low_S_encoding_unique[of "demo_engine\<lparr>flags := ScriptVerifyDERSignatures OR ScriptVerifyLowS\<rparr>"
      "Signature_Serialize \<lparr>R = 5, S = 7\<rparr>" "\<lparr>R = 5, S = 7\<rparr>"]
  by (simp add: hasFlag_def flag_defs curveN_def halfOrder_def)

end
