(* ===== verification/BuilderSpec.thy ===== *)
theory BuilderSpec
  imports EngineSpec
begin

text \<open>
  What the script builder promises: the data a caller adds is what the engine pushes.
\<close>

subsection \<open>The entries of the push opcodes\<close>

text \<open>The opcode of the table with value \<open>b\<close>.\<close>

definition table_pop :: "byte \<Rightarrow> byte list \<Rightarrow> parsedOpcode" where
  "table_pop b d = \<lparr>pop_opcode = OpcodeArray ! unat b, pop_data = d\<rparr>"

lemma table_pop_sel [simp]:
  "pop_value (table_pop b d) = b" "pop_data (table_pop b d) = d" "from_table (table_pop b d)"
  by (simp_all add: table_pop_def)

definition push_length :: "nat \<Rightarrow> int" where
  "push_length i = (if i = 0 \<or> 78 < i then 1 else if i < 76 then int i + 1 else if i = 76 then -1
     else if i = 77 then -2 else -4)"

definition push_func :: "nat \<Rightarrow> opfunc" where
  "push_func i = (if i = 0 then fn_opcodeFalse else if i < 79 then fn_opcodePushData
     else if i = 79 then fn_opcode1Negate else if i = 80 then fn_opcodeReserved else fn_opcodeN)"

lemma upto97: "[0..<97] = 0 # 1 # [2..<97]"
  by (simp add: upt_rec)

lemma push_lengths: "map op_length (take 97 OpcodeArray) = map push_length [0..<97]"
  unfolding OpcodeArray_def opcode_tables mk_opcode_def push_length_def by (simp add: upto97)

lemma push_funcs: "map op_func (take 97 OpcodeArray) = map push_func [0..<97]"
  unfolding OpcodeArray_def opcode_tables mk_opcode_def push_func_def by (simp add: upto97)

lemma table_pop_entry:
  assumes "unat b < 97"
  shows "op_length (pop_opcode (table_pop b d)) = push_length (unat b)"
    and "op_func (pop_opcode (table_pop b d)) = push_func (unat b)"
proof -
  have "map op_length (take 97 OpcodeArray) ! unat b = push_length (unat b)"
    "map op_func (take 97 OpcodeArray) ! unat b = push_func (unat b)"
    unfolding push_lengths push_funcs using assms by simp_all
  then show "op_length (pop_opcode (table_pop b d)) = push_length (unat b)"
    "op_func (pop_opcode (table_pop b d)) = push_func (unat b)"
    using assms by (simp_all add: table_pop_def)
qed

subsection \<open>The opcode of a push\<close>

text \<open>The opcode the builder chooses for the data, and what the data is on the stack.\<close>

definition push_pop :: "byte list \<Rightarrow> parsedOpcode" where
  "push_pop d =
     (if d = [] \<or> d = [0] then table_pop OP_0 []
      else if length d = 1 \<and> d ! 0 \<le> 16 then table_pop (OP_1 - 1 + d ! 0) []
      else if d = [0x81] then table_pop OP_1NEGATE []
      else if length d < 76 then table_pop (word_of_nat (length d)) d
      else if length d < 256 then table_pop OP_PUSHDATA1 d
      else if length d < 65536 then table_pop OP_PUSHDATA2 d
      else table_pop OP_PUSHDATA4 d)"

definition pushed_item :: "byte list \<Rightarrow> byte list" where
  "pushed_item d = (if d = [0] then [] else d)"

lemma length_1_iff: "length d = Suc 0 \<and> d ! 0 = c \<longleftrightarrow> d = [c]"
  by (cases d) auto

lemma small_byte:
  assumes "(c :: byte) \<noteq> 0" "c \<le> 16"
  shows "1 \<le> unat c" "unat c \<le> 16" "unat (0x50 + c) = 0x50 + unat c"
proof -
  show "1 \<le> unat c" using assms(1) by (simp add: Suc_le_eq unat_gt_0)
  show le: "unat c \<le> 16" using assms(2) by (simp add: word_le_nat_alt)
  then show "unat (0x50 + c) = 0x50 + unat c" by (simp add: unat_word_ariths)
qed

lemma push_pop_cases:
  obtains (zero) "d = [] \<or> d = [0]"
  | (small) c where "d = [c]" "1 \<le> unat c" "unat c \<le> 16" "unat (0x50 + c) = 0x50 + unat c"
  | (negative) "d = [0x81]"
  | (short) "0 < length d" "length d < 76" "\<not> (length d = 1 \<and> d ! 0 \<le> 16)" "d \<noteq> [0x81]"
      "unat (word_of_nat (length d) :: byte) = length d"
  | (long) n b lb where "76 \<le> length d" "(n, b) \<in> {(1, OP_PUSHDATA1), (2, OP_PUSHDATA2), (4, OP_PUSHDATA4)}"
      "push_pop d = table_pop b d" "dataPush d = b # lb @ d" "length lb = n"
      "le_val lb = int (length d) mod 256 ^ n" "n = (if length d < 256 then 1 else if length d < 65536 then 2 else 4)"
proof (cases "length d < 76")
  case True
  have one: "length d = 1 \<longleftrightarrow> d = [d ! 0]" by (cases d) auto
  show thesis
  proof (cases "length d = 1 \<and> d ! 0 \<le> 16 \<or> d = [] \<or> d = [0x81]")
    case False
    have "unat (word_of_nat (length d) :: byte) = length d"
      using True by (simp add: unsigned_of_nat take_bit_nat_eq_self)
    then show thesis using True False by (intro short) simp_all
  next
    case small_d: True
    show thesis
    proof (cases "d = [] \<or> d = [0x81] \<or> d = [0]")
      case False
      define c where "c = d ! 0"
      have c: "d = [c]" "c \<noteq> 0" "c \<le> 16" using False small_d one by (auto simp: c_def)
      show thesis by (rule small[OF c(1) small_byte[OF c(2,3)]])
    next
      case True
      then consider "d = [] \<or> d = [0]" | "d = [0x81]" by argo
      then show thesis by (cases; intro zero negative)
    qed
  qed
next
  case False
  then consider "length d < 256" | "256 \<le> length d" "length d < 65536" | "65536 \<le> length d" by linarith
  then show thesis
  proof cases
    case 1
    then show thesis using False
      by (intro long[of 1 OP_PUSHDATA1 "[word_of_nat (length d)]"])
        (auto simp: push_pop_def dataPush_def Let_def unsigned_of_nat take_bit_nat_eq_self)
  next
    case 2
    then show thesis
      using le_val_lenBytes2[of "length d"]
      by (intro long[of 2 OP_PUSHDATA2 "[lenByte (length d) 0, lenByte (length d) 8]"])
        (auto simp: push_pop_def dataPush_def Let_def simp del: le_val.simps)
  next
    case 3
    then show thesis
      using le_val_lenBytes4[of "length d"]
      by (intro long[of 4 OP_PUSHDATA4 "[lenByte (length d) 0, lenByte (length d) 8, lenByte (length d) 16, lenByte (length d) 24]"])
        (auto simp: push_pop_def dataPush_def Let_def simp del: le_val.simps)
  qed
qed

lemma push_pop_bytes:
  assumes "length d < 2 ^ 32"
  shows "from_table (push_pop d)" "pop_bytes (push_pop d) = Ok (dataPush d)"
proof -
  show "from_table (push_pop d)" by (simp add: push_pop_def)
  show "pop_bytes (push_pop d) = Ok (dataPush d)"
  proof (cases d rule: push_pop_cases)
    case (long n b lb)
    have "length d < 256 ^ n" using long(7) assms by (auto split: if_splits)
    then have "int (length d) < int (256 ^ n)" by (simp only: of_nat_less_iff)
    then have "le_val lb = int (length d)" using long(6) by simp
    moreover have "op_length (OpcodeArray ! unat b) = - int n" "n = 1 \<or> n = 2 \<or> n = 4"
      using long(2) table_pop_entry(1)[of b d] by (auto simp: table_pop_def push_length_def)
    ultimately show ?thesis
      using pop_bytes_sized[of "OpcodeArray ! unat b" n lb d] long(3-5) by (simp add: table_pop_def)
  next
    case zero
    then show ?thesis
      by (elim disjE) (simp_all add: push_pop_def dataPush_def pop_bytes_def table_pop_entry push_length_def)
  next
    case (small c)
    have "c \<noteq> 0" "c \<le> 16" using small(2,3) by (auto simp: word_le_nat_alt)
    then show ?thesis using small
      by (simp add: push_pop_def dataPush_def pop_bytes_def table_pop_entry push_length_def)
  next
    case negative
    then show ?thesis
      by (simp add: push_pop_def dataPush_def pop_bytes_def table_pop_entry push_length_def)
  next
    case short
    have "d \<noteq> []" "d \<noteq> [0]" "\<not> (length d = 1 \<and> d ! 0 = 0)" using short(1,3) by auto
    then have "push_pop d = table_pop (word_of_nat (length d)) d" "dataPush d = word_of_nat (length d) # d"
      using short(2-4) by (auto simp: push_pop_def dataPush_def Let_def length_1_iff)
    then show ?thesis using short(1,2,5)
      by (simp add: pop_bytes_def table_pop_entry push_length_def Let_def)
  qed
qed

lemma length_dataPush: "length (dataPush d) = canonicalDataSize d"
  by (auto simp: dataPush_def canonicalDataSize_def Let_def)

subsection \<open>Running a push\<close>

lemma scriptNum_Bytes_small:
  assumes "1 \<le> unat (c :: byte)" "unat c \<le> 16"
  shows "scriptNum_Bytes (uint c) = Ok [c]"
proof -
  have u: "uint c = int (unat c)" by simp
  then have "1 \<le> uint c" "uint c \<le> 16" using assms by linarith+
  then show ?thesis
    using sn_val_Bytes[of "[c]"] by (simp add: sn_minimal_def sn_val_def)
qed

lemma scriptNum_Bytes_minus1: "scriptNum_Bytes (-1) = Ok [0x81]"
  using sn_val_Bytes[of "[0x81]"] by (simp add: sn_minimal_def sn_val_def)

lemma executeOpcode_low:
  assumes "pop_value pop \<le> OP_16" "length (pop_data pop) \<le> MaxScriptElementSize" "isBranchExecuting vm"
    and "pop_value pop \<le> OP_PUSHDATA4 \<Longrightarrow> checkMinimalDataPush pop = Ok ()"
  shows "executeOpcode E pop vm = opfunc_run E (op_func (pop_opcode pop)) pop vm"
proof -
  have "\<not> isDisabled pop" "\<not> alwaysIllegal pop"
    using assms(1) by (auto simp: isDisabled_def alwaysIllegal_def)
  moreover have "countOp pop vm = (Ok (), vm)" using assms(1,2) by (auto simp: countOp_def ret_def)
  ultimately show ?thesis using assms(3,4) by (simp add: executeOpcode_def bnd_def lift_res_def ret_def)
qed

lemma executeOpcode_push:
  assumes "stack_free (dstack vm)" "isBranchExecuting vm" "length d \<le> MaxScriptElementSize"
  shows "executeOpcode E (push_pop d) vm =
    (Ok (), vm\<lparr>dstack := with_items (dstack vm) (pushed_item d # items (dstack vm))\<rparr>)"
proof -
  note run = table_pop_entry push_func_def assms(1) op_simps on_d_def stack_runs pushed_item_def
    opcodeFalse_def opcodePushData_def opcode1Negate_def opcodeN_def checkMinimalDataPush_def Let_def
  note low = executeOpcode_low[OF _ _ assms(2)]
  show ?thesis
  proof (cases d rule: push_pop_cases)
    case zero
    then have p: "push_pop d = table_pop OP_0 []" by (auto simp: push_pop_def)
    have "pushed_item d = []" using zero by (auto simp: pushed_item_def)
    then show ?thesis unfolding p by (subst low) (simp_all add: run)
  next
    case (small c)
    have c: "c \<noteq> 0" "c \<le> 16" using small(2,3) by (auto simp: word_le_nat_alt)
    have b: "unat (0x50 + c) < 97" "0x50 + c \<le> 0x60" "\<not> 0x50 + c \<le> 0x4e"
      using small(2-4) by (simp_all add: word_le_nat_alt)
    have p: "push_pop d = table_pop (0x50 + c) []" "pushed_item d = [c]"
      using c small(1) by (simp_all add: push_pop_def pushed_item_def)
    show ?thesis unfolding p using b small scriptNum_Bytes_small[OF small(2,3)] by (subst low) (simp_all add: run)
  next
    case negative
    then have p: "push_pop d = table_pop OP_1NEGATE []" "pushed_item d = [0x81]"
      by (simp_all add: push_pop_def pushed_item_def)
    show ?thesis unfolding p using scriptNum_Bytes_minus1 by (subst low) (simp_all add: run)
  next
    case short
    have "d \<noteq> []" "d \<noteq> [0]" using short(1,3) by auto
    then have p: "push_pop d = table_pop (word_of_nat (length d)) d" "pushed_item d = d"
      using short(2-4) by (auto simp: push_pop_def length_1_iff pushed_item_def)
    have b: "(word_of_nat (length d) :: byte) \<le> 0x4e" "(word_of_nat (length d) :: byte) \<le> 0x60"
      using short(2,5) by (simp_all add: word_le_nat_alt)
    have "checkMinimalDataPush (table_pop (word_of_nat (length d)) d) = Ok ()"
      using short by (auto simp: checkMinimalDataPush_def Let_def length_1_iff)
    then show ?thesis unfolding p using b short(1,2,5) assms(3) by (subst low) (simp_all add: run)
  next
    case (long n b lb)
    have b: "b \<le> 0x4e" "b \<le> 0x60" "unat b < 79" "0 < unat b" using long(2) by auto
    have d: "pushed_item d = d" using long(1) by (auto simp: pushed_item_def)
    have "checkMinimalDataPush (table_pop b d) = Ok ()"
      using long(1,2,7) by (auto simp: checkMinimalDataPush_def Let_def split: if_splits)
    then show ?thesis unfolding long(3) d using b assms(3) by (subst low) (simp_all add: run)
  qed
qed

subsection \<open>Scripts of pushes\<close>

primrec executeAll :: "env \<Rightarrow> parsedOpcode list \<Rightarrow> unit eop" where
  "executeAll E [] = ret ()"
| "executeAll E (pop # pops) = bnd (executeOpcode E pop) (\<lambda>_. executeAll E pops)"

definition addAll :: "byte list list \<Rightarrow> ScriptBuilder \<Rightarrow> ScriptBuilder" where
  "addAll ds b = foldl (\<lambda>b d. AddData d b) b ds"

lemma addAll_Cons [simp]: "addAll [] b = b" "addAll (d # ds) b = addAll ds (AddData d b)"
  by (simp_all add: addAll_def)

lemma NewScriptBuilder_empty: "sb_script NewScriptBuilder = []"
  by (simp add: NewScriptBuilder_def)

lemma addAll_error: "sb_err b \<noteq> None \<Longrightarrow> addAll ds b = b"
  by (induction ds) (auto simp: AddData_def)

lemma addAll_ok:
  assumes "sb_err (addAll ds b) = None"
  shows "sb_script (addAll ds b) = sb_script b @ concat (map dataPush ds) \<and>
    (\<forall>d \<in> set ds. length d \<le> MaxScriptElementSize) \<and>
    (length (sb_script b) \<le> MaxScriptSize \<longrightarrow> length (sb_script (addAll ds b)) \<le> MaxScriptSize)"
  using assms
proof (induction ds arbitrary: b)
  case (Cons d ds)
  let ?b = "AddData d b"
  have "sb_err ?b = None" using Cons.prems addAll_error[of ?b ds] by (cases "sb_err ?b") auto
  then have b: "?b = addData d b" "length d \<le> MaxScriptElementSize"
      "length (sb_script b) + canonicalDataSize d \<le> MaxScriptSize"
    by (auto simp: AddData_def split: if_splits)
  then have "sb_script ?b = sb_script b @ dataPush d" by (simp add: addData_def)
  then show ?case using Cons.IH[of ?b] Cons.prems b(2,3) by (auto simp: length_dataPush)
qed simp

lemma executeAll_pushes:
  assumes "stack_free (dstack vm)" "isBranchExecuting vm" "\<forall>d \<in> set ds. length d \<le> MaxScriptElementSize"
  shows "executeAll E (map push_pop ds) vm =
    (Ok (), vm\<lparr>dstack := with_items (dstack vm) (rev (map pushed_item ds) @ items (dstack vm))\<rparr>)"
  using assms
proof (induction ds arbitrary: vm)
  case Nil
  then show ?case by (simp add: ret_def)
next
  case (Cons d ds)
  let ?vm = "vm\<lparr>dstack := with_items (dstack vm) (pushed_item d # items (dstack vm))\<rparr>"
  have "executeOpcode E (push_pop d) vm = (Ok (), ?vm)" using Cons.prems by (intro executeOpcode_push) auto
  moreover have "stack_free (dstack ?vm)" "isBranchExecuting ?vm"
    using Cons.prems by (simp_all add: isBranchExecuting_def)
  ultimately show ?case using Cons.IH[of ?vm] Cons.prems by (simp add: bnd_def)
qed

text \<open>
  Claim C14. What a caller adds with \<^verbatim>\<open>AddData\<close> is what the engine pushes: when the builder reports no
  error, the script is within the size limit, it parses to one opcode per item, and executing these opcodes in an
  executing branch, with or without the minimal-data rule, succeeds and puts the items on the stack in order and
  changes nothing else.  The item of the single byte zero is the exception: the builder turns it into OP_0, which
  pushes the empty item.
\<close>

theorem builder_pushes_data:
  assumes "sb_err (addAll ds NewScriptBuilder) = None"
    and "stack_free (dstack vm)" "isBranchExecuting vm"
  shows "length (sb_script (addAll ds NewScriptBuilder)) \<le> MaxScriptSize \<and>
    (\<exists>pops. parseScript (sb_script (addAll ds NewScriptBuilder)) = (Ok (), pops) \<and> length pops = length ds \<and>
      executeAll E pops vm =
        (Ok (), vm\<lparr>dstack := with_items (dstack vm)
           (rev (map (\<lambda>d. if d = [0] then [] else d) ds) @ items (dstack vm))\<rparr>))"
proof -
  let ?b = "addAll ds NewScriptBuilder" and ?pops = "map push_pop ds"
  have ok: "sb_script ?b = concat (map dataPush ds)" "\<forall>d \<in> set ds. length d \<le> MaxScriptElementSize"
      "length (sb_script ?b) \<le> MaxScriptSize"
    using addAll_ok[OF assms(1)] by (auto simp: NewScriptBuilder_empty)
  have small: "length d < 2 ^ 32" if "d \<in> set ds" for d
    using ok(2) that by (force simp: MaxScriptElementSize_def)
  have "unparseScript ?pops = Ok (concat (map dataPush ds))"
    using small by (induction ds) (simp_all add: push_pop_bytes(2))
  moreover have "list_all from_table ?pops" using small by (simp add: list_all_iff push_pop_bytes(1))
  ultimately have "parseScript (sb_script ?b) = (Ok (), ?pops)" unfolding ok(1) by (intro parseScriptI)
  moreover have "pushed_item = (\<lambda>d. if d = [0] then [] else d)" by (rule ext) (simp add: pushed_item_def)
  ultimately show ?thesis
    using ok(3) executeAll_pushes[OF assms(2,3) ok(2), of E] by auto
qed

theorem builder_pushes_data_witness:
  "sb_script (addAll [[5], [0], [7, 8]] NewScriptBuilder) = [0x55, 0x00, 0x02, 7, 8] \<and>
   (\<exists>pops. parseScript (sb_script (addAll [[5], [0], [7, 8]] NewScriptBuilder)) = (Ok (), pops) \<and>
     executeAll demo_env pops demo_engine =
       (Ok (), demo_engine\<lparr>dstack := with_items (dstack demo_engine) [[7, 8], [], [5]]\<rparr>))"
proof -
  have b: "addAll [[5], [0], [7, 8]] NewScriptBuilder = \<lparr>sb_script = [0x55, 0x00, 0x02, 7, 8], sb_err = None\<rparr>"
    by (simp add: AddData_def addData_def dataPush_def canonicalDataSize_def NewScriptBuilder_def MaxScriptSize_def
        MaxScriptElementSize_def Let_def)
  have d: "stack_free (dstack demo_engine)" "isBranchExecuting demo_engine" "items (dstack demo_engine) = []"
    by (simp_all add: demo_engine_def emptyStack_def stack_free_def isBranchExecuting_def items_def)
  show ?thesis
    using builder_pushes_data[of "[[5], [0], [7, 8]]" demo_engine demo_env] d by (auto simp: b simp del: addAll_Cons)
qed

end
