(* ===== verification/WireBlock.thy ===== *)
theory WireBlock
  imports Wire
begin

text \<open>
  Block headers and blocks on the wire (\<^verbatim>\<open>pkg/chain/wire/blockheader.go\<close>, \<^verbatim>\<open>msgblock.go\<close>).

  A time is the number of nanoseconds since the Unix epoch; the wire keeps 32 bits of seconds.  A header
  encodes to 80 bytes and every 80 bytes are the encoding of one header.  A block is a header followed by its
  transactions; the locations \<^verbatim>\<open>DeserializeTxLoc\<close> computes delimit the bytes of each transaction.
\<close>

subsection \<open>Headers\<close>

definition Unix :: "int \<Rightarrow> int" where
  "Unix t = t div 1000000000"

definition unix_time :: "int \<Rightarrow> int" where
  "unix_time sec = sec * 1000000000"

record BlockHeader =
  header_Version :: "32 word"
  PrevBlock :: "byte list"
  MerkleRoot :: "byte list"
  Timestamp :: int
  Bits :: "32 word"
  Nonce :: "32 word"

definition blockHeaderLen :: nat where
  "blockHeaderLen = 80"

definition writeBlockHeader :: "BlockHeader \<Rightarrow> byte list" where
  "writeBlockHeader bh =
     PutUint32 (header_Version bh) @ PrevBlock bh @ MerkleRoot bh @
     PutUint32 (word_of_int (Unix (Timestamp bh))) @ PutUint32 (Bits bh) @ PutUint32 (Nonce bh)"

definition readBlockHeader :: "BlockHeader reader" where
  "readBlockHeader =
     bnd Uint32 (\<lambda>version.
     bnd (ReadFull HashSize) (\<lambda>prevBlock.
     bnd (ReadFull HashSize) (\<lambda>merkleRoot.
     bnd Uint32 (\<lambda>sec.
     bnd Uint32 (\<lambda>bits.
     bnd Uint32 (\<lambda>nonce.
       ret \<lparr>header_Version = version, PrevBlock = prevBlock, MerkleRoot = merkleRoot,
            Timestamp = unix_time (uint sec), Bits = bits, Nonce = nonce\<rparr>))))))"

definition BlockHash :: "BlockHeader \<Rightarrow> byte list" where
  "BlockHash h = DoubleHashH (writeBlockHeader h)"

subsection \<open>Blocks\<close>

record TxLoc =
  TxStart :: nat
  TxLen :: nat

record MsgBlock =
  Header :: BlockHeader
  Transactions :: "MsgTx list"

definition MaxBlockPayload :: nat where
  "MaxBlockPayload = 4000000"

definition minTxPayload :: nat where
  "minTxPayload = 10"

definition maxTxPerBlock :: nat where
  "maxTxPerBlock = MaxBlockPayload div minTxPayload + 1"

definition NewMsgBlock :: "BlockHeader \<Rightarrow> MsgBlock" where
  "NewMsgBlock blockHeader = \<lparr>Header = blockHeader, Transactions = []\<rparr>"

definition AddTransaction :: "MsgTx \<Rightarrow> MsgBlock \<Rightarrow> MsgBlock" where
  "AddTransaction tx msg = msg\<lparr>Transactions := Transactions msg @ [tx]\<rparr>"

definition ClearTransactions :: "MsgBlock \<Rightarrow> MsgBlock" where
  "ClearTransactions msg = msg\<lparr>Transactions := []\<rparr>"

definition MsgBlock_BtcEncode :: "MessageEncoding \<Rightarrow> MsgBlock \<Rightarrow> byte list" where
  "MsgBlock_BtcEncode enc msg =
     writeBlockHeader (Header msg) @ WriteVarInt (word_of_nat (length (Transactions msg))) @
     concat (map (BtcEncode enc) (Transactions msg))"

definition MsgBlock_BtcDecode :: "MessageEncoding \<Rightarrow> MsgBlock reader" where
  "MsgBlock_BtcDecode enc =
     bnd readBlockHeader (\<lambda>header.
     bnd ReadVarInt (\<lambda>txCount.
       if unat txCount > maxTxPerBlock then throw messageError
       else bnd (readN (unat txCount) (BtcDecode enc)) (\<lambda>txs.
         ret \<lparr>Header = header, Transactions = txs\<rparr>)))"

definition MsgBlock_Serialize :: "MsgBlock \<Rightarrow> byte list" where
  "MsgBlock_Serialize msg = MsgBlock_BtcEncode WitnessEncoding msg"

definition MsgBlock_SerializeNoWitness :: "MsgBlock \<Rightarrow> byte list" where
  "MsgBlock_SerializeNoWitness msg = MsgBlock_BtcEncode BaseEncoding msg"

definition MsgBlock_Deserialize :: "MsgBlock reader" where
  "MsgBlock_Deserialize = MsgBlock_BtcDecode WitnessEncoding"

definition MsgBlock_DeserializeNoWitness :: "MsgBlock reader" where
  "MsgBlock_DeserializeNoWitness = MsgBlock_BtcDecode BaseEncoding"

primrec readTxLocs :: "nat \<Rightarrow> nat \<Rightarrow> (MsgTx \<times> TxLoc) list reader" where
  "readTxLocs fullLen 0 = ret []"
| "readTxLocs fullLen (Suc n) =
     bnd (get_st (\<lambda>r. fullLen - length r)) (\<lambda>txStart.
     bnd Deserialize (\<lambda>tx.
     bnd (get_st (\<lambda>r. (fullLen - length r) - txStart)) (\<lambda>txLen.
     bnd (readTxLocs fullLen n) (\<lambda>rest.
       ret ((tx, \<lparr>TxStart = txStart, TxLen = txLen\<rparr>) # rest)))))"

definition DeserializeTxLoc :: "(MsgBlock \<times> TxLoc list) reader" where
  "DeserializeTxLoc r =
     (let fullLen = length r in
      bnd readBlockHeader (\<lambda>header.
      bnd ReadVarInt (\<lambda>txCount.
        if unat txCount > maxTxPerBlock then throw messageError
        else bnd (readTxLocs fullLen (unat txCount)) (\<lambda>txs.
          ret (\<lparr>Header = header, Transactions = map fst txs\<rparr>, map snd txs)))) r)"

definition MsgBlock_SerializeSize :: "MsgBlock \<Rightarrow> nat" where
  "MsgBlock_SerializeSize msg =
     blockHeaderLen + VarIntSerializeSize (word_of_nat (length (Transactions msg))) +
     sum_list (map SerializeSize (Transactions msg))"

definition MsgBlock_SerializeSizeStripped :: "MsgBlock \<Rightarrow> nat" where
  "MsgBlock_SerializeSizeStripped msg =
     blockHeaderLen + VarIntSerializeSize (word_of_nat (length (Transactions msg))) +
     sum_list (map SerializeSizeStripped (Transactions msg))"

definition MsgBlock_BlockHash :: "MsgBlock \<Rightarrow> byte list" where
  "MsgBlock_BlockHash msg = BlockHash (Header msg)"

definition TxHashes :: "MsgBlock \<Rightarrow> byte list list" where
  "TxHashes msg = map TxHash (Transactions msg)"

subsection \<open>Codecs\<close>

text \<open>A header as it comes from the wire: whole seconds that fit 32 bits.\<close>

definition wf_BlockHeader :: "BlockHeader \<Rightarrow> bool" where
  "wf_BlockHeader bh \<longleftrightarrow> length (PrevBlock bh) = HashSize \<and> length (MerkleRoot bh) = HashSize \<and>
     0 \<le> Unix (Timestamp bh) \<and> Unix (Timestamp bh) < 2 ^ 32 \<and> Timestamp bh = unix_time (Unix (Timestamp bh))"

lemma Unix_unix_time [simp]: "Unix (unix_time s) = s"
  by (simp add: Unix_def unix_time_def)

lemma uint_seconds: "0 \<le> s \<Longrightarrow> s < 2 ^ 32 \<Longrightarrow> uint (word_of_int s :: 32 word) = s"
  by (simp add: uint_word_of_int)

lemma seconds_range: "0 \<le> uint (w :: 32 word)" "uint (w :: 32 word) < 4294967296"
  using uint_lt2p[of w] by simp_all

interpretation header: canonical_codec writeBlockHeader readBlockHeader wf_BlockHeader
  by unfold_locales
    (auto simp: wf_BlockHeader_def writeBlockHeader_def readBlockHeader_def op_simps bnd_eq_Ok_iff
      ReadFull_Ok_iff u32.accepts_iff ret_def uint_seconds seconds_range)

lemma length_writeBlockHeader:
  "length (PrevBlock bh) = HashSize \<Longrightarrow> length (MerkleRoot bh) = HashSize \<Longrightarrow>
   length (writeBlockHeader bh) = blockHeaderLen"
  by (simp add: writeBlockHeader_def blockHeaderLen_def HashSize_def)

text \<open>A transaction within the limits that the decoder with witnesses accepts.\<close>

definition wf_full_tx :: "MsgTx \<Rightarrow> bool" where
  "wf_full_tx tx \<longleftrightarrow> wf_MsgTx tx \<and> list_all (\<lambda>ti. wf_Witness (Witness ti)) (txIns tx) \<and> txIns tx \<noteq> []"

interpretation full_tx: codec "BtcEncode WitnessEncoding" "BtcDecode WitnessEncoding" wf_full_tx
  by unfold_locales
    (simp add: wf_full_tx_def BtcEncode_forms BtcDecode_Witness_extended BtcDecode_Witness_plain)

interpretation base_tx: canonical_codec "BtcEncode BaseEncoding" "BtcDecode BaseEncoding"
    "\<lambda>tx. wf_MsgTx tx \<and> \<not> HasWitness tx"
  by unfold_locales (simp_all add: BtcDecode_Base_iff BtcEncode_forms)

definition wf_block :: "(MsgTx \<Rightarrow> bool) \<Rightarrow> MsgBlock \<Rightarrow> bool" where
  "wf_block ok msg \<longleftrightarrow> wf_BlockHeader (Header msg) \<and> length (Transactions msg) \<le> maxTxPerBlock \<and>
     list_all ok (Transactions msg)"

lemma block_count_fits: "n \<le> maxTxPerBlock \<Longrightarrow> n < 2 ^ 64"
  by (simp add: maxTxPerBlock_def MaxBlockPayload_def minTxPayload_def)

lemma block_codec:
  assumes "codec (BtcEncode enc) (BtcDecode enc) ok"
  shows "codec (MsgBlock_BtcEncode enc) (MsgBlock_BtcDecode enc) (wf_block ok)"
proof unfold_locales
  fix msg rest
  assume wf: "wf_block ok msg"
  then have n: "length (Transactions msg) < 2 ^ 64" by (intro block_count_fits) (simp add: wf_block_def)
  have "readN (length (Transactions msg)) (BtcDecode enc)
      (concat (map (BtcEncode enc) (Transactions msg)) @ rest) = (Ok (Transactions msg), rest)"
    using wf by (intro codec.decode_many[OF assms]) (simp add: wf_block_def)
  with wf n show "MsgBlock_BtcDecode enc (MsgBlock_BtcEncode enc msg @ rest) = (Ok msg, rest)"
    by (simp add: wf_block_def MsgBlock_BtcDecode_def MsgBlock_BtcEncode_def op_simps)
qed

interpretation full_block: codec "MsgBlock_BtcEncode WitnessEncoding" "MsgBlock_BtcDecode WitnessEncoding"
    "wf_block wf_full_tx"
  by (rule block_codec) (rule full_tx.codec_axioms)

interpretation base_block: canonical_codec "MsgBlock_BtcEncode BaseEncoding" "MsgBlock_BtcDecode BaseEncoding"
    "wf_block (\<lambda>tx. wf_MsgTx tx \<and> \<not> HasWitness tx)"
proof (intro canonical_codec.intro canonical_codec_axioms.intro block_codec base_tx.codec_axioms)
  fix r msg rest
  assume "MsgBlock_BtcDecode BaseEncoding r = (Ok msg, rest)"
  then show "r = MsgBlock_BtcEncode BaseEncoding msg @ rest \<and> wf_block (\<lambda>tx. wf_MsgTx tx \<and> \<not> HasWitness tx) msg"
    by (auto simp: MsgBlock_BtcDecode_def MsgBlock_BtcEncode_def bnd_eq_Ok_iff header.accepts_iff
        varint.accepts_iff base_tx.many_iff throw_def ret_def wf_block_def not_less split: if_splits)
qed

lemma length_block:
  assumes "length (PrevBlock (Header msg)) = HashSize" "length (MerkleRoot (Header msg)) = HashSize"
    and "\<forall>tx \<in> set (Transactions msg). list_all (\<lambda>ti. wf_OutPoint (PreviousOutPoint ti)) (txIns tx)"
  shows "length (MsgBlock_Serialize msg) = MsgBlock_SerializeSize msg"
    and "length (MsgBlock_SerializeNoWitness msg) = MsgBlock_SerializeSizeStripped msg"
proof -
  have "length (concat (map (BtcEncode WitnessEncoding) (Transactions msg))) = sum_list (map SerializeSize (Transactions msg))"
    using assms(3) by (intro length_concat_map) (simp add: BtcEncode_forms SerializeSize_def length_txBase)
  moreover have "length (concat (map (BtcEncode BaseEncoding) (Transactions msg))) =
      sum_list (map SerializeSizeStripped (Transactions msg))"
    using assms(3) by (intro length_concat_map) (simp add: BtcEncode_forms SerializeSizeStripped_def length_txBase)
  ultimately show "length (MsgBlock_Serialize msg) = MsgBlock_SerializeSize msg"
    and "length (MsgBlock_SerializeNoWitness msg) = MsgBlock_SerializeSizeStripped msg"
    using assms(1,2)
    by (simp_all add: MsgBlock_Serialize_def MsgBlock_SerializeNoWitness_def MsgBlock_BtcEncode_def
        MsgBlock_SerializeSize_def MsgBlock_SerializeSizeStripped_def length_writeBlockHeader length_WriteVarInt)
qed

subsection \<open>Transaction locations\<close>

lemma suffix_drop: "r = u @ s \<Longrightarrow> length r \<le> n \<Longrightarrow> n - length s = (n - length r) + length u"
  by simp

lemma Deserialize_bytes:
  "Deserialize r = (Ok tx, rest) \<Longrightarrow> r = txBase tx @ rest \<or> r = txExtended tx @ rest"
  unfolding Deserialize_def using BtcDecode_Witness_accepts by blast

text \<open>The locations are consecutive, and the bytes at each are an encoding of the transaction.\<close>

lemma readTxLocs_delimit:
  assumes "readTxLocs (length raw) n (drop k raw) = (Ok txs, rest)" "k \<le> length raw"
  shows "length txs = n \<and> list_all (\<lambda>(tx, loc). k \<le> TxStart loc \<and> TxStart loc + TxLen loc \<le> length raw \<and>
      slice raw (TxStart loc) (TxStart loc + TxLen loc) \<in> {txBase tx, txExtended tx}) txs"
  using assms
proof (induction n arbitrary: k txs)
  case 0
  then show ?case by (simp add: ret_def)
next
  case (Suc n)
  then obtain tx s txs' where tx: "Deserialize (drop k raw) = (Ok tx, s)"
      and rest: "readTxLocs (length raw) n s = (Ok txs', rest)"
      and txs: "txs = (tx, \<lparr>TxStart = k, TxLen = length raw - length s - k\<rparr>) # txs'"
    by (auto simp: bnd_eq_Ok_iff get_st_def ret_def)
  obtain u where u: "drop k raw = u @ s" "u \<in> {txBase tx, txExtended tx}"
    using Deserialize_bytes[OF tx] by auto
  have len: "length raw - k = length u + length s" using arg_cong[OF u(1), of length] by simp
  have s: "s = drop (k + length u) raw" using arg_cong[OF u(1), of "drop (length u)"] by (simp add: add.commute)
  have "slice raw k (k + length u) = u" by (simp add: slice_def u(1))
  moreover have "length raw - length s - k = length u" using len Suc.prems(2) by simp
  moreover have "length txs' = n \<and> list_all (\<lambda>(tx, loc). k + length u \<le> TxStart loc \<and>
      TxStart loc + TxLen loc \<le> length raw \<and>
      slice raw (TxStart loc) (TxStart loc + TxLen loc) \<in> {txBase tx, txExtended tx}) txs'"
    using Suc.IH[of "k + length u" txs'] rest s len Suc.prems(2) by simp
  ultimately show ?case
    using u(2) len Suc.prems(2) by (auto simp: txs list_all_iff split: prod.splits)
qed

end
