(* ===== verification/Utxo.thy ===== *)
theory Utxo
  imports SigHash WireBlock
begin

text \<open>
  The view of the unspent transaction outputs (\<^verbatim>\<open>pkg/chain/utxoviewpoint.go\<close>), with the error codes of the
  package (\<^verbatim>\<open>error.go\<close>) and the transaction predicates of \<^verbatim>\<open>validate.go\<close> it uses.

  A view maps an output to a pointer, which may be \<^verbatim>\<open>nil\<close>: \<open>entries\<close> is a map to an optional entry.  No two
  outputs share an entry, so an entry is kept by value.  Amounts are \<^verbatim>\<open>int64\<close> (64-bit words, signed where they
  are compared), heights are \<^verbatim>\<open>int32\<close> over \<open>int\<close>.  A transaction wrapper is its message; its cached hash is the
  hash.  What the code reads from the database is a parameter (\<open>fetch\<close>), and so is the order in which the
  runtime visits a Go map (\<open>visit\<close>).

  The specification is the set of coins: connecting a block spends its inputs and creates its spendable
  outputs, and disconnecting it takes the set back.
\<close>

unbundle bit_operations_syntax

subsection \<open>Errors\<close>

datatype chain_ErrorCode =
    ErrDuplicateBlock | ErrBlockTooBig | ErrBlockWeightTooHigh | ErrBlockVersionTooOld
  | ErrInvalidTime | ErrTimeTooOld | ErrTimeTooNew | ErrDifficultyTooLow
  | ErrUnexpectedDifficulty | ErrHighHash | ErrBadMerkleRoot | ErrBadCheckpoint
  | ErrForkTooOld | ErrCheckpointTimeTooOld | ErrNoTransactions | ErrNoTxInputs
  | ErrNoTxOutputs | ErrTxTooBig | ErrBadTxOutValue | ErrDuplicateTxInputs
  | ErrBadTxInput | ErrMissingTxOut | ErrUnfinalizedTx | ErrDuplicateTx
  | ErrOverwriteTx | ErrImmatureSpend | ErrSpendTooHigh | ErrBadFees
  | ErrTooManySigOps | ErrFirstTxNotCoinbase | ErrMultipleCoinbases | ErrBadCoinbaseScriptLen
  | ErrBadCoinbaseValue | ErrMissingCoinbaseHeight | ErrBadCoinbaseHeight | ErrScriptMalformed
  | ErrScriptValidation | ErrUnexpectedWitness | ErrInvalidWitnessCommitment | ErrWitnessCommitmentMismatch
  | ErrPreviousBlockUnknown | ErrInvalidAncestorBlock | ErrPrevBlockNotBest | ErrBlacklisted

definition chain_errorCodeStrings :: "(chain_ErrorCode \<times> string) list" where
  "chain_errorCodeStrings =
    [(ErrDuplicateBlock, ''ErrDuplicateBlock''), (ErrBlockTooBig, ''ErrBlockTooBig''),
     (ErrBlockVersionTooOld, ''ErrBlockVersionTooOld''), (ErrBlockWeightTooHigh, ''ErrBlockWeightTooHigh''),
     (ErrInvalidTime, ''ErrInvalidTime''), (ErrTimeTooOld, ''ErrTimeTooOld''),
     (ErrTimeTooNew, ''ErrTimeTooNew''), (ErrDifficultyTooLow, ''ErrDifficultyTooLow''),
     (ErrUnexpectedDifficulty, ''ErrUnexpectedDifficulty''), (ErrHighHash, ''ErrHighHash''),
     (ErrBadMerkleRoot, ''ErrBadMerkleRoot''), (ErrBadCheckpoint, ''ErrBadCheckpoint''),
     (ErrForkTooOld, ''ErrForkTooOld''), (ErrCheckpointTimeTooOld, ''ErrCheckpointTimeTooOld''),
     (ErrNoTransactions, ''ErrNoTransactions''), (ErrNoTxInputs, ''ErrNoTxInputs''),
     (ErrNoTxOutputs, ''ErrNoTxOutputs''), (ErrTxTooBig, ''ErrTxTooBig''),
     (ErrBadTxOutValue, ''ErrBadTxOutValue''), (ErrDuplicateTxInputs, ''ErrDuplicateTxInputs''),
     (ErrBadTxInput, ''ErrBadTxInput''), (ErrMissingTxOut, ''ErrMissingTxOut''),
     (ErrUnfinalizedTx, ''ErrUnfinalizedTx''), (ErrDuplicateTx, ''ErrDuplicateTx''),
     (ErrOverwriteTx, ''ErrOverwriteTx''), (ErrImmatureSpend, ''ErrImmatureSpend''),
     (ErrSpendTooHigh, ''ErrSpendTooHigh''), (ErrBadFees, ''ErrBadFees''),
     (ErrTooManySigOps, ''ErrTooManySigOps''), (ErrFirstTxNotCoinbase, ''ErrFirstTxNotCoinbase''),
     (ErrMultipleCoinbases, ''ErrMultipleCoinbases''), (ErrBadCoinbaseScriptLen, ''ErrBadCoinbaseScriptLen''),
     (ErrBadCoinbaseValue, ''ErrBadCoinbaseValue''), (ErrMissingCoinbaseHeight, ''ErrMissingCoinbaseHeight''),
     (ErrBadCoinbaseHeight, ''ErrBadCoinbaseHeight''), (ErrScriptMalformed, ''ErrScriptMalformed''),
     (ErrScriptValidation, ''ErrScriptValidation''), (ErrUnexpectedWitness, ''ErrUnexpectedWitness''),
     (ErrInvalidWitnessCommitment, ''ErrInvalidWitnessCommitment''), (ErrWitnessCommitmentMismatch, ''ErrWitnessCommitmentMismatch''),
     (ErrPreviousBlockUnknown, ''ErrPreviousBlockUnknown''), (ErrInvalidAncestorBlock, ''ErrInvalidAncestorBlock''),
     (ErrPrevBlockNotBest, ''ErrPrevBlockNotBest'')]"

definition chain_ErrorCode_String :: "chain_ErrorCode \<Rightarrow> string" where
  "chain_ErrorCode_String e =
     (case map_of chain_errorCodeStrings e of Some s \<Rightarrow> s | None \<Rightarrow> ''Unknown ErrorCode'')"

text \<open>The errors of the package; messages are left out, and \<open>DbError\<close> is what the database returns.\<close>

datatype chain_error = RuleError chain_ErrorCode | AssertError | DeserializeError | DbError | DeploymentError "32 word" | OtherError

definition ruleError :: "chain_ErrorCode \<Rightarrow> chain_error" where
  "ruleError c = RuleError c"

subsection \<open>Transactions and blocks\<close>

definition IsCoinBaseTx :: "MsgTx \<Rightarrow> bool" where
  "IsCoinBaseTx msgTx =
     (if length (txIns msgTx) \<noteq> 1 then False
      else
        let prevOut = PreviousOutPoint (txIns msgTx ! 0) in
        if Index prevOut \<noteq> 0xffffffff \<or> Hash prevOut \<noteq> zeroHash then False else True)"

definition IsCoinBase :: "MsgTx \<Rightarrow> bool" where
  "IsCoinBase tx = IsCoinBaseTx tx"

definition isNullOutpoint :: "OutPoint \<Rightarrow> bool" where
  "isNullOutpoint outpoint \<longleftrightarrow> Index outpoint = 0xffffffff \<and> Hash outpoint = zeroHash"

text \<open>A block with its height; the cached hashes and wrapped transactions are those of the message.\<close>

record Block =
  msgBlock :: MsgBlock
  block_Height :: int

definition blockHash :: "Block \<Rightarrow> byte list" where
  "blockHash block = MsgBlock_BlockHash (msgBlock block)"

definition block_Transactions :: "Block \<Rightarrow> MsgTx list" where
  "block_Transactions block = Transactions (msgBlock block)"

text \<open>The slice \<^verbatim>\<open>Transactions()[1:]\<close> of a block without transactions is out of range.\<close>

definition countSpentOutputs :: "Block \<Rightarrow> ('e, nat) res" where
  "countSpentOutputs block =
     (if block_Transactions block = [] then Panic
      else Ok (sum_list (map (\<lambda>tx. length (txIns tx)) (tl (block_Transactions block)))))"

subsection \<open>Entries\<close>

definition tfCoinBase :: byte where "tfCoinBase = 0x1"

definition tfSpent :: byte where "tfSpent = 0x2"

definition tfModified :: byte where "tfModified = 0x4"

record UtxoEntry =
  ue_amount :: "64 word"
  ue_pkScript :: "byte list"
  ue_blockHeight :: int
  ue_packedFlags :: byte

definition isModified :: "UtxoEntry \<Rightarrow> bool" where
  "isModified entry \<longleftrightarrow> ue_packedFlags entry AND tfModified = tfModified"

definition UtxoEntry_IsCoinBase :: "UtxoEntry \<Rightarrow> bool" where
  "UtxoEntry_IsCoinBase entry \<longleftrightarrow> ue_packedFlags entry AND tfCoinBase = tfCoinBase"

definition IsSpent :: "UtxoEntry \<Rightarrow> bool" where
  "IsSpent entry \<longleftrightarrow> ue_packedFlags entry AND tfSpent = tfSpent"

definition Spend :: "UtxoEntry \<Rightarrow> UtxoEntry" where
  "Spend entry =
     (if IsSpent entry then entry
      else entry\<lparr>ue_packedFlags := ue_packedFlags entry OR (tfSpent OR tfModified)\<rparr>)"

definition newUtxoEntry :: UtxoEntry where
  "newUtxoEntry = \<lparr>ue_amount = 0, ue_pkScript = [], ue_blockHeight = 0, ue_packedFlags = 0\<rparr>"

record SpentTxOut =
  stxo_Amount :: "64 word"
  stxo_PkScript :: "byte list"
  stxo_Height :: int
  stxo_IsCoinBase :: bool

subsection \<open>The view\<close>

record UtxoViewpoint =
  entries :: "OutPoint \<rightharpoonup> UtxoEntry option"
  bestHash :: "byte list"

definition NewUtxoViewpoint :: UtxoViewpoint where
  "NewUtxoViewpoint = \<lparr>entries = Map.empty, bestHash = zeroHash\<rparr>"

definition SetBestHash :: "byte list \<Rightarrow> UtxoViewpoint \<Rightarrow> UtxoViewpoint" where
  "SetBestHash hash view = view\<lparr>bestHash := hash\<rparr>"

definition LookupEntry :: "UtxoViewpoint \<Rightarrow> OutPoint \<Rightarrow> UtxoEntry option" where
  "LookupEntry view outpoint = (case entries view outpoint of Some entry \<Rightarrow> entry | None \<Rightarrow> None)"

definition setEntry :: "OutPoint \<Rightarrow> UtxoEntry \<Rightarrow> UtxoViewpoint \<Rightarrow> UtxoViewpoint" where
  "setEntry outpoint entry view = view\<lparr>entries := (entries view)(outpoint \<mapsto> Some entry)\<rparr>"

definition RemoveEntry :: "OutPoint \<Rightarrow> UtxoViewpoint \<Rightarrow> UtxoViewpoint" where
  "RemoveEntry outpoint view = view\<lparr>entries := (entries view)(outpoint := None)\<rparr>"

definition addTxOut :: "OutPoint \<Rightarrow> TxOut \<Rightarrow> bool \<Rightarrow> int \<Rightarrow> UtxoViewpoint \<Rightarrow> UtxoViewpoint" where
  "addTxOut outpoint txOut isCoinBase blockHeight view =
     (if IsUnspendable (PkScript txOut) then view
      else
        let entry = (case LookupEntry view outpoint of Some entry \<Rightarrow> entry | None \<Rightarrow> newUtxoEntry);
            entry = entry\<lparr>ue_amount := Value txOut, ue_pkScript := PkScript txOut, ue_blockHeight := blockHeight,
              ue_packedFlags := (if isCoinBase then tfModified OR tfCoinBase else tfModified)\<rparr>
        in setEntry outpoint entry view)"

definition view_AddTxOut :: "MsgTx \<Rightarrow> 32 word \<Rightarrow> int \<Rightarrow> UtxoViewpoint \<Rightarrow> UtxoViewpoint" where
  "view_AddTxOut tx txOutIdx blockHeight view =
     (if txOutIdx \<ge> word_of_nat (length (txOuts tx)) then view
      else addTxOut \<lparr>Hash = TxHash tx, Index = txOutIdx\<rparr> (txOuts tx ! unat txOutIdx) (IsCoinBase tx) blockHeight view)"

text \<open>The outputs of a transaction with the places they are known by.\<close>

definition outputs :: "MsgTx \<Rightarrow> (OutPoint \<times> TxOut) list" where
  "outputs tx = map (\<lambda>i. (\<lparr>Hash = TxHash tx, Index = word_of_nat i\<rparr>, txOuts tx ! i)) [0..<length (txOuts tx)]"

definition AddTxOuts :: "MsgTx \<Rightarrow> int \<Rightarrow> UtxoViewpoint \<Rightarrow> UtxoViewpoint" where
  "AddTxOuts tx blockHeight view =
     foldl (\<lambda>view (prevOut, txOut). addTxOut prevOut txOut (IsCoinBase tx) blockHeight view) view (outputs tx)"

subsection \<open>Connecting\<close>

text \<open>The state of a connection: the view, and the spent outputs if the caller passed a list for them.\<close>

type_synonym connection = "UtxoViewpoint \<times> SpentTxOut list option"

primrec spendInputs :: "TxIn list \<Rightarrow> (connection, chain_error, unit) op" where
  "spendInputs [] = ret ()"
| "spendInputs (txIn # ins) = (\<lambda>(view, stxos).
     case LookupEntry view (PreviousOutPoint txIn) of
       None \<Rightarrow> (Err AssertError, (view, stxos))
     | Some entry \<Rightarrow>
         let stxo = \<lparr>stxo_Amount = ue_amount entry, stxo_PkScript = ue_pkScript entry,
               stxo_Height = ue_blockHeight entry, stxo_IsCoinBase = UtxoEntry_IsCoinBase entry\<rparr>;
             stxos = map_option (\<lambda>l. l @ [stxo]) stxos
         in spendInputs ins (setEntry (PreviousOutPoint txIn) (Spend entry) view, stxos))"

definition connectTransaction :: "MsgTx \<Rightarrow> int \<Rightarrow> (connection, chain_error, unit) op" where
  "connectTransaction tx blockHeight =
     (if IsCoinBase tx then mod_st (apfst (AddTxOuts tx blockHeight))
      else bnd (spendInputs (txIns tx)) (\<lambda>_. mod_st (apfst (AddTxOuts tx blockHeight))))"

primrec connectAll :: "MsgTx list \<Rightarrow> int \<Rightarrow> (connection, chain_error, unit) op" where
  "connectAll [] blockHeight = ret ()"
| "connectAll (tx # txs) blockHeight =
     bnd (connectTransaction tx blockHeight) (\<lambda>_. connectAll txs blockHeight)"

definition connectTransactions :: "Block \<Rightarrow> (connection, chain_error, unit) op" where
  "connectTransactions block =
     bnd (connectAll (block_Transactions block) (block_Height block)) (\<lambda>_.
       mod_st (apfst (SetBestHash (blockHash block))))"

subsection \<open>Disconnecting\<close>

definition MaxOutputsPerBlock :: nat where
  "MaxOutputsPerBlock = 4000000 div (4 * 9)"

function fetchLoop :: "UtxoViewpoint \<Rightarrow> byte list \<Rightarrow> nat \<Rightarrow> UtxoEntry option" where
  "fetchLoop view hash idx =
     (if idx < MaxOutputsPerBlock then
        (case LookupEntry view \<lparr>Hash = hash, Index = word_of_nat idx\<rparr> of
           Some entry \<Rightarrow> Some entry
         | None \<Rightarrow> fetchLoop view hash (idx + 1))
      else None)"
  by pat_completeness auto

termination
  by (relation "measure (\<lambda>(view, hash, idx). MaxOutputsPerBlock - idx)") auto

declare fetchLoop.simps [simp del]

type_synonym fetch_hash = "byte list \<Rightarrow> (chain_error, UtxoEntry option) res"

definition fetchEntryByHash :: "fetch_hash \<Rightarrow> byte list \<Rightarrow> UtxoViewpoint \<Rightarrow> (chain_error, UtxoEntry option) res" where
  "fetchEntryByHash db hash view =
     (case fetchLoop view hash 0 of Some entry \<Rightarrow> Ok (Some entry) | None \<Rightarrow> db hash)"

definition undoOutput :: "bool \<Rightarrow> int \<Rightarrow> UtxoViewpoint \<Rightarrow> OutPoint \<times> TxOut \<Rightarrow> UtxoViewpoint" where
  "undoOutput isCoinBase blockHeight view = (\<lambda>(prevOut, txOut).
     if IsUnspendable (PkScript txOut) then view
     else
       let entry = (case LookupEntry view prevOut of Some entry \<Rightarrow> entry
             | None \<Rightarrow> \<lparr>ue_amount = Value txOut, ue_pkScript = PkScript txOut, ue_blockHeight = blockHeight,
                 ue_packedFlags = (if isCoinBase then tfCoinBase else 0)\<rparr>)
       in setEntry prevOut (Spend entry) view)"

definition undoOutputs :: "MsgTx \<Rightarrow> bool \<Rightarrow> int \<Rightarrow> UtxoViewpoint \<Rightarrow> UtxoViewpoint" where
  "undoOutputs tx isCoinBase blockHeight view = foldl (undoOutput isCoinBase blockHeight) view (outputs tx)"

text \<open>The legacy journal did not store the height: it is looked up under the hash of the spending transaction.\<close>

definition fullStxo :: "fetch_hash \<Rightarrow> byte list \<Rightarrow> SpentTxOut \<Rightarrow> UtxoViewpoint \<Rightarrow> (chain_error, SpentTxOut) res" where
  "fullStxo db txHash stxo view =
     (if stxo_Height stxo = 0 then
        bind_res (fetchEntryByHash db txHash view) (\<lambda>utxo.
          case utxo of
            None \<Rightarrow> Err AssertError
          | Some utxo \<Rightarrow> Ok (stxo\<lparr>stxo_Height := ue_blockHeight utxo, stxo_IsCoinBase := UtxoEntry_IsCoinBase utxo\<rparr>))
      else Ok stxo)"

text \<open>The last inputs first; the spent outputs are consumed from the end of the list.  The entry is created before the lookup.\<close>

primrec undoInputs ::
  "fetch_hash \<Rightarrow> byte list \<Rightarrow> TxIn list \<Rightarrow> (UtxoViewpoint \<times> SpentTxOut list, chain_error, unit) op" where
  "undoInputs db txHash [] = ret ()"
| "undoInputs db txHash (txIn # ins) = (\<lambda>(view, rstxos).
     case rstxos of
       [] \<Rightarrow> (Panic, (view, rstxos))
     | stxo # rstxos \<Rightarrow>
         let originOut = PreviousOutPoint txIn;
             view = (case LookupEntry view originOut of Some _ \<Rightarrow> view | None \<Rightarrow> setEntry originOut newUtxoEntry view)
         in case fullStxo db txHash stxo view of
              Ok stxo \<Rightarrow>
                let entry = \<lparr>ue_amount = stxo_Amount stxo, ue_pkScript = stxo_PkScript stxo,
                      ue_blockHeight = stxo_Height stxo,
                      ue_packedFlags = (if stxo_IsCoinBase stxo then tfModified OR tfCoinBase else tfModified)\<rparr>
                in undoInputs db txHash ins (setEntry originOut entry view, rstxos)
            | Err e \<Rightarrow> (Err e, (view, rstxos))
            | Panic \<Rightarrow> (Panic, (view, rstxos))
            | Hang \<Rightarrow> (Hang, (view, rstxos)))"

text \<open>The transactions are given last first; the one in front of the block is taken for the coinbase.\<close>

primrec undoAll ::
  "fetch_hash \<Rightarrow> int \<Rightarrow> MsgTx list \<Rightarrow> (UtxoViewpoint \<times> SpentTxOut list, chain_error, unit) op" where
  "undoAll db blockHeight [] = ret ()"
| "undoAll db blockHeight (tx # txs) =
     (let isCoinBase = (txs = []) in
      bnd (mod_st (apfst (undoOutputs tx isCoinBase blockHeight))) (\<lambda>_.
      bnd (if isCoinBase then ret () else undoInputs db (TxHash tx) (rev (txIns tx))) (\<lambda>_.
        undoAll db blockHeight txs)))"

definition disconnectTransactions ::
  "fetch_hash \<Rightarrow> Block \<Rightarrow> SpentTxOut list \<Rightarrow> (UtxoViewpoint, chain_error, unit) op" where
  "disconnectTransactions db block stxos view =
     (case countSpentOutputs block of
        Ok n \<Rightarrow>
          if length stxos \<noteq> n then (Err AssertError, view)
          else (case undoAll db (block_Height block) (rev (block_Transactions block)) (view, rev stxos) of
            (Ok _, (view, _)) \<Rightarrow> (Ok (), SetBestHash (PrevBlock (Header (msgBlock block))) view)
          | (Err e, (view, _)) \<Rightarrow> (Err e, view)
          | (Panic, (view, _)) \<Rightarrow> (Panic, view)
          | (Hang, (view, _)) \<Rightarrow> (Hang, view))
      | Err e \<Rightarrow> (Err e, view) | Panic \<Rightarrow> (Panic, view) | Hang \<Rightarrow> (Hang, view))"

subsection \<open>Loading and committing\<close>

definition commit :: "UtxoViewpoint \<Rightarrow> UtxoViewpoint" where
  "commit view = view\<lparr>entries := (\<lambda>outpoint.
     case entries view outpoint of
       None \<Rightarrow> None
     | Some None \<Rightarrow> None
     | Some (Some entry) \<Rightarrow>
         if isModified entry \<and> IsSpent entry then None
         else Some (Some (entry\<lparr>ue_packedFlags := ue_packedFlags entry XOR tfModified\<rparr>)))\<rparr>"

type_synonym fetch_entry = "OutPoint \<Rightarrow> (chain_error, UtxoEntry option) res"

primrec fetchUtxosMain :: "fetch_entry \<Rightarrow> OutPoint list \<Rightarrow> (UtxoViewpoint, chain_error, unit) op" where
  "fetchUtxosMain db [] = ret ()"
| "fetchUtxosMain db (outpoint # outpoints) =
     bnd (lift_res (db outpoint)) (\<lambda>entry.
     bnd (mod_st (\<lambda>view. view\<lparr>entries := (entries view)(outpoint \<mapsto> entry)\<rparr>)) (\<lambda>_.
       fetchUtxosMain db outpoints))"

definition fetchUtxos ::
  "fetch_entry \<Rightarrow> (OutPoint list \<Rightarrow> OutPoint list) \<Rightarrow> OutPoint list \<Rightarrow> (UtxoViewpoint, chain_error, unit) op" where
  "fetchUtxos db visit outpoints view =
     fetchUtxosMain db (visit (filter (\<lambda>outpoint. entries view outpoint = None) outpoints)) view"

text \<open>One input of transaction \<open>i + 1\<close>: the view and the set of outputs still needed, in the order they were added.\<close>

definition neededInput ::
  "Block \<Rightarrow> nat \<Rightarrow> UtxoViewpoint \<times> OutPoint list \<Rightarrow> TxIn \<Rightarrow> UtxoViewpoint \<times> OutPoint list" where
  "neededInput block i s txIn =
     (case s of (view, neededSet) \<Rightarrow>
      let txs = block_Transactions block; prevOut = PreviousOutPoint txIn;
          txInFlight = map_of (rev (zip (map TxHash txs) [0..<length txs]))
      in case txInFlight (Hash prevOut) of
           Some inFlightIndex \<Rightarrow>
             if i \<ge> inFlightIndex then (AddTxOuts (txs ! inFlightIndex) (block_Height block) view, neededSet)
             else if entries view prevOut \<noteq> None then s else (view, List.insert prevOut neededSet)
         | None \<Rightarrow> if entries view prevOut \<noteq> None then s else (view, List.insert prevOut neededSet))"

definition fetchInputUtxos ::
  "fetch_entry \<Rightarrow> (OutPoint list \<Rightarrow> OutPoint list) \<Rightarrow> Block \<Rightarrow> (UtxoViewpoint, chain_error, unit) op" where
  "fetchInputUtxos db visit block view =
     (if block_Transactions block = [] then (Panic, view)
      else
        let txs = tl (block_Transactions block);
            (view, neededSet) = foldl (\<lambda>s (i, tx). foldl (neededInput block i) s (txIns tx)) (view, []) (zip [0..<length txs] txs)
        in fetchUtxosMain db (visit neededSet) view)"

definition FetchUtxoView ::
  "fetch_entry \<Rightarrow> (OutPoint list \<Rightarrow> OutPoint list) \<Rightarrow> MsgTx \<Rightarrow> (chain_error, unit) res \<times> UtxoViewpoint" where
  "FetchUtxoView db visit tx =
     (let neededSet = remdups (map fst (outputs tx) @ (if IsCoinBase tx then [] else map PreviousOutPoint (txIns tx)))
      in fetchUtxosMain db (visit neededSet) NewUtxoViewpoint)"

subsection \<open>Flags\<close>

lemma and_exp_bit: "(f :: byte) AND 2 ^ n = 2 ^ n \<longleftrightarrow> bit f n" if "n < 8"
proof
  assume "f AND 2 ^ n = 2 ^ n"
  then have "bit (f AND 2 ^ n) n = bit (2 ^ n :: byte) n" by simp
  then show "bit f n" using that by (simp add: bit_simps)
qed (auto intro!: bit_eqI simp: bit_simps)

lemma flag_bits:
  "IsSpent e \<longleftrightarrow> bit (ue_packedFlags e) (Suc 0)" "UtxoEntry_IsCoinBase e \<longleftrightarrow> bit (ue_packedFlags e) 0"
  "isModified e \<longleftrightarrow> bit (ue_packedFlags e) 2"
  using and_exp_bit[of 0 "ue_packedFlags e"] and_exp_bit[of 1 "ue_packedFlags e"] and_exp_bit[of 2 "ue_packedFlags e"]
  by (simp_all add: IsSpent_def UtxoEntry_IsCoinBase_def isModified_def tfSpent_def tfCoinBase_def tfModified_def)

lemma flag_consts [simp]:
  "\<not> bit tfModified (Suc 0)" "\<not> bit tfModified 0" "bit tfModified 2" "\<not> bit tfCoinBase (Suc 0)" "bit tfCoinBase 0"
  "bit tfSpent (Suc 0)" "\<not> bit tfSpent 0" "\<not> bit tfSpent 2" "\<not> bit tfCoinBase 2"
  by (simp_all add: tfSpent_def tfCoinBase_def tfModified_def bit_numeral_rec)

lemma Spend_flags [simp]:
  "IsSpent (Spend e)" "UtxoEntry_IsCoinBase (Spend e) = UtxoEntry_IsCoinBase e"
  by (simp_all add: Spend_def flag_bits bit_or_iff)

subsection \<open>The set of coins\<close>

text \<open>A coin is what the spend journal keeps of an output.  The coins of a view are its unspent entries.\<close>

type_synonym coin_set = "OutPoint \<rightharpoonup> SpentTxOut"

definition coin_of :: "UtxoEntry \<Rightarrow> SpentTxOut" where
  "coin_of e = \<lparr>stxo_Amount = ue_amount e, stxo_PkScript = ue_pkScript e, stxo_Height = ue_blockHeight e,
     stxo_IsCoinBase = UtxoEntry_IsCoinBase e\<rparr>"

definition coins :: "UtxoViewpoint \<Rightarrow> coin_set" where
  "coins view outpoint =
     (case LookupEntry view outpoint of
        Some e \<Rightarrow> if IsSpent e then None else Some (coin_of e) | None \<Rightarrow> None)"

definition output_coin :: "int \<Rightarrow> bool \<Rightarrow> TxOut \<Rightarrow> SpentTxOut" where
  "output_coin h cb to = \<lparr>stxo_Amount = Value to, stxo_PkScript = PkScript to, stxo_Height = h, stxo_IsCoinBase = cb\<rparr>"

definition spendable_outputs :: "MsgTx \<Rightarrow> (OutPoint \<times> TxOut) list" where
  "spendable_outputs tx = filter (\<lambda>(op, to). \<not> IsUnspendable (PkScript to)) (outputs tx)"

definition created :: "int \<Rightarrow> bool \<Rightarrow> MsgTx \<Rightarrow> coin_set" where
  "created h cb tx = map_of (rev (map (\<lambda>(op, to). (op, output_coin h cb to)) (spendable_outputs tx)))"

lemma LookupEntry_setEntry [simp]: "LookupEntry (setEntry op e view) = (LookupEntry view)(op \<mapsto> e)"
  by (rule ext) (simp add: LookupEntry_def setEntry_def)

lemma coins_setEntry [simp]:
  "coins (setEntry op e view) = (coins view)(op := if IsSpent e then None else Some (coin_of e))"
  by (rule ext) (simp add: coins_def)

lemma coins_SetBestHash [simp]: "coins (SetBestHash h view) = coins view" "bestHash (SetBestHash h view) = h"
  by (simp_all add: coins_def fun_eq_iff LookupEntry_def SetBestHash_def)

lemma coins_addTxOut:
  "coins (addTxOut op to cb h view) =
     (if IsUnspendable (PkScript to) then coins view else (coins view)(op \<mapsto> output_coin h cb to))"
  by (simp add: addTxOut_def Let_def flag_bits coin_of_def output_coin_def bit_or_iff)

lemma coins_AddTxOuts: "coins (AddTxOuts tx h view) = coins view ++ created h (IsCoinBase tx) tx"
proof -
  have "coins (foldl (\<lambda>view (op, to). addTxOut op to cb h view) view os) =
      coins view ++ map_of (rev (map (\<lambda>(op, to). (op, output_coin h cb to))
        (filter (\<lambda>(op, to). \<not> IsUnspendable (PkScript to)) os)))" for cb os
    by (induction os arbitrary: view) (auto simp: coins_addTxOut map_of_append)
  then show ?thesis by (simp add: AddTxOuts_def created_def spendable_outputs_def)
qed

lemma coins_undoOutputs: "coins (undoOutputs tx cb h view) = coins view |` (- set (map fst (spendable_outputs tx)))"
proof -
  have "coins (foldl (undoOutput cb h) view os) =
      coins view |` (- set (map fst (filter (\<lambda>(op, to). \<not> IsUnspendable (PkScript to)) os)))" for os
    by (induction os arbitrary: view) (auto simp: undoOutput_def Let_def restrict_map_def fun_eq_iff)
  then show ?thesis by (simp add: undoOutputs_def spendable_outputs_def)
qed

lemma dom_created: "dom (created h cb tx) = set (map fst (spendable_outputs tx))"
  by (force simp: created_def dom_map_of_conv_image_fst)

lemma coins_Some: "coins view op = Some c \<longleftrightarrow> (\<exists>e. LookupEntry view op = Some e \<and> \<not> IsSpent e \<and> c = coin_of e)"
  by (auto simp: coins_def split: option.splits)

lemma spendInputs_coins:
  assumes "set (map PreviousOutPoint ins) \<subseteq> dom (coins view)" "distinct (map PreviousOutPoint ins)"
  shows "\<exists>view'. spendInputs ins (view, Some l) =
      (Ok (), (view', Some (l @ map (\<lambda>i. the (coins view (PreviousOutPoint i))) ins))) \<and>
    coins view' = coins view |` (- set (map PreviousOutPoint ins))"
  using assms
proof (induction ins arbitrary: view l)
  case Nil
  then show ?case by (simp add: ret_def)
next
  case (Cons i ins)
  let ?op = "PreviousOutPoint i"
  obtain c where "coins view ?op = Some c" using Cons.prems(1) by auto
  then obtain e where e: "LookupEntry view ?op = Some e" "c = coin_of e" "coins view ?op = Some (coin_of e)"
    by (auto simp: coins_Some)
  let ?view = "setEntry ?op (Spend e) view"
  have cs: "coins ?view = (coins view)(?op := None)" by simp
  have ne: "PreviousOutPoint j \<noteq> ?op" if "j \<in> set ins" for j
    using Cons.prems(2) that by (metis distinct.simps(2) image_eqI list.simps(9) set_map)
  have same: "map (\<lambda>j. the (coins ?view (PreviousOutPoint j))) ins = map (\<lambda>j. the (coins view (PreviousOutPoint j))) ins"
    by (intro map_cong refl) (simp add: cs ne del: coins_setEntry)
  have sub: "set (map PreviousOutPoint ins) \<subseteq> dom (coins ?view)"
    using Cons.prems(1) ne unfolding cs by (auto simp: dom_def)
  obtain view' where v: "spendInputs ins (?view, Some (l @ [coin_of e])) =
      (Ok (), (view', Some ((l @ [coin_of e]) @ map (\<lambda>j. the (coins ?view (PreviousOutPoint j))) ins)))"
      "coins view' = coins ?view |` (- set (map PreviousOutPoint ins))"
    using Cons.IH[OF sub, of "l @ [coin_of e]"] Cons.prems(2) by (auto simp del: coins_setEntry)
  have "spendInputs (i # ins) (view, Some l) = spendInputs ins (?view, Some (l @ [coin_of e]))"
    using e(1) by (simp add: coin_of_def Let_def)
  moreover have "coins view' = coins view |` (- set (map PreviousOutPoint (i # ins)))"
    unfolding v(2) cs by (auto simp: restrict_map_def fun_eq_iff)
  ultimately show ?case using v(1) e(3) unfolding same by (intro exI[of _ view']) simp
qed

lemma undoInputs_coins:
  assumes "list_all (\<lambda>c. stxo_Height c \<noteq> 0) cs" "length cs = length ins" "distinct (map PreviousOutPoint ins)"
  shows "\<exists>view'. undoInputs db h ins (view, cs @ rest) = (Ok (), (view', rest)) \<and>
    coins view' = coins view ++ map_of (zip (map PreviousOutPoint ins) cs)"
  using assms
proof (induction ins arbitrary: view cs)
  case Nil
  then show ?case by (simp add: ret_def)
next
  case (Cons i ins)
  let ?op = "PreviousOutPoint i"
  obtain c cs' where cs: "cs = c # cs'" "stxo_Height c \<noteq> 0" using Cons.prems(1,2) by (cases cs) auto
  define view1 where "view1 = (case LookupEntry view ?op of Some _ \<Rightarrow> view | None \<Rightarrow> setEntry ?op newUtxoEntry view)"
  define e where "e = \<lparr>ue_amount = stxo_Amount c, ue_pkScript = stxo_PkScript c, ue_blockHeight = stxo_Height c,
    ue_packedFlags = (if stxo_IsCoinBase c then tfModified OR tfCoinBase else tfModified)\<rparr>"
  have e: "\<not> IsSpent e" "coin_of e = c" by (simp_all add: e_def flag_bits coin_of_def bit_or_iff)
  have "coins view1 op = coins view op" if "op \<noteq> ?op" for op
    using that by (auto simp: view1_def split: option.splits)
  then have v1: "coins (setEntry ?op e view1) = (coins view)(?op \<mapsto> c)" by (auto simp: e fun_eq_iff)
  obtain view' where v: "undoInputs db h ins (setEntry ?op e view1, cs' @ rest) = (Ok (), (view', rest))"
      "coins view' = coins (setEntry ?op e view1) ++ map_of (zip (map PreviousOutPoint ins) cs')"
    using Cons.IH[of cs' "setEntry ?op e view1"] Cons.prems cs by (auto simp del: coins_setEntry)
  have "?op \<notin> dom (map_of (zip (map PreviousOutPoint ins) cs'))"
    using Cons.prems cs(1) by (simp add: dom_map_of_zip)
  then have "(coins view)(?op \<mapsto> c) ++ map_of (zip (map PreviousOutPoint ins) cs') =
      coins view ++ (map_of (zip (map PreviousOutPoint ins) cs'))(?op \<mapsto> c)"
    by (metis map_add_upd map_add_upd_left)
  then have "coins view' = coins view ++ map_of (zip (map PreviousOutPoint (i # ins)) cs)" unfolding v(2) v1 cs(1) by simp
  moreover have "undoInputs db h (i # ins) (view, cs @ rest) = (Ok (), (view', rest))"
    using v(1) cs by (simp add: view1_def e_def fullStxo_def Let_def cong: if_cong)
  ultimately show ?case by blast
qed

subsection \<open>Blocks on the set of coins\<close>

text \<open>What a transaction spends, and what it does to the set.\<close>

definition spends :: "MsgTx \<Rightarrow> OutPoint list" where
  "spends tx = (if IsCoinBase tx then [] else map PreviousOutPoint (txIns tx))"

definition apply_tx :: "int \<Rightarrow> MsgTx \<Rightarrow> coin_set \<Rightarrow> coin_set" where
  "apply_tx h tx C = (C |` (- set (spends tx))) ++ created h (IsCoinBase tx) tx"

definition apply_txs :: "int \<Rightarrow> MsgTx list \<Rightarrow> coin_set \<Rightarrow> coin_set" where
  "apply_txs h txs C = fold (apply_tx h) txs C"

text \<open>
  A transaction may follow a set of coins when it spends distinct coins of it, none of them of height zero, and
  its outputs are not unspent yet.
\<close>

definition may_follow :: "int \<Rightarrow> MsgTx \<Rightarrow> coin_set \<Rightarrow> bool" where
  "may_follow h tx C \<longleftrightarrow> distinct (spends tx) \<and> set (spends tx) \<subseteq> dom C \<and>
     list_all (\<lambda>op. stxo_Height (the (C op)) \<noteq> 0) (spends tx) \<and>
     set (map fst (spendable_outputs tx)) \<inter> dom (C |` (- set (spends tx))) = {}"

fun connectable :: "int \<Rightarrow> MsgTx list \<Rightarrow> coin_set \<Rightarrow> bool" where
  "connectable h [] C = True"
| "connectable h (tx # txs) C \<longleftrightarrow> may_follow h tx C \<and> connectable h txs (apply_tx h tx C)"

fun spent_coins :: "int \<Rightarrow> MsgTx list \<Rightarrow> coin_set \<Rightarrow> SpentTxOut list" where
  "spent_coins h [] C = []"
| "spent_coins h (tx # txs) C = map (\<lambda>op. the (C op)) (spends tx) @ spent_coins h txs (apply_tx h tx C)"

lemma restrict_UNIV: "m |` UNIV = m"
  by (simp add: restrict_map_def)

lemma connectTransaction_coins:
  assumes "may_follow h tx (coins view)"
  shows "\<exists>view'. connectTransaction tx h (view, Some l) =
      (Ok (), (view', Some (l @ map (\<lambda>op. the (coins view op)) (spends tx)))) \<and>
    coins view' = apply_tx h tx (coins view)"
proof (cases "IsCoinBase tx")
  case True
  then show ?thesis
    by (simp add: connectTransaction_def mod_st_def spends_def apply_tx_def coins_AddTxOuts restrict_UNIV)
next
  case False
  then have "set (map PreviousOutPoint (txIns tx)) \<subseteq> dom (coins view)" "distinct (map PreviousOutPoint (txIns tx))"
    using assms by (simp_all add: may_follow_def spends_def)
  from spendInputs_coins[OF this, of l] False show ?thesis
    by (auto simp: connectTransaction_def bnd_def mod_st_def spends_def apply_tx_def coins_AddTxOuts comp_def)
qed

lemma connectAll_coins:
  "connectable h txs (coins view) \<Longrightarrow>
   \<exists>view'. connectAll txs h (view, Some l) = (Ok (), (view', Some (l @ spent_coins h txs (coins view)))) \<and>
     coins view' = apply_txs h txs (coins view)"
proof (induction txs arbitrary: view l)
  case Nil
  then show ?case by (simp add: ret_def apply_txs_def)
next
  case (Cons tx txs)
  obtain view1 where v1: "connectTransaction tx h (view, Some l) =
      (Ok (), (view1, Some (l @ map (\<lambda>op. the (coins view op)) (spends tx))))" "coins view1 = apply_tx h tx (coins view)"
    using connectTransaction_coins[of h tx view l] Cons.prems by auto
  then show ?case
    using Cons.IH[of view1 "l @ map (\<lambda>op. the (coins view op)) (spends tx)"] Cons.prems
    by (auto simp: bnd_def apply_txs_def)
qed

lemma restore_coins:
  assumes "may_follow h tx C"
  shows "(apply_tx h tx C |` (- set (map fst (spendable_outputs tx)))) ++
    map_of (zip (rev (spends tx)) (rev (map (\<lambda>op. the (C op)) (spends tx)))) = C"
proof -
  have "map_of (zip (rev (spends tx)) (rev (map (\<lambda>op. the (C op)) (spends tx)))) = (\<lambda>op. Some (the (C op))) |` set (spends tx)"
    by (simp add: rev_map map_of_zip_map restrict_map_def)
  moreover have "apply_tx h tx C |` (- set (map fst (spendable_outputs tx))) = C |` (- set (spends tx))"
  proof
    fix op
    show "(apply_tx h tx C |` (- set (map fst (spendable_outputs tx)))) op = (C |` (- set (spends tx))) op"
    proof (cases "op \<in> set (map fst (spendable_outputs tx))")
      case True
      then have "op \<notin> dom (C |` (- set (spends tx)))" using assms by (auto simp: may_follow_def)
      then show ?thesis using True by (auto simp: restrict_map_def domIff)
    next
      case False
      then have "op \<notin> dom (created h (IsCoinBase tx) tx)" by (simp add: dom_created)
      then show ?thesis using False by (simp add: apply_tx_def restrict_map_def map_add_def domIff)
    qed
  qed
  ultimately show ?thesis
    using assms by (auto simp: may_follow_def restrict_map_def map_add_def fun_eq_iff dom_def)
qed

lemma spent_coins_snoc:
  "spent_coins h (txs @ [tx]) C = spent_coins h txs C @ map (\<lambda>op. the (apply_txs h txs C op)) (spends tx)"
  by (induction txs arbitrary: C) (simp_all add: apply_txs_def)

lemma connectable_snoc:
  "connectable h (txs @ [tx]) C \<longleftrightarrow> connectable h txs C \<and> may_follow h tx (apply_txs h txs C)"
  by (induction txs arbitrary: C) (simp_all add: apply_txs_def)

lemma undoAll_coins:
  assumes "IsCoinBase cb" "list_all (\<lambda>tx. \<not> IsCoinBase tx) txs" "connectable h (cb # txs) C"
    and "coins view = apply_txs h (cb # txs) C"
  shows "\<exists>view'. undoAll db h (rev (cb # txs)) (view, rev (spent_coins h (cb # txs) C)) = (Ok (), (view', [])) \<and>
    coins view' = C"
  using assms
proof (induction txs arbitrary: view rule: rev_induct)
  case Nil
  then have "may_follow h cb C" by simp
  then show ?case
    using Nil restore_coins[of h cb C]
    by (simp add: bnd_def mod_st_def ret_def spends_def coins_undoOutputs apply_txs_def)
next
  case (snoc tx txs)
  let ?C = "apply_txs h (cb # txs) C"
  let ?cs = "map (\<lambda>op. the (?C op)) (spends tx)"
  let ?view1 = "undoOutputs tx False h view"
  have tx: "\<not> IsCoinBase tx" "may_follow h tx ?C" "spends tx = map PreviousOutPoint (txIns tx)"
    using snoc.prems(2,3) connectable_snoc[of h "cb # txs" tx C] by (simp_all add: spends_def)
  have app: "coins view = apply_tx h tx ?C" using snoc.prems(4) by (simp add: apply_txs_def)
  have sp: "rev (spent_coins h (cb # txs @ [tx]) C) = rev ?cs @ rev (spent_coins h (cb # txs) C)"
    using spent_coins_snoc[of h "cb # txs" tx C] by simp
  have cs: "list_all (\<lambda>c. stxo_Height c \<noteq> 0) (rev ?cs)" "length (rev ?cs) = length (rev (txIns tx))"
      "distinct (map PreviousOutPoint (rev (txIns tx)))"
    using tx(2,3) by (simp_all add: may_follow_def list_all_iff rev_map[symmetric])
  obtain view2 where v2: "undoInputs db (TxHash tx) (rev (txIns tx)) (?view1, rev ?cs @ rev (spent_coins h (cb # txs) C)) =
      (Ok (), (view2, rev (spent_coins h (cb # txs) C)))"
      "coins view2 = coins ?view1 ++ map_of (zip (map PreviousOutPoint (rev (txIns tx))) (rev ?cs))"
    using undoInputs_coins[OF cs(1,2), where rest = "rev (spent_coins h (cb # txs) C)"] cs(3) by blast
  have "coins view2 = ?C"
    using restore_coins[OF tx(2)] by (simp add: v2(2) coins_undoOutputs app tx(3) rev_map)
  moreover have "connectable h (cb # txs) C"
    using snoc.prems(3) connectable_snoc[of h "cb # txs" tx C] by simp
  ultimately obtain view' where v': "undoAll db h (rev (cb # txs)) (view2, rev (spent_coins h (cb # txs) C)) = (Ok (), (view', []))"
      "coins view' = C"
    using snoc.IH[of view2] snoc.prems(1,2) by auto
  show ?case
  proof (intro exI[of _ view'] conjI)
    have r: "rev (cb # txs @ [tx]) = tx # rev (cb # txs)" "rev (cb # txs) \<noteq> []" by simp_all
    show "undoAll db h (rev (cb # txs @ [tx])) (view, rev (spent_coins h (cb # txs @ [tx]) C)) = (Ok (), (view', []))"
      unfolding r(1) sp undoAll.simps using v'(1) v2(1) r(2)
      by (simp add: bnd_def mod_st_def Let_def del: spent_coins.simps rev.simps)
  qed (rule v'(2))
qed

lemma length_spent_coins:
  "length (spent_coins h txs C) = sum_list (map (\<lambda>tx. length (spends tx)) txs)"
  by (induction txs arbitrary: C) simp_all

subsection \<open>Properties\<close>

text \<open>
  Claim C2. Connecting a block is exact on the set of coins and disconnecting it takes the set back.  When the
  first transaction of the block, and no other, is a coinbase, and every transaction spends distinct unspent
  coins and creates only outputs that are not unspent yet, then connecting the block to a view succeeds, the
  coins of the new view are those of the old one without the spent and with the created ones, and the
  journal of spent outputs it returns lets \<^verbatim>\<open>disconnectTransactions\<close> succeed, restore the coins and
  move the view back to the previous block, whatever the database holds.
\<close>

theorem disconnect_undoes_connect:
  assumes "block_Transactions block = cb # txs" "IsCoinBase cb" "list_all (\<lambda>tx. \<not> IsCoinBase tx) txs"
    and "connectable (block_Height block) (block_Transactions block) (coins view)"
  shows "\<exists>view1 stxos view2.
    connectTransactions block (view, Some []) = (Ok (), (view1, Some stxos)) \<and>
    coins view1 = apply_txs (block_Height block) (block_Transactions block) (coins view) \<and> bestHash view1 = blockHash block \<and>
    disconnectTransactions db block stxos view1 = (Ok (), view2) \<and>
    coins view2 = coins view \<and> bestHash view2 = PrevBlock (Header (msgBlock block))"
proof -
  let ?h = "block_Height block" and ?txs = "block_Transactions block"
  let ?stxos = "spent_coins ?h ?txs (coins view)"
  obtain view' where c: "connectAll ?txs ?h (view, Some []) = (Ok (), (view', Some ?stxos))"
      "coins view' = apply_txs ?h ?txs (coins view)"
    using connectAll_coins[OF assms(4), of "[]"] by auto
  let ?view1 = "SetBestHash (blockHash block) view'"
  have "connectTransactions block (view, Some []) = (Ok (), (?view1, Some ?stxos))"
    using c(1) by (simp add: connectTransactions_def bnd_def mod_st_def)
  moreover have "length ?stxos = sum_list (map (\<lambda>tx. length (txIns tx)) txs)"
  proof -
    have m: "map (\<lambda>tx. length (spends tx)) txs = map (\<lambda>tx. length (txIns tx)) txs"
      using assms(3) by (simp add: list_all_iff spends_def)
    have "spends cb = []" using assms(2) by (simp add: spends_def)
    then show ?thesis unfolding length_spent_coins assms(1) list.map m by simp
  qed
  moreover obtain view2 where d: "undoAll db ?h (rev ?txs) (?view1, rev ?stxos) = (Ok (), (view2, []))"
      "coins view2 = coins view"
    using undoAll_coins[OF assms(2,3), of ?h "coins view" ?view1 db] assms(4) c(2) by (auto simp: assms(1))
  ultimately show ?thesis
    using c(2) assms(1)
    by (intro exI[of _ ?view1] exI[of _ ?stxos] exI[of _ "SetBestHash (PrevBlock (Header (msgBlock block))) view2"])
      (simp add: disconnectTransactions_def countSpentOutputs_def del: rev.simps spent_coins.simps)
qed

text \<open>A view with one coin, and a block with a coinbase and a transaction that spends the coin.\<close>

definition demo_coin_place :: OutPoint where
  "demo_coin_place = \<lparr>Hash = zeroHash, Index = 7\<rparr>"

definition demo_view :: UtxoViewpoint where
  "demo_view = setEntry demo_coin_place
     \<lparr>ue_amount = 5, ue_pkScript = [], ue_blockHeight = 3, ue_packedFlags = 0\<rparr> NewUtxoViewpoint"

definition demo_coinbase :: MsgTx where
  "demo_coinbase = \<lparr>Version = 1, txIns = [\<lparr>PreviousOutPoint = \<lparr>Hash = zeroHash, Index = 0xffffffff\<rparr>,
     SignatureScript = [], Witness = [], Sequence = 0\<rparr>], txOuts = [\<lparr>Value = 9, PkScript = []\<rparr>], LockTime = 0\<rparr>"

definition demo_spend :: MsgTx where
  "demo_spend = \<lparr>Version = 1, txIns = [\<lparr>PreviousOutPoint = demo_coin_place,
     SignatureScript = [], Witness = [], Sequence = 0\<rparr>], txOuts = [], LockTime = 0\<rparr>"

definition demo_block :: Block where
  "demo_block = \<lparr>msgBlock = \<lparr>Header = \<lparr>header_Version = 2, PrevBlock = zeroHash, MerkleRoot = zeroHash,
       Timestamp = 0, Bits = 0, Nonce = 0\<rparr>, Transactions = [demo_coinbase, demo_spend]\<rparr>, block_Height = 10\<rparr>"

lemma demo_connectable:
  "IsCoinBase demo_coinbase" "\<not> IsCoinBase demo_spend"
  "connectable 10 [demo_coinbase, demo_spend] (coins demo_view)"
proof -
  show cb: "IsCoinBase demo_coinbase" "\<not> IsCoinBase demo_spend"
    by (simp_all add: IsCoinBase_def IsCoinBaseTx_def demo_coinbase_def demo_spend_def demo_coin_place_def)
  have C: "coins demo_view = [demo_coin_place \<mapsto> \<lparr>stxo_Amount = 5, stxo_PkScript = [], stxo_Height = 3, stxo_IsCoinBase = False\<rparr>]"
    by (auto simp: demo_view_def flag_bits coin_of_def coins_def LookupEntry_def NewUtxoViewpoint_def)
  have o: "spendable_outputs demo_spend = []" "fst ` set (spendable_outputs demo_coinbase) \<subseteq> {\<lparr>Hash = TxHash demo_coinbase, Index = 0\<rparr>}"
    by (auto simp: spendable_outputs_def outputs_def demo_spend_def demo_coinbase_def)
  have s: "spends demo_coinbase = []" "spends demo_spend = [demo_coin_place]"
    using cb by (simp_all add: spends_def) (simp add: demo_spend_def)
  have ne: "\<lparr>Hash = TxHash demo_coinbase, Index = 0\<rparr> \<noteq> demo_coin_place" by (simp add: demo_coin_place_def)
  have "may_follow 10 demo_coinbase (coins demo_view)"
    using o(2) ne by (auto simp: may_follow_def s C restrict_map_def)
  moreover have "apply_tx 10 demo_coinbase (coins demo_view) demo_coin_place = coins demo_view demo_coin_place"
  proof -
    have "demo_coin_place \<notin> dom (created 10 True demo_coinbase)" using o(2) ne by (auto simp: dom_created)
    then show ?thesis using cb by (simp add: apply_tx_def s restrict_map_def map_add_def domIff)
  qed
  ultimately show "connectable 10 [demo_coinbase, demo_spend] (coins demo_view)"
    by (auto simp: may_follow_def s o C)
qed

theorem disconnect_undoes_connect_witness:
  "\<exists>view1 stxos view2. connectTransactions demo_block (demo_view, Some []) = (Ok (), (view1, Some stxos)) \<and>
    disconnectTransactions (\<lambda>_. Ok None) demo_block stxos view1 = (Ok (), view2) \<and>
    coins view2 = coins demo_view \<and> bestHash view2 = zeroHash"
proof -
  have "block_Transactions demo_block = demo_coinbase # [demo_spend]" by (simp add: demo_block_def block_Transactions_def)
  from disconnect_undoes_connect[OF this, of demo_view "\<lambda>_. Ok None"] demo_connectable show ?thesis
    by (fastforce simp: demo_block_def block_Transactions_def)
qed

text \<open>
  \<^verbatim>\<open>commit\<close> means to mark every entry unmodified, but it flips the flag: an entry that was loaded and not
  changed comes out marked modified.
\<close>

lemma commit_marks_unmodified:
  assumes "LookupEntry view op = Some e" "\<not> isModified e"
  shows "\<exists>e'. LookupEntry (commit view) op = Some e' \<and> isModified e'"
  using assms
  by (auto simp: commit_def LookupEntry_def flag_bits bit_xor_iff split: option.splits)

end
