(* ===== verification/Fork.thy ===== *)
theory Fork
  imports WireBlock
begin

text \<open>
  Hard forks, compact difficulty bits and the proof-of-work hashes (\<^verbatim>\<open>pkg/chain/fork\<close>).

  Whether the program runs on the test network is an argument (\<open>testnet\<close>, the package variable \<^verbatim>\<open>IsTestnet\<close>).
  A Go map read at a missing key gives the zero value.  The hash functions of other packages are one parameter,
  \<open>algo_hash\<close>: the name of the function and its input.  \<^verbatim>\<open>GetAlgoVer\<close> with the name \<^verbatim>\<open>random\<close> takes the random
  number as a parameter.
\<close>

unbundle bit_operations_syntax

subsection \<open>Compact numbers\<close>

definition CompactToBig :: "32 word \<Rightarrow> int" where
  "CompactToBig compact =
     (let mantissa = compact AND 0x007fffff;
          isNegative = compact AND 0x00800000 \<noteq> 0;
          exponent = unat (drop_bit 24 compact);
          bn = (if exponent \<le> 3 then uint (drop_bit (8 * (3 - exponent)) mantissa)
                else push_bit (8 * (exponent - 3)) (uint mantissa))
      in if isNegative then - bn else bn)"

text \<open>The number of bytes of the absolute value of a big integer.\<close>

fun byteLen :: "nat \<Rightarrow> nat" where
  "byteLen n = (if n = 0 then 0 else Suc (byteLen (n div 256)))"

declare byteLen.simps [simp del]

text \<open>\<^verbatim>\<open>Rsh\<close> rounds towards minus infinity, and \<^verbatim>\<open>Bits\<close> is the magnitude.\<close>

definition BigToCompact :: "int \<Rightarrow> 32 word" where
  "BigToCompact n =
     (if n = 0 then 0
      else
        let exponent = byteLen (nat \<bar>n\<bar>);
            mantissa = (if exponent \<le> 3 then push_bit (8 * (3 - exponent)) (word_of_int \<bar>n\<bar> :: 32 word)
                        else word_of_int \<bar>drop_bit (8 * (exponent - 3)) n\<bar>);
            (mantissa, exponent) =
              (if mantissa AND 0x00800000 \<noteq> 0 then (drop_bit 8 mantissa, exponent + 1) else (mantissa, exponent));
            compact = push_bit 24 (word_of_nat exponent) OR mantissa
        in if n < 0 then compact OR 0x00800000 else compact)"

subsection \<open>Forks\<close>

record AlgoParams =
  ap_Version :: int
  MinBits :: "32 word"
  AlgoID :: "32 word"
  NSperOp :: int

record HardForks =
  fork_Number :: "32 word"
  ActivationHeight :: int
  fork_Name :: string
  fork_Algos :: "(string \<times> AlgoParams) list"
  fork_AlgoVers :: "(int \<times> string) list"
  WorkBase :: int
  TargetTimePerBlock :: int
  AveragingInterval :: int
  TestnetStart :: int

definition FirstPowLimit :: int where
  "FirstPowLimit = 0x0fffff0000000000000000000000000000000000000000000000000000000000"

definition FirstPowLimitBits :: "32 word" where
  "FirstPowLimitBits = BigToCompact FirstPowLimit"

definition SecondPowLimit :: int where
  "SecondPowLimit = 0x00ffffffffffffffffffffffffffffffffffffffffffffffffffffffffffffff"

definition SecondPowLimitBits :: "32 word" where
  "SecondPowLimitBits = BigToCompact SecondPowLimit"

definition MainPowLimit :: int where
  "MainPowLimit = 0x00000fffff000000000000000000000000000000000000000000000000000000"

definition MainPowLimitBits :: "32 word" where
  "MainPowLimitBits = BigToCompact MainPowLimit"

definition AlgoVers :: "(int \<times> string) list" where
  "AlgoVers = [(2, ''sha256d''), (514, ''scrypt'')]"

definition Algos :: "(string \<times> AlgoParams) list" where
  "Algos =
    [(''sha256d'', \<lparr>ap_Version = 2, MinBits = MainPowLimitBits, AlgoID = 0, NSperOp = 824\<rparr>),
     (''scrypt'', \<lparr>ap_Version = 514, MinBits = MainPowLimitBits, AlgoID = 1, NSperOp = 740839\<rparr>)]"

definition P9AlgoVers :: "(int \<times> string) list" where
  "P9AlgoVers =
    [(5, ''blake2b''), (6, ''argon2i''), (7, ''cryptonight7v2''), (8, ''keccak''), (9, ''scrypt''),
     (10, ''sha256d''), (11, ''skein''), (12, ''stribog''), (13, ''lyra2rev2'')]"

definition p9_algo :: "int \<Rightarrow> 32 word \<Rightarrow> int \<Rightarrow> AlgoParams" where
  "p9_algo v i ns = \<lparr>ap_Version = v, MinBits = FirstPowLimitBits, AlgoID = i, NSperOp = ns\<rparr>"

definition P9Algos :: "(string \<times> AlgoParams) list" where
  "P9Algos =
    [(''blake2b'', p9_algo 5 0 60425), (''argon2i'', p9_algo 6 1 66177),
     (''cryptonight7v2'', p9_algo 7 2 102982451), (''keccak'', p9_algo 8 3 64589),
     (''scrypt'', p9_algo 9 4 1416611), (''sha256d'', p9_algo 10 5 67040),
     (''skein'', p9_algo 11 7 66803), (''stribog'', p9_algo 12 6 1858295),
     (''lyra2rev2'', p9_algo 13 8 134025)]"

definition work_base :: "(string \<times> AlgoParams) list \<Rightarrow> int" where
  "work_base algos = sum_list (map (NSperOp \<circ> snd) algos) div int (length algos)"

definition HardForkList :: "HardForks list" where
  "HardForkList =
    [\<lparr>fork_Number = 0, ActivationHeight = 0, fork_Name = ''Halcyon days'', fork_Algos = Algos,
      fork_AlgoVers = AlgoVers, WorkBase = work_base Algos, TargetTimePerBlock = 300,
      AveragingInterval = 10, TestnetStart = 0\<rparr>,
     \<lparr>fork_Number = 1, ActivationHeight = 250000, fork_Name = ''Plan 9 from Crypto Space'', fork_Algos = P9Algos,
      fork_AlgoVers = P9AlgoVers, WorkBase = work_base P9Algos, TargetTimePerBlock = 36,
      AveragingInterval = 3600, TestnetStart = 1\<rparr>]"

definition zeroAlgoParams :: AlgoParams where
  "zeroAlgoParams = \<lparr>ap_Version = 0, MinBits = 0, AlgoID = 0, NSperOp = 0\<rparr>"

definition algo_of :: "(string \<times> AlgoParams) list \<Rightarrow> string \<Rightarrow> AlgoParams" where
  "algo_of algos name = (case map_of algos name of Some a \<Rightarrow> a | None \<Rightarrow> zeroAlgoParams)"

definition ver_of :: "(int \<times> string) list \<Rightarrow> int \<Rightarrow> string" where
  "ver_of vers v = (case map_of vers v of Some n \<Rightarrow> n | None \<Rightarrow> [])"

definition GetCurrent :: "bool \<Rightarrow> int \<Rightarrow> nat" where
  "GetCurrent testnet height =
     foldl (\<lambda>curr i. if height \<ge> (if testnet then TestnetStart (HardForkList ! i) else ActivationHeight (HardForkList ! i))
        then i else curr) 0 [0..<length HardForkList]"

definition GetAlgoID :: "bool \<Rightarrow> string \<Rightarrow> int \<Rightarrow> 32 word" where
  "GetAlgoID testnet algoname height =
     (if GetCurrent testnet height > 1 then AlgoID (algo_of P9Algos algoname) else AlgoID (algo_of Algos algoname))"

definition GetAlgoName :: "bool \<Rightarrow> int \<Rightarrow> int \<Rightarrow> string" where
  "GetAlgoName testnet algoVer height =
     (let hf = GetCurrent testnet height in
      case map_of (fork_AlgoVers (HardForkList ! hf)) algoVer of
        Some name \<Rightarrow> name
      | None \<Rightarrow> if hf < 1 then ''sha256d'' else [])"

text \<open>\<open>intn n\<close> is what \<^verbatim>\<open>rng.Intn(n)\<close> returns.\<close>

definition GetAlgoVer :: "bool \<Rightarrow> (nat \<Rightarrow> nat) \<Rightarrow> string \<Rightarrow> int \<Rightarrow> int" where
  "GetAlgoVer testnet intn name height =
     (let hf = GetCurrent testnet height in
      if name = ''random'' then
        let randomalgover = int (intn (length (fork_AlgoVers (HardForkList ! hf)))) + 5 in
        (if hf = 0 then (if randomalgover AND 1 = 0 then 2 else 514)
         else if hf = 1 then
           ap_Version (algo_of (fork_Algos (HardForkList ! 1)) (ver_of (fork_AlgoVers (HardForkList ! 1)) randomalgover))
         else ap_Version (algo_of (fork_Algos (HardForkList ! hf)) ''sha256d''))
      else ap_Version (algo_of (fork_Algos (HardForkList ! hf)) name))"

definition GetAveragingInterval :: "bool \<Rightarrow> int \<Rightarrow> int" where
  "GetAveragingInterval testnet height = AveragingInterval (HardForkList ! GetCurrent testnet height)"

definition GetMinBits :: "bool \<Rightarrow> string \<Rightarrow> int \<Rightarrow> 32 word" where
  "GetMinBits testnet algoname height =
     MinBits (algo_of (fork_Algos (HardForkList ! GetCurrent testnet height)) algoname)"

definition GetMinDiff :: "bool \<Rightarrow> string \<Rightarrow> int \<Rightarrow> int" where
  "GetMinDiff testnet algoname height = CompactToBig (GetMinBits testnet algoname height)"

definition GetTargetTimePerBlock :: "bool \<Rightarrow> int \<Rightarrow> int" where
  "GetTargetTimePerBlock testnet height = TargetTimePerBlock (HardForkList ! GetCurrent testnet height)"

subsection \<open>Proof-of-work hashes\<close>

type_synonym algo_hash = "string \<Rightarrow> byte list \<Rightarrow> byte list"

definition fork_reverse :: "byte list \<Rightarrow> byte list" where
  "fork_reverse b = map (\<lambda>i. b ! (length b - 1)) [0..<length b]"

definition HashReps :: nat where
  "HashReps = 1"

text \<open>\<^verbatim>\<open>SetBytes\<close> and \<^verbatim>\<open>Bytes\<close> of a big integer, most significant byte first.\<close>

definition be_int :: "byte list \<Rightarrow> int" where
  "be_int bs = le_val (rev bs)"

definition int_be :: "int \<Rightarrow> byte list" where
  "int_be n = rev (le_enc (byteLen (nat n)) n)"

text \<open>One round: the product of the two halves divided by the input, padded to a multiple of 64 bytes.\<close>

definition div_round :: "byte list \<Rightarrow> ('e, byte list) res" where
  "div_round blockbytes =
     (let blocklen = length blockbytes;
          fh = be_int (blockbytes @ fork_reverse (take (blocklen div 2) blockbytes));
          sh = be_int (blockbytes @ fork_reverse (drop (blocklen div 2) blockbytes))
      in if be_int blockbytes = 0 then Panic
         else
           let divdb = int_be (fh * sh div be_int blockbytes);
               dlen = (if length divdb mod 64 \<noteq> 0 then (length divdb div 64 + 1) * 64 else length divdb)
           in Ok (divdb @ replicate (dlen - length divdb) 0))"

primrec DivHash :: "(byte list \<Rightarrow> byte list) \<Rightarrow> nat \<Rightarrow> byte list \<Rightarrow> ('e, byte list) res" where
  "DivHash hf 0 blockbytes = bind_res (div_round blockbytes) (\<lambda>ddd. Ok (hf ddd))"
| "DivHash hf (Suc howmany) blockbytes =
     bind_res (div_round blockbytes) (\<lambda>ddd. DivHash hf howmany (ddd @ fork_reverse ddd))"

text \<open>The hash functions of other packages, with the constant arguments left out.\<close>

record algo_env =
  argon2_IDKey :: "byte list \<Rightarrow> byte list \<Rightarrow> byte list"
  blake2b_Sum256 :: "byte list \<Rightarrow> byte list"
  cryptonight_Sum :: "byte list \<Rightarrow> byte list"
  sha3_Sum256 :: "byte list \<Rightarrow> byte list"
  lyra2rev2_Sum :: "byte list \<Rightarrow> byte list"
  scrypt_Key :: "byte list \<Rightarrow> byte list \<Rightarrow> byte list option"
  skein_Sum256 :: "byte list \<Rightarrow> byte list"
  gost_Hash :: "byte list \<Rightarrow> byte list"

definition Argon2i :: "algo_env \<Rightarrow> byte list \<Rightarrow> byte list" where
  "Argon2i env bytes = argon2_IDKey env (fork_reverse bytes) bytes"

text \<open>The reversed copy is overwritten by the key itself.\<close>

definition Scrypt :: "algo_env \<Rightarrow> byte list \<Rightarrow> byte list" where
  "Scrypt env bytes = (case scrypt_Key env bytes bytes of None \<Rightarrow> replicate 32 0 | Some dk \<Rightarrow> dk)"

text \<open>\<^verbatim>\<open>SetBytes\<close> refuses a slice of another length and leaves the zero hash.\<close>

definition set_hash :: "byte list \<Rightarrow> byte list" where
  "set_hash bs = (if length bs = HashSize then bs else replicate HashSize 0)"

definition fork_Hash :: "algo_env \<Rightarrow> bool \<Rightarrow> byte list \<Rightarrow> string \<Rightarrow> int \<Rightarrow> ('e, byte list) res" where
  "fork_Hash env testnet bytes name height =
     (let divhash = (\<lambda>hf. bind_res (DivHash hf HashReps bytes) (\<lambda>h. Ok (set_hash h))) in
      if name = ''blake2b'' then divhash (blake2b_Sum256 env)
      else if name = ''argon2i'' then divhash (Argon2i env)
      else if name = ''cryptonight7v2'' then divhash (cryptonight_Sum env)
      else if name = ''lyra2rev2'' then divhash (lyra2rev2_Sum env)
      else if name = ''scrypt'' then
        (if GetCurrent testnet height > 0 then divhash (Scrypt env) else Ok (set_hash (Scrypt env bytes)))
      else if name = ''sha256d'' then
        (if GetCurrent testnet height > 0 then divhash DoubleHashB else Ok (set_hash (DoubleHashB bytes)))
      else if name = ''stribog'' then divhash (gost_Hash env)
      else if name = ''skein'' then divhash (skein_Sum256 env)
      else if name = ''keccak'' then divhash (sha3_Sum256 env)
      else Ok (replicate HashSize 0))"

definition BlockHashWithAlgos :: "algo_env \<Rightarrow> bool \<Rightarrow> BlockHeader \<Rightarrow> int \<Rightarrow> ('e, byte list) res" where
  "BlockHashWithAlgos env testnet h height =
     fork_Hash env testnet (writeBlockHeader h) (GetAlgoName testnet (sint (header_Version h)) height) height"

subsection \<open>Work\<close>

definition oneLsh256 :: int where
  "oneLsh256 = 2 ^ 256"

text \<open>\<^verbatim>\<open>Quo\<close> truncates towards zero.\<close>

definition Quo :: "int \<Rightarrow> int \<Rightarrow> int" where
  "Quo a b = sgn a * sgn b * (\<bar>a\<bar> div \<bar>b\<bar>)"

definition CalcWork :: "bool \<Rightarrow> 32 word \<Rightarrow> int \<Rightarrow> int \<Rightarrow> int" where
  "CalcWork testnet bits height algover =
     (let current = HardForkList ! GetCurrent testnet height;
          algoname = ver_of (fork_AlgoVers current) algover;
          difficultyNum = CompactToBig bits * NSperOp (algo_of (fork_Algos current) algoname);
          difficultyNum = Quo difficultyNum (WorkBase current)
      in if difficultyNum \<le> 0 then 0 else oneLsh256 div (difficultyNum + 1))"

definition HashToBig :: "byte list \<Rightarrow> int" where
  "HashToBig hash = be_int (rev hash)"

subsection \<open>Lemmas\<close>

text \<open>
  \<^verbatim>\<open>reverse\<close> does not reverse: it fills the result with the last byte.
\<close>

lemma fork_reverse_fills: "b \<noteq> [] \<Longrightarrow> fork_reverse b = replicate (length b) (last b)"
  by (intro nth_equalityI) (simp_all add: fork_reverse_def last_conv_nth)

lemma GetCurrent_cases:
  "GetCurrent testnet height = (if (if testnet then 1 else 250000) \<le> height then 1 else 0)"
  by (simp add: GetCurrent_def HardForkList_def upt_rec)

lemma GetCurrent_mono: "h \<le> h' \<Longrightarrow> GetCurrent testnet h \<le> GetCurrent testnet h'"
  by (simp add: GetCurrent_cases)

lemma GetAlgoID_old_table: "GetAlgoID testnet algoname height = AlgoID (algo_of Algos algoname)"
  by (simp add: GetAlgoID_def GetCurrent_cases)

subsection \<open>Packing compact numbers\<close>

lemma and_bit23: "(x :: 32 word) AND 0x00800000 \<noteq> 0 \<longleftrightarrow> bit x 23"
proof -
  have "(0x00800000 :: 32 word) = 2 ^ 23" by simp
  then show ?thesis
    using and_exp_eq_0_iff_not_bit[of x 23] by (simp only: not_not simp_thms)
qed

lemma and_mask23: "(x :: 32 word) AND 0x007fffff = take_bit 23 x"
proof -
  have "(0x007fffff :: 32 word) = mask 23" by (simp add: mask_eq_exp_minus_1)
  then show ?thesis by (simp only: take_bit_eq_mask)
qed

lemma packed:
  fixes m e :: nat
  assumes "m < 2 ^ 23" "e < 256"
  defines "x \<equiv> push_bit 24 (word_of_nat e) OR (word_of_nat m :: 32 word)"
  shows "take_bit 23 x = word_of_nat m" "\<not> bit x 23" "unat (drop_bit 24 x) = e"
proof -
  have m: "take_bit 23 m = m" using assms(1) by (simp add: take_bit_nat_eq_self)
  have "take_bit 23 x = take_bit 23 (word_of_nat m)"
    by (simp add: x_def take_bit_or take_bit_push_bit)
  also have "\<dots> = word_of_nat m"
    using m by (metis take_bit_of_nat)
  finally show "take_bit 23 x = word_of_nat m" .
  have bm: "\<not> bit m k" if "23 \<le> k" for k
  proof -
    have "m < 2 ^ k" using assms(1) that by (meson less_le_trans one_le_numeral power_increasing)
    then show ?thesis by (simp add: bit_iff_odd)
  qed
  then show "\<not> bit x 23" by (simp add: x_def bit_or_iff bit_push_bit_iff bit_of_nat_iff)
  have "drop_bit 24 x = word_of_nat e"
  proof (rule bit_word_eqI)
    fix k assume k: "k < LENGTH(32)"
    have "\<not> bit e k" if "8 \<le> k"
    proof -
      have "e < 2 ^ k" using assms(2) that power_increasing[of 8 k "2 :: nat"] by simp
      then show ?thesis by (simp add: bit_iff_odd)
    qed
    then show "bit (drop_bit 24 x) k = bit (word_of_nat e :: 32 word) k"
      using bm[of "24 + k"] k
      by (cases "k < 8") (auto simp: x_def bit_drop_bit_eq bit_or_iff bit_push_bit_iff bit_of_nat_iff)
  qed
  then show "unat (drop_bit 24 x) = e" using assms(2) by (simp add: unat_of_nat take_bit_nat_eq_self)
qed

definition expand :: "nat \<Rightarrow> nat \<Rightarrow> int" where
  "expand e m = (if e \<le> 3 then int (m div 256 ^ (3 - e)) else int m * 256 ^ (e - 3))"

lemma CompactToBig_packed:
  assumes "m < 2 ^ 23" "e < 256"
  shows "CompactToBig (push_bit 24 (word_of_nat e) OR word_of_nat m) = expand e m"
proof -
  have p: "(2 :: nat) ^ (8 * k) = 256 ^ k" "(2 :: int) ^ (8 * k) = 256 ^ k" for k by (simp_all add: power_mult)
  have u: "unat (word_of_nat m :: 32 word) = m" using assms(1) by (simp add: unat_of_nat take_bit_nat_eq_self)
  then have "uint (word_of_nat m :: 32 word) = int m" by (metis uint_nat)
  moreover have "uint (drop_bit (8 * (3 - e)) (word_of_nat m :: 32 word)) = int (m div 256 ^ (3 - e))"
    by (simp only: uint_nat unat_drop_bit_eq u) (simp add: drop_bit_eq_div p(1))
  ultimately show ?thesis
    using packed[OF assms]
    unfolding CompactToBig_def and_bit23 and_mask23 Let_def expand_def
    by (simp add: push_bit_eq_mult p)
qed

lemma byteLen_bounds: "0 < n \<Longrightarrow> 256 ^ (byteLen n - 1) \<le> n \<and> n < 256 ^ byteLen n \<and> 0 < byteLen n"
proof (induction n rule: byteLen.induct)
  case (1 n)
  show ?case
  proof (cases "n div 256 = 0")
    case True
    then have "byteLen n = 1" using 1 by (simp add: byteLen.simps)
    then show ?thesis using True 1 by (auto simp: div_eq_0_iff)
  next
    case False
    let ?k = "byteLen (n div 256)"
    have b: "byteLen n = Suc ?k" using 1 by (simp add: byteLen.simps[of n])
    from False 1 have ih: "256 ^ (?k - 1) \<le> n div 256" "n div 256 < 256 ^ ?k" "0 < ?k" by simp_all
    have "(256 :: nat) ^ ?k = 256 * 256 ^ (?k - 1)" using power_minus_mult[OF ih(3), of "256 :: nat"] by (simp only: mult.commute)
    also have "\<dots> \<le> 256 * (n div 256)" using ih(1) by (intro mult_le_mono2)
    also have "\<dots> \<le> n" by simp
    finally have "256 ^ ?k \<le> n" .
    moreover have "n < 256 * 256 ^ ?k" using ih(2) by (simp add: div_less_iff_less_mult)
    ultimately show ?thesis by (simp add: b)
  qed
qed

text \<open>The mantissa and exponent the packing chooses.\<close>

definition mantissa_of :: "nat \<Rightarrow> nat" where
  "mantissa_of n = (if byteLen n \<le> 3 then n * 256 ^ (3 - byteLen n) else n div 256 ^ (byteLen n - 3))"

lemma mantissa_range: "0 < n \<Longrightarrow> 2 ^ 16 \<le> mantissa_of n \<and> mantissa_of n < 2 ^ 24"
proof -
  assume "0 < n"
  then have b: "256 ^ (byteLen n - 1) \<le> n" "n < 256 ^ byteLen n" "0 < byteLen n" using byteLen_bounds by auto
  show ?thesis
  proof (cases "byteLen n \<le> 3")
    case True
    then have "byteLen n = 1 \<or> byteLen n = 2 \<or> byteLen n = 3" using b(3) by auto
    then show ?thesis using b by (auto simp: mantissa_of_def)
  next
    case False
    define k where "k = byteLen n - 3"
    have "(256::nat) ^ (byteLen n - 1) = 256 ^ 2 * 256 ^ k" "(256::nat) ^ byteLen n = 256 ^ 3 * 256 ^ k"
      using False unfolding power_add[symmetric] by (simp_all only: k_def) (rule arg_cong[where f = "power 256"], simp)+
    then have "256 ^ 2 * 256 ^ k \<le> n" "n < 256 ^ 3 * 256 ^ k" using b by simp_all
    then have "256 ^ 2 \<le> n div 256 ^ k" "n div 256 ^ k < 256 ^ 3"
      by (simp_all add: less_eq_div_iff_mult_less_eq div_less_iff_less_mult)
    then show ?thesis using False by (simp add: mantissa_of_def k_def)
  qed
qed

lemma BigToCompact_pos:
  assumes "0 < n"
  shows "BigToCompact (int n) =
    (if mantissa_of n < 2 ^ 23 then push_bit 24 (word_of_nat (byteLen n)) OR word_of_nat (mantissa_of n)
     else push_bit 24 (word_of_nat (byteLen n + 1)) OR word_of_nat (mantissa_of n div 256))"
proof -
  have p: "(2 :: nat) ^ (8 * k) = 256 ^ k" "(2 :: int) ^ (8 * k) = 256 ^ k" for k by (simp_all add: power_mult)
  have m: "(if byteLen n \<le> 3 then push_bit (8 * (3 - byteLen n)) (word_of_int (int n) :: 32 word)
      else word_of_int (drop_bit (8 * (byteLen n - 3)) (int n))) = word_of_nat (mantissa_of n)"
    unfolding mantissa_of_def push_bit_eq_mult drop_bit_eq_div p(2)
    by (simp add: power_mult flip: zdiv_int of_nat_power) (metis of_int_of_nat_eq of_nat_numeral of_nat_power zdiv_int)
  have r: "mantissa_of n < 2 ^ 24" using mantissa_range[OF assms] by simp
  then have u: "unat (word_of_nat (mantissa_of n) :: 32 word) = mantissa_of n"
    by (simp add: unat_of_nat take_bit_nat_eq_self)
  have d: "drop_bit 8 (word_of_nat (mantissa_of n) :: 32 word) = word_of_nat (mantissa_of n div 256)"
    by (rule word_unat_eq_iff[THEN iffD2]) (use r u in \<open>simp add: drop_bit_eq_div unat_div unat_of_nat take_bit_nat_eq_self\<close>)
  have "bit (word_of_nat (mantissa_of n) :: 32 word) 23 \<longleftrightarrow> \<not> mantissa_of n < 2 ^ 23"
  proof -
    have "bit (mantissa_of n) 23 \<longleftrightarrow> odd (mantissa_of n div 2 ^ 23)" by (simp add: bit_iff_odd)
    moreover have "mantissa_of n div 2 ^ 23 = (if mantissa_of n < 2 ^ 23 then 0 else 1)"
    proof -
      have "mantissa_of n div 2 ^ 23 < 2" using r by (simp add: div_less_iff_less_mult)
      moreover have "mantissa_of n div 2 ^ 23 = 0 \<longleftrightarrow> mantissa_of n < 2 ^ 23" by (simp add: div_eq_0_iff)
      ultimately show ?thesis by (metis less_2_cases_iff One_nat_def)
    qed
    ultimately show ?thesis by (simp add: bit_of_nat_iff)
  qed
  then show ?thesis
    using assms m d unfolding BigToCompact_def and_bit23 Let_def
    by (simp add: abs_of_nonneg split: if_splits)
qed

lemma byteLen_unique:
  assumes "256 ^ (k - 1) \<le> n" "n < 256 ^ k" "0 < k"
  shows "byteLen n = k"
proof -
  have "0 < n" using assms(1) by (metis gr0I le_zero_eq power_not_zero zero_neq_numeral)
  from byteLen_bounds[OF this] have b: "256 ^ (byteLen n - 1) \<le> n" "n < 256 ^ byteLen n" "0 < byteLen n" by auto
  have "(256 :: nat) ^ (k - 1) < 256 ^ byteLen n" "(256 :: nat) ^ (byteLen n - 1) < 256 ^ k"
    using assms(1,2) b(1,2) by linarith+
  then have "k - 1 < byteLen n" "byteLen n - 1 < k" by (simp_all only: power_strict_increasing_iff)
  then show ?thesis using b(3) assms(3) by linarith
qed

text \<open>The lowest \<open>k\<close> bytes of a number set to zero, for the \<open>k\<close> that the packing drops.\<close>

definition dropped :: "nat \<Rightarrow> nat" where
  "dropped n = (if mantissa_of n < 2 ^ 23 then byteLen n - 3 else byteLen n - 2)"

definition truncate :: "nat \<Rightarrow> nat" where
  "truncate n = n div 256 ^ dropped n * 256 ^ dropped n"

lemma expand_mantissa:
  assumes "0 < n" "mantissa_of n < 2 ^ 23"
  shows "expand (byteLen n) (mantissa_of n) = int (truncate n)"
  using assms by (simp add: expand_def mantissa_of_def truncate_def dropped_def)

lemma expand_mantissa_shifted:
  assumes "0 < n" "\<not> mantissa_of n < 2 ^ 23"
  shows "expand (byteLen n + 1) (mantissa_of n div 256) = int (truncate n)"
proof -
  consider "byteLen n \<le> 2" | "byteLen n = 3" | "3 < byteLen n" by linarith
  then show ?thesis
  proof cases
    case 1
    then have "(256 :: nat) ^ (3 - byteLen n) = 256 * 256 ^ (3 - Suc (byteLen n))"
      by (simp add: Suc_diff_le flip: power_Suc)
    then show ?thesis using 1 assms(2) by (simp add: expand_def mantissa_of_def truncate_def dropped_def)
  next
    case 2
    then show ?thesis using assms(2) by (simp add: expand_def mantissa_of_def truncate_def dropped_def)
  next
    case 3
    then have "byteLen n - 2 = Suc (byteLen n - 3)" by simp
    then show ?thesis
      using 3 assms(2) by (simp add: expand_def mantissa_of_def truncate_def dropped_def div_mult2_eq[symmetric] mult.commute)
  qed
qed

lemma compact_truncates:
  assumes "0 < n" "n < 256 ^ 254"
  shows "CompactToBig (BigToCompact (int n)) = int (truncate n)"
proof -
  have "(256::nat) ^ (byteLen n - 1) < 256 ^ 254" using byteLen_bounds[OF assms(1)] assms(2) by linarith
  then have "byteLen n - 1 < 254" by (simp only: power_strict_increasing_iff)
  then have e: "byteLen n + 1 < 256" by linarith
  have m: "mantissa_of n div 256 < 2 ^ 23" using mantissa_range[OF assms(1)] by (simp add: div_less_iff_less_mult)
  show ?thesis
  proof (cases "mantissa_of n < 2 ^ 23")
    case True
    then show ?thesis
      using expand_mantissa[OF assms(1) True] CompactToBig_packed[OF True, of "byteLen n"] e
      by (simp add: BigToCompact_pos[OF assms(1)])
  next
    case False
    then show ?thesis
      using expand_mantissa_shifted[OF assms(1) False] CompactToBig_packed[OF m e]
      by (simp only: BigToCompact_pos[OF assms(1)] if_False)
  qed
qed

lemma kept_mantissa: "0 < n \<Longrightarrow> 2 ^ 15 * 256 ^ dropped n \<le> n \<or> truncate n = n"
proof -
  assume n: "0 < n"
  note r = mantissa_range[OF n]
  consider "byteLen n \<le> 2 \<or> dropped n = 0" | "3 \<le> byteLen n" "mantissa_of n < 2 ^ 23"
    | "3 \<le> byteLen n" "\<not> mantissa_of n < 2 ^ 23" by linarith
  then show ?thesis
  proof cases
    case 1
    then have "dropped n = 0" by (auto simp: dropped_def)
    then show ?thesis by (simp add: truncate_def)
  next
    case 2
    then have "mantissa_of n = n div 256 ^ dropped n" by (auto simp: mantissa_of_def dropped_def)
    then have "2 ^ 15 \<le> n div 256 ^ dropped n" using r by simp
    then show ?thesis by (simp add: less_eq_div_iff_mult_less_eq)
  next
    case 3
    moreover from 3(1) have "byteLen n - 2 = Suc (byteLen n - 3)" by simp
    ultimately have "mantissa_of n div 256 = n div 256 ^ dropped n"
      by (auto simp: mantissa_of_def dropped_def div_mult2_eq[symmetric] mult.commute)
    then have "2 ^ 15 \<le> n div 256 ^ dropped n" using 3(2) by simp
    then show ?thesis by (simp add: less_eq_div_iff_mult_less_eq)
  qed
qed

lemma truncate_bounds:
  assumes "0 < n"
  shows "truncate n \<le> n" "(n - truncate n) * 2 ^ 15 < n" "0 < truncate n"
proof -
  have "n - truncate n = n mod 256 ^ dropped n" by (simp add: truncate_def minus_div_mult_eq_mod)
  then have lt: "n - truncate n < 256 ^ dropped n" by simp
  show le: "truncate n \<le> n" by (simp add: truncate_def)
  show main: "(n - truncate n) * 2 ^ 15 < n"
    using kept_mantissa[OF assms] lt assms by auto
  show "0 < truncate n" using main assms by (cases "truncate n = 0") auto
qed

lemma truncate_mantissa:
  assumes n: "0 < n"
  shows "byteLen (truncate n) = byteLen n \<and>
    (if mantissa_of n < 2 ^ 23 then mantissa_of (truncate n) = mantissa_of n
     else \<not> mantissa_of (truncate n) < 2 ^ 23 \<and> mantissa_of (truncate n) div 256 = mantissa_of n div 256)"
proof -
  have b: "256 ^ (byteLen n - 1) \<le> n" "n < 256 ^ byteLen n" "0 < byteLen n" using byteLen_bounds[OF n] by auto
  have d: "dropped n \<le> byteLen n - 1" by (simp add: dropped_def diff_le_mono2)
  then have "(256::nat) ^ (byteLen n - 1) = 256 ^ (byteLen n - 1 - dropped n) * 256 ^ dropped n"
    by (simp flip: power_add)
  then have "256 ^ (byteLen n - 1) \<le> truncate n"
    using b(1) by (simp add: truncate_def less_eq_div_iff_mult_less_eq)
  then have same: "byteLen (truncate n) = byteLen n"
    using truncate_bounds(1)[OF n] b by (intro byteLen_unique) simp_all
  show ?thesis
  proof (cases "byteLen n \<le> 2 \<or> dropped n = 0")
    case True
    then have "dropped n = 0" by (auto simp: dropped_def)
    then show ?thesis by (simp add: truncate_def)
  next
    case False
    then have e: "3 \<le> byteLen n" "byteLen n - 2 = Suc (byteLen n - 3)" by linarith+
    have m: "mantissa_of k = k div 256 ^ (byteLen n - 3)" if "byteLen k = byteLen n" for k
      using e that by (auto simp: mantissa_of_def)
    show ?thesis
    proof (cases "mantissa_of n < 2 ^ 23")
      case True
      then show ?thesis using m[OF same] m[of n] same by (simp add: truncate_def dropped_def)
    next
      case False
      then have "mantissa_of (truncate n) = mantissa_of n div 256 * 256"
        using m[OF same] m[of n] e
        by (simp add: truncate_def dropped_def div_mult2_eq[symmetric] mult.commute[of 256] mult.assoc[symmetric])
      moreover have "2 ^ 15 \<le> mantissa_of n div 256" using False by simp
      ultimately show ?thesis using False same by simp
    qed
  qed
qed

lemma compact_of_truncate:
  assumes "0 < n"
  shows "BigToCompact (int (truncate n)) = BigToCompact (int n)"
  using truncate_mantissa[OF assms] truncate_bounds(3)[OF assms]
  by (simp add: BigToCompact_pos[OF assms] BigToCompact_pos[OF truncate_bounds(3)[OF assms]] split: if_splits)

subsection \<open>The division hash returns\<close>

lemma be_int_append: "be_int (xs @ ys) = be_int xs * 256 ^ length ys + be_int ys"
  by (simp add: be_int_def le_val_append algebra_simps)

lemma be_int_nonneg [simp]: "0 \<le> be_int xs"
  by (simp add: be_int_def)

lemma be_int_append_pos: "0 < be_int xs \<Longrightarrow> 0 < be_int (xs @ ys)"
  by (simp add: be_int_append add_pos_nonneg)

lemma be_int_append_le: "be_int xs \<le> be_int (xs @ ys)"
proof -
  have "be_int xs * 1 \<le> be_int xs * 256 ^ length ys" by (intro mult_left_mono) simp_all
  then show ?thesis using be_int_nonneg[of ys] by (simp only: be_int_append)
qed

lemma be_int_int_be: "0 < n \<Longrightarrow> be_int (int_be n) = n"
proof -
  assume "0 < n"
  then have "nat n < 256 ^ byteLen (nat n)" using byteLen_bounds[of "nat n"] by simp
  then have "n < 256 ^ byteLen (nat n)" using \<open>0 < n\<close> by (simp add: nat_less_iff)
  then show ?thesis using \<open>0 < n\<close> by (simp add: be_int_def int_be_def le_val_le_enc)
qed

lemma div_round_pos:
  assumes "0 < be_int b"
  shows "\<exists>d. div_round b = (Ok d :: ('e, byte list) res) \<and> 0 < be_int d"
proof -
  let ?fh = "be_int (b @ fork_reverse (take (length b div 2) b))"
  let ?sh = "be_int (b @ fork_reverse (drop (length b div 2) b))"
  have "be_int b * 1 \<le> ?fh * ?sh"
    using be_int_append_pos[OF assms, of "fork_reverse (drop (length b div 2) b)"]
    by (intro mult_mono be_int_append_le) simp_all
  then have "0 < ?fh * ?sh div be_int b" using assms by (simp add: pos_imp_zdiv_pos_iff)
  then have "0 < be_int (int_be (?fh * ?sh div be_int b))" by (simp only: be_int_int_be)
  then show ?thesis using assms by (auto simp: div_round_def Let_def be_int_append_pos)
qed

lemma DivHash_returns: "0 < be_int b \<Longrightarrow> \<exists>h. DivHash hf n b = (Ok h :: ('e, byte list) res)"
proof (induction n arbitrary: b)
  case 0
  then obtain d where "div_round b = (Ok d :: ('e, byte list) res)" using div_round_pos by blast
  then show ?case by simp
next
  case (Suc n)
  obtain d where d: "div_round b = (Ok d :: ('e, byte list) res)" "0 < be_int d" using div_round_pos[OF Suc.prems] by blast
  then show ?case using Suc.IH[OF be_int_append_pos[OF d(2)]] by simp
qed

lemma fork_Hash_returns: "0 < be_int b \<Longrightarrow>
   \<exists>h. fork_Hash env testnet b name height = (Ok h :: ('e, byte list) res) \<and> length h = HashSize"
proof -
  assume "0 < be_int b"
  then obtain g where g: "DivHash hf n b = (Ok (g hf n) :: ('e, byte list) res)" for hf n using DivHash_returns by metis
  show ?thesis by (simp add: fork_Hash_def g set_hash_def Let_def)
qed

lemma be_int_pos: "x \<in> set bs \<Longrightarrow> x \<noteq> 0 \<Longrightarrow> 0 < be_int bs"
proof -
  assume x: "x \<in> set bs" "x \<noteq> 0"
  have "0 < le_val xs" if "x \<in> set xs" for xs using that
  proof (induction xs)
    case (Cons y ys)
    have "0 < uint y" if "y = x" using x(2) that by (simp add: word_less_def[of 0, symmetric, simplified] word_gt_0)
    then show ?case using Cons by (auto simp: add_pos_nonneg add_nonneg_pos)
  qed simp
  then show ?thesis using x(1) by (simp add: be_int_def)
qed

subsection \<open>Properties\<close>

text \<open>
  Claim C28. The compact form of a positive number below \<open>256 ^ 254\<close> (a difficulty target is below
  \<open>256 ^ 32\<close>) expands to a positive number that is not larger, is off by less than one part in \<open>2 ^ 15\<close>, and packs
  to the same compact form again; so the bits of a header stand for one target, and packing never makes a target
  easier.
\<close>

theorem compact_target:
  assumes "0 < n" "n < 256 ^ 254"
  shows "0 < CompactToBig (BigToCompact n) \<and> CompactToBig (BigToCompact n) \<le> n \<and>
    (n - CompactToBig (BigToCompact n)) * 2 ^ 15 < n \<and>
    BigToCompact (CompactToBig (BigToCompact n)) = BigToCompact n"
proof -
  obtain k where k: "n = int k" "0 < k" using assms(1) by (metis zero_less_imp_eq_int)
  then have lt: "k < 256 ^ 254" using assms(2) by (metis of_nat_less_numeral_power_cancel_iff)
  have "int (k - truncate k) * 2 ^ 15 < int k"
    using truncate_bounds(2)[OF k(2)] by (metis of_nat_less_iff of_nat_mult of_nat_numeral of_nat_power)
  then show ?thesis
    using truncate_bounds[OF k(2)] compact_truncates[OF k(2) lt] compact_of_truncate[OF k(2)]
    by (simp add: k(1) of_nat_diff)
qed

theorem compact_target_witness:
  "BigToCompact 0x123456789 = 0x05012345 \<and> CompactToBig 0x05012345 = 0x123450000 \<and>
   (0x123456789 - CompactToBig (BigToCompact 0x123456789)) * 2 ^ 15 < 0x123456789"
proof -
  have "(0x123456789 :: int) < 256 ^ 254"
  proof -
    have "(0x123456789 :: int) < 256 ^ 5" by simp
    also have "\<dots> \<le> 256 ^ 254" by (rule power_increasing) simp_all
    finally show ?thesis .
  qed
  from compact_target[OF _ this] show ?thesis
    by (simp add: BigToCompact_def byteLen.simps CompactToBig_def Let_def)
qed

end
