(* ===== verification/BlockIndex.thy ===== *)
theory BlockIndex
  imports Fork
begin

text \<open>
  The tree of block nodes (\<^verbatim>\<open>pkg/chain/blockindex.go\<close>).

  Nodes are shared by pointer, and two of their fields (the work and the status) are written after a node has
  children, so the nodes live in a store: a reference is a number, every reference below \<open>fresh\<close> has been allocated,
  and \<^verbatim>\<open>nil\<close> is \<open>None\<close>.  A loop along the parents that never ends is \<open>Hang\<close>.  The index maps hashes to references
  and keeps the set of nodes to be written; its mutex is held for a whole call, so a call is one step.

  In a well-formed store, which is every store made by \<open>newBlockNode\<close>, a node is one higher than its parent; then the
  walks end, and the ancestor at a height is the node so many parents up.
\<close>

unbundle bit_operations_syntax

subsection \<open>Status flags\<close>

type_synonym blockStatus = byte

definition statusDataStored :: blockStatus where "statusDataStored = 1"

definition statusValid :: blockStatus where "statusValid = 2"

definition statusValidateFailed :: blockStatus where "statusValidateFailed = 4"

definition statusInvalidAncestor :: blockStatus where "statusInvalidAncestor = 8"

definition statusNone :: blockStatus where "statusNone = 0"

definition HaveData :: "blockStatus \<Rightarrow> bool" where
  "HaveData status \<longleftrightarrow> status AND statusDataStored \<noteq> 0"

definition KnownValid :: "blockStatus \<Rightarrow> bool" where
  "KnownValid status \<longleftrightarrow> status AND statusValid \<noteq> 0"

definition KnownInvalid :: "blockStatus \<Rightarrow> bool" where
  "KnownInvalid status \<longleftrightarrow> status AND (statusValidateFailed OR statusInvalidAncestor) \<noteq> 0"

subsection \<open>Nodes\<close>

type_synonym noderef = nat

record blockNode =
  node_parent :: "noderef option"
  node_hash :: "byte list"
  workSum :: "int option"
  node_height :: int
  node_version :: "32 word"
  node_bits :: "32 word"
  node_nonce :: "32 word"
  node_timestamp :: int
  node_merkleRoot :: "byte list"
  node_status :: blockStatus

record node_store =
  node_at :: "noderef \<Rightarrow> blockNode"
  fresh :: noderef

definition parent :: "node_store \<Rightarrow> noderef \<Rightarrow> noderef option" where
  "parent st r = node_parent (node_at st r)"

definition height :: "node_store \<Rightarrow> noderef \<Rightarrow> int" where
  "height st r = node_height (node_at st r)"

definition set_node :: "noderef \<Rightarrow> blockNode \<Rightarrow> node_store \<Rightarrow> node_store" where
  "set_node r n st = st\<lparr>node_at := (node_at st)(r := n)\<rparr>"

text \<open>The zero hash of a node without a parent.\<close>

definition noHash :: "byte list" where
  "noHash = replicate HashSize 0"

text \<open>The work of the parent is written too.\<close>

definition initBlockNode :: "bool \<Rightarrow> noderef \<Rightarrow> BlockHeader \<Rightarrow> noderef option \<Rightarrow> node_store \<Rightarrow> node_store" where
  "initBlockNode testnet r blockHeader par st =
     (let node = \<lparr>node_parent = None, node_hash = BlockHash blockHeader, workSum = None, node_height = 0,
            node_version = header_Version blockHeader, node_bits = Bits blockHeader, node_nonce = Nonce blockHeader,
            node_timestamp = Unix (Timestamp blockHeader), node_merkleRoot = MerkleRoot blockHeader,
            node_status = statusNone\<rparr>
      in case par of
           None \<Rightarrow> set_node r node st
         | Some p \<Rightarrow>
             let h = i32 (height st p + 1);
                 work = CalcWork testnet (Bits blockHeader) h (sint (header_Version blockHeader));
                 pn = node_at st p;
                 parentWork = CalcWork testnet (node_bits pn) (node_height pn) (sint (node_version pn))
             in set_node r (node\<lparr>node_parent := Some p, node_height := h, workSum := Some (parentWork + work)\<rparr>)
                  (set_node p (pn\<lparr>workSum := Some parentWork\<rparr>) st))"

definition newBlockNode :: "bool \<Rightarrow> BlockHeader \<Rightarrow> noderef option \<Rightarrow> node_store \<Rightarrow> noderef \<times> node_store" where
  "newBlockNode testnet blockHeader par st =
     (fresh st, initBlockNode testnet (fresh st) blockHeader par (st\<lparr>fresh := fresh st + 1\<rparr>))"

definition node_Header :: "node_store \<Rightarrow> noderef \<Rightarrow> BlockHeader" where
  "node_Header st r =
     (let node = node_at st r;
          prevHash = (case node_parent node of None \<Rightarrow> noHash | Some p \<Rightarrow> node_hash (node_at st p))
      in \<lparr>header_Version = node_version node, PrevBlock = prevHash, MerkleRoot = node_merkleRoot node,
          Timestamp = unix_time (node_timestamp node), Bits = node_bits node, Nonce = node_nonce node\<rparr>)"

partial_function (option) ancestorLoop ::
  "node_store \<Rightarrow> int \<Rightarrow> noderef option \<Rightarrow> noderef option option" where
  "ancestorLoop st h n =
     (case n of None \<Rightarrow> Some None
      | Some r \<Rightarrow> if height st r \<noteq> h then ancestorLoop st h (parent st r) else Some (Some r))"

definition returned :: "'a option \<Rightarrow> ('e, 'a) res" where
  "returned x = (case x of None \<Rightarrow> Hang | Some a \<Rightarrow> Ok a)"

definition Ancestor :: "node_store \<Rightarrow> noderef \<Rightarrow> int \<Rightarrow> ('e, noderef option) res" where
  "Ancestor st node h =
     (if h < 0 \<or> h > height st node then Ok None else returned (ancestorLoop st h (Some node)))"

definition RelativeAncestor :: "node_store \<Rightarrow> noderef \<Rightarrow> int \<Rightarrow> ('e, noderef option) res" where
  "RelativeAncestor st node distance = Ancestor st node (i32 (height st node - distance))"

definition medianTimeBlocks :: nat where
  "medianTimeBlocks = 11"

primrec pastTimestamps :: "node_store \<Rightarrow> nat \<Rightarrow> noderef option \<Rightarrow> int list" where
  "pastTimestamps st 0 iterNode = []"
| "pastTimestamps st (Suc n) iterNode =
     (case iterNode of None \<Rightarrow> []
      | Some r \<Rightarrow> node_timestamp (node_at st r) # pastTimestamps st n (parent st r))"

text \<open>The time is in seconds: the code wraps it with \<^verbatim>\<open>time.Unix\<close>, and its callers take it apart again.\<close>

definition CalcPastMedianTime :: "node_store \<Rightarrow> noderef option \<Rightarrow> ('e, int) res" where
  "CalcPastMedianTime st node =
     (let timestamps = sort (pastTimestamps st medianTimeBlocks node)
      in nth_res timestamps (length timestamps div 2))"

definition GetAlgo :: "node_store \<Rightarrow> noderef \<Rightarrow> 32 word" where
  "GetAlgo st node = node_version (node_at st node)"

definition ok_value :: "(unit, 'a) res \<Rightarrow> 'a option" where
  "ok_value r = (case r of Ok a \<Rightarrow> Some a | _ \<Rightarrow> None)"

text \<open>Versions other than 2 and 514 count as 2 before the first fork.\<close>

definition regular_version :: "bool \<Rightarrow> int \<Rightarrow> 32 word \<Rightarrow> 32 word" where
  "regular_version testnet h v = (if GetCurrent testnet h = 0 \<and> v \<noteq> 514 \<and> v \<noteq> 2 then 2 else v)"

partial_function (option) lastWithAlgoLoop ::
  "noderef option \<Rightarrow> bool \<Rightarrow> node_store \<Rightarrow> 32 word \<Rightarrow> noderef option option" where
  "lastWithAlgoLoop prev testnet st algo =
     (case prev of None \<Rightarrow> Some None
      | Some r \<Rightarrow>
          if regular_version testnet (height st r) (node_version (node_at st r)) = algo then Some (Some r)
          else (case ok_value (RelativeAncestor st r 1) of None \<Rightarrow> None | Some n \<Rightarrow> lastWithAlgoLoop n testnet st algo))"

text \<open>\<^verbatim>\<open>prev\<close> is the named result, \<^verbatim>\<open>nil\<close> at the start.\<close>

definition GetLastWithAlgo :: "bool \<Rightarrow> node_store \<Rightarrow> noderef option \<Rightarrow> 32 word \<Rightarrow> ('e, noderef option) res" where
  "GetLastWithAlgo testnet st node algo =
     (let prev = None in
      case prev of None \<Rightarrow> Ok None
      | Some p \<Rightarrow>
          let algo = (if GetCurrent testnet (height st p) = 0 \<and> algo \<noteq> 514 \<and> algo \<noteq> 2 then 2 else algo)
          in returned (lastWithAlgoLoop node testnet st algo))"

subsection \<open>The index\<close>

record blockIndex =
  bi_nodes :: node_store
  bi_index :: "byte list \<rightharpoonup> noderef"
  bi_dirty :: "noderef list"

definition newBlockIndex :: "node_store \<Rightarrow> blockIndex" where
  "newBlockIndex st = \<lparr>bi_nodes = st, bi_index = Map.empty, bi_dirty = []\<rparr>"

definition HaveBlock :: "blockIndex \<Rightarrow> byte list \<Rightarrow> bool" where
  "HaveBlock bi hash \<longleftrightarrow> bi_index bi hash \<noteq> None"

definition LookupNode :: "blockIndex \<Rightarrow> byte list \<Rightarrow> noderef option" where
  "LookupNode bi hash = bi_index bi hash"

definition mark_dirty :: "noderef \<Rightarrow> blockIndex \<Rightarrow> blockIndex" where
  "mark_dirty node bi = bi\<lparr>bi_dirty := List.insert node (bi_dirty bi)\<rparr>"

definition addNode :: "noderef \<Rightarrow> blockIndex \<Rightarrow> blockIndex" where
  "addNode node bi = bi\<lparr>bi_index := (bi_index bi)(node_hash (node_at (bi_nodes bi) node) \<mapsto> node)\<rparr>"

definition AddNode :: "noderef \<Rightarrow> blockIndex \<Rightarrow> blockIndex" where
  "AddNode node bi = mark_dirty node (addNode node bi)"

definition NodeStatus :: "blockIndex \<Rightarrow> noderef \<Rightarrow> blockStatus" where
  "NodeStatus bi node = node_status (node_at (bi_nodes bi) node)"

definition update_status :: "(blockStatus \<Rightarrow> blockStatus) \<Rightarrow> noderef \<Rightarrow> blockIndex \<Rightarrow> blockIndex" where
  "update_status f node bi =
     (let n = node_at (bi_nodes bi) node
      in bi\<lparr>bi_nodes := set_node node (n\<lparr>node_status := f (node_status n)\<rparr>) (bi_nodes bi)\<rparr>)"

definition SetStatusFlags :: "noderef \<Rightarrow> blockStatus \<Rightarrow> blockIndex \<Rightarrow> blockIndex" where
  "SetStatusFlags node flags bi = mark_dirty node (update_status (\<lambda>s. s OR flags) node bi)"

definition UnsetStatusFlags :: "noderef \<Rightarrow> blockStatus \<Rightarrow> blockIndex \<Rightarrow> blockIndex" where
  "UnsetStatusFlags node flags bi = mark_dirty node (update_status (\<lambda>s. s AND NOT flags) node bi)"

text \<open>
  \<open>store\<close> writes one node to the database, in the order in which the runtime visits the set (\<open>visit\<close>); a failed
  update changes nothing.
\<close>

definition flushToDB ::
  "(BlockHeader \<Rightarrow> blockNode \<Rightarrow> 'db \<Rightarrow> ('e, 'db) res) \<Rightarrow> (noderef list \<Rightarrow> noderef list) \<Rightarrow>
   (blockIndex \<times> 'db, 'e, unit) op" where
  "flushToDB store visit = (\<lambda>(bi, db).
     if bi_dirty bi = [] then (Ok (), (bi, db))
     else
       let st = bi_nodes bi in
       case foldl (\<lambda>r node. bind_res r (store (node_Header st node) (node_at st node))) (Ok db) (visit (bi_dirty bi)) of
         Ok db' \<Rightarrow> (Ok (), (bi\<lparr>bi_dirty := []\<rparr>, db'))
       | Err e \<Rightarrow> (Err e, (bi, db))
       | Panic \<Rightarrow> (Panic, (bi, db))
       | Hang \<Rightarrow> (Hang, (bi, db)))"

subsection \<open>Well-formed stores\<close>

text \<open>\<open>up st k r\<close> is the node \<open>k\<close> parents above \<open>r\<close>.\<close>

primrec up :: "node_store \<Rightarrow> nat \<Rightarrow> noderef \<Rightarrow> noderef option" where
  "up st 0 r = Some r"
| "up st (Suc k) r = (case parent st r of None \<Rightarrow> None | Some p \<Rightarrow> up st k p)"

definition wf_node :: "node_store \<Rightarrow> noderef \<Rightarrow> bool" where
  "wf_node st r \<longleftrightarrow> height st r < 2 ^ 31 - 1 \<and>
     (case parent st r of None \<Rightarrow> height st r = 0
      | Some p \<Rightarrow> p < fresh st \<and> 0 \<le> height st p \<and> height st r = height st p + 1)"

definition wf_store :: "node_store \<Rightarrow> bool" where
  "wf_store st \<longleftrightarrow> (\<forall>r < fresh st. wf_node st r)"

lemma wf_storeD: "wf_store st \<Longrightarrow> r < fresh st \<Longrightarrow> wf_node st r"
  by (simp add: wf_store_def)

lemma wf_height: "wf_store st \<Longrightarrow> r < fresh st \<Longrightarrow> 0 \<le> height st r \<and> height st r < 2 ^ 31 - 1"
  using wf_storeD[of st r] by (auto simp: wf_node_def split: option.splits)

lemma wf_parent:
  "wf_store st \<Longrightarrow> r < fresh st \<Longrightarrow> parent st r = Some p \<Longrightarrow> p < fresh st \<and> height st r = height st p + 1"
  using wf_storeD[of st r] by (simp add: wf_node_def)

lemma wf_root: "wf_store st \<Longrightarrow> r < fresh st \<Longrightarrow> parent st r = None \<longleftrightarrow> height st r = 0"
  using wf_storeD[of st r] by (auto simp: wf_node_def split: option.splits)

lemma up_wf:
  assumes "wf_store st"
  shows "r < fresh st \<Longrightarrow> up st k r = Some q \<Longrightarrow> q < fresh st \<and> height st q = height st r - int k"
proof (induction k arbitrary: r)
  case (Suc k)
  then obtain p where p: "parent st r = Some p" "up st k p = Some q" by (auto split: option.splits)
  from wf_parent[OF assms Suc.prems(1) p(1)] Suc.IH[OF _ p(2)] show ?case by simp
qed simp

lemma up_defined:
  assumes "wf_store st"
  shows "r < fresh st \<Longrightarrow> up st k r \<noteq> None \<longleftrightarrow> int k \<le> height st r"
proof (induction k arbitrary: r)
  case 0
  then show ?case using wf_height[OF assms] by simp
next
  case (Suc k)
  show ?case
  proof (cases "parent st r")
    case None
    then show ?thesis using wf_root[OF assms Suc.prems] by simp
  next
    case (Some p)
    then show ?thesis using wf_parent[OF assms Suc.prems Some] Suc.IH[of p] by simp
  qed
qed

lemma up_add: "up st (j + k) r = Option.bind (up st j r) (up st k)"
  by (induction j arbitrary: r) (simp_all split: option.split)

lemma ancestorLoop_up:
  assumes "wf_store st"
  shows "r < fresh st \<Longrightarrow> height st r = h + int k \<Longrightarrow> 0 \<le> h \<Longrightarrow> ancestorLoop st h (Some r) = Some (up st k r)"
proof (induction k arbitrary: r)
  case 0
  then show ?case by (simp add: ancestorLoop.simps)
next
  case (Suc k)
  then obtain p where p: "parent st r = Some p"
    using wf_root[OF assms Suc.prems(1)] by fastforce
  then show ?case
    using wf_parent[OF assms Suc.prems(1) p] Suc.IH[of p] Suc.prems by (simp add: ancestorLoop.simps[of st h "Some r"])
qed

definition ancestor_at :: "node_store \<Rightarrow> noderef \<Rightarrow> int \<Rightarrow> noderef option" where
  "ancestor_at st r h = (if 0 \<le> h \<and> h \<le> height st r then up st (nat (height st r - h)) r else None)"

lemma Ancestor_up:
  assumes "wf_store st" "r < fresh st"
  shows "Ancestor st r h = Ok (ancestor_at st r h)"
  using ancestorLoop_up[OF assms, of h "nat (height st r - h)"]
  by (auto simp: Ancestor_def returned_def ancestor_at_def)

lemma ancestor_at_wf:
  assumes "wf_store st" "r < fresh st" "ancestor_at st r h = Some a"
  shows "a < fresh st \<and> height st a = h \<and> 0 \<le> h \<and> h \<le> height st r"
  using assms(3) up_wf[OF assms(1,2), of "nat (height st r - h)" a] by (auto simp: ancestor_at_def split: if_splits)

lemma ancestor_at_defined:
  assumes "wf_store st" "r < fresh st"
  shows "ancestor_at st r h \<noteq> None \<longleftrightarrow> 0 \<le> h \<and> h \<le> height st r"
  using up_defined[OF assms, of "nat (height st r - h)"] by (auto simp: ancestor_at_def)

lemma ancestor_at_self: "0 \<le> height st r \<Longrightarrow> ancestor_at st r (height st r) = Some r"
  by (simp add: ancestor_at_def)

lemma ancestor_at_trans:
  assumes "wf_store st" "r < fresh st" "ancestor_at st r h = Some a" "h' \<le> h"
  shows "ancestor_at st r h' = ancestor_at st a h'"
proof (cases "0 \<le> h'")
  case True
  note a = ancestor_at_wf[OF assms(1-3)]
  have "nat (height st r - h') = nat (height st r - h) + nat (h - h')"
    using a assms(4) True by (simp flip: nat_add_distrib)
  then show ?thesis using a assms(3,4) True by (simp add: ancestor_at_def up_add)
qed (simp add: ancestor_at_def)

lemma ancestor_at_parent:
  assumes "wf_store st" "r < fresh st" "ancestor_at st r h = Some a"
  shows "parent st a = ancestor_at st r (h - 1)"
proof -
  note a = ancestor_at_wf[OF assms]
  have "ancestor_at st r (h - 1) = ancestor_at st a (h - 1)" by (rule ancestor_at_trans[OF assms]) simp
  also have "\<dots> = parent st a"
  proof (cases "parent st a")
    case None
    then have "h = 0" using wf_root[OF assms(1), of a] a by simp
    then show ?thesis using None by (simp add: ancestor_at_def)
  next
    case (Some p)
    then show ?thesis using wf_parent[OF assms(1) _ Some] wf_height[OF assms(1)] a by (force simp: ancestor_at_def)
  qed
  finally show ?thesis by simp
qed

lemma RelativeAncestor_up:
  assumes "wf_store st" "r < fresh st" "0 \<le> d" "d < 2 ^ 31"
  shows "RelativeAncestor st r d = Ok (up st (nat d) r)"
proof -
  have "i32 (height st r - d) = height st r - d" using wf_height[OF assms(1,2)] assms(3,4) by simp
  moreover have "up st (nat d) r = None" if "\<not> d \<le> height st r"
    using up_defined[OF assms(1,2), of "nat d"] that assms(3) by auto
  ultimately show ?thesis using assms(3) by (simp add: RelativeAncestor_def Ancestor_up[OF assms(1,2)] ancestor_at_def)
qed

subsection \<open>Making nodes\<close>

lemma newBlockNode_wf:
  assumes "wf_store st" "case par of None \<Rightarrow> True | Some p \<Rightarrow> p < fresh st \<and> height st p < 2 ^ 31 - 2"
    and "newBlockNode testnet h par st = (r, st')"
  shows "wf_store st' \<and> r = fresh st \<and> fresh st' = fresh st + 1 \<and> parent st' r = par \<and>
    (\<forall>q < fresh st. parent st' q = parent st q \<and> height st' q = height st q)"
proof -
  have r: "r = fresh st" "st' = initBlockNode testnet (fresh st) h par (st\<lparr>fresh := fresh st + 1\<rparr>)"
    using assms(3) unfolding newBlockNode_def by auto
  have keep: "parent st' q = parent st q \<and> height st' q = height st q" if "q < fresh st" for q
    using that assms(2) by (auto simp: r initBlockNode_def set_node_def parent_def height_def Let_def split: option.splits)
  have fr: "fresh st' = fresh st + 1"
    by (simp add: r initBlockNode_def set_node_def Let_def split: option.splits)
  have pa: "parent st' r = par"
    by (auto simp: r initBlockNode_def set_node_def parent_def Let_def split: option.splits)
  have he: "height st' r = (case par of None \<Rightarrow> 0 | Some p \<Rightarrow> height st p + 1)"
    using assms(2) wf_height[OF assms(1)]
    by (fastforce simp: r initBlockNode_def set_node_def height_def Let_def split: option.splits)
  have "wf_node st' q" if "q < fresh st'" for q
  proof (cases "q = r")
    case True
    then show ?thesis
      using assms(2) wf_height[OF assms(1)] keep
      by (auto simp: wf_node_def pa he fr split: option.splits)
  next
    case False
    then have q: "q < fresh st" using that fr r by simp
    then have "wf_node st q" using assms(1) by (simp add: wf_store_def)
    then show ?thesis using keep q by (auto simp: wf_node_def fr split: option.splits)
  qed
  then show ?thesis using keep fr pa r by (simp add: wf_store_def)
qed

subsection \<open>Past median time\<close>

lemma pastTimestamps_nonempty: "pastTimestamps st medianTimeBlocks (Some r) \<noteq> []"
  by (simp add: medianTimeBlocks_def eval_nat_numeral)

lemma length_filter_take: "length (filter P (take n xs)) \<le> length (filter P xs)"
  by (metis append_take_drop_id filter_append length_append le_add1)

lemma length_filter_drop: "length (filter P (drop n xs)) \<le> length (filter P xs)"
  by (metis append_take_drop_id filter_append length_append le_add2)

text \<open>The middle element of a sorted list has half of the elements on either side.\<close>

lemma middle_of_sorted:
  fixes xs :: "'a :: linorder list"
  assumes "sorted xs" "xs \<noteq> []"
  defines "m \<equiv> xs ! (length xs div 2)"
  shows "length xs < 2 * length (filter (\<lambda>x. x \<le> m) xs)" "length xs \<le> 2 * length (filter (\<lambda>x. m \<le> x) xs)"
proof -
  let ?i = "length xs div 2"
  have i: "?i < length xs" using assms(2) by (simp add: div_less_dividend)
  have "filter (\<lambda>x. x \<le> m) (take (Suc ?i) xs) = take (Suc ?i) xs"
    using assms(1) i by (auto simp: filter_id_conv in_set_conv_nth m_def less_Suc_eq_le intro!: sorted_nth_mono)
  then have "Suc ?i \<le> length (filter (\<lambda>x. x \<le> m) xs)"
    using length_filter_take[of "\<lambda>x. x \<le> m" "Suc ?i" xs] i by simp
  then show "length xs < 2 * length (filter (\<lambda>x. x \<le> m) xs)" by linarith
  have "filter (\<lambda>x. m \<le> x) (drop ?i xs) = drop ?i xs"
    using assms(1) i by (auto simp: filter_id_conv in_set_conv_nth m_def intro!: sorted_nth_mono)
  then have "length xs - ?i \<le> length (filter (\<lambda>x. m \<le> x) xs)"
    using length_filter_drop[of "\<lambda>x. m \<le> x" ?i xs] by simp
  then show "length xs \<le> 2 * length (filter (\<lambda>x. m \<le> x) xs)" by linarith
qed

lemma past_median:
  "\<exists>m. CalcPastMedianTime st (Some r) = Ok m \<and>
     (let ts = pastTimestamps st medianTimeBlocks (Some r) in
      m \<in> set ts \<and> length ts < 2 * length (filter (\<lambda>t. t \<le> m) ts) \<and> length ts \<le> 2 * length (filter (\<lambda>t. m \<le> t) ts))"
proof -
  define ts where "ts = pastTimestamps st medianTimeBlocks (Some r)"
  define m where "m = sort ts ! (length ts div 2)"
  have ne: "sort ts \<noteq> []" using pastTimestamps_nonempty[of st r] by (simp add: ts_def flip: set_empty)
  have i: "length ts div 2 < length ts" using pastTimestamps_nonempty[of st r] by (simp add: ts_def div_less_dividend)
  then have "CalcPastMedianTime st (Some r) = Ok m" by (simp add: CalcPastMedianTime_def ts_def[symmetric] m_def)
  moreover have "m \<in> set ts" using i by (metis length_sort m_def nth_mem set_sort)
  moreover have "length (filter P (sort ts)) = length (filter P ts)" for P
    by (metis filter_sort length_sort sort_key_simps) 
  ultimately show ?thesis
    using middle_of_sorted[OF sorted_sort ne] by (auto simp: ts_def[symmetric] m_def)
qed

lemma GetLastWithAlgo_nil: "GetLastWithAlgo testnet st node algo = Ok None"
  by (simp add: GetLastWithAlgo_def)

lemma flags_disjoint:
  "HaveData statusDataStored" "KnownValid statusValid" "KnownInvalid statusInvalidAncestor" "\<not> KnownInvalid statusValid"
  by (simp_all add: HaveData_def KnownValid_def KnownInvalid_def statusDataStored_def statusValid_def
      statusInvalidAncestor_def statusValidateFailed_def)

lemma status_after_set:
  "NodeStatus (SetStatusFlags r flags bi) r = NodeStatus bi r OR flags"
  "NodeStatus (UnsetStatusFlags r flags bi) r = NodeStatus bi r AND NOT flags"
  "r \<in> set (bi_dirty (SetStatusFlags r flags bi))"
  by (simp_all add: NodeStatus_def SetStatusFlags_def UnsetStatusFlags_def mark_dirty_def update_status_def
      set_node_def Let_def)

subsection \<open>Properties\<close>

text \<open>Two nodes: a first block and its child.\<close>

definition demo_header :: "32 word \<Rightarrow> BlockHeader" where
  "demo_header n = \<lparr>header_Version = 2, PrevBlock = noHash, MerkleRoot = noHash, Timestamp = 0, Bits = 0x1d00ffff, Nonce = n\<rparr>"

definition demo_store0 :: node_store where
  "demo_store0 = \<lparr>node_at = (\<lambda>_. \<lparr>node_parent = None, node_hash = [], workSum = None, node_height = 0, node_version = 0,
     node_bits = 0, node_nonce = 0, node_timestamp = 0, node_merkleRoot = [], node_status = 0\<rparr>), fresh = 0\<rparr>"

definition demo_store1 :: node_store where
  "demo_store1 = snd (newBlockNode False (demo_header 0) None demo_store0)"

definition demo_store :: node_store where
  "demo_store = snd (newBlockNode False (demo_header 1) (Some 0) demo_store1)"

lemma demo_store_wf: "wf_store demo_store1" "wf_store demo_store" "fresh demo_store1 = 1" "fresh demo_store = 2"
    "parent demo_store 0 = None" "parent demo_store 1 = Some 0" "parent demo_store (Suc 0) = Some 0" "height demo_store1 0 = 0"
proof -
  have 0: "wf_store demo_store0" "fresh demo_store0 = 0" by (simp_all add: wf_store_def demo_store0_def)
  have "newBlockNode False (demo_header 0) None demo_store0 = (0, demo_store1)"
    by (simp add: demo_store1_def newBlockNode_def 0(2))
  from newBlockNode_wf[OF 0(1) _ this] 0(2)
  have n1: "wf_store demo_store1" "fresh demo_store1 = 1" and p0: "parent demo_store1 0 = None" by simp_all
  then show 1: "wf_store demo_store1" "fresh demo_store1 = 1" by simp_all
  show h: "height demo_store1 0 = 0" using wf_root[OF 1(1), of 0] p0 1(2) by simp
  have "newBlockNode False (demo_header 1) (Some 0) demo_store1 = (1, demo_store)"
    by (simp add: demo_store_def newBlockNode_def 1(2))
  from newBlockNode_wf[OF 1(1) _ this] 1(2) h p0
  show "wf_store demo_store" "fresh demo_store = 2" "parent demo_store 0 = None" "parent demo_store 1 = Some 0"
      "parent demo_store (Suc 0) = Some 0"
    by auto
qed

lemma demo_heights: "height demo_store 0 = 0" "height demo_store 1 = 1" "height demo_store (Suc 0) = 1"
proof -
  have "1 < fresh demo_store" by (simp add: demo_store_wf)
  from wf_parent[OF demo_store_wf(2) this demo_store_wf(6)] wf_root[OF demo_store_wf(2), of 0]
  show "height demo_store 0 = 0" "height demo_store 1 = 1" "height demo_store (Suc 0) = 1"
    by (simp_all add: demo_store_wf)
qed

text \<open>
  Claim C27. In a well-formed store the walk to an ancestor returns: \<^verbatim>\<open>Ancestor\<close> of an allocated node gives,
  for every height between zero and the node's, the unique node on the path of its parents with that
  height, and \<^verbatim>\<open>nil\<close> for every other height; it never walks for ever.
\<close>

theorem Ancestor_returns:
  assumes "wf_store st" "r < fresh st"
  shows "(if 0 \<le> h \<and> h \<le> height st r
     then \<exists>a. Ancestor st r h = Ok (Some a) \<and> up st (nat (height st r - h)) r = Some a \<and> height st a = h \<and> a < fresh st
     else Ancestor st r h = Ok None)"
proof (cases "0 \<le> h \<and> h \<le> height st r")
  case True
  then obtain a where a: "up st (nat (height st r - h)) r = Some a"
    using up_defined[OF assms, of "nat (height st r - h)"] by auto
  then show ?thesis using up_wf[OF assms a] True by (simp add: Ancestor_up[OF assms] ancestor_at_def)
qed (auto simp: Ancestor_up[OF assms] ancestor_at_def)

theorem Ancestor_returns_witness:
  "Ancestor demo_store 1 0 = Ok (Some 0) \<and> Ancestor demo_store 1 2 = Ok None"
proof -
  show ?thesis
    using Ancestor_returns[OF demo_store_wf(2), of 1 0] Ancestor_returns[OF demo_store_wf(2), of 1 2]
    by (auto simp: demo_store_wf demo_heights)
qed



end
