(* ===== verification/ChainView.thy ===== *)
theory ChainView
  imports BlockIndex
begin

text \<open>
  The flat view of one branch of the tree (\<^verbatim>\<open>pkg/chain/chainview.go\<close>).

  A view is its slice of node pointers; the capacity of the slice only decides whether the backing array is
  replaced and is left out (both cases leave the old nodes in place and set the new places to \<^verbatim>\<open>nil\<close>).  The
  mutex is held for a whole call, so a call is one step.  An index out of range is \<open>Panic\<close>.

  The abstraction of a view is its tip: the slice is the branch from the first block to the tip.
\<close>

unbundle bit_operations_syntax

type_synonym chainView = "noderef option list"

definition approxNodesPerWeek :: nat where
  "approxNodesPerWeek = 6 * 24 * 7"

definition log2FloorMasks :: "32 word list" where
  "log2FloorMasks = [0xffff0000, 0xff00, 0xf0, 0xc, 0x2]"

fun log2Step :: "32 word \<Rightarrow> byte \<times> 32 word \<times> byte \<Rightarrow> byte \<times> 32 word \<times> byte" where
  "log2Step m (rv, n, exponent) =
     (let (rv, n) = (if n AND m \<noteq> 0 then (rv + exponent, drop_bit (unat exponent) n) else (rv, n))
      in (rv, n, drop_bit 1 exponent))"

definition fastLog2Floor :: "32 word \<Rightarrow> byte" where
  "fastLog2Floor n = fst (fold log2Step log2FloorMasks (0, n, 16))"

definition genesis :: "chainView \<Rightarrow> noderef option" where
  "genesis c = (if c = [] then None else c ! 0)"

definition tip :: "chainView \<Rightarrow> noderef option" where
  "tip c = (if c = [] then None else c ! (length c - 1))"

partial_function (option) setTipLoop ::
  "noderef option \<Rightarrow> node_store \<Rightarrow> chainView \<Rightarrow> (unit, chainView) res option" where
  "setTipLoop node st c =
     (case node of None \<Rightarrow> Some (Ok c)
      | Some r \<Rightarrow>
          if height st r < 0 \<or> height st r \<ge> int (length c) then Some Panic
          else if c ! nat (height st r) = Some r then Some (Ok c)
          else setTipLoop (parent st r) st (c[nat (height st r) := Some r]))"

definition setTip :: "node_store \<Rightarrow> noderef option \<Rightarrow> chainView \<Rightarrow> (unit, chainView) res" where
  "setTip st node c =
     (case node of
        None \<Rightarrow> Ok []
      | Some r \<Rightarrow>
          let needed = i32 (height st r + 1) in
          if needed < 0 then Panic
          else
            let c = take (nat needed) c @ replicate (nat needed - length c) None
            in (case setTipLoop (Some r) st c of None \<Rightarrow> Hang | Some res \<Rightarrow> res))"

definition newChainView :: "node_store \<Rightarrow> noderef option \<Rightarrow> (unit, chainView) res" where
  "newChainView st t = setTip st t []"

definition view_height :: "chainView \<Rightarrow> int" where
  "view_height c = i32 (int (length c) - 1)"

definition nodeByHeight :: "chainView \<Rightarrow> int \<Rightarrow> noderef option" where
  "nodeByHeight c h = (if h < 0 \<or> h \<ge> i32 (int (length c)) then None else c ! nat h)"

definition Equals :: "chainView \<Rightarrow> chainView \<Rightarrow> bool" where
  "Equals c other \<longleftrightarrow> length c = length other \<and> tip c = tip other"

definition contains :: "node_store \<Rightarrow> chainView \<Rightarrow> noderef \<Rightarrow> bool" where
  "contains st c node \<longleftrightarrow> nodeByHeight c (height st node) = Some node"

definition next_node :: "node_store \<Rightarrow> chainView \<Rightarrow> noderef option \<Rightarrow> noderef option" where
  "next_node st c node =
     (case node of None \<Rightarrow> None
      | Some r \<Rightarrow> if \<not> contains st c r then None else nodeByHeight c (i32 (height st r + 1)))"

partial_function (option) findForkLoop ::
  "noderef option \<Rightarrow> node_store \<Rightarrow> chainView \<Rightarrow> noderef option option" where
  "findForkLoop node st c =
     (case node of None \<Rightarrow> Some None
      | Some r \<Rightarrow> if contains st c r then Some (Some r) else findForkLoop (parent st r) st c)"

definition findFork :: "node_store \<Rightarrow> chainView \<Rightarrow> noderef option \<Rightarrow> (unit, noderef option) res" where
  "findFork st c node =
     (case node of None \<Rightarrow> Ok None
      | Some r \<Rightarrow>
          let chainHeight = view_height c in
          bind_res (if height st r > chainHeight then Ancestor st r chainHeight else Ok (Some r)) (\<lambda>node.
            returned (findForkLoop node st c)))"

text \<open>The entries so far are kept in reverse.\<close>

partial_function (option) locatorLoop ::
  "noderef option \<Rightarrow> node_store \<Rightarrow> chainView \<Rightarrow> int \<Rightarrow> byte list list \<Rightarrow> (unit, byte list list) res option" where
  "locatorLoop node st c step locator =
     (case node of None \<Rightarrow> Some (Ok (rev locator))
      | Some r \<Rightarrow>
          if height st r = 0 then Some (Ok (rev (node_hash (node_at st r) # locator)))
          else
            let h = (if i32 (height st r - step) < 0 then 0 else i32 (height st r - step));
                step' = (if length (node_hash (node_at st r) # locator) > 10 then i32 (step * 2) else step)
            in (case (if contains st c r then nth_res c (nat h) else Ancestor st r h :: (unit, noderef option) res) of
                  Ok node' \<Rightarrow> locatorLoop node' st c step' (node_hash (node_at st r) # locator)
                | Panic \<Rightarrow> Some Panic
                | _ \<Rightarrow> None))"

definition maxEntries :: "node_store \<Rightarrow> noderef \<Rightarrow> byte" where
  "maxEntries st node =
     (if height st node \<le> 12 then word_of_int (height st node) + 1
      else 12 + fastLog2Floor (word_of_int (height st node) - 10))"

definition blockLocator :: "node_store \<Rightarrow> chainView \<Rightarrow> noderef option \<Rightarrow> (unit, byte list list) res" where
  "blockLocator st c node =
     (case (case node of None \<Rightarrow> tip c | Some r \<Rightarrow> Some r) of
        None \<Rightarrow> Ok []
      | Some r \<Rightarrow> (case locatorLoop (Some r) st c 1 [] of None \<Rightarrow> Hang | Some l \<Rightarrow> l))"

subsection \<open>Branches\<close>

text \<open>The path from the first block to a node.\<close>

definition branch :: "node_store \<Rightarrow> noderef \<Rightarrow> chainView" where
  "branch st r = map (\<lambda>i. up st (nat (height st r) - i) r) [0..<Suc (nat (height st r))]"

lemma length_branch [simp]: "length (branch st r) = Suc (nat (height st r))"
  by (simp add: branch_def)

lemma nth_branch: "i \<le> nat (height st r) \<Longrightarrow> branch st r ! i = up st (nat (height st r) - i) r"
  by (simp add: branch_def del: upt_Suc)

definition view_of :: "node_store \<Rightarrow> noderef option \<Rightarrow> chainView" where
  "view_of st t = (case t of None \<Rightarrow> [] | Some r \<Rightarrow> branch st r)"

lemma tip_branch: "tip (branch st r) = Some r"
proof -
  have "branch st r \<noteq> []" by (simp add: branch_def)
  then show ?thesis by (simp add: tip_def nth_branch)
qed

lemma nth_branch_ancestor: "i \<le> nat (height st r) \<Longrightarrow> 0 \<le> height st r \<Longrightarrow> branch st r ! i = ancestor_at st r (int i)"
  by (simp add: nth_branch ancestor_at_def nat_diff_distrib)

lemma nodeByHeight_branch:
  assumes "wf_store st" "q < fresh st"
  shows "nodeByHeight (branch st q) h = ancestor_at st q h"
proof -
  have q: "0 \<le> height st q" "height st q < 2 ^ 31 - 1" using wf_height[OF assms] by auto
  then have "i32 (int (length (branch st q))) = height st q + 1" by simp
  then show ?thesis using q by (auto simp: nodeByHeight_def nth_branch_ancestor ancestor_at_def)
qed

lemma contains_branch:
  "wf_store st \<Longrightarrow> q < fresh st \<Longrightarrow> contains st (branch st q) r \<longleftrightarrow> ancestor_at st q (height st r) = Some r"
  by (simp add: contains_def nodeByHeight_branch)

lemma nodeByHeight_Nil [simp]: "nodeByHeight [] h = None"
  by (auto simp: nodeByHeight_def)

lemma view_height_branch: "wf_store st \<Longrightarrow> q < fresh st \<Longrightarrow> view_height (branch st q) = height st q"
  using wf_height[of st q] by (simp add: view_height_def)

subsection \<open>Setting the tip\<close>

text \<open>The places of a slice agree with the parents of each node in it.\<close>

definition consistent :: "node_store \<Rightarrow> chainView \<Rightarrow> bool" where
  "consistent st c \<longleftrightarrow> (\<forall>j < length c. \<forall>n. c ! j = Some n \<longrightarrow> height st n = int j \<longrightarrow>
     (\<forall>i \<le> j. c ! i = ancestor_at st n (int i)))"

lemma consistent_resized:
  assumes "wf_store st" "q < fresh st"
  shows "consistent st (take n (branch st q) @ replicate m None)"
proof -
  have q: "0 \<le> height st q" using wf_height[OF assms] by simp
  have "ancestor_at st q (int i) = ancestor_at st a (int i)" if "ancestor_at st q (int j) = Some a" "i \<le> j" for i j a
    using ancestor_at_trans[OF assms that(1), of "int i"] that(2) by simp
  then show ?thesis
    using q by (auto simp: consistent_def nth_append nth_branch_ancestor)
qed

lemma consistentD:
  "consistent st c \<Longrightarrow> j < length c \<Longrightarrow> c ! j = Some n \<Longrightarrow> height st n = int j \<Longrightarrow> i \<le> j \<Longrightarrow> c ! i = ancestor_at st n (int i)"
  by (simp add: consistent_def)

lemma consistent_empty: "consistent st (replicate m None)"
  by (simp add: consistent_def)

lemma setTipLoop_branch:
  assumes "wf_store st" "r < fresh st" "consistent st c" "length c = Suc (nat (height st r))"
  shows "j \<le> length c \<Longrightarrow>
    setTipLoop (ancestor_at st r (int j - 1)) st (take j c @ drop j (branch st r)) = Some (Ok (branch st r))"
proof (induction j)
  case 0
  then show ?case by (simp add: ancestor_at_def setTipLoop.simps)
next
  case (Suc j)
  have h: "0 \<le> height st r" using wf_height[OF assms(1,2)] by simp
  have j: "int j \<le> height st r" using Suc.prems assms(4) h by simp
  then obtain n where n: "ancestor_at st r (int j) = Some n"
    using ancestor_at_defined[OF assms(1,2), of "int j"] by auto
  note nw = ancestor_at_wf[OF assms(1,2) n]
  let ?d = "take (Suc j) c @ drop (Suc j) (branch st r)"
  have d: "?d ! j = c ! j" "length ?d = length c" using Suc.prems assms(4) by (simp_all add: nth_append)
  have b: "branch st r ! j = Some n" using n j h by (simp add: nth_branch_ancestor)
  show ?case
  proof (cases "c ! j = Some n")
    case True
    have "c ! i = branch st r ! i" if "i \<le> j" for i
    proof -
      have "c ! i = ancestor_at st n (int i)" using consistentD[OF assms(3) _ True _ that] nw Suc.prems by simp
      also have "\<dots> = ancestor_at st r (int i)" using ancestor_at_trans[OF assms(1,2) n, of "int i"] that by simp
      finally show ?thesis using j h that by (simp add: nth_branch_ancestor)
    qed
    then have "take (Suc j) c = take (Suc j) (branch st r)"
      using Suc.prems assms(4) by (intro nth_equalityI) simp_all
    then have "?d = branch st r" by simp
    then show ?thesis using n nw b j h by (simp add: setTipLoop.simps)
  next
    case False
    have "?d[j := Some n] = take j c @ drop j (branch st r)"
      using Suc.prems assms(4) b by (simp add: list_update_append take_Suc_conv_app_nth Cons_nth_drop_Suc[symmetric])
    moreover have "parent st n = ancestor_at st r (int j - 1)" using ancestor_at_parent[OF assms(1,2) n] by simp
    ultimately show ?thesis
      using n nw False d Suc.prems Suc.IH by (simp add: setTipLoop.simps[of "Some n"])
  qed
qed

lemma setTip_branch:
  assumes "wf_store st" "r < fresh st" "t = None \<or> (\<exists>q < fresh st. t = Some q)"
  shows "setTip st (Some r) (view_of st t) = Ok (branch st r)"
proof -
  have h: "0 \<le> height st r" "height st r < 2 ^ 31 - 1" using wf_height[OF assms(1,2)] by auto
  define n where "n = Suc (nat (height st r))"
  define c where "c = take n (view_of st t) @ replicate (n - length (view_of st t)) None"
  have c: "consistent st c"
    using assms(3) consistent_resized[OF assms(1)] consistent_empty[of st n]
    by (auto simp: view_of_def c_def)
  have len: "length c = n" by (simp add: c_def)
  have "setTipLoop (ancestor_at st r (int n - 1)) st (take n c @ drop n (branch st r)) = Some (Ok (branch st r))"
    using setTipLoop_branch[OF assms(1,2) c, of n] len by (simp add: n_def)
  moreover have "ancestor_at st r (int n - 1) = Some r" using ancestor_at_self[OF h(1)] h(1) by (simp add: n_def)
  ultimately have "setTipLoop (Some r) st c = Some (Ok (branch st r))" using len by (simp add: n_def)
  moreover have "nat (i32 (height st r + 1)) = n" "\<not> i32 (height st r + 1) < 0" using h by (simp_all add: n_def)
  ultimately show ?thesis unfolding setTip_def by (simp only: option.case Let_def if_False c_def[symmetric])
qed

subsection \<open>The fork point\<close>

definition common :: "node_store \<Rightarrow> noderef \<Rightarrow> noderef \<Rightarrow> noderef \<Rightarrow> bool" where
  "common st q r b \<longleftrightarrow> ancestor_at st q (height st b) = Some b \<and> ancestor_at st r (height st b) = Some b"

lemma common_height:
  "wf_store st \<Longrightarrow> q < fresh st \<Longrightarrow> r < fresh st \<Longrightarrow> common st q r b \<Longrightarrow>
   0 \<le> height st b \<and> height st b \<le> height st q \<and> height st b \<le> height st r"
  unfolding common_def using ancestor_at_wf by blast

text \<open>The highest common node below a bound, if there is one.\<close>

definition fork_below :: "node_store \<Rightarrow> noderef \<Rightarrow> noderef \<Rightarrow> int \<Rightarrow> noderef option \<Rightarrow> bool" where
  "fork_below st q r h f \<longleftrightarrow>
     (case f of None \<Rightarrow> (\<forall>b. common st q r b \<longrightarrow> height st b \<ge> h)
      | Some a \<Rightarrow> common st q r a \<and> (\<forall>b. common st q r b \<longrightarrow> height st b < h \<longrightarrow> height st b \<le> height st a))"

lemma findForkLoop_fork:
  assumes "wf_store st" "q < fresh st" "r < fresh st"
  shows "int j \<le> height st r + 1 \<Longrightarrow>
    \<exists>f. findForkLoop (ancestor_at st r (int j - 1)) st (branch st q) = Some f \<and> fork_below st q r (int j) f"
proof (induction j)
  case 0
  then show ?case
    using common_height[OF assms] by (auto simp: ancestor_at_def findForkLoop.simps fork_below_def)
next
  case (Suc j)
  then obtain n where n: "ancestor_at st r (int j) = Some n"
    using ancestor_at_defined[OF assms(1,3), of "int j"] by auto
  note nw = ancestor_at_wf[OF assms(1,3) n]
  show ?case
  proof (cases "contains st (branch st q) n")
    case True
    then have "common st q r n" using n nw by (simp add: common_def contains_branch[OF assms(1,2)])
    then show ?thesis using True n nw by (auto simp: findForkLoop.simps[of "Some n"] fork_below_def)
  next
    case False
    then have nc: "\<not> common st q r n" by (simp add: common_def contains_branch[OF assms(1,2)])
    have top: "height st b \<noteq> int j" if "common st q r b" for b
      using that n nc by (auto simp: common_def)
    obtain f where f: "findForkLoop (ancestor_at st r (int j - 1)) st (branch st q) = Some f" "fork_below st q r (int j) f"
      using Suc by auto
    have "fork_below st q r (int (Suc j)) f"
      using f(2) top by (fastforce simp: fork_below_def split: option.splits)
    then show ?thesis
      using f(1) False n ancestor_at_parent[OF assms(1,3) n] by (simp add: findForkLoop.simps[of "Some n"])
  qed
qed

lemma findFork_branch:
  assumes "wf_store st" "q < fresh st" "r < fresh st"
  shows "\<exists>f. findFork st (branch st q) (Some r) = Ok f \<and>
    (case f of None \<Rightarrow> (\<forall>b. \<not> common st q r b)
     | Some a \<Rightarrow> common st q r a \<and> (\<forall>b. common st q r b \<longrightarrow> height st b \<le> height st a))"
proof -
  define m where "m = min (height st q) (height st r)"
  have h: "0 \<le> height st q" "0 \<le> height st r" using wf_height[OF assms(1)] assms(2,3) by auto
  then have m: "int (nat (m + 1)) = m + 1" by (simp add: m_def)
  have "(if height st r > view_height (branch st q) then Ancestor st r (view_height (branch st q)) else Ok (Some r)) =
      (Ok (ancestor_at st r m) :: (unit, noderef option) res)"
    using h by (auto simp: view_height_branch[OF assms(1,2)] Ancestor_up[OF assms(1,3)] m_def min_def ancestor_at_self)
  moreover obtain f where f: "findForkLoop (ancestor_at st r m) st (branch st q) = Some f" "fork_below st q r (m + 1) f"
    using findForkLoop_fork[OF assms, of "nat (m + 1)"] m by (auto simp: m_def)
  ultimately have "findFork st (branch st q) (Some r) = Ok f"
    by (simp add: findFork_def Let_def returned_def)
  moreover have "height st b < m + 1" if "common st q r b" for b
    using common_height[OF assms that] by (simp add: m_def)
  ultimately show ?thesis
    using f(2) by (fastforce simp: fork_below_def split: option.splits)
qed

subsection \<open>Locators\<close>

text \<open>A view, empty or the branch to a node of the store.\<close>

definition wf_view :: "node_store \<Rightarrow> chainView \<Rightarrow> bool" where
  "wf_view st c \<longleftrightarrow> c = [] \<or> (\<exists>q < fresh st. c = branch st q)"

lemma wf_view_setTip:
  assumes "wf_store st" "wf_view st c" "r < fresh st"
  shows "setTip st (Some r) c = Ok (branch st r) \<and> wf_view st (branch st r)"
proof -
  obtain t where "c = view_of st t" "t = None \<or> (\<exists>q < fresh st. t = Some q)"
    using assms(2) by (auto simp: wf_view_def view_of_def intro: that[of None] that[of "Some _"])
  then show ?thesis using setTip_branch[OF assms(1,3)] assms(3) by (auto simp: wf_view_def)
qed

text \<open>Nodes on the path above a node, one below the other, down to the first block.\<close>

fun descends :: "node_store \<Rightarrow> noderef \<Rightarrow> noderef list \<Rightarrow> bool" where
  "descends st r [] \<longleftrightarrow> height st r = 0"
| "descends st r (a # as) \<longleftrightarrow> ancestor_at st r (height st a) = Some a \<and> height st a < height st r \<and> descends st a as"

definition hash_of :: "node_store \<Rightarrow> noderef \<Rightarrow> byte list" where
  "hash_of st r = node_hash (node_at st r)"

lemma view_lookup:
  assumes "wf_store st" "wf_view st c" "r < fresh st" "0 \<le> h" "h \<le> height st r"
  shows "(if contains st c r then nth_res c (nat h) else Ancestor st r h) = Ok (ancestor_at st r h)"
proof (cases "contains st c r")
  case True
  then obtain q where q: "q < fresh st" "c = branch st q" using assms(2) by (auto simp: wf_view_def contains_def)
  then have r: "ancestor_at st q (height st r) = Some r" using True contains_branch[OF assms(1)] by simp
  then have le: "h \<le> height st q" "0 \<le> height st q" using ancestor_at_wf[OF assms(1) q(1) r] assms(4,5) by auto
  then have "c ! nat h = ancestor_at st q h" "nat h < length c" using q(2) assms(4) by (simp_all add: nth_branch_ancestor)
  then show ?thesis using True ancestor_at_trans[OF assms(1) q(1) r assms(5)] by simp
qed (simp add: Ancestor_up[OF assms(1,3)])

definition step_fits :: "int \<Rightarrow> int \<Rightarrow> bool" where
  "step_fits h step \<longleftrightarrow> h = 0 \<or> 0 < step \<and> h + step \<le> 2 ^ 31"

lemma locatorLoop_descends:
  assumes "wf_store st" "wf_view st c"
  shows "r < fresh st \<Longrightarrow> step_fits (height st r) step \<Longrightarrow>
    \<exists>as. locatorLoop (Some r) st c step acc = Some (Ok (rev acc @ map (hash_of st) (r # as))) \<and> descends st r as"
proof (induction "nat (height st r)" arbitrary: r step acc rule: less_induct)
  case less
  have r: "0 \<le> height st r" "height st r < 2 ^ 31 - 1" using wf_height[OF assms(1) less.prems(1)] by auto
  show ?case
  proof (cases "height st r = 0")
    case True
    then show ?thesis by (intro exI[of _ "[]"]) (simp add: locatorLoop.simps hash_of_def)
  next
    case False
    then have s: "0 < step" "height st r + step \<le> 2 ^ 31" using less.prems(2) by (auto simp: step_fits_def)
    then have i: "i32 (height st r - step) = height st r - step" using r by simp
    define h where "h = (if height st r - step < 0 then 0 else height st r - step)"
    have h: "0 \<le> h" "h < height st r" using s r False by (auto simp: h_def)
    obtain a where a: "ancestor_at st r h = Some a"
      using ancestor_at_defined[OF assms(1) less.prems(1), of h] h by auto
    note aw = ancestor_at_wf[OF assms(1) less.prems(1) a]
    define acc' where "acc' = node_hash (node_at st r) # acc"
    define step' where "step' = (if length acc' > 10 then i32 (step * 2) else step)"
    have "step_fits (height st a) step'"
    proof (cases "h = 0")
      case False
      then have h2: "h = height st r - step" using h by (auto simp: h_def split: if_splits)
      then have "i32 (step * 2) = step * 2" using s h False by simp
      then show ?thesis using aw s h2 h by (auto simp: step_fits_def step'_def)
    qed (use aw in \<open>simp add: step_fits_def\<close>)
    moreover have "nat (height st a) < nat (height st r)" using aw h by simp
    ultimately obtain as where as: "locatorLoop (Some a) st c step' acc' = Some (Ok (rev acc' @ map (hash_of st) (a # as)))"
        "descends st a as"
      using less.hyps[of a step' acc'] aw by blast
    have look: "(if contains st c r then nth_res c (nat h) else Ancestor st r h) = (Ok (Some a) :: (unit, noderef option) res)"
      using view_lookup[OF assms less.prems(1) h(1)] h a by simp
    have "locatorLoop (Some r) st c step acc = locatorLoop (Some a) st c step' acc'"
      by (subst locatorLoop.simps)
        (simp only: option.case False if_False Let_def i h_def[symmetric] acc'_def[symmetric] step'_def[symmetric] look res.case)
    then have "locatorLoop (Some r) st c step acc = Some (Ok (rev acc @ map (hash_of st) (r # a # as)))"
      using as(1) by (simp add: acc'_def hash_of_def)
    moreover have "descends st r (a # as)" using as(2) a aw h by simp
    ultimately show ?thesis by blast
  qed
qed

lemma blockLocator_descends:
  assumes "wf_store st" "wf_view st c" "r < fresh st"
  shows "\<exists>as. blockLocator st c (Some r) = Ok (map (hash_of st) (r # as)) \<and> descends st r as"
proof -
  have "step_fits (height st r) 1" using wf_height[OF assms(1,3)] by (simp add: step_fits_def)
  from locatorLoop_descends[OF assms this, of "[]"] show ?thesis by (auto simp: blockLocator_def)
qed

subsection \<open>Properties\<close>

text \<open>
  Claim C12. Moving the tip of a view keeps it a branch of the tree: from any view that is empty or a branch,
  \<^verbatim>\<open>setTip\<close> to a node succeeds, and although it stops as soon as it meets a node that is already in
  its place, the slice is then the whole path from the first block to that node; its last element is the tip,
  its height is the node's height and the node it gives for a height is the ancestor at that height.
\<close>

theorem setTip_keeps_branch:
  assumes "wf_store st" "wf_view st c" "r < fresh st"
  shows "\<exists>c'. setTip st (Some r) c = Ok c' \<and> wf_view st c' \<and> tip c' = Some r \<and> view_height c' = height st r \<and>
    (\<forall>h. Ok (nodeByHeight c' h) = (Ancestor st r h :: (unit, noderef option) res)) \<and> setTip st None c = Ok []"
  using wf_view_setTip[OF assms]
  by (auto simp: tip_branch view_height_branch[OF assms(1,3)] nodeByHeight_branch[OF assms(1,3)] Ancestor_up[OF assms(1,3)]
      setTip_def[of st None])

lemma demo_ancestor: "Ancestor demo_store (Suc 0) 0 = Ok (Some 0)" "ancestor_at demo_store (Suc 0) 0 = Some 0"
proof -
  show a: "ancestor_at demo_store (Suc 0) 0 = Some 0" by (simp add: ancestor_at_def demo_heights demo_store_wf)
  have "Suc 0 < fresh demo_store" by (simp add: demo_store_wf)
  from Ancestor_up[OF demo_store_wf(2) this, of 0] a show "Ancestor demo_store (Suc 0) 0 = Ok (Some 0)" by simp
qed

lemma no_descent_from_root:
  assumes "descends st r as" "height st r = 0"
  shows "as = []"
  using assms by (cases as) (auto simp: ancestor_at_def split: if_splits)

lemma wf_view_Nil: "wf_view st []"
  by (simp add: wf_view_def)

theorem setTip_keeps_branch_witness:
  "\<exists>c. setTip demo_store (Some 1) [] = Ok c \<and> tip c = Some 1 \<and> nodeByHeight c 0 = Some 0"
proof -
  have "1 < fresh demo_store" by (simp add: demo_store_wf)
  from setTip_keeps_branch[OF demo_store_wf(2) wf_view_Nil this] obtain c where
    c: "setTip demo_store (Some 1) [] = Ok c" "tip c = Some 1"
      "Ok (nodeByHeight c 0) = (Ancestor demo_store 1 0 :: (unit, noderef option) res)" by blast
  moreover have "Ancestor demo_store 1 0 = (Ok (Some 0) :: (unit, noderef option) res)"
    by (simp add: demo_ancestor)
  ultimately show ?thesis by simp
qed

text \<open>
  Claim C25. The fork point is the last common node.  For a node and a view of another branch, \<^verbatim>\<open>findFork\<close> returns;
  it gives \<^verbatim>\<open>nil\<close> only if no node lies on both paths, and otherwise a node on both such that no
  node on both is higher.
\<close>

theorem findFork_last_common:
  assumes "wf_store st" "q < fresh st" "r < fresh st"
  shows "\<exists>f. findFork st (branch st q) (Some r) = Ok f \<and>
    (case f of None \<Rightarrow> (\<forall>b. \<not> common st q r b)
     | Some a \<Rightarrow> common st q r a \<and> (\<forall>b. \<not> (common st q r b \<and> height st b > height st a)))"
  using findFork_branch[OF assms] by (force split: option.splits)

theorem findFork_last_common_witness:
  "findFork demo_store (branch demo_store 1) (Some 0) = Ok (Some 0)"
proof -
  have f: "1 < fresh demo_store" "0 < fresh demo_store" by (simp_all add: demo_store_wf)
  have "common demo_store 1 0 0"
    using demo_ancestor(2) by (simp add: common_def demo_heights) (simp add: ancestor_at_def demo_heights)
  moreover have "b = 0" if "common demo_store 1 0 b" for b
    using common_height[OF demo_store_wf(2) f that] that by (auto simp: common_def demo_heights ancestor_at_def split: if_splits)
  ultimately show ?thesis using findFork_last_common[OF demo_store_wf(2) f] by (auto split: option.splits)
qed

text \<open>
  Claim C26. Making a locator ends.  For every node of a well-formed store \<^verbatim>\<open>blockLocator\<close> returns, without a
  panic, the hashes of a list of nodes that starts with the node itself, goes strictly down its path, each an
  ancestor of the one before, and ends with the first block; the doubling of the step never overflows.
\<close>

theorem blockLocator_returns:
  assumes "wf_store st" "wf_view st c" "r < fresh st"
  shows "\<exists>as. blockLocator st c (Some r) = Ok (map (hash_of st) (r # as)) \<and> descends st r as"
  using blockLocator_descends[OF assms] .

theorem blockLocator_returns_witness:
  "blockLocator demo_store [] (Some 1) = Ok [hash_of demo_store 1, hash_of demo_store 0]"
proof -
  have f: "1 < fresh demo_store" by (simp add: demo_store_wf)
  obtain as where as: "blockLocator demo_store [] (Some 1) = Ok (map (hash_of demo_store) (1 # as))" "descends demo_store 1 as"
    using blockLocator_returns[OF demo_store_wf(2) wf_view_Nil f] by blast
  have h: "height demo_store 1 = 1" by (simp add: demo_heights)
  obtain a as' where a: "as = a # as'" using as(2) h by (cases as) simp_all
  then have b: "ancestor_at demo_store 1 (height demo_store a) = Some a" "height demo_store a < 1" "descends demo_store a as'"
    using as(2) h by simp_all
  have "0 \<le> height demo_store a" using ancestor_at_wf[OF demo_store_wf(2) f b(1)] by simp
  then have z: "height demo_store a = 0" using b(2) by simp
  then have "a = 0" using b(1) demo_ancestor(2) by simp
  moreover have "as' = []" by (rule no_descent_from_root[OF b(3) z])
  ultimately show ?thesis using as(1) a by simp
qed

end
