(* ===== verification/Compress.thy ===== *)
theory Compress
  imports Script Elliptic
begin

text \<open>
  The compressed form of transaction outputs in the database (\<^verbatim>\<open>pkg/chain/compress.go\<close>).

  A \<^verbatim>\<open>uint64\<close> is a 64-bit word and every operation on it wraps.  A target is a slice that fills its
  backing array, as the callers make it; writing past its end panics.  A serialised slice that is read may have
  more bytes behind it in its backing array, and a slice expression may reach into them: they are the
  argument \<open>spare\<close>.  The lemmas show that reading gives back what was written, in as many bytes as the
  size functions say.
\<close>

unbundle bit_operations_syntax

type_synonym uint64 = "64 word"

subsection \<open>Variable length quantities\<close>

function serializeSizeVLQ :: "uint64 \<Rightarrow> nat" where
  "serializeSizeVLQ n = (if n > 0x7f then serializeSizeVLQ (drop_bit 7 n - 1) + 1 else 1)"
  by pat_completeness auto

text \<open>Both loops of \<open>putVLQ\<close>: writing the groups from the lowest, and reversing them in place.\<close>

function putVLQLoop :: "byte list \<Rightarrow> nat \<Rightarrow> uint64 \<Rightarrow> (string, byte list \<times> nat) res" where
  "putVLQLoop target offset n =
     (if offset \<ge> length target then Panic
      else
        let highBitMask = (if offset = 0 then 0x00 else 0x80);
            target = target[offset := ucast (n AND 0x7f) OR highBitMask]
        in if n \<le> 0x7f then Ok (target, offset)
           else putVLQLoop target (offset + 1) (drop_bit 7 n - 1))"
  by pat_completeness auto

lemma vlq_step_less:
  assumes "\<not> n \<le> (0x7f :: uint64)"
  shows "unat (drop_bit 7 n - 1) < unat n" "unat (drop_bit 7 n - 1) = unat n div 128 - 1" "128 \<le> unat n"
proof -
  show n: "128 \<le> unat n" using assms by (simp add: word_le_nat_alt)
  have d: "unat (drop_bit 7 n) = unat n div 128" by (simp add: drop_bit_eq_div unat_div)
  then have "1 \<le> drop_bit 7 n" using n by (simp add: word_le_nat_alt)
  then have "unat (drop_bit 7 n - 1) = unat (drop_bit 7 n) - 1" by (simp add: unat_sub)
  then show "unat (drop_bit 7 n - 1) = unat n div 128 - 1" by (simp add: d)
  then show "unat (drop_bit 7 n - 1) < unat n" using n by linarith
qed

termination serializeSizeVLQ
  by (relation "measure unat") (simp_all add: vlq_step_less(1) not_le)

termination putVLQLoop
  by (relation "measure (\<lambda>(target, offset, n). unat n)") (simp_all add: vlq_step_less(1))

declare serializeSizeVLQ.simps [simp del] putVLQLoop.simps [simp del]

function reverseLoop :: "byte list \<Rightarrow> nat \<Rightarrow> nat \<Rightarrow> byte list" where
  "reverseLoop target i j =
     (if i < j then reverseLoop (target[i := target ! j, j := target ! i]) (i + 1) (j - 1) else target)"
  by pat_completeness auto

termination
  by (relation "measure (\<lambda>(target, i, j). j - i)") auto

declare reverseLoop.simps [simp del]

definition putVLQ :: "byte list \<Rightarrow> uint64 \<Rightarrow> (string, byte list \<times> nat) res" where
  "putVLQ target n =
     bind_res (putVLQLoop target 0 n) (\<lambda>(target, offset). Ok (reverseLoop target 0 offset, offset + 1))"

fun deserializeVLQLoop :: "byte list \<Rightarrow> uint64 \<Rightarrow> nat \<Rightarrow> uint64 \<times> nat" where
  "deserializeVLQLoop [] n sz = (n, sz)"
| "deserializeVLQLoop (val # vals) n sz =
     (let n = push_bit 7 n OR ucast (val AND 0x7f) in
      if val AND 0x80 \<noteq> 0x80 then (n, sz + 1) else deserializeVLQLoop vals (n + 1) (sz + 1))"

definition deserializeVLQ :: "byte list \<Rightarrow> uint64 \<times> nat" where
  "deserializeVLQ serialized = deserializeVLQLoop serialized 0 0"

subsection \<open>Amounts\<close>

lemma exponent_step: "(e :: uint64) < 9 \<Longrightarrow> unat (e + 1) = unat e + 1"
  by (simp add: unat_word_ariths word_less_nat_alt)

function exponentLoop :: "uint64 \<Rightarrow> uint64 \<Rightarrow> uint64 \<times> uint64" where
  "exponentLoop amount exponent =
     (if amount mod 10 = 0 \<and> exponent < 9 then exponentLoop (amount div 10) (exponent + 1)
      else (amount, exponent))"
  by pat_completeness auto

termination
  by (relation "measure (\<lambda>(amount, exponent). 9 - unat exponent)")
    (auto simp: exponent_step word_less_nat_alt)

declare exponentLoop.simps [simp del]

definition compressTxOutAmount :: "uint64 \<Rightarrow> uint64" where
  "compressTxOutAmount amount =
     (if amount = 0 then 0
      else case exponentLoop amount 0 of (amount, exponent) \<Rightarrow>
        if exponent < 9 then
          let lastDigit = amount mod 10; amount = amount div 10
          in 1 + 10 * (9 * amount + lastDigit - 1) + exponent
        else 10 + 10 * (amount - 1))"

lemma power_step: "(e :: uint64) > 0 \<Longrightarrow> unat (e - 1) = unat e - 1"
  by (simp add: unat_sub word_le_nat_alt word_less_nat_alt)

function powerLoop :: "uint64 \<Rightarrow> uint64 \<Rightarrow> uint64" where
  "powerLoop n exponent = (if exponent > 0 then powerLoop (n * 10) (exponent - 1) else n)"
  by pat_completeness auto

termination
  by (relation "measure (\<lambda>(n, exponent). unat exponent)") (auto simp: power_step word_less_nat_alt)

declare powerLoop.simps [simp del]

definition decompressTxOutAmount :: "uint64 \<Rightarrow> uint64" where
  "decompressTxOutAmount amount =
     (if amount = 0 then 0
      else
        let amount = amount - 1; exponent = amount mod 10; amount = amount div 10;
            n = (if exponent < 9 then (amount div 9) * 10 + (amount mod 9 + 1) else amount + 1)
        in powerLoop n exponent)"

subsection \<open>Scripts\<close>

definition cstPayToPubKeyHash :: uint64 where "cstPayToPubKeyHash = 0"

definition cstPayToScriptHash :: uint64 where "cstPayToScriptHash = 1"

definition cstPayToPubKeyComp2 :: uint64 where "cstPayToPubKeyComp2 = 2"

definition cstPayToPubKeyComp3 :: uint64 where "cstPayToPubKeyComp3 = 3"

definition cstPayToPubKeyUncomp4 :: uint64 where "cstPayToPubKeyUncomp4 = 4"

definition cstPayToPubKeyUncomp5 :: uint64 where "cstPayToPubKeyUncomp5 = 5"

definition numSpecialScripts :: nat where "numSpecialScripts = 6"

definition parses :: "byte list \<Rightarrow> bool" where
  "parses serializedPubKey = (case ParsePubKey serializedPubKey of Ok _ \<Rightarrow> True | _ \<Rightarrow> False)"

definition isPubKey :: "byte list \<Rightarrow> bool \<times> byte list" where
  "isPubKey script =
     (if length script = 35 \<and> script ! 0 = OP_DATA_33 \<and> script ! 34 = OP_CHECKSIG \<and>
         (script ! 1 = 0x02 \<or> script ! 1 = 0x03) \<and> parses (slice script 1 34)
      then (True, slice script 1 34)
      else if length script = 67 \<and> script ! 0 = OP_DATA_65 \<and> script ! 66 = OP_CHECKSIG \<and>
         script ! 1 = 0x04 \<and> parses (slice script 1 66)
      then (True, slice script 1 66)
      else (False, []))"

definition isPubKeyHash :: "byte list \<Rightarrow> bool \<times> byte list" where
  "isPubKeyHash script =
     (if length script = 25 \<and> script ! 0 = OP_DUP \<and> script ! 1 = OP_HASH160 \<and> script ! 2 = OP_DATA_20 \<and>
         script ! 23 = OP_EQUALVERIFY \<and> script ! 24 = OP_CHECKSIG
      then (True, slice script 3 23) else (False, []))"

definition isScriptHashBytes :: "byte list \<Rightarrow> bool \<times> byte list" where
  "isScriptHashBytes script =
     (if length script = 23 \<and> script ! 0 = OP_HASH160 \<and> script ! 1 = OP_DATA_20 \<and> script ! 22 = OP_EQUAL
      then (True, slice script 2 22) else (False, []))"

definition compressedScriptSize :: "byte list \<Rightarrow> nat" where
  "compressedScriptSize pkScript =
     (if fst (isPubKeyHash pkScript) then 21
      else if fst (isScriptHashBytes pkScript) then 21
      else if fst (isPubKey pkScript) then 33
      else serializeSizeVLQ (word_of_nat (length pkScript + numSpecialScripts)) + length pkScript)"

definition compressedTxOutSize :: "uint64 \<Rightarrow> byte list \<Rightarrow> nat" where
  "compressedTxOutSize amount pkScript =
     serializeSizeVLQ (compressTxOutAmount amount) + compressedScriptSize pkScript"

text \<open>\<^verbatim>\<open>copy(dst[lo:hi], src)\<close> on an array: the slice expression panics when it is out of range.\<close>

definition copySlice :: "byte list \<Rightarrow> nat \<Rightarrow> nat \<Rightarrow> byte list \<Rightarrow> (string, byte list) res" where
  "copySlice dst lo hi src =
     (if lo \<le> hi \<and> hi \<le> length dst
      then let k = min (hi - lo) (length src) in Ok (take lo dst @ take k src @ drop (lo + k) dst)
      else Panic)"

definition putByte :: "byte list \<Rightarrow> byte \<Rightarrow> (string, byte list) res" where
  "putByte target b = (if target = [] then Panic else Ok (target[0 := b]))"

definition putTagged :: "byte list \<Rightarrow> byte \<Rightarrow> nat \<Rightarrow> byte list \<Rightarrow> (string, byte list \<times> nat) res" where
  "putTagged target tag n data =
     bind_res (putByte target tag) (\<lambda>target. bind_res (copySlice target 1 n data) (\<lambda>target. Ok (target, n)))"

definition putGeneral :: "byte list \<Rightarrow> byte list \<Rightarrow> (string, byte list \<times> nat) res" where
  "putGeneral target pkScript =
     bind_res (putVLQ target (word_of_nat (length pkScript + numSpecialScripts))) (\<lambda>(target, vlqSizeLen).
       bind_res (copySlice target vlqSizeLen (length target) pkScript) (\<lambda>target.
         Ok (target, vlqSizeLen + length pkScript)))"

definition putCompressedScript :: "byte list \<Rightarrow> byte list \<Rightarrow> (string, byte list \<times> nat) res" where
  "putCompressedScript target pkScript =
     (case isPubKeyHash pkScript of (valid, hash) \<Rightarrow>
      if valid then putTagged target (ucast cstPayToPubKeyHash) 21 hash
      else case isScriptHashBytes pkScript of (valid, hash) \<Rightarrow>
      if valid then putTagged target (ucast cstPayToScriptHash) 21 hash
      else case isPubKey pkScript of (valid, serializedPubKey) \<Rightarrow>
      let pubKeyFormat = serializedPubKey ! 0 in
      if valid \<and> (pubKeyFormat = 0x02 \<or> pubKeyFormat = 0x03)
      then putTagged target pubKeyFormat 33 (slice serializedPubKey 1 33)
      else if valid \<and> pubKeyFormat = 0x04
      then putTagged target (pubKeyFormat OR (serializedPubKey ! 64 AND 0x01)) 33 (slice serializedPubKey 1 33)
      else putGeneral target pkScript)"

text \<open>The part of the target behind the offset is written through the slice \<^verbatim>\<open>target[offset:]\<close>.\<close>

definition putCompressedTxOut :: "byte list \<Rightarrow> uint64 \<Rightarrow> byte list \<Rightarrow> (string, byte list \<times> nat) res" where
  "putCompressedTxOut target amount pkScript =
     bind_res (putVLQ target (compressTxOutAmount amount)) (\<lambda>(target, offset).
       bind_res (putCompressedScript (drop offset target) pkScript) (\<lambda>(rest, n).
         Ok (take offset target @ rest, offset + n)))"

text \<open>The result is an \<^verbatim>\<open>int\<close>: a size of \<open>2 ^ 63\<close> or more comes out negative.\<close>

definition decodeCompressedScriptSize :: "byte list \<Rightarrow> int" where
  "decodeCompressedScriptSize serialized =
     (case deserializeVLQ serialized of (scriptSize, bytesRead) \<Rightarrow>
      if bytesRead = 0 then 0
      else if scriptSize = cstPayToPubKeyHash then 21
      else if scriptSize = cstPayToScriptHash then 21
      else if scriptSize = cstPayToPubKeyComp2 \<or> scriptSize = cstPayToPubKeyComp3 \<or>
        scriptSize = cstPayToPubKeyUncomp4 \<or> scriptSize = cstPayToPubKeyUncomp5 then 33
      else sint (scriptSize - word_of_nat numSpecialScripts + word_of_nat bytesRead))"

definition decompressScript :: "byte list \<Rightarrow> byte list \<Rightarrow> (string, byte list) res" where
  "decompressScript compressedPkScript spare =
     (if compressedPkScript = [] then Ok []
      else case deserializeVLQ compressedPkScript of (encodedScriptSize, bytesRead) \<Rightarrow>
      if encodedScriptSize = cstPayToPubKeyHash then
        bind_res (slice_res (compressedPkScript @ spare) bytesRead (bytesRead + 20)) (\<lambda>hash.
          Ok ([OP_DUP, OP_HASH160, OP_DATA_20] @ hash @ [OP_EQUALVERIFY, OP_CHECKSIG]))
      else if encodedScriptSize = cstPayToScriptHash then
        bind_res (slice_res (compressedPkScript @ spare) bytesRead (bytesRead + 20)) (\<lambda>hash.
          Ok ([OP_HASH160, OP_DATA_20] @ hash @ [OP_EQUAL]))
      else if encodedScriptSize = cstPayToPubKeyComp2 \<or> encodedScriptSize = cstPayToPubKeyComp3 then
        bind_res (slice_res (compressedPkScript @ spare) bytesRead (bytesRead + 32)) (\<lambda>x.
          Ok ([OP_DATA_33, ucast encodedScriptSize] @ x @ [OP_CHECKSIG]))
      else if encodedScriptSize = cstPayToPubKeyUncomp4 \<or> encodedScriptSize = cstPayToPubKeyUncomp5 then
        (let x = take 32 (drop 1 compressedPkScript);
             compressedKey = ucast (encodedScriptSize - 2) # x @ replicate (32 - length x) 0
         in case ParsePubKey compressedKey of
              Ok key \<Rightarrow> Ok ([OP_DATA_65] @ SerializeUncompressed key @ [OP_CHECKSIG])
            | _ \<Rightarrow> Ok [])
      else
        let scriptSize = sint (encodedScriptSize - word_of_nat numSpecialScripts)
        in if scriptSize < 0 then Panic
           else slice_res (compressedPkScript @ spare) bytesRead (bytesRead + nat scriptSize))"

definition decodeCompressedTxOut ::
  "byte list \<Rightarrow> byte list \<Rightarrow> (string, uint64 \<times> byte list \<times> nat) res" where
  "decodeCompressedTxOut serialized spare =
     (case deserializeVLQ serialized of (compressedAmount, bytesRead) \<Rightarrow>
      if bytesRead \<ge> length serialized then Err ''unexpected end of data after compressed amount''
      else
        let scriptSize = decodeCompressedScriptSize (drop bytesRead serialized) in
        if int (length (drop bytesRead serialized)) < scriptSize
        then Err ''unexpected end of data after script size''
        else if scriptSize < 0 then Panic
        else
          let hi = bytesRead + nat scriptSize; amount = decompressTxOutAmount compressedAmount in
          bind_res (decompressScript (slice serialized bytesRead hi) (drop hi serialized @ spare)) (\<lambda>script.
            Ok (amount, script, hi)))"

subsection \<open>Quantities written and read\<close>

text \<open>The bytes of a quantity in the order they are written, before they are reversed.\<close>

function vlq_groups :: "byte \<Rightarrow> uint64 \<Rightarrow> byte list" where
  "vlq_groups hi n = (ucast (n AND 0x7f) OR hi) #
     (if n \<le> 0x7f then [] else vlq_groups 0x80 (drop_bit 7 n - 1))"
  by pat_completeness auto

termination
  by (relation "measure (\<lambda>(hi, n). unat n)") (simp_all add: vlq_step_less(1))

declare vlq_groups.simps [simp del]

definition vlq_bytes :: "uint64 \<Rightarrow> byte list" where
  "vlq_bytes n = rev (vlq_groups 0 n)"

lemma vlq_groups_nonempty [simp]: "vlq_groups hi n \<noteq> []"
  by (subst vlq_groups.simps) simp

lemma length_vlq_groups: "length (vlq_groups hi n) = serializeSizeVLQ n"
proof (induction hi n rule: vlq_groups.induct)
  case (1 hi n)
  then show ?case by (subst vlq_groups.simps, subst serializeSizeVLQ.simps) (auto simp: not_le)
qed

lemma length_vlq_bytes [simp]: "length (vlq_bytes n) = serializeSizeVLQ n"
  by (simp add: vlq_bytes_def length_vlq_groups)

lemma serializeSizeVLQ_pos: "0 < serializeSizeVLQ n"
  by (subst serializeSizeVLQ.simps) simp

lemma putVLQLoop_run:
  "offset + length (vlq_groups (if offset = 0 then 0 else 0x80) n) \<le> length target \<Longrightarrow>
   putVLQLoop target offset n =
     (let gs = vlq_groups (if offset = 0 then 0 else 0x80) n in
      Ok (take offset target @ gs @ drop (offset + length gs) target, offset + length gs - 1))"
proof (induction target offset n rule: putVLQLoop.induct)
  case (1 target offset n)
  let ?b = "ucast (n AND 0x7f) OR (if offset = 0 then 0 else 0x80)"
  have off: "offset < length target" using 1(2) by (subst (asm) vlq_groups.simps) simp
  have upd: "target[offset := ?b] = take offset target @ ?b # drop (Suc offset) target"
    using off by (simp add: upd_conv_take_nth_drop)
  show ?case
  proof (cases "n \<le> 0x7f")
    case True
    have gs: "vlq_groups (if offset = 0 then 0 else 0x80) n = [?b]"
      using True by (subst vlq_groups.simps) simp
    show ?thesis using off upd True unfolding gs by (subst putVLQLoop.simps) (simp add: Let_def)
  next
    case False
    have gs: "vlq_groups (if offset = 0 then 0 else 0x80) n = ?b # vlq_groups 0x80 (drop_bit 7 n - 1)"
      using False by (subst vlq_groups.simps) simp
    have "0 < length (vlq_groups 0x80 (drop_bit 7 n - 1))" by simp
    moreover have "putVLQLoop target offset n = putVLQLoop (target[offset := ?b]) (offset + 1) (drop_bit 7 n - 1)"
      using off False by (subst putVLQLoop.simps) (simp add: Let_def)
    ultimately show ?thesis
      using 1(1)[OF _ refl refl False] 1(2) off upd unfolding gs by (simp add: Let_def add.commute[of offset])
  qed
qed

lemma length_reverseLoop [simp]: "length (reverseLoop xs i j) = length xs"
proof (induction xs i j rule: reverseLoop.induct)
  case (1 xs i j)
  then show ?case by (subst reverseLoop.simps) simp
qed

lemma reverseLoop_nth:
  "j < length xs \<Longrightarrow> k < length xs \<Longrightarrow>
   reverseLoop xs i j ! k = (if i \<le> k \<and> k \<le> j then xs ! (i + j - k) else xs ! k)"
proof (induction xs i j rule: reverseLoop.induct)
  case (1 xs i j)
  show ?case
  proof (cases "i < j")
    case False
    have "k = i + j - k" if "i \<le> k" "k \<le> j" using that False by linarith
    then show ?thesis using False by (subst reverseLoop.simps) auto
  next
    case True
    have "reverseLoop xs i j = reverseLoop (xs[i := xs ! j, j := xs ! i]) (i + 1) (j - 1)"
      using True by (subst reverseLoop.simps) simp
    then show ?thesis
      using 1(1)[OF True] 1(2,3) True by (auto simp: nth_list_update)
  qed
qed

lemma reverseLoop_rev:
  assumes "gs \<noteq> []"
  shows "reverseLoop (gs @ rest) 0 (length gs - 1) = rev gs @ rest"
proof -
  have "0 < length gs" using assms by simp
  then have "i \<le> length gs - Suc 0 \<longleftrightarrow> i < length gs" for i by linarith
  then show ?thesis using assms by (intro nth_equalityI) (auto simp: reverseLoop_nth nth_append rev_nth)
qed

lemma putVLQ_run:
  assumes "serializeSizeVLQ n \<le> length target"
  shows "putVLQ target n = Ok (vlq_bytes n @ drop (serializeSizeVLQ n) target, serializeSizeVLQ n)"
proof -
  let ?gs = "vlq_groups 0 n"
  have len: "length ?gs = serializeSizeVLQ n" "0 < serializeSizeVLQ n"
    by (simp_all add: length_vlq_groups serializeSizeVLQ_pos)
  then have "putVLQLoop target 0 n = Ok (?gs @ drop (length ?gs) target, length ?gs - 1)"
    using assms putVLQLoop_run[of 0 n target] by simp
  moreover have "reverseLoop (?gs @ drop (length ?gs) target) 0 (length ?gs - 1) = rev ?gs @ drop (length ?gs) target"
    by (rule reverseLoop_rev) simp
  ultimately show ?thesis using len by (simp add: putVLQ_def vlq_bytes_def)
qed

lemma bit_consts [simp]: "bit (127 :: int) i \<longleftrightarrow> i < 7" "bit (128 :: int) i \<longleftrightarrow> i = 7"
proof -
  have "(127 :: int) = mask 7" "(128 :: int) = 2 ^ 7" by (simp_all add: mask_eq_exp_minus_1)
  then show "bit (127 :: int) i \<longleftrightarrow> i < 7" "bit (128 :: int) i \<longleftrightarrow> i = 7"
    by (simp_all only: bit_mask_iff bit_exp_iff) (auto simp: possible_bit_def)
qed

lemma group_bits:
  assumes "m = 0 \<or> m = 0x80"
  shows "(ucast ((ucast (n AND 0x7f :: uint64) OR m :: byte) AND 0x7f) :: uint64) = n AND 0x7f"
    and "(ucast (n AND 0x7f :: uint64) OR m :: byte) AND 0x80 = m"
proof -
  show "(ucast ((ucast (n AND 0x7f :: uint64) OR m :: byte) AND 0x7f) :: uint64) = n AND 0x7f"
    using assms by (intro bit_eqI) (auto simp: bit_simps)
  show "(ucast (n AND 0x7f :: uint64) OR m :: byte) AND 0x80 = m"
    using assms by (intro bit_eqI) (auto simp: bit_simps)
qed

lemma join_groups: "push_bit 7 (drop_bit 7 n) OR (n AND 0x7f) = (n :: uint64)"
proof (rule bit_eqI)
  fix i assume "possible_bit TYPE(uint64) i"
  then show "bit (push_bit 7 (drop_bit 7 n) OR (n AND 0x7f)) i = bit n i"
    by (cases "i < 7") (auto simp: bit_simps)
qed

lemma single_group: "n \<le> 0x7f \<Longrightarrow> n AND 0x7f = (n :: uint64)"
proof -
  assume "n \<le> 0x7f"
  then have "unat (n div 128) = 0" by (simp add: unat_div word_le_nat_alt)
  then have "drop_bit 7 n = 0" by (simp only: drop_bit_eq_div unat_eq_zero) simp
  then show ?thesis using join_groups[of n] by simp
qed

text \<open>Reading the groups of a quantity, all of them with the high bit, goes on with its successor.\<close>

lemma read_groups:
  "deserializeVLQLoop (rev (vlq_groups 0x80 n) @ rest) 0 k =
   deserializeVLQLoop rest (n + 1) (k + serializeSizeVLQ n)"
proof (induction n arbitrary: rest rule: serializeSizeVLQ.induct)
  case (1 n)
  show ?case
  proof (cases "n \<le> 0x7f")
    case True
    then have "vlq_groups 0x80 n = [ucast (n AND 0x7f) OR 0x80]" "serializeSizeVLQ n = 1"
      by (simp_all add: vlq_groups.simps serializeSizeVLQ.simps not_le[symmetric])
    then show ?thesis using group_bits[where m = "0x80" and n = n] single_group[OF True] by (simp add: Let_def)
  next
    case False
    have "vlq_groups 0x80 n = (ucast (n AND 0x7f) OR 0x80) # vlq_groups 0x80 (drop_bit 7 n - 1)"
        "serializeSizeVLQ n = serializeSizeVLQ (drop_bit 7 n - 1) + 1"
      using False by (subst vlq_groups.simps, simp, subst serializeSizeVLQ.simps, simp add: not_le)
    then show ?thesis using False 1 by (simp add: group_bits join_groups Let_def not_le)
  qed
qed

lemma deserializeVLQ_bytes: "deserializeVLQ (vlq_bytes n @ rest) = (n, serializeSizeVLQ n)"
proof (cases "n \<le> 0x7f")
  case True
  then have "vlq_groups 0 n = [ucast (n AND 0x7f) OR 0]" "serializeSizeVLQ n = 1"
    by (simp_all add: vlq_groups.simps serializeSizeVLQ.simps not_le[symmetric])
  then show ?thesis
    using True group_bits[where m = 0 and n = n] by (simp add: deserializeVLQ_def vlq_bytes_def single_group Let_def)
next
  case False
  have g: "vlq_groups 0 n = (ucast (n AND 0x7f) OR 0) # vlq_groups 0x80 (drop_bit 7 n - 1)"
      "serializeSizeVLQ n = serializeSizeVLQ (drop_bit 7 n - 1) + 1"
    using False by (subst vlq_groups.simps, simp, subst serializeSizeVLQ.simps, simp add: not_le)
  show ?thesis
    unfolding deserializeVLQ_def vlq_bytes_def g(1) using group_bits[where m = 0 and n = n] g(2)
    by (simp add: read_groups join_groups Let_def)
qed

subsection \<open>Amounts written and read\<close>

lemma exponentLoop_run:
  assumes "exponentLoop a e = (a', e')" "unat e \<le> 9" "a \<noteq> 0"
  shows "unat a * 10 ^ unat e = unat a' * 10 ^ unat e' \<and> unat a' \<le> unat a \<and> unat e' \<le> 9 \<and> 0 < unat a' \<and>
    (unat e' < 9 \<longrightarrow> unat a' mod 10 \<noteq> 0)"
  using assms
proof (induction a e arbitrary: a' e' rule: exponentLoop.induct)
  case (1 a e)
  show ?case
  proof (cases "a mod 10 = 0 \<and> e < 9")
    case True
    have "unat (a mod 10) = 0" using True by simp
    then have d: "unat a = 10 * unat (a div 10)" by (simp add: unat_mod unat_div) presburger
    then have nz: "a div 10 \<noteq> 0" using 1(4) by (auto simp: unat_eq_zero)
    have "exponentLoop (a div 10) (e + 1) = (a', e')" using 1(2) True by (subst (asm) exponentLoop.simps) simp
    then have "unat (a div 10) * 10 ^ unat (e + 1) = unat a' * 10 ^ unat e' \<and> unat a' \<le> unat (a div 10) \<and> unat e' \<le> 9 \<and>
        0 < unat a' \<and> (unat e' < 9 \<longrightarrow> unat a' mod 10 \<noteq> 0)"
      using 1(1)[OF True] True nz by (simp add: exponent_step word_less_nat_alt)
    then show ?thesis using d True by (simp add: exponent_step)
  next
    case False
    then have e: "a' = a" "e' = e" using 1(2) by (subst (asm) exponentLoop.simps, simp split: if_splits)+
    have "0 < unat a" using 1(4) by (simp add: unat_gt_0)
    moreover have "unat a mod 10 \<noteq> 0" if "unat e < 9"
      using False that by (auto simp: word_less_nat_alt unat_eq_zero[symmetric] unat_mod)
    ultimately show ?thesis using 1(3) by (simp add: e)
  qed
qed

lemma powerLoop_run: "unat n * 10 ^ unat e < 2 ^ 64 \<Longrightarrow> unat (powerLoop n e) = unat n * 10 ^ unat e"
proof (induction n e rule: powerLoop.induct)
  case (1 n e)
  show ?case
  proof (cases "e > 0")
    case True
    then have e: "unat e = Suc (unat (e - 1))" by (simp add: power_step word_less_nat_alt)
    have "unat n * 10 \<le> unat n * 10 ^ unat e" by (simp add: e)
    then have "unat n * 10 < 2 ^ 64" using 1(2) by (rule le_less_trans)
    then have "unat (n * 10) = unat n * 10" by (simp add: unat_word_ariths)
    then show ?thesis using 1 True e by (subst powerLoop.simps) simp
  next
    case False
    then have "unat e = 0" by (simp add: word_less_nat_alt)
    then show ?thesis using False by (subst powerLoop.simps) simp
  qed
qed

text \<open>The compressed amount as a number, for the last digit, the rest and the exponent.\<close>

lemma compress_value:
  assumes "a \<noteq> 0" "unat a < 2 ^ 60"
  obtains k e where "unat a = k * 10 ^ e" "0 < k" "e \<le> 9" "e < 9 \<longrightarrow> k mod 10 \<noteq> 0"
    "unat (compressTxOutAmount a) =
       (if e < 9 then 1 + 10 * (9 * (k div 10) + k mod 10 - 1) + e else 10 + 10 * (k - 1))"
proof -
  obtain a' e' where loop: "exponentLoop a 0 = (a', e')" by force
  have r: "unat a = unat a' * 10 ^ unat e'" "unat a' \<le> unat a" "unat e' \<le> 9" "0 < unat a'"
      "unat e' < 9 \<longrightarrow> unat a' mod 10 \<noteq> 0"
    using exponentLoop_run[OF loop] assms(1) by simp_all
  have small: "unat a' < 2 ^ 60" using r(2) assms(2) by linarith
  have "unat (compressTxOutAmount a) = (if unat e' < 9
      then 1 + 10 * (9 * (unat a' div 10) + unat a' mod 10 - 1) + unat e' else 10 + 10 * (unat a' - 1))"
  proof (cases "e' < 9")
    case True
    let ?q = "9 * (unat a' div 10) + unat a' mod 10"
    have m: "0 < unat a' mod 10" using r(5) True by (simp add: word_less_nat_alt)
    have "unat (9 * (a' div 10) + a' mod 10) = ?q"
      using small by (simp add: unat_word_ariths unat_div unat_mod)
    moreover from this have "1 \<le> 9 * (a' div 10) + a' mod 10" using m by (simp add: word_le_nat_alt)
    ultimately have q: "unat (9 * (a' div 10) + a' mod 10 - 1) = ?q - 1" by (simp add: unat_sub)
    have "?q \<le> unat a'" using div_mult_mod_eq[of "unat a'" 10] by linarith
    moreover have "unat a' < 1152921504606846976" using small by simp
    ultimately have "1 + 10 * (?q - 1) + unat e' < 18446744073709551616" using r(3) by linarith
    moreover define w where "w = 9 * (a' div 10) + a' mod 10 - 1"
    ultimately have "unat (1 + 10 * w + e') = 1 + 10 * (?q - 1) + unat e'"
      using q by (simp add: unat_word_ariths(1,2) w_def[symmetric])
    then have "unat (1 + 10 * (9 * (a' div 10) + a' mod 10 - 1) + e') = 1 + 10 * (?q - 1) + unat e'"
      by (simp only: w_def)
    then show ?thesis using True assms(1) by (simp add: compressTxOutAmount_def loop Let_def word_less_nat_alt)
  next
    case False
    have "1 \<le> a'" using r(4) by (simp add: word_le_nat_alt)
    then have "unat (a' - 1) = unat a' - 1" by (simp add: unat_sub)
    then have "unat (10 + 10 * (a' - 1)) = 10 + 10 * (unat a' - 1)"
      using small r(4) by (simp add: unat_word_ariths(1,2))
    then show ?thesis using False assms(1) by (simp add: compressTxOutAmount_def loop word_less_nat_alt)
  qed
  with r show thesis using that[of "unat a'" "unat e'"] by blast
qed

lemma decompress_compress:
  assumes "unat a < 2 ^ 60"
  shows "decompressTxOutAmount (compressTxOutAmount a) = a"
proof (cases "a = 0")
  case False
  obtain k e where v: "unat a = k * 10 ^ e" "0 < k" "e \<le> 9" "e < 9 \<longrightarrow> k mod 10 \<noteq> 0"
    "unat (compressTxOutAmount a) =
       (if e < 9 then 1 + 10 * (9 * (k div 10) + k mod 10 - 1) + e else 10 + 10 * (k - 1))"
    by (rule compress_value[OF False assms])
  let ?c = "compressTxOutAmount a"
  have "k * 1 \<le> k * 10 ^ e" by (intro mult_le_mono) simp_all
  then have kle: "k < 2 ^ 60" using v(1) assms by linarith
  have "?c \<noteq> 0" using v(5) by (auto split: if_splits)
  then have c1: "unat (?c - 1) = (if e < 9 then 10 * (9 * (k div 10) + k mod 10 - 1) + e else 10 * (k - 1) + 9)"
    using v(5) by (simp add: unat_sub word_le_nat_alt unat_gt_0 Suc_le_eq)
  then have ex: "unat ((?c - 1) mod 10) = e" using v(3) by (auto simp: unat_mod split: if_splits)
  have q: "unat ((?c - 1) div 10) = (if e < 9 then 9 * (k div 10) + k mod 10 - 1 else k - 1)"
    using c1 by (simp add: unat_div)
  define n where "n = (if (?c - 1) mod 10 < 9 then ((?c - 1) div 10 div 9) * 10 + ((?c - 1) div 10 mod 9 + 1)
    else (?c - 1) div 10 + 1)"
  have "unat n = k"
  proof (cases "e < 9")
    case True
    have "k mod 10 \<noteq> 0" "k mod 10 < 10" using v(4) True by simp_all
    then obtain d where "k mod 10 = Suc d" "d < 9" by (cases "k mod 10") auto
    then have "(9 * (k div 10) + k mod 10 - 1) div 9 = k div 10" "(9 * (k div 10) + k mod 10 - 1) mod 9 + 1 = k mod 10"
      by simp_all
    moreover have "k div 10 * 10 + k mod 10 = k" "k div 10 * 10 < 18446744073709551616" "k < 18446744073709551616"
        "k mod 10 mod 18446744073709551616 = k mod 10"
      using div_mult_mod_eq[of k 10] kle \<open>k mod 10 < 10\<close> by simp_all
    ultimately show ?thesis using True q ex
      by (simp add: n_def word_less_nat_alt unat_word_ariths(1,2) unat_div unat_mod)
  next
    case False
    then show ?thesis using q kle ex v(2) by (simp add: n_def word_less_nat_alt unat_word_ariths(1,2))
  qed
  then have "unat (powerLoop n ((?c - 1) mod 10)) = unat a"
    using powerLoop_run[of n "(?c - 1) mod 10"] ex v(1) assms by simp
  then have "powerLoop n ((?c - 1) mod 10) = a" by (rule unsigned_word_eqI)
  then show ?thesis
    using \<open>?c \<noteq> 0\<close> unfolding decompressTxOutAmount_def Let_def n_def[symmetric] by simp
qed (simp add: compressTxOutAmount_def decompressTxOutAmount_def)

subsection \<open>Scripts written and read\<close>

lemma slice_parts: "lo \<le> hi \<Longrightarrow> s = take lo s @ slice s lo hi @ drop hi s"
  by (metis append_take_drop_id drop_drop le_add_diff_inverse2 slice_def)

lemma take_nths:
  "1 \<le> length s \<Longrightarrow> take 1 s = [s ! 0]" "2 \<le> length s \<Longrightarrow> take 2 s = [s ! 0, s ! 1]"
  "3 \<le> length s \<Longrightarrow> take 3 s = [s ! 0, s ! 1, s ! 2]"
  by (auto simp: take_Suc_conv_app_nth numeral_2_eq_2 numeral_3_eq_3 take_Suc hd_conv_nth simp del: length_greater_0_conv)

lemma drop_nths:
  "length s = n + 1 \<Longrightarrow> drop n s = [s ! n]" "length s = n + 2 \<Longrightarrow> drop n s = [s ! n, s ! (n + 1)]"
  by (simp_all add: Cons_nth_drop_Suc[symmetric])

text \<open>The bytes of a compressed script.\<close>

definition script_code :: "byte list \<Rightarrow> byte list" where
  "script_code s =
     (if fst (isPubKeyHash s) then 0 # slice s 3 23
      else if fst (isScriptHashBytes s) then 1 # slice s 2 22
      else if fst (isPubKey s) then
        (if s ! 1 = 0x04 then 0x04 OR (s ! 65 AND 0x01) else s ! 1) # slice s 2 34
      else vlq_bytes (word_of_nat (length s + numSpecialScripts)) @ s)"

lemma slice_slice: "a + d \<le> b \<Longrightarrow> slice (slice s a b) c d = slice s (a + c) (a + d)"
  by (simp add: slice_def drop_take min_def add.commute)

lemma nth_slice: "lo + i < hi \<Longrightarrow> hi \<le> length s \<Longrightarrow> slice s lo hi ! i = s ! (lo + i)"
  by (simp add: slice_def)

lemma isPubKey_True:
  assumes "fst (isPubKey s)"
  shows "(length s = 35 \<and> (s ! 1 = 0x02 \<or> s ! 1 = 0x03) \<and> s ! 0 = OP_DATA_33 \<and> s ! 34 = OP_CHECKSIG \<and>
      isPubKey s = (True, slice s 1 34)) \<or>
    (length s = 67 \<and> s ! 1 = 0x04 \<and> s ! 0 = OP_DATA_65 \<and> s ! 66 = OP_CHECKSIG \<and>
      isPubKey s = (True, slice s 1 66) \<and> parses (slice s 1 66))"
  using assms by (auto simp: isPubKey_def split: if_splits)

lemma length_script_code: "length (script_code s) = compressedScriptSize s"
proof (cases "fst (isPubKey s)")
  case True
  then show ?thesis using isPubKey_True[OF True]
    by (auto simp: script_code_def compressedScriptSize_def isPubKeyHash_def isScriptHashBytes_def slice_def)
next
  case False
  then show ?thesis
    by (auto simp: script_code_def compressedScriptSize_def isPubKeyHash_def isScriptHashBytes_def slice_def)
qed

lemma putTagged_run:
  assumes "n \<le> length target" "n = Suc (length data)"
  shows "putTagged target tag n data = Ok (tag # data @ drop n target, n)"
  using assms by (cases target) (auto simp: putTagged_def putByte_def copySlice_def)

lemma putGeneral_run:
  assumes "serializeSizeVLQ (word_of_nat (length s + numSpecialScripts)) + length s \<le> length target"
  shows "putGeneral target s =
    (let v = word_of_nat (length s + numSpecialScripts); n = serializeSizeVLQ v + length s in
     Ok (vlq_bytes v @ s @ drop n target, n))"
  using assms by (simp add: putGeneral_def putVLQ_run copySlice_def Let_def add.commute)

lemma putCompressedScript_run:
  assumes "compressedScriptSize s \<le> length target"
  shows "putCompressedScript target s =
    Ok (script_code s @ drop (compressedScriptSize s) target, compressedScriptSize s)"
proof -
  consider (pkh) "fst (isPubKeyHash s)" | (sh) "\<not> fst (isPubKeyHash s)" "fst (isScriptHashBytes s)"
    | (pk) "\<not> fst (isPubKeyHash s)" "\<not> fst (isScriptHashBytes s)" "fst (isPubKey s)"
    | (other) "\<not> fst (isPubKeyHash s)" "\<not> fst (isScriptHashBytes s)" "\<not> fst (isPubKey s)" by blast
  then show ?thesis
  proof cases
    case pkh
    then have "isPubKeyHash s = (True, slice s 3 23)" "length s = 25"
      by (auto simp: isPubKeyHash_def split: if_splits)
    then show ?thesis using assms pkh
      by (simp add: putCompressedScript_def script_code_def compressedScriptSize_def putTagged_run cstPayToPubKeyHash_def)
  next
    case sh
    then have "isScriptHashBytes s = (True, slice s 2 22)" "length s = 23"
      by (auto simp: isScriptHashBytes_def split: if_splits)
    then show ?thesis using assms sh
      by (simp add: putCompressedScript_def script_code_def compressedScriptSize_def putTagged_run cstPayToScriptHash_def
          case_prod_unfold)
  next
    case pk
    then show ?thesis using assms isPubKey_True[OF pk(3)]
      by (auto simp: putCompressedScript_def script_code_def compressedScriptSize_def putTagged_run slice_slice
          case_prod_unfold nth_slice numeral_2_eq_2)
  next
    case other
    then show ?thesis using assms
      by (simp add: putCompressedScript_def script_code_def compressedScriptSize_def putGeneral_run case_prod_unfold Let_def)
  qed
qed

lemma deserializeVLQ_tag:
  "b AND 0x80 \<noteq> 0x80 \<Longrightarrow> deserializeVLQ (b # rest) = (ucast (b AND 0x7f), 1)"
  by (simp add: deserializeVLQ_def Let_def)

lemma general_size:
  assumes "length s < 2 ^ 60"
  defines "v \<equiv> (word_of_nat (length s + numSpecialScripts) :: uint64)"
  shows "v \<notin> {0, 1, 2, 3, 4, 5}" "sint (v - word_of_nat numSpecialScripts) = int (length s)"
    "sint (v - word_of_nat numSpecialScripts + word_of_nat (serializeSizeVLQ v)) =
       int (serializeSizeVLQ v) + int (length s)"
proof -
  have u: "unat v = length s + 6"
    unfolding v_def numSpecialScripts_def unsigned_of_nat using assms(1) by (simp add: take_bit_nat_eq_self)
  then show "v \<notin> {0, 1, 2, 3, 4, 5}" by auto
  have d: "v - word_of_nat numSpecialScripts = word_of_nat (length s)" by (simp add: v_def)
  have small: "sint (word_of_nat k :: uint64) = int k" if "k < 2 ^ 63" for k
    using that by (simp add: signed_of_nat signed_take_bit_int_eq_self)
  have size: "serializeSizeVLQ n \<le> unat n + 1" for n
  proof (induction n rule: serializeSizeVLQ.induct)
    case (1 n)
    show ?case
    proof (cases "n > 0x7f")
      case True
      then have "unat (drop_bit 7 n - 1) < unat n" using vlq_step_less(1)[of n] by (simp add: not_le)
      with True 1 show ?thesis by (subst serializeSizeVLQ.simps) simp
    next
      case False
      then show ?thesis by (subst serializeSizeVLQ.simps) simp
    qed
  qed
  show "sint (v - word_of_nat numSpecialScripts) = int (length s)"
    unfolding d using assms(1) by (intro small) simp
  have "length s + serializeSizeVLQ v < 2 ^ 63" using size[of v] u assms(1) by simp
  then show "sint (v - word_of_nat numSpecialScripts + word_of_nat (serializeSizeVLQ v)) =
      int (serializeSizeVLQ v) + int (length s)"
    unfolding d of_nat_add[symmetric] by (subst small) simp_all
qed

text \<open>
  An uncompressed public key is stored as its X coordinate and the parity of Y; getting it back takes a square
  root modulo the prime of the field.
\<close>

definition recoverable :: "byte list \<Rightarrow> bool" where
  "recoverable s \<longleftrightarrow> (\<forall>p. s = OP_DATA_65 # SerializeUncompressed p @ [OP_CHECKSIG] \<longrightarrow> wf_PublicKey p \<longrightarrow>
     ParsePubKey (SerializeCompressed p) = Ok p)"

lemma low_bit_be_val:
  assumes "bs \<noteq> []"
  shows "last bs AND 0x01 = (if odd (be_val bs) then 0x01 else 0x00)"
proof -
  obtain xs b where bs: "bs = xs @ [b]" using assms by (cases bs rule: rev_cases) auto
  have "odd (be_val bs) \<longleftrightarrow> odd (uint b)" by (simp add: bs be_val_def)
  moreover have "odd (uint b) \<longleftrightarrow> odd b" by transfer simp
  ultimately show ?thesis by (simp add: bs and_one_eq mod_2_eq_odd)
qed

lemma uncompressed_key:
  assumes "length s = 67" "s ! 1 = 0x04" "s ! 0 = OP_DATA_65" "s ! 66 = OP_CHECKSIG" "parses (slice s 1 66)"
  obtains p where "wf_PublicKey p" "s = OP_DATA_65 # SerializeUncompressed p @ [OP_CHECKSIG]"
    "(if isOdd (Y p) then 0x03 else 0x02) # slice s 2 34 = SerializeCompressed p"
    "s ! 65 AND 0x01 = (if isOdd (Y p) then 0x01 else 0x00)"
proof -
  let ?key = "slice s 1 66"
  have key: "length ?key = 65" "?key ! 0 = 0x04" using assms(1,2) by (simp_all add: nth_slice)
  obtain p where p: "ParsePubKey ?key = Ok p" using assms(5) by (auto simp: parses_def split: res.splits)
  then have wf: "wf_PublicKey p" "?key \<in> pubkey_forms p" using ParsePubKey_uncompressed key by simp_all
  define xs where "xs = paddedAppend 32 [] (be_bytes (X p))"
  define ys where "ys = paddedAppend 32 [] (be_bytes (Y p))"
  have len: "length xs = 32" "length ys = 32"
    using wf(1) length_paddedAppend[OF _ curve_small(1), of _ "[]"]
    by (simp_all add: xs_def ys_def wf_PublicKey_def)
  have ser: "SerializeUncompressed p = 0x04 # xs @ ys" "SerializeHybrid p = (if isOdd (Y p) then 0x07 else 0x06) # xs @ ys"
    "SerializeCompressed p = (if isOdd (Y p) then 0x03 else 0x02) # xs"
    by (simp_all add: xs_def ys_def paddedAppend_def SerializeUncompressed_def SerializeHybrid_def
        SerializeCompressed_def pubkey_consts)
  have k: "?key = 0x04 # xs @ ys"
    using wf(2) key len by (auto simp: pubkey_forms_def ser split: if_splits)
  then have s: "s = OP_DATA_65 # 0x04 # xs @ ys @ [OP_CHECKSIG]"
    using slice_parts[of 1 66 s] take_nths(1)[of s] drop_nths(1)[of s 66] assms(1,3,4) by simp
  have "be_val ys = Y p"
    using wf(1) by (simp add: ys_def paddedAppend_def be_val_be_bytes wf_PublicKey_def)
  then have "last ys AND 0x01 = (if isOdd (Y p) then 0x01 else 0x00)"
    using low_bit_be_val[of ys] len(2) by (cases "ys = []") (simp_all add: isOdd_def)
  moreover have "s ! 65 = last ys" using len last_conv_nth[of ys] by (cases "ys = []") (simp_all add: s nth_append)
  moreover have "slice s 2 34 = xs" using len by (simp add: s slice_def)
  ultimately show thesis using that[of p] wf(1) s by (simp add: ser)
qed

lemmas cst_defs = cstPayToPubKeyHash_def cstPayToScriptHash_def cstPayToPubKeyComp2_def cstPayToPubKeyComp3_def
  cstPayToPubKeyUncomp4_def cstPayToPubKeyUncomp5_def

lemma decompressScript_code:
  assumes "length s < 2 ^ 60" "recoverable s"
  shows "decodeCompressedScriptSize (script_code s @ rest) = int (compressedScriptSize s)"
    and "decompressScript (script_code s) spare = Ok s"
proof -
  consider (pkh) "fst (isPubKeyHash s)" | (sh) "\<not> fst (isPubKeyHash s)" "fst (isScriptHashBytes s)"
    | (pk) "\<not> fst (isPubKeyHash s)" "\<not> fst (isScriptHashBytes s)" "fst (isPubKey s)"
    | (other) "\<not> fst (isPubKeyHash s)" "\<not> fst (isScriptHashBytes s)" "\<not> fst (isPubKey s)" by blast
  then have "decodeCompressedScriptSize (script_code s @ rest) = int (compressedScriptSize s) \<and>
    decompressScript (script_code s) spare = Ok s"
  proof cases
    case pkh
    then have p: "length s = 25" "s = [OP_DUP, OP_HASH160, OP_DATA_20] @ slice s 3 23 @ [OP_EQUALVERIFY, OP_CHECKSIG]"
      using slice_parts[of 3 23 s] take_nths(3)[of s] drop_nths(2)[of s 23]
      by (auto simp: isPubKeyHash_def split: if_splits)
    have "script_code s = 0 # slice s 3 23" "compressedScriptSize s = 21"
      using pkh by (simp_all add: script_code_def compressedScriptSize_def)
    then show ?thesis
      using p by (simp add: decodeCompressedScriptSize_def decompressScript_def deserializeVLQ_tag cstPayToPubKeyHash_def slice_res_def)
  next
    case sh
    then have p: "length s = 23" "s = [OP_HASH160, OP_DATA_20] @ slice s 2 22 @ [OP_EQUAL]"
      using slice_parts[of 2 22 s] take_nths(2)[of s] drop_nths(1)[of s 22]
      by (auto simp: isScriptHashBytes_def split: if_splits)
    have "script_code s = 1 # slice s 2 22" "compressedScriptSize s = 21"
      using sh by (simp_all add: script_code_def compressedScriptSize_def)
    then show ?thesis
      using p by (simp add: decodeCompressedScriptSize_def decompressScript_def deserializeVLQ_tag cstPayToPubKeyHash_def
          cstPayToScriptHash_def slice_res_def)
  next
    case pk
    have sz: "compressedScriptSize s = 33" using pk by (simp add: compressedScriptSize_def)
    show ?thesis
    proof (cases "s ! 1 = 0x04")
      case False
      then have k: "length s = 35" "s ! 1 = 0x02 \<or> s ! 1 = 0x03" "s ! 0 = OP_DATA_33" "s ! 34 = OP_CHECKSIG"
        using isPubKey_True[OF pk(3)] by auto
      have s: "s = [OP_DATA_33, s ! 1] @ slice s 2 34 @ [OP_CHECKSIG]"
        using slice_parts[of 2 34 s] take_nths(2)[of s] drop_nths(1)[of s 34] k by simp
      have "script_code s = s ! 1 # slice s 2 34" using pk False by (simp add: script_code_def)
      then show ?thesis using k(1,2) s unfolding sz
        by (elim disjE) (simp_all add: decodeCompressedScriptSize_def decompressScript_def deserializeVLQ_tag cst_defs slice_res_def)
    next
      case True
      then obtain p where p: "wf_PublicKey p" "s = OP_DATA_65 # SerializeUncompressed p @ [OP_CHECKSIG]"
          "(if isOdd (Y p) then 0x03 else 0x02) # slice s 2 34 = SerializeCompressed p"
          "s ! 65 AND 0x01 = (if isOdd (Y p) then 0x01 else 0x00)"
        using isPubKey_True[OF pk(3)] by (elim uncompressed_key[of s, rotated -1]) auto
      have len: "length s = 67" using isPubKey_True[OF pk(3)] True by auto
      have c: "script_code s = (if isOdd (Y p) then 0x05 else 0x04) # slice s 2 34"
        using pk True p(4) by (simp add: script_code_def)
      have "ParsePubKey (SerializeCompressed p) = Ok p" using assms(2) p(1,2) by (simp add: recoverable_def)
      then have "ParsePubKey ((if isOdd (Y p) then 0x03 else 0x02) # slice s 2 34) = Ok p" by (simp add: p(3))
      then show ?thesis unfolding c sz using len p(2)
        by (cases "isOdd (Y p)") (simp_all add: decodeCompressedScriptSize_def decompressScript_def deserializeVLQ_tag cst_defs)
    qed
  next
    case other
    let ?v = "word_of_nat (length s + numSpecialScripts) :: uint64"
    have c: "script_code s = vlq_bytes ?v @ s" "compressedScriptSize s = serializeSizeVLQ ?v + length s"
      using other by (simp_all add: script_code_def compressedScriptSize_def)
    have "deserializeVLQ ((vlq_bytes ?v @ s) @ r) = (?v, serializeSizeVLQ ?v)" for r
      using deserializeVLQ_bytes[of ?v "s @ r"] by simp
    moreover have "vlq_bytes ?v \<noteq> []" by (simp add: vlq_bytes_def)
    ultimately show ?thesis
      unfolding c using general_size[OF assms(1)] serializeSizeVLQ_pos[of ?v] deserializeVLQ_bytes[of ?v s]
      by (simp add: decodeCompressedScriptSize_def decompressScript_def cstPayToPubKeyHash_def cstPayToScriptHash_def
          cst_defs slice_res_def Let_def)
  qed
  then show "decodeCompressedScriptSize (script_code s @ rest) = int (compressedScriptSize s)"
    "decompressScript (script_code s) spare = Ok s" by simp_all
qed

subsection \<open>Properties\<close>

text \<open>The bytes of a compressed output.\<close>

definition txout_bytes :: "uint64 \<Rightarrow> byte list \<Rightarrow> byte list" where
  "txout_bytes amount pkScript = vlq_bytes (compressTxOutAmount amount) @ script_code pkScript"

lemma length_txout_bytes [simp]: "length (txout_bytes amount pkScript) = compressedTxOutSize amount pkScript"
  by (simp add: txout_bytes_def compressedTxOutSize_def length_script_code)

lemma putCompressedTxOut_run:
  assumes "compressedTxOutSize amount pkScript \<le> length target"
  shows "putCompressedTxOut target amount pkScript =
    Ok (txout_bytes amount pkScript @ drop (compressedTxOutSize amount pkScript) target, compressedTxOutSize amount pkScript)"
  using assms unfolding compressedTxOutSize_def txout_bytes_def
  by (simp add: putCompressedTxOut_def putVLQ_run putCompressedScript_run length_script_code add.commute)

lemma compressedScriptSize_pos: "0 < compressedScriptSize pkScript"
  using serializeSizeVLQ_pos by (simp add: compressedScriptSize_def)

lemma decodeCompressedTxOut_bytes:
  assumes "unat amount < 2 ^ 60" "length pkScript < 2 ^ 60" "recoverable pkScript"
  shows "decodeCompressedTxOut (txout_bytes amount pkScript @ rest) spare =
    Ok (amount, pkScript, compressedTxOutSize amount pkScript)"
proof -
  let ?v = "compressTxOutAmount amount" and ?bytes = "txout_bytes amount pkScript"
  have "slice (?bytes @ rest) (serializeSizeVLQ ?v) (serializeSizeVLQ ?v + compressedScriptSize pkScript) = script_code pkScript"
    by (simp add: slice_def length_script_code txout_bytes_def)
  then show ?thesis
    using decompressScript_code[OF assms(2,3)] deserializeVLQ_bytes[of ?v "script_code pkScript @ rest"] compressedScriptSize_pos
    by (simp add: decodeCompressedTxOut_def length_script_code decompress_compress[OF assms(1)] Let_def
        txout_bytes_def compressedTxOutSize_def)
qed

text \<open>
  Claim C13. A compressed transaction output reads back: writing an amount below \<open>2 ^ 60\<close> and a script of any
  class into a target with room fills exactly the number of bytes \<^verbatim>\<open>compressedTxOutSize\<close> announces and leaves
  the rest of the target alone, and decoding these bytes, whatever follows them, gives the amount, the script and
  the number of bytes.  For a script that pays to an uncompressed key the key must be recoverable from its X
  coordinate and the parity of Y.
\<close>

theorem compressed_txout_roundtrip:
  assumes "unat amount < 2 ^ 60" "length pkScript < 2 ^ 60" "recoverable pkScript"
    and "compressedTxOutSize amount pkScript \<le> length target"
  shows "\<exists>bytes. length bytes = compressedTxOutSize amount pkScript \<and>
    putCompressedTxOut target amount pkScript = Ok (bytes @ drop (length bytes) target, length bytes) \<and>
    decodeCompressedTxOut (bytes @ rest) spare = Ok (amount, pkScript, length bytes)"
  using assms(4) putCompressedTxOut_run decodeCompressedTxOut_bytes[OF assms(1-3)]
  by (intro exI[of _ "txout_bytes amount pkScript"]) simp

theorem compressed_txout_roundtrip_witness:
  "\<exists>bytes. length bytes = 22 \<and>
    putCompressedTxOut (replicate 30 0) 5000000000
      ([OP_DUP, OP_HASH160, OP_DATA_20] @ replicate 20 7 @ [OP_EQUALVERIFY, OP_CHECKSIG]) =
      Ok (bytes @ replicate 8 0, 22) \<and>
    decodeCompressedTxOut (bytes @ [1, 2, 3]) [] =
      Ok (5000000000, [OP_DUP, OP_HASH160, OP_DATA_20] @ replicate 20 7 @ [OP_EQUALVERIFY, OP_CHECKSIG], 22)"
proof -
  let ?s = "[OP_DUP, OP_HASH160, OP_DATA_20] @ replicate 20 7 @ [OP_EQUALVERIFY, OP_CHECKSIG]"
  have "fst (isPubKeyHash ?s)" by (simp add: isPubKeyHash_def nth_append nth_Cons')
  moreover have "serializeSizeVLQ (compressTxOutAmount 5000000000) = 1"
    by (simp add: compressTxOutAmount_def exponentLoop.simps serializeSizeVLQ.simps)
  ultimately have sz: "compressedTxOutSize 5000000000 ?s = 22"
    by (simp add: compressedTxOutSize_def compressedScriptSize_def)
  have "recoverable ?s" by (simp add: recoverable_def)
  then obtain bytes where b: "length bytes = 22"
      "putCompressedTxOut (replicate 30 0) 5000000000 ?s = Ok (bytes @ drop (length bytes) (replicate 30 0), length bytes)"
      "decodeCompressedTxOut (bytes @ [1, 2, 3]) [] = Ok (5000000000, ?s, length bytes)"
    using compressed_txout_roundtrip[of 5000000000 ?s "replicate 30 0" "[1, 2, 3]" "[]"] sz by auto
  then show ?thesis by (intro exI[of _ bytes]) simp
qed

text \<open>
  A stored script size of \<open>2 ^ 63\<close> or more turns negative and passes the length check: decoding panics on the
  slice expression where it should return an error.
\<close>

lemma corrupt_size_panics:
  "decodeCompressedTxOut ([0x00] @ vlq_bytes 0x8000000000000000) [] = Panic"
proof -
  let ?v = "0x8000000000000000 :: uint64"
  have "serializeSizeVLQ ?v = 9" by (simp add: serializeSizeVLQ.simps drop_bit_eq_div)
  then have "decodeCompressedScriptSize (vlq_bytes ?v) < 0" "vlq_bytes ?v \<noteq> []"
    using deserializeVLQ_bytes[of ?v "[]"]
    by (simp_all add: decodeCompressedScriptSize_def cst_defs numSpecialScripts_def vlq_bytes_def)
  then show ?thesis
    using serializeSizeVLQ_pos[of ?v] by (simp add: decodeCompressedTxOut_def deserializeVLQ_tag Let_def)
qed

end
