(* ===== verification/ChainIO.thy ===== *)
theory ChainIO
  imports Utxo ChainView Compress "HOL-Library.AList"
begin

text \<open>
  The chain in the database (\<^verbatim>\<open>pkg/chain/chainio.go\<close>): how the spend journal, the unspent outputs, the index and the
  best state are written, read and kept in buckets.

  A bucket is what its documented interface says: a map from keys to values in which the last value put is found and a
  cursor visits the keys in byte order.  It is kept as an association list.  A value that was read may have more bytes
  behind it in its backing array (\<open>spare\<close>, see theory Compress).  A database transaction is a function on the buckets;
  that it may fail to commit is left to its callers.
\<close>

unbundle bit_operations_syntax

subsection \<open>Buckets\<close>

type_synonym bucket = "(byte list \<times> byte list) list"

definition bucket_Get :: "bucket \<Rightarrow> byte list \<Rightarrow> byte list option" where
  "bucket_Get b key = map_of b key"

definition bucket_Put :: "byte list \<Rightarrow> byte list \<Rightarrow> bucket \<Rightarrow> bucket" where
  "bucket_Put key v b = AList.update key v b"

definition bucket_Delete :: "byte list \<Rightarrow> bucket \<Rightarrow> bucket" where
  "bucket_Delete key b = AList.delete key b"

fun bytes_le :: "byte list \<Rightarrow> byte list \<Rightarrow> bool" where
  "bytes_le [] ys \<longleftrightarrow> True"
| "bytes_le (x # xs) [] \<longleftrightarrow> False"
| "bytes_le (x # xs) (y # ys) \<longleftrightarrow> x < y \<or> x = y \<and> bytes_le xs ys"

text \<open>The entry with the first key that is not before the one sought.\<close>

primrec cursor_Seek :: "byte list \<Rightarrow> bucket \<Rightarrow> (byte list \<times> byte list) option" where
  "cursor_Seek key [] = None"
| "cursor_Seek key (x # b) =
     (case cursor_Seek key b of
        None \<Rightarrow> if bytes_le key (fst x) then Some x else None
      | Some y \<Rightarrow> if bytes_le key (fst x) \<and> bytes_le (fst x) (fst y) then Some x else Some y)"

text \<open>Reading behind an offset, and writing from one: the part in front of the offset is not touched.\<close>

definition from_offset :: "nat \<Rightarrow> byte list \<Rightarrow> ('e, byte list) res" where
  "from_offset offset bs = slice_res bs offset (length bs)"

definition put_at ::
  "nat \<Rightarrow> (byte list \<Rightarrow> (string, byte list \<times> nat) res) \<Rightarrow> byte list \<Rightarrow> (string, byte list \<times> nat) res" where
  "put_at offset put target =
     bind_res (from_offset offset target) (\<lambda>rest.
     bind_res (put rest) (\<lambda>(rest, n). Ok (take offset target @ rest, offset + n)))"

definition deserialize_res :: "(string, 'a) res \<Rightarrow> (chain_error, 'a) res" where
  "deserialize_res r = (case r of Ok a \<Rightarrow> Ok a | Err _ \<Rightarrow> Err DeserializeError | Panic \<Rightarrow> Panic | Hang \<Rightarrow> Hang)"

text \<open>A deserialisation error of a stored value is reported as a corruption of the database.\<close>

definition corruption :: "(chain_error, 'a) res \<Rightarrow> (chain_error, 'a) res" where
  "corruption r = (case r of Err DeserializeError \<Rightarrow> Err DbError | _ \<Rightarrow> r)"

subsection \<open>The spend journal\<close>

definition spentTxOutHeaderCode :: "SpentTxOut \<Rightarrow> uint64" where
  "spentTxOutHeaderCode stxo =
     (let headerCode = push_bit 1 (word_of_int (stxo_Height stxo))
      in if stxo_IsCoinBase stxo then headerCode OR 0x01 else headerCode)"

definition spentTxOutSerializeSize :: "SpentTxOut \<Rightarrow> nat" where
  "spentTxOutSerializeSize stxo =
     (let sz = serializeSizeVLQ (spentTxOutHeaderCode stxo);
          sz = (if stxo_Height stxo > 0 then sz + serializeSizeVLQ 0 else sz)
      in sz + compressedTxOutSize (stxo_Amount stxo) (stxo_PkScript stxo))"

definition putSpentTxOut :: "byte list \<Rightarrow> SpentTxOut \<Rightarrow> (string, byte list \<times> nat) res" where
  "putSpentTxOut target stxo =
     bind_res (putVLQ target (spentTxOutHeaderCode stxo)) (\<lambda>(target, offset).
     bind_res (if stxo_Height stxo > 0 then put_at offset (\<lambda>t. putVLQ t 0) target else Ok (target, offset)) (\<lambda>(target, offset).
       put_at offset (\<lambda>t. putCompressedTxOut t (stxo_Amount stxo) (stxo_PkScript stxo)) target))"

definition decodeSpentTxOut :: "byte list \<Rightarrow> byte list \<Rightarrow> (chain_error, SpentTxOut \<times> nat) res" where
  "decodeSpentTxOut serialized spare =
     (if length serialized = 0 then Err DeserializeError
      else case deserializeVLQ serialized of (code, offset) \<Rightarrow>
        if offset \<ge> length serialized then Err DeserializeError
        else
          let isCoinBase = (code AND 0x01 \<noteq> 0); h = i32 (uint (drop_bit 1 code));
              offset = (if h > 0 then offset + snd (deserializeVLQ (drop offset serialized)) else offset)
          in if h > 0 \<and> offset \<ge> length serialized then Err DeserializeError
             else
               bind_res (deserialize_res (decodeCompressedTxOut (drop offset serialized) spare)) (\<lambda>(amount, pkScript, bytesRead).
                 Ok (\<lparr>stxo_Amount = amount, stxo_PkScript = pkScript, stxo_Height = h, stxo_IsCoinBase = isCoinBase\<rparr>,
                     offset + bytesRead)))"

text \<open>The inputs of the transactions backwards: what is read first comes last.\<close>

primrec journalLoop ::
  "byte list \<Rightarrow> byte list \<Rightarrow> nat \<Rightarrow> nat \<Rightarrow> SpentTxOut list \<Rightarrow> (chain_error, SpentTxOut list) res" where
  "journalLoop serialized spare 0 offset stxos = Ok stxos"
| "journalLoop serialized spare (Suc n) offset stxos =
     bind_res (from_offset offset serialized) (\<lambda>s.
     bind_res (decodeSpentTxOut s spare) (\<lambda>(stxo, k).
       journalLoop serialized spare n (offset + k) (stxo # stxos)))"

definition deserializeSpendJournalEntry ::
  "byte list \<Rightarrow> byte list \<Rightarrow> MsgTx list \<Rightarrow> (chain_error, SpentTxOut list) res" where
  "deserializeSpendJournalEntry serialized spare txns =
     (let numStxos = sum_list (map (\<lambda>tx. length (txIns tx)) txns) in
      if length serialized = 0 then (if numStxos \<noteq> 0 then Err AssertError else Ok [])
      else journalLoop serialized spare numStxos 0 [])"

text \<open>The outputs last first.\<close>

primrec putStxos :: "SpentTxOut list \<Rightarrow> nat \<Rightarrow> byte list \<Rightarrow> (string, byte list) res" where
  "putStxos [] offset serialized = Ok serialized"
| "putStxos (stxo # rstxos) offset serialized =
     bind_res (put_at offset (\<lambda>t. putSpentTxOut t stxo) serialized) (\<lambda>(serialized, offset).
       putStxos rstxos offset serialized)"

definition serializeSpendJournalEntry :: "SpentTxOut list \<Rightarrow> (string, byte list) res" where
  "serializeSpendJournalEntry stxos =
     (if length stxos = 0 then Ok []
      else putStxos (rev stxos) 0 (replicate (sum_list (map spentTxOutSerializeSize stxos)) 0))"

subsection \<open>The unspent outputs\<close>

text \<open>The key is written over a buffer from a pool, which is as long as a key can be.\<close>

definition maxUint32VLQSerializeSize :: nat where
  "maxUint32VLQSerializeSize = serializeSizeVLQ 0xffffffff"

definition outpointKey :: "byte list \<Rightarrow> OutPoint \<Rightarrow> (string, byte list) res" where
  "outpointKey pooled outpoint =
     (let idx = ucast (Index outpoint) :: uint64 in
      bind_res (slice_res pooled 0 (HashSize + serializeSizeVLQ idx)) (\<lambda>key.
      bind_res (copySlice key 0 (length key) (Hash outpoint)) (\<lambda>key.
      bind_res (put_at HashSize (\<lambda>t. putVLQ t idx) key) (\<lambda>(key, _). Ok key))))"

definition utxoEntryHeaderCode :: "UtxoEntry \<Rightarrow> (chain_error, uint64) res" where
  "utxoEntryHeaderCode entry =
     (if IsSpent entry then Err AssertError
      else
        let headerCode = push_bit 1 (word_of_int (ue_blockHeight entry))
        in Ok (if UtxoEntry_IsCoinBase entry then headerCode OR 0x01 else headerCode))"

text \<open>Writing never returns an error.\<close>

definition no_error :: "(string, 'a) res \<Rightarrow> (chain_error, 'a) res" where
  "no_error r = (case r of Ok a \<Rightarrow> Ok a | Err _ \<Rightarrow> Err OtherError | Panic \<Rightarrow> Panic | Hang \<Rightarrow> Hang)"

definition serializeUtxoEntry :: "UtxoEntry \<Rightarrow> (chain_error, byte list option) res" where
  "serializeUtxoEntry entry =
     (if IsSpent entry then Ok None
      else
        bind_res (utxoEntryHeaderCode entry) (\<lambda>headerCode.
        let sz = serializeSizeVLQ headerCode + compressedTxOutSize (ue_amount entry) (ue_pkScript entry) in
        no_error
          (bind_res (putVLQ (replicate sz 0) headerCode) (\<lambda>(serialized, offset).
           bind_res (put_at offset (\<lambda>t. putCompressedTxOut t (ue_amount entry) (ue_pkScript entry)) serialized) (\<lambda>(serialized, _).
             Ok (Some serialized))))))"

definition deserializeUtxoEntry :: "byte list \<Rightarrow> byte list \<Rightarrow> (chain_error, UtxoEntry) res" where
  "deserializeUtxoEntry serialized spare =
     (case deserializeVLQ serialized of (code, offset) \<Rightarrow>
      if offset \<ge> length serialized then Err DeserializeError
      else
        let isCoinBase = (code AND 0x01 \<noteq> 0); blockHeight = i32 (uint (drop_bit 1 code)) in
        bind_res (deserialize_res (decodeCompressedTxOut (drop offset serialized) spare)) (\<lambda>(amount, pkScript, _).
          Ok \<lparr>ue_amount = amount, ue_pkScript = pkScript, ue_blockHeight = blockHeight,
            ue_packedFlags = (if isCoinBase then 0 OR tfCoinBase else 0)\<rparr>))"

subsection \<open>The best state and the rows of the index\<close>

record BestState =
  bs_Hash :: "byte list"
  bs_Height :: int
  bs_Version :: "32 word"
  bs_Bits :: "32 word"
  BlockSize :: nat
  BlockWeight :: int
  NumTxns :: nat
  TotalTxns :: "64 word"
  MedianTime :: int

definition newBestState ::
  "node_store \<Rightarrow> noderef \<Rightarrow> nat \<Rightarrow> int \<Rightarrow> nat \<Rightarrow> 64 word \<Rightarrow> int \<Rightarrow> BestState" where
  "newBestState st node blockSize blockWeight numTxns totalTxns medianTime =
     (let n = node_at st node in
      \<lparr>bs_Hash = node_hash n, bs_Height = node_height n, bs_Version = node_version n, bs_Bits = node_bits n,
       BlockSize = blockSize, BlockWeight = blockWeight, NumTxns = numTxns, TotalTxns = totalTxns, MedianTime = medianTime\<rparr>)"

record bestChainState =
  bcs_hash :: "byte list"
  bcs_height :: "32 word"
  totalTxns :: "64 word"
  bcs_workSum :: int

definition serializeBestChainState :: "bestChainState \<Rightarrow> byte list" where
  "serializeBestChainState state =
     (let workSumBytes = int_be \<bar>bcs_workSum state\<bar>
      in bcs_hash state @ PutUint32 (bcs_height state) @ PutUint64 (totalTxns state) @
         PutUint32 (word_of_nat (length workSumBytes)) @ workSumBytes)"

definition deserializeBestChainState :: "byte list \<Rightarrow> (chain_error, bestChainState) res" where
  "deserializeBestChainState serializedData =
     (if length serializedData < HashSize + 16 then Err DbError
      else
        let workSumBytesLen = nat (le_val (slice serializedData 44 48));
            rest = drop 48 serializedData
        in if length rest mod 2 ^ 32 < workSumBytesLen then Err DbError
           else bind_res (slice_res serializedData 48 ((48 + workSumBytesLen) mod 2 ^ 32)) (\<lambda>workSumBytes.
             Ok \<lparr>bcs_hash = take HashSize serializedData, bcs_height = word_of_int (le_val (slice serializedData 32 36)),
               totalTxns = word_of_int (le_val (slice serializedData 36 44)), bcs_workSum = be_int workSumBytes\<rparr>))"

definition blockIndexKey :: "byte list \<Rightarrow> 32 word \<Rightarrow> byte list" where
  "blockIndexKey hash blockHeight = rev (PutUint32 blockHeight) @ hash"

text \<open>The two errors, of the header and of the status behind it, are those of a short read.\<close>

definition deserializeBlockRow :: "byte list \<Rightarrow> (chain_error, BlockHeader \<times> blockStatus) res" where
  "deserializeBlockRow blockRow =
     (case readBlockHeader blockRow of
        (Ok header, status # rest) \<Rightarrow> Ok (header, status)
      | (Ok header, []) \<Rightarrow> Err OtherError
      | (Err e, _) \<Rightarrow> Err OtherError
      | (Panic, _) \<Rightarrow> Panic
      | (Hang, _) \<Rightarrow> Hang)"

subsection \<open>Transactions on the buckets\<close>

record chain_db =
  utxoSetBucket :: bucket
  spendJournalBucket :: bucket
  hashIndexBucket :: bucket
  heightIndexBucket :: bucket
  blockIndexBucket :: bucket
  chainStateKey :: "byte list option"
  storedBlocks :: "(byte list \<times> byte list) list"

text \<open>A buffer of the pool, whatever was written to it before.\<close>

definition keyBuffer :: "byte list" where
  "keyBuffer = replicate (HashSize + maxUint32VLQSerializeSize) 0"

definition dbFetchUtxoEntry :: "byte list \<Rightarrow> chain_db \<Rightarrow> OutPoint \<Rightarrow> (chain_error, UtxoEntry option) res" where
  "dbFetchUtxoEntry spare db outpoint =
     bind_res (no_error (outpointKey keyBuffer outpoint)) (\<lambda>key.
       case bucket_Get (utxoSetBucket db) key of
         None \<Rightarrow> Ok None
       | Some serializedUtxo \<Rightarrow>
           if length serializedUtxo = 0 then Err AssertError
           else bind_res (corruption (deserializeUtxoEntry serializedUtxo spare)) (\<lambda>entry. Ok (Some entry)))"

definition dbFetchUtxoEntryByHash :: "byte list \<Rightarrow> chain_db \<Rightarrow> byte list \<Rightarrow> (chain_error, UtxoEntry option) res" where
  "dbFetchUtxoEntryByHash spare db hash =
     bind_res (no_error (outpointKey keyBuffer \<lparr>Hash = hash, Index = 0\<rparr>)) (\<lambda>key.
       case cursor_Seek key (utxoSetBucket db) of
         None \<Rightarrow> Ok None
       | Some (cursorKey, v) \<Rightarrow>
           if length cursorKey < HashSize then Ok None
           else if hash \<noteq> take HashSize cursorKey then Ok None
           else bind_res (deserializeUtxoEntry v spare) (\<lambda>entry. Ok (Some entry)))"

text \<open>The view's entries in the order in which the runtime visits them.\<close>

primrec putUtxos :: "UtxoViewpoint \<Rightarrow> OutPoint list \<Rightarrow> (chain_db, chain_error, unit) op" where
  "putUtxos view [] = ret ()"
| "putUtxos view (outpoint # outpoints) =
     bnd (case LookupEntry view outpoint of
            None \<Rightarrow> ret ()
          | Some entry \<Rightarrow>
              if \<not> isModified entry then ret ()
              else if IsSpent entry then
                bnd (lift_res (no_error (outpointKey keyBuffer outpoint))) (\<lambda>key.
                  mod_st (\<lambda>db. db\<lparr>utxoSetBucket := bucket_Delete key (utxoSetBucket db)\<rparr>))
              else
                bnd (lift_res (serializeUtxoEntry entry)) (\<lambda>serialized.
                bnd (lift_res (no_error (outpointKey keyBuffer outpoint))) (\<lambda>key.
                  mod_st (\<lambda>db. db\<lparr>utxoSetBucket :=
                    bucket_Put key (case serialized of None \<Rightarrow> [] | Some s \<Rightarrow> s) (utxoSetBucket db)\<rparr>))))
       (\<lambda>_. putUtxos view outpoints)"

definition dbPutUtxoView :: "(UtxoViewpoint \<Rightarrow> OutPoint list) \<Rightarrow> UtxoViewpoint \<Rightarrow> (chain_db, chain_error, unit) op" where
  "dbPutUtxoView visit view = putUtxos view (visit view)"

definition dbFetchSpendJournalEntry :: "byte list \<Rightarrow> chain_db \<Rightarrow> Block \<Rightarrow> (chain_error, SpentTxOut list) res" where
  "dbFetchSpendJournalEntry spare db block =
     (let serialized = (case bucket_Get (spendJournalBucket db) (blockHash block) of None \<Rightarrow> [] | Some s \<Rightarrow> s)
      in if block_Transactions block = [] then Panic
         else corruption (deserializeSpendJournalEntry serialized spare (tl (block_Transactions block))))"

definition dbPutSpendJournalEntry :: "byte list \<Rightarrow> SpentTxOut list \<Rightarrow> (chain_db, chain_error, unit) op" where
  "dbPutSpendJournalEntry hash stxos =
     bnd (lift_res (no_error (serializeSpendJournalEntry stxos))) (\<lambda>serialized.
       mod_st (\<lambda>db. db\<lparr>spendJournalBucket := bucket_Put hash serialized (spendJournalBucket db)\<rparr>))"

definition dbRemoveSpendJournalEntry :: "byte list \<Rightarrow> (chain_db, chain_error, unit) op" where
  "dbRemoveSpendJournalEntry hash =
     mod_st (\<lambda>db. db\<lparr>spendJournalBucket := bucket_Delete hash (spendJournalBucket db)\<rparr>)"

definition dbPutBlockIndex :: "byte list \<Rightarrow> int \<Rightarrow> (chain_db, chain_error, unit) op" where
  "dbPutBlockIndex hash h =
     (let serializedHeight = PutUint32 (word_of_int h) in
      bnd (mod_st (\<lambda>db. db\<lparr>hashIndexBucket := bucket_Put hash serializedHeight (hashIndexBucket db)\<rparr>)) (\<lambda>_.
        mod_st (\<lambda>db. db\<lparr>heightIndexBucket := bucket_Put serializedHeight hash (heightIndexBucket db)\<rparr>)))"

definition dbRemoveBlockIndex :: "byte list \<Rightarrow> int \<Rightarrow> (chain_db, chain_error, unit) op" where
  "dbRemoveBlockIndex hash h =
     (let serializedHeight = PutUint32 (word_of_int h) in
      bnd (mod_st (\<lambda>db. db\<lparr>hashIndexBucket := bucket_Delete hash (hashIndexBucket db)\<rparr>)) (\<lambda>_.
        mod_st (\<lambda>db. db\<lparr>heightIndexBucket := bucket_Delete serializedHeight (heightIndexBucket db)\<rparr>)))"

text \<open>A stored height shorter than four bytes panics.  Not being in the main chain is \<open>OtherError\<close> here and below.\<close>

definition dbFetchHeightByHash :: "chain_db \<Rightarrow> byte list \<Rightarrow> (chain_error, int) res" where
  "dbFetchHeightByHash db hash =
     (case bucket_Get (hashIndexBucket db) hash of
        None \<Rightarrow> Err OtherError
      | Some serializedHeight \<Rightarrow> bind_res (slice_res serializedHeight 0 4) (\<lambda>s. Ok (i32 (le_val s))))"

definition dbFetchHashByHeight :: "chain_db \<Rightarrow> int \<Rightarrow> (chain_error, byte list) res" where
  "dbFetchHashByHeight db h =
     (case bucket_Get (heightIndexBucket db) (PutUint32 (word_of_int h)) of
        None \<Rightarrow> Err OtherError
      | Some hashBytes \<Rightarrow> Ok (take HashSize hashBytes @ replicate (HashSize - length hashBytes) 0))"

definition dbPutBestState :: "BestState \<Rightarrow> int \<Rightarrow> (chain_db, chain_error, unit) op" where
  "dbPutBestState snapshot work =
     mod_st (\<lambda>db. db\<lparr>chainStateKey := Some (serializeBestChainState
       \<lparr>bcs_hash = bs_Hash snapshot, bcs_height = word_of_int (bs_Height snapshot), totalTxns = TotalTxns snapshot,
        bcs_workSum = work\<rparr>)\<rparr>)"

definition dbStoreBlockNode :: "BlockHeader \<Rightarrow> blockNode \<Rightarrow> chain_db \<Rightarrow> (chain_error, chain_db) res" where
  "dbStoreBlockNode header node db =
     (let v = writeBlockHeader header @ [node_status node];
          key = blockIndexKey (node_hash node) (word_of_int (node_height node))
      in Ok (db\<lparr>blockIndexBucket := bucket_Put key v (blockIndexBucket db)\<rparr>))"

definition dbStoreBlock :: "Block \<Rightarrow> (chain_db, chain_error, unit) op" where
  "dbStoreBlock block =
     bnd (get_st storedBlocks) (\<lambda>blocks.
       if map_of blocks (blockHash block) \<noteq> None then ret ()
       else mod_st (\<lambda>db. db\<lparr>storedBlocks := (blockHash block, MsgBlock_Serialize (msgBlock block)) # storedBlocks db\<rparr>))"

text \<open>Bytes behind the block are ignored; a block that is not there is an error of the database.\<close>

definition dbFetchBlockByNode :: "node_store \<Rightarrow> chain_db \<Rightarrow> noderef \<Rightarrow> (chain_error, Block) res" where
  "dbFetchBlockByNode st db node =
     (case map_of (storedBlocks db) (node_hash (node_at st node)) of
        None \<Rightarrow> Err DbError
      | Some blockBytes \<Rightarrow>
          (case fst (MsgBlock_Deserialize blockBytes) of
             Ok msg \<Rightarrow> Ok \<lparr>msgBlock = msg, block_Height = height st node\<rparr>
           | Err e \<Rightarrow> Err OtherError | Panic \<Rightarrow> Panic | Hang \<Rightarrow> Hang))"

definition dbFetchHeaderByHash :: "chain_db \<Rightarrow> byte list \<Rightarrow> (chain_error, BlockHeader) res" where
  "dbFetchHeaderByHash db hash =
     (case map_of (storedBlocks db) hash of
        None \<Rightarrow> Err DbError
      | Some blockBytes \<Rightarrow>
          (case fst (readBlockHeader (take 80 blockBytes)) of
             Ok header \<Rightarrow> Ok header | Err e \<Rightarrow> Err OtherError | Panic \<Rightarrow> Panic | Hang \<Rightarrow> Hang))"

subsection \<open>Writing into a slice\<close>

text \<open>A writer puts its bytes at the front of a target that has room for them and says how many they are.\<close>

definition writes :: "(byte list \<Rightarrow> (string, byte list \<times> nat) res) \<Rightarrow> byte list \<Rightarrow> bool" where
  "writes put bs \<longleftrightarrow> (\<forall>target. length bs \<le> length target \<longrightarrow> put target = Ok (bs @ drop (length bs) target, length bs))"

lemma writes_put_at:
  assumes "writes put bs" "length bs \<le> length rest"
  shows "put_at (length pre) put (pre @ rest) = Ok (pre @ bs @ drop (length bs) rest, length pre + length bs)"
  using assms by (simp add: writes_def put_at_def from_offset_def slice_res_def)

lemma writes_then:
  assumes "writes put1 bs1" "writes put2 bs2"
  shows "writes (\<lambda>t. bind_res (put1 t) (\<lambda>(t, offset). put_at offset put2 t)) (bs1 @ bs2)"
  using assms(1) writes_put_at[OF assms(2), of _ bs1]
  by (auto simp: writes_def add.commute le_diff_conv2)

lemma writes_nothing: "writes put1 bs \<Longrightarrow> writes (\<lambda>t. bind_res (put1 t) Ok) bs"
  by (auto simp: writes_def)

lemma writes_VLQ: "writes (\<lambda>t. putVLQ t n) (vlq_bytes n)"
  by (simp add: writes_def putVLQ_run)

lemma writes_TxOut: "writes (\<lambda>t. putCompressedTxOut t amount pkScript) (txout_bytes amount pkScript)"
  by (simp add: writes_def putCompressedTxOut_run)

subsection \<open>Header codes\<close>

definition header_code :: "int \<Rightarrow> bool \<Rightarrow> uint64" where
  "header_code h cb = (let code = push_bit 1 (word_of_int h) in if cb then code OR 1 else code)"

lemma header_code_parts:
  assumes "0 \<le> h" "h < 2 ^ 31"
  shows "header_code h cb AND 1 \<noteq> 0 \<longleftrightarrow> cb" "i32 (uint (drop_bit 1 (header_code h cb))) = h"
proof -
  have "\<not> bit (push_bit 1 w) 0" for w :: uint64 by (simp only: bit_push_bit_iff) simp
  then have b: "bit (header_code h cb) 0 \<longleftrightarrow> cb" unfolding header_code_def Let_def by (simp only: bit_or_iff split: if_split) simp
  have "header_code h cb AND 1 \<noteq> 0 \<longleftrightarrow> bit (header_code h cb) 0"
    by (auto simp: bit_0 and_one_eq odd_iff_mod_2_eq_one)
  then show "header_code h cb AND 1 \<noteq> 0 \<longleftrightarrow> cb" using b by simp
  have "uint (word_of_int h :: uint64) = h" using assms by (simp add: uint_word_of_int)
  moreover have "drop_bit 1 (header_code h cb) = word_of_int h"
  proof (rule bit_word_eqI)
    fix n assume n: "n < LENGTH(64)"
    have "bit (push_bit 1 w) (Suc n) \<longleftrightarrow> n < 63 \<and> bit w n" for w :: uint64 by (simp only: bit_push_bit_iff) auto
    then have "bit (header_code h cb) (Suc n) \<longleftrightarrow> n < 63 \<and> bit (word_of_int h :: uint64) n"
      unfolding header_code_def Let_def by (simp only: bit_or_iff split: if_split) (simp add: bit_1_iff)
    moreover have "\<not> bit h 63" using assms by (simp add: bit_iff_odd)
    then have "\<not> bit (word_of_int h :: uint64) 63" by (simp add: bit_word_of_int_iff)
    ultimately show "bit (drop_bit 1 (header_code h cb)) n = bit (word_of_int h :: uint64) n"
      using n by (cases "n = 63") (simp_all add: bit_drop_bit_eq)
  qed
  ultimately show "i32 (uint (drop_bit 1 (header_code h cb))) = h" using assms by (simp add: i32_id)
qed

lemma header_codes:
  "spentTxOutHeaderCode stxo = header_code (stxo_Height stxo) (stxo_IsCoinBase stxo)"
  "\<not> IsSpent e \<Longrightarrow> utxoEntryHeaderCode e = Ok (header_code (ue_blockHeight e) (UtxoEntry_IsCoinBase e))"
  by (simp_all add: spentTxOutHeaderCode_def utxoEntryHeaderCode_def header_code_def Let_def)

subsection \<open>Spent outputs and journals\<close>

definition wf_coin :: "SpentTxOut \<Rightarrow> bool" where
  "wf_coin c \<longleftrightarrow> 0 \<le> stxo_Height c \<and> stxo_Height c < 2 ^ 31 \<and> unat (stxo_Amount c) < 2 ^ 60 \<and>
     length (stxo_PkScript c) < 2 ^ 60 \<and> recoverable (stxo_PkScript c)"

definition stxo_bytes :: "SpentTxOut \<Rightarrow> byte list" where
  "stxo_bytes c = vlq_bytes (spentTxOutHeaderCode c) @ (if stxo_Height c > 0 then vlq_bytes 0 else []) @
     txout_bytes (stxo_Amount c) (stxo_PkScript c)"

definition journal_bytes :: "SpentTxOut list \<Rightarrow> byte list" where
  "journal_bytes cs = concat (map stxo_bytes (rev cs))"

lemma length_stxo_bytes: "length (stxo_bytes c) = spentTxOutSerializeSize c" "stxo_bytes c \<noteq> []"
  using serializeSizeVLQ_pos[of "spentTxOutHeaderCode c"] length_vlq_bytes[of "spentTxOutHeaderCode c"]
  by (auto simp: stxo_bytes_def spentTxOutSerializeSize_def Let_def simp flip: length_0_conv)

lemma writes_stxo: "writes (\<lambda>t. putSpentTxOut t c) (stxo_bytes c)"
proof -
  let ?txout = "\<lambda>t. putCompressedTxOut t (stxo_Amount c) (stxo_PkScript c)"
  have "bind_res (bind_res r f) g = bind_res r (\<lambda>a. bind_res (f a) g)" for r :: "(string, byte list \<times> nat) res"
    and f and g :: "byte list \<times> nat \<Rightarrow> (string, byte list \<times> nat) res"
    by (cases r) simp_all
  note assoc = this
  show ?thesis
  proof (cases "stxo_Height c > 0")
    case True
    have "(\<lambda>t. putSpentTxOut t c) = (\<lambda>t. bind_res (bind_res (putVLQ t (spentTxOutHeaderCode c))
        (\<lambda>(t, offset). put_at offset (\<lambda>t. putVLQ t 0) t)) (\<lambda>(t, offset). put_at offset ?txout t))"
      using True by (simp add: putSpentTxOut_def assoc case_prod_unfold)
    then show ?thesis
      using writes_then[OF writes_then[OF writes_VLQ writes_VLQ] writes_TxOut] True by (simp add: stxo_bytes_def)
  next
    case False
    then have "(\<lambda>t. putSpentTxOut t c) =
        (\<lambda>t. bind_res (putVLQ t (spentTxOutHeaderCode c)) (\<lambda>(t, offset). put_at offset ?txout t))"
      by (simp add: putSpentTxOut_def case_prod_unfold)
    then show ?thesis using writes_then[OF writes_VLQ writes_TxOut] False by (simp add: stxo_bytes_def)
  qed
qed

lemma decodeSpentTxOut_bytes:
  assumes "wf_coin c"
  shows "decodeSpentTxOut (stxo_bytes c @ rest) spare = Ok (c, length (stxo_bytes c))"
proof -
  note wf = assms[unfolded wf_coin_def]
  let ?code = "spentTxOutHeaderCode c" and ?txout = "txout_bytes (stxo_Amount c) (stxo_PkScript c)"
  let ?mid = "if stxo_Height c > 0 then vlq_bytes 0 else []"
  have tx: "decodeCompressedTxOut (?txout @ rest) spare = Ok (stxo_Amount c, stxo_PkScript c, length ?txout)"
    using wf by (simp add: decodeCompressedTxOut_bytes)
  have pos: "0 < length ?txout" using serializeSizeVLQ_pos by (simp add: compressedTxOutSize_def)
  define s where "s = stxo_bytes c @ rest"
  have s: "s = vlq_bytes ?code @ ?mid @ ?txout @ rest" by (simp add: stxo_bytes_def s_def)
  have ne: "length s \<noteq> 0" using length_stxo_bytes(2) by (simp add: s_def)
  have d: "deserializeVLQ s = (?code, serializeSizeVLQ ?code)" unfolding s by (rule deserializeVLQ_bytes)
  have r: "drop (serializeSizeVLQ ?code) s = ?mid @ ?txout @ rest" unfolding s by simp
  have l: "length s = serializeSizeVLQ ?code + length ?mid + length ?txout + length rest" unfolding s by simp
  have r2: "drop (serializeSizeVLQ ?code + length ?mid) s = ?txout @ rest" unfolding s by simp
  note parts = header_code_parts[of "stxo_Height c" "stxo_IsCoinBase c", folded header_codes(1), unfolded One_nat_def]
  have sz: "length (stxo_bytes c) = serializeSizeVLQ ?code + length ?mid + length ?txout" by (simp add: stxo_bytes_def)
  show ?thesis
  proof (cases "stxo_Height c > 0")
    case True
    have m: "snd (deserializeVLQ (vlq_bytes 0 @ ?txout @ rest)) = serializeSizeVLQ 0" by (simp add: deserializeVLQ_bytes)
    show ?thesis
      using True wf ne pos tx l m r r2 sz parts unfolding s_def[symmetric]
      by (simp add: decodeSpentTxOut_def d Let_def deserialize_res_def del: length_txout_bytes)
  next
    case False
    then show ?thesis
      using wf ne pos tx l r2 sz parts unfolding s_def[symmetric]
      by (simp add: decodeSpentTxOut_def d Let_def deserialize_res_def del: length_txout_bytes)
  qed
qed

lemma putStxos_run:
  "length pre = offset \<Longrightarrow> length rest = length (concat (map stxo_bytes cs)) \<Longrightarrow>
   putStxos cs offset (pre @ rest) = Ok (pre @ concat (map stxo_bytes cs))"
proof (induction cs arbitrary: pre offset rest)
  case (Cons c cs)
  then have "put_at offset (\<lambda>t. putSpentTxOut t c) (pre @ rest) =
      Ok ((pre @ stxo_bytes c) @ drop (length (stxo_bytes c)) rest, offset + length (stxo_bytes c))"
    using writes_put_at[OF writes_stxo[of c], of rest pre] by simp
  then show ?case
    using Cons.IH[of "pre @ stxo_bytes c" "offset + length (stxo_bytes c)" "drop (length (stxo_bytes c)) rest"] Cons.prems
    by simp
qed simp

lemma serializeSpendJournalEntry_run: "serializeSpendJournalEntry cs = Ok (journal_bytes cs)"
proof -
  have "sum_list (map spentTxOutSerializeSize cs) = length (journal_bytes cs)"
    by (simp add: journal_bytes_def length_concat comp_def length_stxo_bytes sum_list_rev flip: rev_map)
  then show ?thesis
    using putStxos_run[of "[]" 0 "replicate (sum_list (map spentTxOutSerializeSize cs)) 0" "rev cs"]
    by (simp add: serializeSpendJournalEntry_def journal_bytes_def)
qed

lemma journalLoop_run:
  assumes "\<forall>c \<in> set cs. wf_coin c"
  shows "journalLoop (pre @ concat (map stxo_bytes cs)) spare (length cs) (length pre) acc = Ok (rev cs @ acc)"
  using assms
proof (induction cs arbitrary: pre acc)
  case (Cons c cs)
  then have "decodeSpentTxOut (stxo_bytes c @ concat (map stxo_bytes cs)) spare = Ok (c, length (stxo_bytes c))"
    by (simp add: decodeSpentTxOut_bytes)
  then show ?case
    using Cons.IH[of "pre @ stxo_bytes c" "c # acc"] Cons.prems by (simp add: from_offset_def slice_res_def)
qed simp

lemma journal_read_back:
  assumes "\<forall>c \<in> set cs. wf_coin c" "length cs = sum_list (map (\<lambda>tx. length (txIns tx)) txns)"
  shows "deserializeSpendJournalEntry (journal_bytes cs) spare txns = Ok cs"
proof (cases "cs = []")
  case False
  then have "journal_bytes cs \<noteq> []" using length_stxo_bytes(2) by (cases cs rule: rev_cases) (simp_all add: journal_bytes_def)
  then show ?thesis
    using journalLoop_run[of "rev cs" "[]" spare "[]", folded journal_bytes_def] assms
    by (simp add: deserializeSpendJournalEntry_def Let_def)
qed (use assms(2) in \<open>simp add: deserializeSpendJournalEntry_def journal_bytes_def\<close>)

subsection \<open>The interface of a bucket\<close>

locale key_value =
  fixes get :: "'b \<Rightarrow> 'k \<Rightarrow> 'v option" and put :: "'k \<Rightarrow> 'v \<Rightarrow> 'b \<Rightarrow> 'b" and del :: "'k \<Rightarrow> 'b \<Rightarrow> 'b"
  assumes get_put: "get (put k v b) k' = (if k' = k then Some v else get b k')"
    and get_del: "get (del k b) k' = (if k' = k then None else get b k')"
begin

lemma get_updates:
  "get (foldl (\<lambda>b (k, v). case v of None \<Rightarrow> del k b | Some x \<Rightarrow> put k x b) b us) k' =
    (case map_of (rev us) k' of None \<Rightarrow> get b k' | Some v \<Rightarrow> v)"
proof (induction us arbitrary: b)
  case (Cons u us)
  show ?case
    using Cons.IH[of "case u of (k, v) \<Rightarrow> case v of None \<Rightarrow> del k b | Some x \<Rightarrow> put k x b"]
    by (cases u) (auto simp: get_put get_del map_add_def split: option.splits)
qed simp

end

interpretation buckets: key_value bucket_Get bucket_Put bucket_Delete
  by unfold_locales (simp_all add: bucket_Get_def bucket_Put_def bucket_Delete_def update_conv' delete_conv')

subsection \<open>Unspent outputs\<close>

definition outpoint_key :: "OutPoint \<Rightarrow> byte list" where
  "outpoint_key op = Hash op @ vlq_bytes (ucast (Index op))"

definition entry_bytes :: "UtxoEntry \<Rightarrow> byte list" where
  "entry_bytes e = vlq_bytes (header_code (ue_blockHeight e) (UtxoEntry_IsCoinBase e)) @ txout_bytes (ue_amount e) (ue_pkScript e)"

text \<open>What is read back: the flags of the view are not stored.\<close>

definition stored_entry :: "UtxoEntry \<Rightarrow> UtxoEntry" where
  "stored_entry e = e\<lparr>ue_packedFlags := (if UtxoEntry_IsCoinBase e then tfCoinBase else 0)\<rparr>"

lemma stored_entry_coin: "coin_of (stored_entry e) = coin_of e" "\<not> IsSpent (stored_entry e)"
  by (auto simp: stored_entry_def coin_of_def flag_bits)

lemma serializeUtxoEntry_run: "\<not> IsSpent e \<Longrightarrow> serializeUtxoEntry e = Ok (Some (entry_bytes e))"
proof -
  assume e: "\<not> IsSpent e"
  let ?code = "header_code (ue_blockHeight e) (UtxoEntry_IsCoinBase e)"
  have "writes (\<lambda>t. bind_res (putVLQ t ?code) (\<lambda>(t, offset). put_at offset (\<lambda>t. putCompressedTxOut t (ue_amount e) (ue_pkScript e)) t))
      (entry_bytes e)"
    unfolding entry_bytes_def by (rule writes_then[OF writes_VLQ writes_TxOut])
  then have "bind_res (putVLQ (replicate (length (entry_bytes e)) 0) ?code)
      (\<lambda>(t, offset). put_at offset (\<lambda>t. putCompressedTxOut t (ue_amount e) (ue_pkScript e)) t) = Ok (entry_bytes e, length (entry_bytes e))"
    by (simp add: writes_def)
  then have "bind_res (putVLQ (replicate (length (entry_bytes e)) 0) ?code)
      (\<lambda>(t, offset). bind_res (put_at offset (\<lambda>t. putCompressedTxOut t (ue_amount e) (ue_pkScript e)) t) (\<lambda>(s, _). Ok (Some s))) =
      Ok (Some (entry_bytes e))"
    by (cases "putVLQ (replicate (length (entry_bytes e)) 0) ?code") auto
  then show ?thesis
    using e by (simp add: serializeUtxoEntry_def header_codes(2) Let_def no_error_def entry_bytes_def)
qed

lemma entry_bytes_nonempty: "entry_bytes e \<noteq> []"
  using serializeSizeVLQ_pos by (simp add: entry_bytes_def flip: length_0_conv)

lemma deserializeUtxoEntry_bytes:
  assumes "wf_coin (coin_of e)"
  shows "deserializeUtxoEntry (entry_bytes e) spare = Ok (stored_entry e)"
proof -
  note wf = assms[unfolded wf_coin_def coin_of_def, simplified]
  let ?code = "header_code (ue_blockHeight e) (UtxoEntry_IsCoinBase e)" and ?txout = "txout_bytes (ue_amount e) (ue_pkScript e)"
  have "decodeCompressedTxOut ?txout spare = Ok (ue_amount e, ue_pkScript e, length ?txout)"
    using wf decodeCompressedTxOut_bytes[of "ue_amount e" "ue_pkScript e" "[]"] by simp
  moreover have "0 < length ?txout" using serializeSizeVLQ_pos by (simp add: compressedTxOutSize_def)
  moreover have "deserializeVLQ (entry_bytes e) = (?code, serializeSizeVLQ ?code)"
    unfolding entry_bytes_def by (rule deserializeVLQ_bytes)
  moreover note header_code_parts[of "ue_blockHeight e" "UtxoEntry_IsCoinBase e", unfolded One_nat_def]
  ultimately show ?thesis
    using wf by (simp add: deserializeUtxoEntry_def Let_def deserialize_res_def entry_bytes_def stored_entry_def)
qed

lemma VLQ_size_mono: "n \<le> m \<Longrightarrow> serializeSizeVLQ n \<le> serializeSizeVLQ m"
proof (induction n arbitrary: m rule: serializeSizeVLQ.induct)
  case (1 n)
  show ?case
  proof (cases "n > 0x7f")
    case True
    then have m: "m > 0x7f" using 1(2) by simp
    have "drop_bit 7 n - 1 \<le> drop_bit 7 m - 1"
      using 1(2) vlq_step_less(2)[of n] vlq_step_less(2)[of m] True m
      by (simp add: word_le_nat_alt word_less_nat_alt not_le div_le_mono diff_le_mono)
    then show ?thesis using 1(1)[OF True] True m by (subst (1 2) serializeSizeVLQ.simps) simp
  next
    case False
    then have "serializeSizeVLQ n = 1" by (subst serializeSizeVLQ.simps) simp
    then show ?thesis using serializeSizeVLQ_pos[of m] by simp
  qed
qed

lemma outpointKey_run:
  assumes "length (Hash op) = HashSize"
  shows "no_error (outpointKey keyBuffer op) = Ok (outpoint_key op)"
proof -
  let ?idx = "ucast (Index op) :: uint64"
  have "?idx \<le> 0xffffffff" using uint_lt2p[of "Index op"] by (simp add: word_le_def uint_ucast_up)
  then have l: "serializeSizeVLQ ?idx \<le> maxUint32VLQSerializeSize"
    unfolding maxUint32VLQSerializeSize_def by (rule VLQ_size_mono)
  have "put_at HashSize (\<lambda>t. putVLQ t ?idx) (Hash op @ replicate (serializeSizeVLQ ?idx) 0) =
      Ok (Hash op @ vlq_bytes ?idx, HashSize + serializeSizeVLQ ?idx)"
    using writes_put_at[OF writes_VLQ[of ?idx], of "replicate (serializeSizeVLQ ?idx) 0" "Hash op"] assms by simp
  then show ?thesis
    using assms l by (simp add: outpointKey_def keyBuffer_def Let_def slice_res_def copySlice_def no_error_def outpoint_key_def
        del: replicate_add)
qed

lemma outpoint_key_inj:
  assumes "length (Hash op) = HashSize" "length (Hash op') = HashSize" "outpoint_key op = outpoint_key op'"
  shows "op = op'"
proof -
  have e: "Hash op = Hash op'" "vlq_bytes (ucast (Index op)) = vlq_bytes (ucast (Index op') :: uint64)"
    using assms by (simp_all add: outpoint_key_def)
  have "(ucast (Index op) :: uint64) = ucast (Index op')"
    using deserializeVLQ_bytes[of "ucast (Index op)" "[]"] deserializeVLQ_bytes[of "ucast (Index op')" "[]"] e(2) by simp
  then have "uint (Index op) = uint (Index op')" by (metis uint_ucast_up(3))
  then have "Index op = Index op'" by (rule word_uint_eqI)
  then show ?thesis using e(1) by simp
qed

text \<open>The updates of the bucket that a view amounts to.\<close>

definition utxo_updates :: "UtxoViewpoint \<Rightarrow> OutPoint list \<Rightarrow> (byte list \<times> byte list option) list" where
  "utxo_updates view ops = concat (map (\<lambda>op.
     case LookupEntry view op of
       None \<Rightarrow> []
     | Some e \<Rightarrow> if isModified e then [(outpoint_key op, if IsSpent e then None else Some (entry_bytes e))] else []) ops)"

lemma putUtxos_run:
  assumes "\<forall>op \<in> set ops. length (Hash op) = HashSize"
  shows "putUtxos view ops db = (Ok (), db\<lparr>utxoSetBucket :=
    foldl (\<lambda>b (k, v). case v of None \<Rightarrow> bucket_Delete k b | Some x \<Rightarrow> bucket_Put k x b) (utxoSetBucket db) (utxo_updates view ops)\<rparr>)"
  using assms
proof (induction ops arbitrary: db)
  case (Cons op ops)
  then have "no_error (outpointKey keyBuffer op) = Ok (outpoint_key op)" by (simp add: outpointKey_run)
  then show ?case
    using Cons.IH Cons.prems by (auto simp: utxo_updates_def op_simps serializeUtxoEntry_run split: option.split)
qed (simp add: utxo_updates_def op_simps)

lemma updates_found:
  assumes "distinct ops" "\<forall>op \<in> set ops. length (Hash op) = HashSize" "length (Hash op) = HashSize"
  shows "map_of (rev (utxo_updates view ops)) (outpoint_key op) =
    (if op \<in> set ops then
       (case LookupEntry view op of
          None \<Rightarrow> None | Some e \<Rightarrow> if isModified e then Some (if IsSpent e then None else Some (entry_bytes e)) else None)
     else None)"
  using assms
proof (induction ops)
  case (Cons o1 ops)
  have k: "outpoint_key o1 = outpoint_key op \<longleftrightarrow> o1 = op"
    using outpoint_key_inj[of o1 op] Cons.prems by auto
  show ?case
    using Cons.IH Cons.prems k by (auto simp: utxo_updates_def map_add_def split: option.splits)
qed (simp add: utxo_updates_def)

lemma put_view_fetch:
  assumes "dbPutUtxoView visit view db = (Ok (), db')" "distinct (visit view)"
    "\<forall>op \<in> set (visit view). length (Hash op) = HashSize \<and>
       (\<forall>e. LookupEntry view op = Some e \<longrightarrow> isModified e \<longrightarrow> \<not> IsSpent e \<longrightarrow> wf_coin (coin_of e))"
    "length (Hash op) = HashSize"
  shows "dbFetchUtxoEntry spare db' op =
    (if op \<in> set (visit view) then
       (case LookupEntry view op of
          None \<Rightarrow> dbFetchUtxoEntry spare db op
        | Some e \<Rightarrow> if isModified e then Ok (if IsSpent e then None else Some (stored_entry e)) else dbFetchUtxoEntry spare db op)
     else dbFetchUtxoEntry spare db op)"
proof -
  have l: "\<forall>op \<in> set (visit view). length (Hash op) = HashSize" using assms(3) by blast
  have db': "db' = db\<lparr>utxoSetBucket := foldl (\<lambda>b (k, v). case v of None \<Rightarrow> bucket_Delete k b | Some x \<Rightarrow> bucket_Put k x b)
      (utxoSetBucket db) (utxo_updates view (visit view))\<rparr>"
    using assms(1) putUtxos_run[OF l, of view db] by (simp add: dbPutUtxoView_def)
  have g: "bucket_Get (utxoSetBucket db') (outpoint_key op) =
      (case map_of (rev (utxo_updates view (visit view))) (outpoint_key op) of
         None \<Rightarrow> bucket_Get (utxoSetBucket db) (outpoint_key op) | Some v \<Rightarrow> v)"
    by (simp add: db' buckets.get_updates)
  show ?thesis
    using assms(3,4) entry_bytes_nonempty
    by (auto simp: dbFetchUtxoEntry_def outpointKey_run g updates_found[OF assms(2) l assms(4)] deserializeUtxoEntry_bytes
        corruption_def split: option.split)
qed

subsection \<open>Best state, index and blocks\<close>

lemma best_state_read_back:
  assumes "length (bcs_hash s) = HashSize" "0 < bcs_workSum s" "length (int_be (bcs_workSum s)) < 2 ^ 32 - 48"
  shows "deserializeBestChainState (serializeBestChainState s) = Ok s"
proof -
  let ?w = "int_be (bcs_workSum s)" and ?n = "length (int_be (bcs_workSum s))" and ?d = "serializeBestChainState s"
  have d: "?d = bcs_hash s @ PutUint32 (bcs_height s) @ PutUint64 (totalTxns s) @ PutUint32 (word_of_nat ?n) @ ?w"
    using assms(2) by (simp add: serializeBestChainState_def Let_def)
  have l: "length (bcs_hash s) = 32" using assms(1) by (simp add: HashSize_def)
  have "length (PutUint32 x) = 4" "length (PutUint64 y) = 8" for x y by (simp_all add: PutUint32_def PutUint64_def)
  note len = l this
  have s: "slice ?d 32 36 = PutUint32 (bcs_height s)" "slice ?d 36 44 = PutUint64 (totalTxns s)"
      "slice ?d 44 48 = PutUint32 (word_of_nat ?n)" "drop 48 ?d = ?w" "take 32 ?d = bcs_hash s" "length ?d = 48 + ?n"
    unfolding d by (simp_all add: slice_def len)
  have v: "le_val (PutUint32 x) = uint x" "le_val (PutUint64 y) = uint y" for x y
    using uint_lt2p[of x] uint_lt2p[of y] by (simp_all add: PutUint32_def PutUint64_def le_val_le_enc)
  have n: "unat (word_of_nat ?n :: 32 word) = ?n" using assms(3) by (simp add: unat_of_nat)
  show ?thesis
    using assms(3) by (simp add: deserializeBestChainState_def Let_def s v n HashSize_def slice_res_def be_int_int_be[OF assms(2)])
qed

lemma block_row_read_back:
  assumes "wf_BlockHeader header"
  shows "deserializeBlockRow (writeBlockHeader header @ [status]) = Ok (header, status)"
  using header.decode_encode[OF assms, of "[status]"] by (simp add: deserializeBlockRow_def)

lemma blockIndexKey_inj: "blockIndexKey hash h = blockIndexKey hash' h' \<longleftrightarrow> hash = hash' \<and> h = h'"
proof -
  have "PutUint32 h = PutUint32 h' \<Longrightarrow> h = h'"
    using inj_onD[OF u32.encode_inj, of h h'] by (simp add: PutUint32_def)
  moreover have "length (PutUint32 x) = 4" for x by (simp add: PutUint32_def)
  ultimately show ?thesis by (auto simp: blockIndexKey_def)
qed

lemma block_read_back:
  assumes "wf_block wf_full_tx (msgBlock block)" "blockHash block = node_hash (node_at st node)"
    "map_of (storedBlocks db) (blockHash block) = None" "dbStoreBlock block db = (Ok (), db')"
  shows "dbFetchBlockByNode st db' node = Ok (block\<lparr>block_Height := height st node\<rparr>)"
proof -
  have "fst (MsgBlock_Deserialize (MsgBlock_Serialize (msgBlock block))) = Ok (msgBlock block)"
    using full_block.decode_encode[OF assms(1), of "[]"] by (simp add: MsgBlock_Deserialize_def MsgBlock_Serialize_def)
  then show ?thesis using assms(2-4) by (auto simp: dbStoreBlock_def op_simps dbFetchBlockByNode_def)
qed

lemma heights_read_back:
  assumes "dbPutBlockIndex hash h db = (Ok (), db')" "0 \<le> h" "h < 2 ^ 31" "length hash = HashSize"
  shows "dbFetchHeightByHash db' hash = Ok h" "dbFetchHashByHeight db' h = Ok hash"
proof -
  have "uint (word_of_int h :: 32 word) = h" using assms(2,3) by (simp add: uint_word_of_int)
  then have "i32 (le_val (take 4 (PutUint32 (word_of_int h)))) = h" "length (PutUint32 (word_of_int h)) = 4"
    using assms(2,3) by (simp_all add: PutUint32_def le_val_le_enc i32_id)
  then show "dbFetchHeightByHash db' hash = Ok h" "dbFetchHashByHeight db' h = Ok hash"
    using assms(1,4) by (auto simp: dbPutBlockIndex_def Let_def op_simps dbFetchHeightByHash_def dbFetchHashByHeight_def
        buckets.get_put slice_res_def)
qed

subsection \<open>Properties\<close>

lemma dbPutSpendJournalEntry_run:
  "dbPutSpendJournalEntry hash stxos db =
     (Ok (), db\<lparr>spendJournalBucket := bucket_Put hash (journal_bytes stxos) (spendJournalBucket db)\<rparr>)"
  by (simp add: dbPutSpendJournalEntry_def serializeSpendJournalEntry_run no_error_def op_simps)

lemma journal_found:
  assumes "bucket_Get (spendJournalBucket db) (blockHash block) = Some (journal_bytes stxos)" "\<forall>c \<in> set stxos. wf_coin c"
    "length stxos = sum_list (map (\<lambda>tx. length (txIns tx)) (tl (block_Transactions block)))" "block_Transactions block \<noteq> []"
  shows "dbFetchSpendJournalEntry spare db block = Ok stxos"
  using assms by (simp add: dbFetchSpendJournalEntry_def journal_read_back corruption_def)

text \<open>
  Claim C16.  The spend journal of a block can always be written, takes the announced number of bytes, does not touch the
  journals of other blocks, and reads back as the spent outputs that went into it.
\<close>

theorem spend_journal_roundtrip:
  assumes "\<forall>c \<in> set stxos. wf_coin c" "block_Transactions block \<noteq> []"
    "length stxos = sum_list (map (\<lambda>tx. length (txIns tx)) (tl (block_Transactions block)))"
  shows "\<exists>db' bytes. dbPutSpendJournalEntry (blockHash block) stxos db = (Ok (), db') \<and>
    dbFetchSpendJournalEntry spare db' block = Ok stxos \<and>
    bucket_Get (spendJournalBucket db') (blockHash block) = Some bytes \<and>
    length bytes = sum_list (map spentTxOutSerializeSize stxos) \<and>
    (\<forall>hash. hash \<noteq> blockHash block \<longrightarrow> bucket_Get (spendJournalBucket db') hash = bucket_Get (spendJournalBucket db) hash)"
proof -
  let ?db = "db\<lparr>spendJournalBucket := bucket_Put (blockHash block) (journal_bytes stxos) (spendJournalBucket db)\<rparr>"
  have g: "bucket_Get (spendJournalBucket ?db) (blockHash block) = Some (journal_bytes stxos)" by (simp add: buckets.get_put)
  moreover have "dbFetchSpendJournalEntry spare ?db block = Ok stxos" using g assms by (intro journal_found) simp_all
  moreover have "length (journal_bytes stxos) = sum_list (map spentTxOutSerializeSize stxos)"
    by (simp add: journal_bytes_def length_concat comp_def length_stxo_bytes sum_list_rev flip: rev_map)
  ultimately show ?thesis by (intro exI[of _ ?db]) (simp add: dbPutSpendJournalEntry_run buckets.get_put)
qed

definition empty_db :: chain_db where
  "empty_db = \<lparr>utxoSetBucket = [], spendJournalBucket = [], hashIndexBucket = [], heightIndexBucket = [], blockIndexBucket = [],
     chainStateKey = None, storedBlocks = []\<rparr>"

theorem spend_journal_roundtrip_witness:
  "\<exists>db'. dbPutSpendJournalEntry (blockHash demo_block)
      [\<lparr>stxo_Amount = 5, stxo_PkScript = [], stxo_Height = 3, stxo_IsCoinBase = False\<rparr>] empty_db = (Ok (), db') \<and>
    dbFetchSpendJournalEntry [] db' demo_block =
      Ok [\<lparr>stxo_Amount = 5, stxo_PkScript = [], stxo_Height = 3, stxo_IsCoinBase = False\<rparr>]"
proof -
  let ?c = "\<lparr>stxo_Amount = 5, stxo_PkScript = [], stxo_Height = 3, stxo_IsCoinBase = False\<rparr>"
  have "\<forall>c \<in> set [?c]. wf_coin c" by (simp add: wf_coin_def recoverable_def)
  moreover have "block_Transactions demo_block = [demo_coinbase, demo_spend]" by (simp add: demo_block_def block_Transactions_def)
  then have "block_Transactions demo_block \<noteq> []"
    "length [?c] = sum_list (map (\<lambda>tx. length (txIns tx)) (tl (block_Transactions demo_block)))" by (simp_all add: demo_spend_def)
  ultimately show ?thesis using spend_journal_roundtrip[of "[?c]" demo_block empty_db "[]"] by blast
qed

text \<open>The unspent outputs a database holds, as coins.  The hash of an outpoint is an array of 32 bytes.\<close>

definition stored_coins :: "byte list \<Rightarrow> chain_db \<Rightarrow> coin_set" where
  "stored_coins spare db op =
     (if length (Hash op) = HashSize then
        (case dbFetchUtxoEntry spare db op of Ok (Some e) \<Rightarrow> if IsSpent e then None else Some (coin_of e) | _ \<Rightarrow> None)
      else None)"

text \<open>
  A view of a database: every entry is visited once, and an entry that was not modified is what the database holds.
\<close>

definition view_of_db :: "coin_set \<Rightarrow> UtxoViewpoint \<Rightarrow> bool" where
  "view_of_db C view \<longleftrightarrow> (\<forall>op e. LookupEntry view op = Some e \<longrightarrow> \<not> isModified e \<longrightarrow> coins view op = C op)"

definition visits_view :: "(UtxoViewpoint \<Rightarrow> OutPoint list) \<Rightarrow> UtxoViewpoint \<Rightarrow> bool" where
  "visits_view visit view \<longleftrightarrow> distinct (visit view) \<and>
     (\<forall>op e. LookupEntry view op = Some e \<longrightarrow> op \<in> set (visit view)) \<and>
     (\<forall>op \<in> set (visit view). length (Hash op) = HashSize)"

lemma dbPutUtxoView_ok: "visits_view visit view \<Longrightarrow> \<exists>db'. dbPutUtxoView visit view db = (Ok (), db')"
  using putUtxos_run[of "visit view" view db] by (auto simp: visits_view_def dbPutUtxoView_def)

lemma put_view_coins:
  assumes "dbPutUtxoView visit view db = (Ok (), db')" "visits_view visit view" "view_of_db (stored_coins spare db) view"
    "\<forall>op c. coins view op = Some c \<longrightarrow> wf_coin c"
  shows "stored_coins spare db' op = (case LookupEntry view op of None \<Rightarrow> stored_coins spare db op | Some _ \<Rightarrow> coins view op)"
proof -
  have "\<forall>op \<in> set (visit view). length (Hash op) = HashSize \<and>
     (\<forall>e. LookupEntry view op = Some e \<longrightarrow> isModified e \<longrightarrow> \<not> IsSpent e \<longrightarrow> wf_coin (coin_of e))"
    using assms(2,4) by (auto simp: visits_view_def coins_Some)
  moreover have "distinct (visit view)" using assms(2) by (simp add: visits_view_def)
  ultimately have f: "length (Hash op) = HashSize \<Longrightarrow> dbFetchUtxoEntry spare db' op =
    (if op \<in> set (visit view) then
       (case LookupEntry view op of
          None \<Rightarrow> dbFetchUtxoEntry spare db op
        | Some e \<Rightarrow> if isModified e then Ok (if IsSpent e then None else Some (stored_entry e)) else dbFetchUtxoEntry spare db op)
     else dbFetchUtxoEntry spare db op)"
    using put_view_fetch[OF assms(1), of op spare] by blast
  show ?thesis
  proof (cases "LookupEntry view op")
    case (Some e)
    then have "op \<in> set (visit view)" "length (Hash op) = HashSize" using assms(2) by (auto simp: visits_view_def)
    moreover have "\<not> isModified e \<Longrightarrow> coins view op = stored_coins spare db op" using assms(3) Some by (simp add: view_of_db_def)
    ultimately show ?thesis
      using Some f by (cases "isModified e") (simp_all add: stored_coins_def coins_def stored_entry_coin)
  qed (simp add: f stored_coins_def)
qed



end
