(* ===== verification/ScriptVal.thy ===== *)
theory ScriptVal
  imports Utxo EngineSpec "HOL-Library.Multiset"
begin

text \<open>
  Script validation of a block (\<^verbatim>\<open>pkg/chain/scriptval.go\<close>).

  \<open>Validate\<close> distributes the inputs over goroutines and collects their results over unbuffered channels.  Here
  it is a step relation on the state of the whole pool: the main loop hands an input to an idle worker, a worker
  finishes an input (the run of the script engine, with the signature cache all workers share), the main loop takes a
  finished result.  A run of the scripts of one input is one step; the engine takes the cache's lock only for single
  lookups and additions, so finer interleavings exist, which the relation does not show.

  \<open>validateSeq\<close> is the schedule that runs the inputs one after the other, and is what the block checks of later
  theories evaluate; it is one of the runs of the relation.
\<close>

unbundle bit_operations_syntax

subsection \<open>Items\<close>

record txValidateItem =
  vi_txInIndex :: nat
  vi_tx :: MsgTx
  vi_sigHashes :: "TxSigHashes option"

text \<open>What a worker does with one item: the result it sends, and the signature cache afterwards.\<close>

definition validateItem ::
  "env \<Rightarrow> UtxoViewpoint \<Rightarrow> ScriptFlags \<Rightarrow> txValidateItem \<Rightarrow> (SigCache option, chain_error, unit) op" where
  "validateItem E utxoView flgs txVI cache =
     (let txIn = txIns (vi_tx txVI) ! vi_txInIndex txVI in
      case LookupEntry utxoView (PreviousOutPoint txIn) of
        None \<Rightarrow> (Err (ruleError ErrMissingTxOut), cache)
      | Some utxo \<Rightarrow>
          (case NewEngine (ue_pkScript utxo) (vi_tx txVI) (int (vi_txInIndex txVI)) flgs cache (vi_sigHashes txVI) (ue_amount utxo) of
             Ok vm \<Rightarrow>
               (case Execute E vm of
                  Some (Ok _, vm') \<Rightarrow> (Ok (), sigCache vm')
                | Some (Err _, vm') \<Rightarrow> (Err (ruleError ErrScriptValidation), sigCache vm')
                | Some (Panic, vm') \<Rightarrow> (Panic, sigCache vm')
                | Some (Hang, vm') \<Rightarrow> (Hang, sigCache vm')
                | None \<Rightarrow> (Hang, cache))
           | Err _ \<Rightarrow> (Err (ruleError ErrScriptMalformed), cache)
           | Panic \<Rightarrow> (Panic, cache)
           | Hang \<Rightarrow> (Hang, cache)))"

text \<open>Inputs whose output index is the largest one are skipped.\<close>

definition txItems :: "MsgTx \<Rightarrow> TxSigHashes option \<Rightarrow> txValidateItem list" where
  "txItems tx cachedHashes =
     map (\<lambda>i. \<lparr>vi_txInIndex = i, vi_tx = tx, vi_sigHashes = cachedHashes\<rparr>)
       (filter (\<lambda>i. Index (PreviousOutPoint (txIns tx ! i)) \<noteq> 0xffffffff) [0..<length (txIns tx)])"

text \<open>The hashes of a transaction with witnesses are taken from the cache, if there is one, and are put there first.\<close>

definition blockItemsStep ::
  "bool \<Rightarrow> txValidateItem list \<times> HashCache option \<Rightarrow> MsgTx \<Rightarrow> txValidateItem list \<times> HashCache option" where
  "blockItemsStep segwitActive s tx =
     (case s of (vis, hashes) \<Rightarrow>
      let hash = TxHash tx;
          hashes = (if segwitActive \<and> HasWitness tx
            then map_option (\<lambda>h. if ContainsHashes hash h then h else AddSigHashes tx h) hashes else hashes);
          cachedHashes = (if segwitActive \<and> HasWitness tx
            then (case hashes of Some h \<Rightarrow> GetSigHashes hash h | None \<Rightarrow> Some (NewTxSigHashes tx)) else None)
      in (vis @ txItems tx cachedHashes, hashes))"

subsection \<open>The pool\<close>

text \<open>Indexes of items: those a worker works on, those whose result waits to be taken, those that have passed.\<close>

record 'c pool =
  currentItem :: nat
  idle :: nat
  busy :: "nat list"
  sending :: "(nat \<times> (chain_error, unit) res) list"
  passed :: "nat list"
  shared :: 'c
  outcome :: "(chain_error, unit) res option"

definition start :: "nat \<Rightarrow> 'c \<Rightarrow> 'c pool" where
  "start maxGoRoutines c =
     \<lparr>currentItem = 0, idle = maxGoRoutines, busy = [], sending = [], passed = [], shared = c, outcome = None\<rparr>"

inductive pool_step :: "(nat \<Rightarrow> ('c, chain_error, unit) op) \<Rightarrow> nat \<Rightarrow> 'c pool \<Rightarrow> 'c pool \<Rightarrow> bool" for check n where
  hand: "outcome s = None \<Longrightarrow> currentItem s < n \<Longrightarrow> idle s = Suc k \<Longrightarrow>
    pool_step check n s (s\<lparr>currentItem := currentItem s + 1, idle := k, busy := currentItem s # busy s\<rparr>)"
| work: "outcome s = None \<Longrightarrow> i \<in> set (busy s) \<Longrightarrow> check i (shared s) = (r, c) \<Longrightarrow> returns r \<Longrightarrow>
    pool_step check n s (s\<lparr>busy := remove1 i (busy s), sending := (i, r) # sending s, shared := c\<rparr>)"
| take_ok: "outcome s = None \<Longrightarrow> (i, Ok ()) \<in> set (sending s) \<Longrightarrow>
    pool_step check n s (s\<lparr>sending := remove1 (i, Ok ()) (sending s), passed := i # passed s, idle := idle s + 1\<rparr>)"
| take_err: "outcome s = None \<Longrightarrow> (i, Err e) \<in> set (sending s) \<Longrightarrow>
    pool_step check n s (s\<lparr>sending := remove1 (i, Err e) (sending s), outcome := Some (Err e)\<rparr>)"
| finish: "outcome s = None \<Longrightarrow> length (passed s) = n \<Longrightarrow> pool_step check n s (s\<lparr>outcome := Some (Ok ())\<rparr>)"

inductive_cases pool_stepE: "pool_step check n s t"

primrec validateSeq :: "('i \<Rightarrow> ('c, chain_error, unit) op) \<Rightarrow> 'i list \<Rightarrow> ('c, chain_error, unit) op" where
  "validateSeq check [] = ret ()"
| "validateSeq check (i # vis) = bnd (check i) (\<lambda>_. validateSeq check vis)"

text \<open>The check of a block, in the sequential schedule; the state is both caches.\<close>

definition checkBlockScripts ::
  "env \<Rightarrow> Block \<Rightarrow> UtxoViewpoint \<Rightarrow> ScriptFlags \<Rightarrow> (SigCache option \<times> HashCache option, chain_error, unit) op" where
  "checkBlockScripts E block utxoView scriptFlags = (\<lambda>(cache, hashes).
     let segwitActive = (scriptFlags AND ScriptVerifyWitness = ScriptVerifyWitness);
         (txValItems, hashes) = foldl (blockItemsStep segwitActive) ([], hashes) (block_Transactions block)
     in case validateSeq (validateItem E utxoView scriptFlags) txValItems cache of
          (Ok _, cache) \<Rightarrow>
            (Ok (), (cache,
              if segwitActive
              then map_option (\<lambda>h. foldl (\<lambda>h tx. if HasWitness tx then PurgeSigHashes (TxHash tx) h else h) h (block_Transactions block)) hashes
              else hashes))
        | (r, cache) \<Rightarrow> (r, (cache, hashes)))"

subsection \<open>Runs of the pool\<close>

text \<open>The caches that runs of the items can leave.\<close>

inductive left_by :: "(nat \<Rightarrow> ('c, chain_error, unit) op) \<Rightarrow> nat \<Rightarrow> 'c \<Rightarrow> 'c \<Rightarrow> bool" for check n c0 where
  left_start: "left_by check n c0 c0"
| left_step: "left_by check n c0 c \<Longrightarrow> i < n \<Longrightarrow> left_by check n c0 (snd (check i c))"

definition verdict :: "(nat \<Rightarrow> ('c, chain_error, unit) op) \<Rightarrow> nat \<Rightarrow> 'c \<Rightarrow> nat \<Rightarrow> (chain_error, unit) res \<Rightarrow> bool" where
  "verdict check n c0 i r \<longleftrightarrow> i < n \<and> (\<exists>c. left_by check n c0 c \<and> fst (check i c) = r)"

definition pool_inv :: "(nat \<Rightarrow> ('c, chain_error, unit) op) \<Rightarrow> nat \<Rightarrow> 'c \<Rightarrow> nat \<Rightarrow> 'c pool \<Rightarrow> bool" where
  "pool_inv check n c0 workers s \<longleftrightarrow>
     left_by check n c0 (shared s) \<and> currentItem s \<le> n \<and>
     mset (busy s) + mset (map fst (sending s)) + mset (passed s) = mset [0..<currentItem s] \<and>
     (\<forall>(i, r) \<in> set (sending s). verdict check n c0 i r \<and> returns r) \<and> (\<forall>i \<in> set (passed s). verdict check n c0 i (Ok ())) \<and>
     idle s + length (busy s) + length (sending s) = workers"

lemma remove1_facts:
  assumes "x \<in> set xs"
  shows "mset xs = add_mset x (mset (remove1 x xs))" "length xs = Suc (length (remove1 x xs))"
    "set (remove1 x xs) \<subseteq> set xs"
  using assms by (simp_all add: length_remove1 length_pos_if_in_set set_remove1_subset Suc_pred[OF length_pos_if_in_set])

lemma pool_inv_start: "pool_inv check n c workers (start workers c)"
  by (simp add: pool_inv_def start_def left_start)

lemma pool_inv_step:
  assumes "pool_step check n s t" "pool_inv check n c0 workers s"
    "outcome s = None \<and> outcome t = None"
  shows "pool_inv check n c0 workers t"
  using assms(1)
proof cases
  case (hand k)
  then show ?thesis using assms(2) by (auto simp: pool_inv_def)
next
  case (work i r c)
  define b where "b = remove1 i (busy s)"
  note f = remove1_facts[OF work(3), folded b_def]
  have "i \<in># mset [0..<currentItem s]" using assms(2) work(3) unfolding pool_inv_def by (metis in_multiset_in_set union_iff)
  then have i: "i < n" using assms(2) by (auto simp: pool_inv_def)
  have c: "left_by check n c0 c" and v: "verdict check n c0 i r"
    using left_step[of check n c0 "shared s" i] i assms(2) work(4) by (auto simp: pool_inv_def verdict_def)
  show ?thesis
    using assms(2) f c v work(5) unfolding work(1) pool_inv_def b_def[symmetric] by simp
next
  case (take_ok i)
  define b where "b = remove1 (i, Ok () :: (chain_error, unit) res) (sending s)"
  note f = remove1_facts[OF take_ok(3), folded b_def]
  have "mset (map fst (sending s)) = add_mset i (mset (map fst b))" using f(1) by simp
  then show ?thesis
    using assms(2) f take_ok(3) unfolding take_ok(1) pool_inv_def b_def[symmetric] by auto
next
  case (take_err i e)
  then show ?thesis using assms(3) by simp
next
  case finish
  then show ?thesis using assms(3) by simp
qed

lemma pool_run_inv:
  "(pool_step check n)\<^sup>*\<^sup>* (start workers c0) s \<Longrightarrow> outcome s = None \<Longrightarrow> pool_inv check n c0 workers s"
proof (induction rule: rtranclp_induct)
  case base
  show ?case by (rule pool_inv_start)
next
  case (step s t)
  have "outcome s = None" using step(2) by cases auto
  then show ?case using pool_inv_step step by metis
qed

lemma pool_all_passed:
  assumes "pool_inv check n c0 workers s" "length (passed s) = n"
  shows "set (passed s) = {0..<n}"
proof -
  let ?b = "mset (busy s) + mset (map fst (sending s))"
  have m: "?b + mset (passed s) = mset [0..<currentItem s]" "currentItem s \<le> n"
    using assms(1) by (simp_all add: pool_inv_def)
  have "size ?b + length (passed s) = currentItem s" using arg_cong[OF m(1), of size] by simp
  then have "size ?b = 0" "currentItem s = n" using m(2) assms(2) by linarith+
  then have "mset (passed s) = mset [0..<n]" using m(1) by (simp add: size_eq_0_iff_empty)
  then show ?thesis by (metis set_mset_mset set_upt)
qed

lemma pool_outcome:
  assumes "(pool_step check n)\<^sup>*\<^sup>* (start workers c0) s" "outcome s = Some r"
  shows "(r = Ok () \<and> (\<forall>i < n. verdict check n c0 i (Ok ()))) \<or> (\<exists>i e. r = Err e \<and> verdict check n c0 i (Err e))"
  using assms(1)
proof cases
  case rtrancl_refl
  then show ?thesis using assms(2) by (simp add: start_def)
next
  case (rtrancl_into_rtrancl t)
  have "outcome t = None" using rtrancl_into_rtrancl(2) by cases auto
  note inv = pool_run_inv[OF rtrancl_into_rtrancl(1) this]
  from rtrancl_into_rtrancl(2) show ?thesis
  proof cases
    case (take_err i e)
    then show ?thesis using inv assms(2) by (auto simp: pool_inv_def)
  next
    case finish
    then have "set (passed t) = {0..<n}" using pool_all_passed[OF inv] by simp
    then show ?thesis using inv finish assms(2) by (auto simp: pool_inv_def)
  qed (use assms(2) in auto)
qed

lemma pool_progress:
  assumes "pool_inv check n c0 workers s" "outcome s = None" "1 \<le> workers"
    "\<And>i. i < n \<Longrightarrow> returns (fst (check i (shared s)))"
  shows "\<exists>t. pool_step check n s t"
proof (cases "busy s")
  case (Cons i b)
  have "i \<in># mset [0..<currentItem s]"
    using assms(1) Cons unfolding pool_inv_def by (metis in_multiset_in_set list.set_intros(1) union_iff)
  then have "i < n" using assms(1) by (auto simp: pool_inv_def)
  then show ?thesis
    using pool_step.work[OF assms(2), of i check "fst (check i (shared s))" "snd (check i (shared s))" n] Cons assms(4)
    by auto
next
  case Nil
  show ?thesis
  proof (cases "sending s")
    case (Cons x xs)
    then obtain i r where "(i, r) \<in> set (sending s)" "returns r" using assms(1) by (cases x) (auto simp: pool_inv_def)
    then show ?thesis
    proof (cases r)
      case (Ok u)
      then show ?thesis using pool_step.take_ok[OF assms(2), of i check n] \<open>(i, r) \<in> _\<close> by auto
    next
      case (Err e)
      then show ?thesis using pool_step.take_err[OF assms(2), of i e check n] \<open>(i, r) \<in> _\<close> by blast
    qed (use \<open>returns r\<close> in \<open>simp_all add: returns_def\<close>)
  next
    case Nil2: Nil
    have m: "mset (passed s) = mset [0..<currentItem s]" "currentItem s \<le> n" "idle s = workers"
      using assms(1) Nil Nil2 by (simp_all add: pool_inv_def)
    show ?thesis
    proof (cases "currentItem s < n")
      case True
      then show ?thesis using pool_step.hand[OF assms(2) True, of "workers - 1" check] m(3) assms(3) by auto
    next
      case False
      have "length (passed s) = currentItem s" using m(1) by (metis length_upt minus_nat.diff_0 size_mset)
      then show ?thesis using pool_step.finish[OF assms(2), of n check] False m(2) by auto
    qed
  qed
qed

text \<open>Every step makes the rest shorter.\<close>

definition pool_rest :: "nat \<Rightarrow> 'c pool \<Rightarrow> nat" where
  "pool_rest n s = 3 * (n - currentItem s) + 2 * length (busy s) + length (sending s) + (if outcome s = None then 1 else 0)"

lemma pool_step_rest: "pool_step check n s t \<Longrightarrow> pool_rest n t < pool_rest n s"
proof (induction rule: pool_step.induct)
  case (work s i r c)
  then show ?case using remove1_facts(2)[OF work(2)] by (simp add: pool_rest_def)
next
  case (take_ok s i)
  then show ?case using remove1_facts(2)[OF take_ok(2)] by (simp add: pool_rest_def)
next
  case (take_err s i e)
  then show ?case using remove1_facts(2)[OF take_err(2)] by (simp add: pool_rest_def)
qed (simp_all add: pool_rest_def)

lemma pool_run_length: "(pool_step check n ^^ k) s t \<Longrightarrow> k + pool_rest n t \<le> pool_rest n s"
proof (induction k arbitrary: t)
  case (Suc k)
  then obtain u where "(pool_step check n ^^ k) s u" "pool_step check n u t" by auto
  then show ?case using Suc.IH[of u] pool_step_rest[of check n u t] by simp
qed simp

text \<open>The sequential schedule: each item is handed out, run and taken before the next one.\<close>

lemma seq_run:
  assumes "validateSeq check [m..<m + k] c = (r, c')" "returns r" "m + k = n"
    and "s = \<lparr>currentItem = m, idle = 1, busy = [], sending = [], passed = p, shared = c, outcome = None\<rparr>" "length p = m"
  shows "\<exists>t. (pool_step check n)\<^sup>*\<^sup>* s t \<and> outcome t = Some r \<and> shared t = c'"
  using assms
proof (induction k arbitrary: m c s p)
  case 0
  then have r: "r = Ok ()" "c' = c" by (simp_all add: ret_def)
  have "pool_step check n s (s\<lparr>outcome := Some (Ok ())\<rparr>)" using 0 by (intro pool_step.finish) simp_all
  then show ?case using r 0 by (intro exI[of _ "s\<lparr>outcome := Some (Ok ())\<rparr>"]) auto
next
  case (Suc k)
  have up: "[m..<m + Suc k] = m # [Suc m..<Suc m + k]" by (simp add: upt_conv_Cons)
  obtain r1 c1 where c1: "check m c = (r1, c1)" by (cases "check m c")
  define s1 where "s1 = s\<lparr>currentItem := m + 1, idle := 0, busy := [m]\<rparr>"
  define s2 where "s2 = s\<lparr>currentItem := m + 1, idle := 0, sending := [(m, r1)], shared := c1\<rparr>"
  have r1: "returns r1" using Suc.prems(1,2) c1 unfolding up by (cases r1) (auto simp: bnd_def returns_def)
  have "pool_step check n s s1"
    using pool_step.hand[of s n 0 check] Suc.prems(3,4) by (simp add: s1_def)
  moreover have "pool_step check n s1 s2"
    using pool_step.work[of s1 m check r1 c1 n] c1 r1 Suc.prems(4) by (simp add: s1_def s2_def)
  ultimately have run: "(pool_step check n)\<^sup>*\<^sup>* s s2" by simp
  show ?case
  proof (cases r1)
    case (Ok u)
    define s3 where "s3 = s2\<lparr>sending := [], passed := m # p, idle := 1\<rparr>"
    have s3: "pool_step check n s2 s3"
      using pool_step.take_ok[of s2 m check n] Ok Suc.prems(4) by (simp add: s2_def s3_def)
    obtain t where t: "(pool_step check n)\<^sup>*\<^sup>* s3 t" "outcome t = Some r" "shared t = c'"
      using Suc.IH[of "Suc m" c1 s3 "m # p"] Suc.prems Ok c1 unfolding up by (auto simp: bnd_def s3_def s2_def)
    have "(pool_step check n)\<^sup>*\<^sup>* s t" using rtranclp_trans[OF rtranclp.rtrancl_into_rtrancl[OF run s3] t(1)] .
    then show ?thesis using t(2,3) by blast
  next
    case (Err e)
    then have "r = Err e" "c' = c1" using Suc.prems(1) c1 unfolding up by (simp_all add: bnd_def)
    moreover have "pool_step check n s2 (s2\<lparr>sending := [], outcome := Some (Err e)\<rparr>)"
      using pool_step.take_err[of s2 m e check n] Err Suc.prems(4) by (simp add: s2_def)
    ultimately show ?thesis using run
      by (intro exI[of _ "s2\<lparr>sending := [], outcome := Some (Err e)\<rparr>"]) (auto simp: s2_def)
  qed (use r1 in \<open>simp_all add: returns_def\<close>)
qed

lemma validateSeq_index: "validateSeq (\<lambda>i. check (vis ! i)) [0..<length vis] c = validateSeq check vis c"
proof -
  have "validateSeq (\<lambda>i. check (vis ! i)) is c = validateSeq check (map ((!) vis) is) c" for "is" c
    by (induction "is" arbitrary: c) (simp_all add: bnd_def split: prod.split res.split)
  then show ?thesis by (simp add: map_nth)
qed

subsection \<open>The scripts come back\<close>

lemma parseScripts_returns: "returns (parseScripts [a, b])"
  using parsed_returns[of a] parsed_returns[of b]
  by (auto simp: parseScripts_def returns_def bind_res_def split: res.splits)

lemma ExtractWitnessProgramInfo_returns: "returns (ExtractWitnessProgramInfo p)"
  using parsed_returns[of p] by (cases "parsed p") (auto simp: ExtractWitnessProgramInfo_def returns_def)

lemma findWitnessProgram_returns: "returns (findWitnessProgram pops sigScript pkScript witness isBip16)"
  by (simp add: findWitnessProgram_def)

lemma NewEngine_returns: "returns (NewEngine pk tx idx flgs cache hashes amt)"
  unfolding NewEngine_def Let_def
  by (intro returns_intros parseScripts_returns findWitnessProgram_returns returns_Err)
    (auto intro!: returns_intros ExtractWitnessProgramInfo_returns findWitnessProgram_returns split: option.split)

definition small_witnesses :: "txValidateItem list \<Rightarrow> bool" where
  "small_witnesses vis \<longleftrightarrow> (\<forall>vi \<in> set vis. length (Witness (txIns (vi_tx vi) ! vi_txInIndex vi)) \<le> 2 ^ 30)"

lemma validateItem_returns:
  assumes "env_ok E" "length (Witness (txIns (vi_tx vi) ! vi_txInIndex vi)) \<le> 2 ^ 30"
  shows "returns (fst (validateItem E view flgs vi cache))"
proof (cases "LookupEntry view (PreviousOutPoint (txIns (vi_tx vi) ! vi_txInIndex vi))")
  case (Some utxo)
  let ?new = "NewEngine (ue_pkScript utxo) (vi_tx vi) (int (vi_txInIndex vi)) flgs cache (vi_sigHashes vi) (ue_amount utxo)"
  show ?thesis
  proof (cases ?new)
    case (Ok vm)
    have "running vm" using NewEngine_running[OF Ok] assms(2) by simp
    then obtain r vm' where "Execute E vm = Some (r, vm')" "returns r" using Execute_run[OF assms(1)] by blast
    then show ?thesis using Some Ok by (cases r) (auto simp: validateItem_def returns_def Let_def)
  qed (use Some NewEngine_returns[of "ue_pkScript utxo" "vi_tx vi" "int (vi_txInIndex vi)" flgs cache "vi_sigHashes vi" "ue_amount utxo"]
      in \<open>simp_all add: validateItem_def returns_def Let_def\<close>)
qed (simp add: validateItem_def Let_def)

subsection \<open>Properties\<close>

text \<open>The pool of workers on the inputs of a block.\<close>

definition script_pool ::
  "env \<Rightarrow> UtxoViewpoint \<Rightarrow> ScriptFlags \<Rightarrow> txValidateItem list \<Rightarrow> SigCache option pool \<Rightarrow> SigCache option pool \<Rightarrow> bool" where
  "script_pool E view flgs vis = pool_step (\<lambda>i. validateItem E view flgs (vis ! i)) (length vis)"

text \<open>
  Claim C5. The concurrent validation decides as it should under every schedule.  With at least one worker, inputs whose
  witnesses have at most two to the thirtieth items and twenty-byte RIPEMD-160 digests: in no reachable state is the pool
  stuck before it has an outcome, no run has more than three steps per input and one more, and the outcome is nil only
  when every input's scripts were run and succeeded, with a signature cache that runs of the inputs left, and otherwise
  the error of one input whose scripts failed; the sequential schedule is one of the runs.
\<close>

theorem Validate_any_schedule:
  assumes "env_ok E" "small_witnesses vis" "1 \<le> workers"
  shows "(\<forall>s. (script_pool E view flgs vis)\<^sup>*\<^sup>* (start workers cache) s \<longrightarrow>
      (outcome s = None \<longrightarrow> (\<exists>t. script_pool E view flgs vis s t)) \<and>
      (\<forall>r. outcome s = Some r \<longrightarrow>
        (r = Ok () \<and> (\<forall>i < length vis. verdict (\<lambda>i. validateItem E view flgs (vis ! i)) (length vis) cache i (Ok ()))) \<or>
        (\<exists>i e. r = Err e \<and> verdict (\<lambda>i. validateItem E view flgs (vis ! i)) (length vis) cache i (Err e)))) \<and>
    (\<forall>k s. (script_pool E view flgs vis ^^ k) (start workers cache) s \<longrightarrow> k \<le> 3 * length vis + 1) \<and>
    (\<exists>s. (script_pool E view flgs vis)\<^sup>*\<^sup>* (start 1 cache) s \<and>
      outcome s = Some (fst (validateSeq (validateItem E view flgs) vis cache)))"
proof -
  let ?check = "\<lambda>i. validateItem E view flgs (vis ! i)" and ?n = "length vis"
  have ret: "returns (fst (?check i c))" if "i < ?n" for i c
    using validateItem_returns[OF assms(1)] assms(2) that by (simp add: small_witnesses_def)
  have progress: "\<exists>t. pool_step ?check ?n s t" if "(pool_step ?check ?n)\<^sup>*\<^sup>* (start workers cache) s" "outcome s = None" for s
    using pool_progress[OF pool_run_inv[OF that] that(2) assms(3)] ret by blast
  have len: "k \<le> 3 * ?n + 1" if "(pool_step ?check ?n ^^ k) (start workers cache) s" for k s
    using pool_run_length[OF that] by (simp add: pool_rest_def start_def)
  obtain r c' where v: "validateSeq (validateItem E view flgs) vis cache = (r, c')" by fastforce
  have "returns (fst (validateSeq (validateItem E view flgs) ws c))" if "set ws \<subseteq> set vis" for ws c
    using that
  proof (induction ws arbitrary: c)
    case (Cons w ws)
    have "returns (fst (validateItem E view flgs w c))"
      using validateItem_returns[OF assms(1)] assms(2) Cons.prems by (simp add: small_witnesses_def)
    then show ?case using Cons by (auto simp: bnd_def returns_def split: prod.split res.split)
  qed (simp add: ret_def)
  then have "returns r" using v by (metis fst_conv subset_refl)
  moreover have "validateSeq ?check [0..<0 + ?n] cache = (r, c')" using v by (simp add: validateSeq_index)
  ultimately obtain t where "(pool_step ?check ?n)\<^sup>*\<^sup>* (start 1 cache) t" "outcome t = Some r"
    using seq_run[of ?check 0 ?n cache r c' ?n "start 1 cache" "[]"] by (auto simp: start_def)
  then show ?thesis
    unfolding script_pool_def using progress len pool_outcome[of ?check ?n workers cache] v by fastforce
qed

theorem Validate_any_schedule_witness:
  "\<exists>s. (script_pool demo_env demo_view 0 (txItems demo_spend None))\<^sup>*\<^sup>* (start 1 None) s \<and>
    outcome s = Some (fst (validateSeq (validateItem demo_env demo_view 0) (txItems demo_spend None) None))"
proof -
  have "small_witnesses (txItems demo_spend None)"
    by (auto simp: small_witnesses_def txItems_def demo_spend_def)
  then show ?thesis using Validate_any_schedule[OF demo_env_ok, of "txItems demo_spend None" 1 demo_view 0 None] by blast
qed

end
