(* ===== verification/Params.thy ===== *)
theory Params
  imports BlockIndex
begin

text \<open>
  Network parameters (\<^verbatim>\<open>pkg/chain/config\<close>): the fields that consensus and addresses read, the four networks and
  their first blocks.  Names, seeds, checkpoints (none are defined), fee and wallet fields are left out.
\<close>

subsection \<open>The records\<close>

record ConsensusDeployment =
  BitNumber :: nat
  StartTime :: "64 word"
  ExpireTime :: "64 word"

definition DeploymentTestDummy :: nat where "DeploymentTestDummy = 0"

definition DeploymentCSV :: nat where "DeploymentCSV = 1"

definition DeploymentSegwit :: nat where "DeploymentSegwit = 2"

definition DefinedDeployments :: nat where "DefinedDeployments = 3"

type_synonym BitcoinNet = "32 word"

definition MainNet :: BitcoinNet where "MainNet = 0xffac08cd"

definition TestNet :: BitcoinNet where "TestNet = 0xcd99a1f0"

definition TestNet3 :: BitcoinNet where "TestNet3 = 0xcd88a1f0"

definition SimNet :: BitcoinNet where "SimNet = 0x8899b208"

record Params =
  Net :: BitcoinNet
  GenesisBlock :: MsgBlock
  GenesisHash :: "byte list"
  PowLimit :: int
  PowLimitBits :: "32 word"
  BIP0034Height :: int
  BIP0065Height :: int
  BIP0066Height :: int
  CoinbaseMaturity :: "16 word"
  SubsidyReductionInterval :: int
  TargetTimespan :: int
  p_TargetTimePerBlock :: int
  RetargetAdjustmentFactor :: int
  RuleChangeActivationThreshold :: "32 word"
  MinerConfirmationWindow :: "32 word"
  Deployments :: "ConsensusDeployment list"
  PubKeyHashAddrID :: byte
  ScriptHashAddrID :: byte
  PrivateKeyID :: byte
  WitnessPubKeyHashAddrID :: byte
  WitnessScriptHashAddrID :: byte
  AveragingTargetTimespan :: int
  MinActualTimespan :: int
  MaxActualTimespan :: int
  AveragingInterval :: int

subsection \<open>First blocks\<close>

definition genesisCoinbaseTx :: MsgTx where
  "genesisCoinbaseTx =
     \<lparr>Version = 2,
      txIns = [\<lparr>PreviousOutPoint = \<lparr>Hash = noHash, Index = 0xffffffff\<rparr>,
        SignatureScript = [0x04, 0xff, 0xff, 0x00, 0x1d, 0x01, 0x04, 0x32, 0x4e, 0x59, 0x54, 0x69, 0x6d, 0x65, 0x73, 0x20,
     0x32, 0x30, 0x31, 0x34, 0x2d, 0x30, 0x37, 0x2d, 0x31, 0x39, 0x20, 0x2d, 0x20, 0x44, 0x65, 0x6c,
     0x6c, 0x20, 0x42, 0x65, 0x67, 0x69, 0x6e, 0x73, 0x20, 0x41, 0x63, 0x63, 0x65, 0x70, 0x74, 0x69,
     0x6e, 0x67, 0x20, 0x42, 0x69, 0x74, 0x63, 0x6f, 0x69, 0x6e],
        Witness = [], Sequence = 0xffffffff\<rparr>],
      txOuts = [\<lparr>Value = 0x174876E800,
        PkScript = [0x41, 0x04, 0xe0, 0xd2, 0x71, 0x72, 0x51, 0x0c, 0x68, 0x06, 0x88, 0x97, 0x40, 0xed, 0xaf, 0xe6,
     0xe6, 0x3e, 0xb2, 0x3f, 0xca, 0x32, 0x78, 0x6f, 0xcc, 0xfd, 0xb2, 0x82, 0xbb, 0x28, 0x76, 0xa9,
     0xf4, 0x3b, 0x22, 0x82, 0x45, 0xdf, 0x05, 0x76, 0x61, 0xff, 0x94, 0x3f, 0x61, 0x50, 0x71, 0x6a,
     0x20, 0xea, 0x18, 0x51, 0xe8, 0xa7, 0xe9, 0xf5, 0x4e, 0x62, 0x02, 0x97, 0x66, 0x46, 0x18, 0x43,
     0x8d, 0xae, 0xac]\<rparr>],
      LockTime = 0\<rparr>"

definition genesisHash :: "byte list" where
  "genesisHash =
    [0xc7, 0xcc, 0x40, 0xc7, 0xc5, 0x4f, 0xd1, 0x39, 0x1d, 0xdf, 0x3a, 0xe7, 0xcf, 0x98, 0xf2, 0x8b,
     0x23, 0xcf, 0xfd, 0x0c, 0x66, 0xd3, 0x04, 0xc9, 0xaa, 0xd3, 0xba, 0xfc, 0xf0, 0x09, 0x00, 0x00]"

definition genesisMerkleRoot :: "byte list" where
  "genesisMerkleRoot =
    [0xb7, 0x9a, 0x9b, 0x6f, 0x31, 0xa9, 0xd7, 0xd2, 0x5a, 0x1c, 0x4b, 0x0e, 0xc7, 0xa6, 0x71, 0xdc,
     0x56, 0xce, 0x76, 0x63, 0xc3, 0x80, 0xf2, 0xd2, 0x51, 0x3a, 0x8e, 0x65, 0xe4, 0xea, 0x43, 0xc8]"

definition regTestGenesisHash :: "byte list" where
  "regTestGenesisHash =
    [0x81, 0x91, 0x37, 0x60, 0xab, 0x59, 0x85, 0x57, 0x7b, 0x23, 0x4d, 0xf6, 0xe2, 0x65, 0xba, 0x6b,
     0x48, 0x7e, 0x66, 0x25, 0xc8, 0x52, 0x2a, 0xdc, 0x83, 0xa1, 0x0e, 0x22, 0x9e, 0xb7, 0xe9, 0x69]"

definition simNetGenesisHash :: "byte list" where
  "simNetGenesisHash =
    [0xdf, 0x0c, 0xb3, 0x5f, 0x69, 0x72, 0x75, 0xe1, 0x8f, 0x66, 0xa2, 0x7d, 0xc8, 0xbb, 0x12, 0xfa,
     0x85, 0x4d, 0xed, 0x22, 0x2c, 0x0c, 0x1b, 0xf9, 0x5e, 0xa3, 0xba, 0xec, 0x41, 0x0e, 0x00, 0x00]"

definition genesisBlock :: MsgBlock where
  "genesisBlock =
     \<lparr>Header = \<lparr>header_Version = 2, PrevBlock = noHash, MerkleRoot = genesisMerkleRoot,
        Timestamp = unix_time 0x53c9ecdc, Bits = 0x1e0fffff, Nonce = 0x10281\<rparr>,
      Transactions = [genesisCoinbaseTx]\<rparr>"

definition regTestGenesisBlock :: MsgBlock where
  "regTestGenesisBlock =
     \<lparr>Header = \<lparr>header_Version = 2, PrevBlock = noHash, MerkleRoot = genesisMerkleRoot,
        Timestamp = unix_time 0x53c9ea84, Bits = 0x207fffff, Nonce = 1\<rparr>,
      Transactions = [genesisCoinbaseTx]\<rparr>"

definition testNet3GenesisBlock :: MsgBlock where
  "testNet3GenesisBlock =
     \<lparr>Header = \<lparr>header_Version = 5, PrevBlock = noHash, MerkleRoot = genesisMerkleRoot,
        Timestamp = unix_time 0x53c9ea84, Bits = SecondPowLimitBits, Nonce = 0x001adf18\<rparr>,
      Transactions = [genesisCoinbaseTx]\<rparr>"

definition simNetGenesisBlock :: MsgBlock where
  "simNetGenesisBlock =
     \<lparr>Header = \<lparr>header_Version = 2, PrevBlock = noHash, MerkleRoot = genesisMerkleRoot,
        Timestamp = unix_time 0x53c9ea84, Bits = 0x207fffff, Nonce = 2\<rparr>,
      Transactions = [genesisCoinbaseTx]\<rparr>"

subsection \<open>Networks\<close>

definition AllOnes :: int where
  "AllOnes = 2 ^ 256 - 1"

definition chaincfg_MainPowLimit :: int where
  "chaincfg_MainPowLimit = 0x00000fffff000000000000000000000000000000000000000000000000000000"

definition MainNetParams :: Params where
  "MainNetParams =
     \<lparr>Net = MainNet, GenesisBlock = genesisBlock, GenesisHash = genesisHash,
      PowLimit = chaincfg_MainPowLimit, PowLimitBits = BigToCompact chaincfg_MainPowLimit,
      BIP0034Height = 100000000, BIP0065Height = 100000000, BIP0066Height = 100000000, CoinbaseMaturity = 100,
      SubsidyReductionInterval = 250000, TargetTimespan = 30000, p_TargetTimePerBlock = 300,
      RetargetAdjustmentFactor = 2, RuleChangeActivationThreshold = 1916, MinerConfirmationWindow = 2016,
      Deployments =
        [\<lparr>BitNumber = 28, StartTime = 1199145601, ExpireTime = 1230767999\<rparr>, \<lparr>BitNumber = 0, StartTime = 1462060800, ExpireTime = 1493596800\<rparr>, \<lparr>BitNumber = 1, StartTime = 1479168000, ExpireTime = 1510704000\<rparr>],
      PubKeyHashAddrID = 83, ScriptHashAddrID = 9, PrivateKeyID = 178,
      WitnessPubKeyHashAddrID = 84, WitnessScriptHashAddrID = 19,
      AveragingTargetTimespan = 3000, MinActualTimespan = 2400, MaxActualTimespan = 3300, AveragingInterval = 10\<rparr>"

definition RegressionTestParams :: Params where
  "RegressionTestParams =
     \<lparr>Net = TestNet, GenesisBlock = regTestGenesisBlock, GenesisHash = regTestGenesisHash,
      PowLimit = AllOnes, PowLimitBits = 0x207fffff,
      BIP0034Height = 100000000, BIP0065Height = 100000000, BIP0066Height = 100000000, CoinbaseMaturity = 100,
      SubsidyReductionInterval = 150, TargetTimespan = 30000, p_TargetTimePerBlock = 300,
      RetargetAdjustmentFactor = 2, RuleChangeActivationThreshold = 108, MinerConfirmationWindow = 144,
      Deployments =
        [\<lparr>BitNumber = 28, StartTime = 0, ExpireTime = 0x7fffffffffffffff\<rparr>, \<lparr>BitNumber = 0, StartTime = 0, ExpireTime = 0x7fffffffffffffff\<rparr>, \<lparr>BitNumber = 1, StartTime = 0, ExpireTime = 0x7fffffffffffffff\<rparr>],
      PubKeyHashAddrID = 0, ScriptHashAddrID = 5, PrivateKeyID = 128,
      WitnessPubKeyHashAddrID = 0, WitnessScriptHashAddrID = 0,
      AveragingTargetTimespan = 3000, MinActualTimespan = 3000 * (100 - 20) div 100, MaxActualTimespan = 3000 * (100 + 10) div 100, AveragingInterval = 10\<rparr>"

definition TestNet3Params :: Params where
  "TestNet3Params =
     \<lparr>Net = TestNet3, GenesisBlock = testNet3GenesisBlock, GenesisHash = (MsgBlock_BlockHash testNet3GenesisBlock),
      PowLimit = SecondPowLimit, PowLimitBits = SecondPowLimitBits,
      BIP0034Height = 0, BIP0065Height = 0, BIP0066Height = 0, CoinbaseMaturity = 1,
      SubsidyReductionInterval = 250000, TargetTimespan = 900, p_TargetTimePerBlock = 9,
      RetargetAdjustmentFactor = 2, RuleChangeActivationThreshold = 2, MinerConfirmationWindow = 2016,
      Deployments =
        [\<lparr>BitNumber = 28, StartTime = 0x7fffffffffffffff, ExpireTime = 0x7fffffffffffffff\<rparr>, \<lparr>BitNumber = 29, StartTime = 0x7fffffffffffffff, ExpireTime = 0x7fffffffffffffff\<rparr>, \<lparr>BitNumber = 29, StartTime = 0x7fffffffffffffff, ExpireTime = 0x7fffffffffffffff\<rparr>],
      PubKeyHashAddrID = 18, ScriptHashAddrID = 188, PrivateKeyID = 239,
      WitnessPubKeyHashAddrID = 3, WitnessScriptHashAddrID = 40,
      AveragingTargetTimespan = 14400, MinActualTimespan = 14400 * (100 - 20) div 100, MaxActualTimespan = 14400 * (100 + 10) div 100, AveragingInterval = 1600\<rparr>"

definition SimNetParams :: Params where
  "SimNetParams =
     \<lparr>Net = SimNet, GenesisBlock = simNetGenesisBlock, GenesisHash = simNetGenesisHash,
      PowLimit = AllOnes, PowLimitBits = 0x207fffff,
      BIP0034Height = 0, BIP0065Height = 0, BIP0066Height = 0, CoinbaseMaturity = 100,
      SubsidyReductionInterval = 210000, TargetTimespan = 30000, p_TargetTimePerBlock = 300,
      RetargetAdjustmentFactor = 2, RuleChangeActivationThreshold = 75, MinerConfirmationWindow = 100,
      Deployments =
        [\<lparr>BitNumber = 28, StartTime = 0, ExpireTime = 0x7fffffffffffffff\<rparr>, \<lparr>BitNumber = 0, StartTime = 0, ExpireTime = 0x7fffffffffffffff\<rparr>, \<lparr>BitNumber = 1, StartTime = 0, ExpireTime = 0x7fffffffffffffff\<rparr>],
      PubKeyHashAddrID = 63, ScriptHashAddrID = 123, PrivateKeyID = 100,
      WitnessPubKeyHashAddrID = 25, WitnessScriptHashAddrID = 40,
      AveragingTargetTimespan = 3000, MinActualTimespan = 10 * 300 * (100 - 20) div 100, MaxActualTimespan = 10 * 300 * (100 + 10) div 100, AveragingInterval = 10\<rparr>"

end
