(* ===== verification/Threshold.thy ===== *)
theory Threshold
  imports Params Utxo
begin

text \<open>
  Voting on rule changes (\<^verbatim>\<open>pkg/chain/thresholdstate.go\<close>, \<^verbatim>\<open>versionbits.go\<close>).

  The interface \<^verbatim>\<open>thresholdConditionChecker\<close> is a record of its methods.  \<^verbatim>\<open>Condition\<close> is an operation: the checker for
  unknown bits consults, and fills, the caches of the known deployments.  A cache is a map from hashes to
  states; \<open>thresholdState\<close> is an operation on the cache and on the state the condition works on.

  The specification computes the state of a window from the state of the window before, without a cache.
\<close>

unbundle bit_operations_syntax

subsection \<open>States and checkers\<close>

datatype ThresholdState = ThresholdDefined | ThresholdStarted | ThresholdLockedIn | ThresholdActive | ThresholdFailed

definition thresholdStateStrings :: "(ThresholdState \<times> string) list" where
  "thresholdStateStrings =
    [(ThresholdDefined, ''ThresholdDefined''), (ThresholdStarted, ''ThresholdStarted''),
     (ThresholdLockedIn, ''ThresholdLockedIn''), (ThresholdActive, ''ThresholdActive''),
     (ThresholdFailed, ''ThresholdFailed'')]"

definition ThresholdState_String :: "ThresholdState \<Rightarrow> string" where
  "ThresholdState_String t = (case map_of thresholdStateStrings t of Some s \<Rightarrow> s | None \<Rightarrow> ''Unknown ThresholdState'')"

record 's checker =
  BeginTime :: "64 word"
  EndTime :: "64 word"
  ck_threshold :: "32 word"
  ck_window :: "32 word"
  Condition :: "noderef \<Rightarrow> ('s, chain_error, bool) op"

type_synonym thresholdStateCache = "byte list \<rightharpoonup> ThresholdState"

definition cache_Lookup :: "thresholdStateCache \<Rightarrow> byte list \<Rightarrow> ThresholdState option" where
  "cache_Lookup c hash = c hash"

definition cache_Update :: "byte list \<Rightarrow> ThresholdState \<Rightarrow> thresholdStateCache \<Rightarrow> thresholdStateCache" where
  "cache_Update hash state c = c(hash \<mapsto> state)"

definition newThresholdCaches :: "nat \<Rightarrow> thresholdStateCache list" where
  "newThresholdCaches numCaches = replicate numCaches Map.empty"

subsection \<open>The state after a node\<close>

definition hash_at :: "node_store \<Rightarrow> noderef \<Rightarrow> byte list" where
  "hash_at st r = node_hash (node_at st r)"

definition ck_windowSize :: "'s checker \<Rightarrow> int" where
  "ck_windowSize ck = i32 (uint (ck_window ck))"

text \<open>The nodes that need a state, the oldest first, with the node the walk stopped at and the cache.\<close>

partial_function (option) collectLoop ::
  "noderef option \<Rightarrow> node_store \<Rightarrow> 's checker \<Rightarrow> thresholdStateCache \<Rightarrow> noderef list \<Rightarrow>
   (chain_error, noderef option \<times> noderef list \<times> thresholdStateCache) res option" where
  "collectLoop prevNode st ck cache needed =
     (case prevNode of None \<Rightarrow> Some (Ok (None, needed, cache))
      | Some r \<Rightarrow>
          if cache_Lookup cache (hash_at st r) \<noteq> None then Some (Ok (Some r, needed, cache))
          else (case CalcPastMedianTime st (Some r) :: (chain_error, int) res of
             Ok medianTime \<Rightarrow>
               if word_of_int medianTime < BeginTime ck
               then Some (Ok (Some r, needed, cache_Update (hash_at st r) ThresholdDefined cache))
               else (case RelativeAncestor st r (ck_windowSize ck) :: (chain_error, noderef option) res of
                  Ok p \<Rightarrow> collectLoop p st ck cache (r # needed)
                | Err e \<Rightarrow> Some (Err e) | Panic \<Rightarrow> Some Panic | Hang \<Rightarrow> None)
           | Err e \<Rightarrow> Some (Err e) | Panic \<Rightarrow> Some Panic | Hang \<Rightarrow> None))"

primrec countVotes :: "node_store \<Rightarrow> 's checker \<Rightarrow> nat \<Rightarrow> noderef option \<Rightarrow> 32 word \<Rightarrow> ('s, chain_error, 32 word) op" where
  "countVotes st ck 0 countNode count = ret count"
| "countVotes st ck (Suc n) countNode count =
     (case countNode of None \<Rightarrow> panic
      | Some r \<Rightarrow> bnd (Condition ck r) (\<lambda>condition.
          countVotes st ck n (parent st r) (if condition then count + 1 else count)))"

definition nextState :: "node_store \<Rightarrow> 's checker \<Rightarrow> noderef \<Rightarrow> ThresholdState \<Rightarrow> ('s, chain_error, ThresholdState) op" where
  "nextState st ck prevNode state =
     (case state of
        ThresholdDefined \<Rightarrow>
          bnd (lift_res (CalcPastMedianTime st (Some prevNode))) (\<lambda>medianTime.
            if word_of_int medianTime \<ge> EndTime ck then ret ThresholdFailed
            else if word_of_int medianTime \<ge> BeginTime ck then ret ThresholdStarted
            else ret ThresholdDefined)
      | ThresholdStarted \<Rightarrow>
          bnd (lift_res (CalcPastMedianTime st (Some prevNode))) (\<lambda>medianTime.
            if word_of_int medianTime \<ge> EndTime ck then ret ThresholdFailed
            else bnd (countVotes st ck (nat (ck_windowSize ck)) (Some prevNode) 0) (\<lambda>count.
              if count \<ge> ck_threshold ck then ret ThresholdLockedIn else ret ThresholdStarted))
      | ThresholdLockedIn \<Rightarrow> ret ThresholdActive
      | ThresholdActive \<Rightarrow> ret ThresholdActive
      | ThresholdFailed \<Rightarrow> ret ThresholdFailed)"

primrec runNeeded :: "node_store \<Rightarrow> 's checker \<Rightarrow> noderef list \<Rightarrow> ThresholdState \<Rightarrow>
    (thresholdStateCache \<times> 's, chain_error, ThresholdState) op" where
  "runNeeded st ck [] state = ret state"
| "runNeeded st ck (r # needed) state =
     bnd (on_part snd (\<lambda>s. apsnd (\<lambda>_. s)) (nextState st ck r state)) (\<lambda>state.
     bnd (mod_st (apfst (cache_Update (hash_at st r) state))) (\<lambda>_.
       runNeeded st ck needed state))"

text \<open>Go's remainder; a zero divisor panics.\<close>

definition go_rem :: "int \<Rightarrow> int \<Rightarrow> ('e, int) res" where
  "go_rem a b = (if b = 0 then Panic else Ok (sgn a * (\<bar>a\<bar> mod \<bar>b\<bar>)))"

definition thresholdState ::
  "node_store \<Rightarrow> 's checker \<Rightarrow> noderef option \<Rightarrow> (thresholdStateCache \<times> 's, chain_error, ThresholdState) op" where
  "thresholdState st ck prevNode =
     (let confirmationWindow = ck_windowSize ck in
      case prevNode of None \<Rightarrow> ret ThresholdDefined
      | Some r \<Rightarrow>
          if i32 (height st r + 1) < confirmationWindow then ret ThresholdDefined
          else
            bnd (lift_res (go_rem (i32 (height st r + 1)) confirmationWindow)) (\<lambda>off.
            bnd (lift_res (Ancestor st r (i32 (height st r - off)))) (\<lambda>prevNode. (\<lambda>(cache, s).
              case collectLoop prevNode st ck cache [] of
                None \<Rightarrow> (Hang, (cache, s))
              | Some (Ok (prevNode, needed, cache)) \<Rightarrow>
                  (case prevNode of
                     None \<Rightarrow> runNeeded st ck needed ThresholdDefined (cache, s)
                   | Some p \<Rightarrow>
                       (case cache_Lookup cache (hash_at st p) of
                          None \<Rightarrow> (Err AssertError, (cache, s))
                        | Some state \<Rightarrow> runNeeded st ck needed state (cache, s)))
              | Some (Err e) \<Rightarrow> (Err e, (cache, s))
              | Some Panic \<Rightarrow> (Panic, (cache, s))
              | Some Hang \<Rightarrow> (Hang, (cache, s))))))"

subsection \<open>Deployments\<close>

definition vbTopBits :: "32 word" where "vbTopBits = 0x20000000"

definition vbTopMask :: "32 word" where "vbTopMask = 0xe0000000"

definition vbNumBits :: nat where "vbNumBits = 29"

text \<open>A shift by 32 or more gives zero.\<close>

definition deployment_condition :: "node_store \<Rightarrow> ConsensusDeployment \<Rightarrow> noderef \<Rightarrow> bool" where
  "deployment_condition st deployment node =
     (let conditionMask = push_bit (BitNumber deployment) (1 :: 32 word);
          version = node_version (node_at st node)
      in version AND vbTopMask = vbTopBits \<and> version AND conditionMask \<noteq> 0)"

definition deploymentChecker :: "Params \<Rightarrow> node_store \<Rightarrow> ConsensusDeployment \<Rightarrow> 's checker" where
  "deploymentChecker params st deployment =
     \<lparr>BeginTime = StartTime deployment, EndTime = ExpireTime deployment,
      ck_threshold = RuleChangeActivationThreshold params, ck_window = MinerConfirmationWindow params,
      Condition = (\<lambda>node. ret (deployment_condition st deployment node))\<rparr>"

text \<open>Running an operation on one cache of a list; an index out of range panics.\<close>

definition on_cache :: "nat \<Rightarrow> (thresholdStateCache \<times> unit, 'e, 'a) op \<Rightarrow> (thresholdStateCache list, 'e, 'a) op" where
  "on_cache i m caches =
     (if i < length caches then (case m (caches ! i, ()) of (r, (c, _)) \<Rightarrow> (r, caches[i := c])) else (Panic, caches))"

text \<open>The test lets an identifier through that is equal to the number of deployments.\<close>

definition deploymentState ::
  "Params \<Rightarrow> node_store \<Rightarrow> noderef option \<Rightarrow> nat \<Rightarrow> (thresholdStateCache list, chain_error, ThresholdState) op" where
  "deploymentState params st prevNode deploymentID =
     (if deploymentID > length (Deployments params) then throw (DeploymentError (word_of_nat deploymentID))
      else bnd (lift_res (nth_res (Deployments params) deploymentID)) (\<lambda>deployment.
        on_cache deploymentID (thresholdState st (deploymentChecker params st deployment) prevNode)))"

definition IsDeploymentActive ::
  "Params \<Rightarrow> node_store \<Rightarrow> noderef option \<Rightarrow> nat \<Rightarrow> (thresholdStateCache list, chain_error, bool) op" where
  "IsDeploymentActive params st bestTip deploymentID =
     bnd (deploymentState params st bestTip deploymentID) (\<lambda>state. ret (state = ThresholdActive))"

primrec nextVersionLoop ::
  "Params \<Rightarrow> node_store \<Rightarrow> noderef option \<Rightarrow> (nat \<times> ConsensusDeployment) list \<Rightarrow> 32 word \<Rightarrow>
   (thresholdStateCache list, chain_error, 32 word) op" where
  "nextVersionLoop params st prevNode [] expectedVersion = ret expectedVersion"
| "nextVersionLoop params st prevNode (d # ds) expectedVersion =
     bnd (on_cache (fst d) (thresholdState st (deploymentChecker params st (snd d)) prevNode)) (\<lambda>state.
       nextVersionLoop params st prevNode ds
         (if state = ThresholdStarted \<or> state = ThresholdLockedIn
          then expectedVersion OR push_bit (BitNumber (snd d)) 1 else expectedVersion))"

definition calcNextBlockVersion ::
  "Params \<Rightarrow> node_store \<Rightarrow> noderef option \<Rightarrow> (thresholdStateCache list, chain_error, 32 word) op" where
  "calcNextBlockVersion params st prevNode =
     nextVersionLoop params st prevNode (enumerate 0 (Deployments params)) vbTopBits"

definition bit_condition :: "Params \<Rightarrow> node_store \<Rightarrow> nat \<Rightarrow> noderef \<Rightarrow> (thresholdStateCache list, chain_error, bool) op" where
  "bit_condition params st b node =
     (let conditionMask = push_bit b (1 :: 32 word);
          version = node_version (node_at st node)
      in if version AND vbTopMask \<noteq> vbTopBits then ret False
         else if version AND conditionMask = 0 then ret False
         else bnd (calcNextBlockVersion params st (parent st node)) (\<lambda>expectedVersion.
           ret (expectedVersion AND conditionMask = 0)))"

definition bitConditionChecker :: "Params \<Rightarrow> node_store \<Rightarrow> nat \<Rightarrow> thresholdStateCache list checker" where
  "bitConditionChecker params st b =
     \<lparr>BeginTime = 0, EndTime = - 1, ck_threshold = RuleChangeActivationThreshold params,
      ck_window = MinerConfirmationWindow params, Condition = bit_condition params st b\<rparr>"

subsection \<open>The specification\<close>

definition past_time :: "node_store \<Rightarrow> noderef \<Rightarrow> int" where
  "past_time st r =
     (let ts = pastTimestamps st medianTimeBlocks (Some r) in sort ts ! (length ts div 2))"

lemma CalcPastMedianTime_past_time: "CalcPastMedianTime st (Some r) = Ok (past_time st r)"
  using pastTimestamps_nonempty[of st r] by (simp add: CalcPastMedianTime_def past_time_def Let_def)

primrec lineage :: "node_store \<Rightarrow> nat \<Rightarrow> noderef \<Rightarrow> noderef list" where
  "lineage st 0 r = []"
| "lineage st (Suc n) r = r # (case parent st r of None \<Rightarrow> [] | Some p \<Rightarrow> lineage st n p)"

text \<open>The votes of the window that ends with a node, and the rule from one window to the next.\<close>

definition vote_count :: "node_store \<Rightarrow> 's checker \<Rightarrow> (noderef \<Rightarrow> bool) \<Rightarrow> noderef \<Rightarrow> nat" where
  "vote_count st ck votes r = length (filter votes (lineage st (nat (ck_windowSize ck)) r))"

definition spec_next :: "node_store \<Rightarrow> 's checker \<Rightarrow> (noderef \<Rightarrow> bool) \<Rightarrow> noderef \<Rightarrow> ThresholdState \<Rightarrow> ThresholdState" where
  "spec_next st ck votes r state =
     (let t = word_of_int (past_time st r) in
      case state of
        ThresholdDefined \<Rightarrow>
          if t \<ge> EndTime ck then ThresholdFailed else if t \<ge> BeginTime ck then ThresholdStarted else ThresholdDefined
      | ThresholdStarted \<Rightarrow>
          if t \<ge> EndTime ck then ThresholdFailed
          else if word_of_nat (vote_count st ck votes r) \<ge> ck_threshold ck then ThresholdLockedIn else ThresholdStarted
      | ThresholdLockedIn \<Rightarrow> ThresholdActive
      | ThresholdActive \<Rightarrow> ThresholdActive
      | ThresholdFailed \<Rightarrow> ThresholdFailed)"

primrec spec_windows :: "node_store \<Rightarrow> 's checker \<Rightarrow> (noderef \<Rightarrow> bool) \<Rightarrow> nat \<Rightarrow> noderef \<Rightarrow> ThresholdState" where
  "spec_windows st ck votes 0 r = ThresholdDefined"
| "spec_windows st ck votes (Suc k) r =
     (if word_of_int (past_time st r) < BeginTime ck then ThresholdDefined
      else spec_next st ck votes r
        (case up st (nat (ck_windowSize ck)) r of None \<Rightarrow> ThresholdDefined | Some p \<Rightarrow> spec_windows st ck votes k p))"

text \<open>The state for the blocks after the last node of a window, and after any node.\<close>

definition window_end :: "node_store \<Rightarrow> 's checker \<Rightarrow> noderef \<Rightarrow> bool" where
  "window_end st ck r \<longleftrightarrow> (height st r + 1) mod ck_windowSize ck = 0"

definition window_state :: "node_store \<Rightarrow> 's checker \<Rightarrow> (noderef \<Rightarrow> bool) \<Rightarrow> noderef \<Rightarrow> ThresholdState" where
  "window_state st ck votes r = spec_windows st ck votes (nat ((height st r + 1) div ck_windowSize ck)) r"

definition spec_state :: "node_store \<Rightarrow> 's checker \<Rightarrow> (noderef \<Rightarrow> bool) \<Rightarrow> noderef option \<Rightarrow> ThresholdState" where
  "spec_state st ck votes prev =
     (case prev of None \<Rightarrow> ThresholdDefined
      | Some r \<Rightarrow>
          if height st r + 1 < ck_windowSize ck then ThresholdDefined
          else (case ancestor_at st r (height st r - (height st r + 1) mod ck_windowSize ck) of
              None \<Rightarrow> ThresholdDefined | Some b \<Rightarrow> window_state st ck votes b))"

subsection \<open>The cached computation implements it\<close>

text \<open>
  What the computation relies on: a well-formed store in which no two nodes have the same hash, and a positive window.  A
  cache is sound when what it holds for the ends of windows is right.
\<close>

definition window_store :: "node_store \<Rightarrow> 's checker \<Rightarrow> bool" where
  "window_store st ck \<longleftrightarrow> wf_store st \<and> inj_on (hash_at st) {..<fresh st} \<and> 0 < ck_windowSize ck"

definition sound :: "node_store \<Rightarrow> 's checker \<Rightarrow> (noderef \<Rightarrow> bool) \<Rightarrow> thresholdStateCache \<Rightarrow> bool" where
  "sound st ck votes cache \<longleftrightarrow> (\<forall>r < fresh st. window_end st ck r \<longrightarrow>
     (\<forall>s. cache (hash_at st r) = Some s \<longrightarrow> s = window_state st ck votes r))"

lemma sound_no_entries: "sound st ck votes Map.empty"
  by (simp add: sound_def)

lemma sound_update:
  "window_store st ck \<Longrightarrow> sound st ck votes cache \<Longrightarrow> r < fresh st \<Longrightarrow>
   sound st ck votes (cache_Update (hash_at st r) (window_state st ck votes r) cache)"
  by (auto simp: sound_def cache_Update_def window_store_def dest: inj_onD)

lemma window_unfold:
  assumes "window_store st ck" "r < fresh st" "window_end st ck r"
  shows "window_state st ck votes r =
    (if word_of_int (past_time st r) < BeginTime ck then ThresholdDefined
     else spec_next st ck votes r
       (case up st (nat (ck_windowSize ck)) r of None \<Rightarrow> ThresholdDefined | Some p \<Rightarrow> window_state st ck votes p))"
    and "up st (nat (ck_windowSize ck)) r = Some p \<Longrightarrow>
      p < fresh st \<and> window_end st ck p \<and> height st p = height st r - ck_windowSize ck"
proof -
  let ?w = "ck_windowSize ck"
  note wf = assms(1)[unfolded window_store_def, THEN conjunct1]
  have window: "0 < ?w" using assms(1) by (simp add: window_store_def)
  have h: "0 \<le> height st r" using wf_height[OF wf assms(2)] by simp
  obtain j where j: "height st r + 1 = ?w * j" using assms(3) by (auto simp: window_end_def mod_eq_0_iff_dvd)
  then have "0 < ?w * j" using h by simp
  then have "0 < j" using window by (simp add: zero_less_mult_iff)
  then obtain k where k: "j = int (Suc k)" by (metis Suc_pred' zero_less_imp_eq_int)
  have d: "nat ((height st r + 1) div ?w) = Suc k" using j k window by simp
  have p: "p < fresh st \<and> height st p = height st r - ?w \<and> (height st p + 1) = ?w * int k"
    if "up st (nat ?w) r = Some p" for p
    using up_wf[OF wf assms(2) that] window j k by (simp add: algebra_simps)
  have e: "window_end st ck p" if "height st p + 1 = ?w * int k" for p
    unfolding window_end_def that by simp
  show "up st (nat ?w) r = Some p \<Longrightarrow> p < fresh st \<and> window_end st ck p \<and> height st p = height st r - ?w"
    using p e by blast
  have "window_state st ck votes p = spec_windows st ck votes k p" if "up st (nat ?w) r = Some p" for p
  proof -
    have "height st p + 1 = ?w * int k" using p[OF that] by blast
    then have "(height st p + 1) div ?w = int k" using window by (simp only:) simp
    then show ?thesis by (simp add: window_state_def)
  qed
  then show "window_state st ck votes r =
    (if word_of_int (past_time st r) < BeginTime ck then ThresholdDefined
     else spec_next st ck votes r
       (case up st (nat ?w) r of None \<Rightarrow> ThresholdDefined | Some p \<Rightarrow> window_state st ck votes p))"
    unfolding window_state_def[of st ck votes r] d by (simp split: option.split)
qed

text \<open>A checker promises that its condition answers a fixed predicate and keeps an invariant of the checker's own state.\<close>

locale threshold_checker =
  fixes st :: node_store and ck :: "'s checker" and votes :: "noderef \<Rightarrow> bool" and inv :: "'s \<Rightarrow> bool"
  assumes condition: "window_store st ck \<Longrightarrow> r < fresh st \<Longrightarrow> inv s \<Longrightarrow> \<exists>s'. Condition ck r s = (Ok (votes r), s') \<and> inv s'"
begin

lemma count_run:
  "window_store st ck \<Longrightarrow> r < fresh st \<Longrightarrow> inv s \<Longrightarrow> int n \<le> height st r + 1 \<Longrightarrow>
   \<exists>s'. countVotes st ck n (Some r) c s = (Ok (c + word_of_nat (length (filter votes (lineage st n r)))), s') \<and> inv s'"
proof (induction n arbitrary: r c s)
  case 0
  then show ?case by (simp add: ret_def)
next
  case (Suc n)
  obtain s1 where s1: "Condition ck r s = (Ok (votes r), s1)" "inv s1" using condition[OF Suc.prems(1-3)] by blast
  let ?c = "if votes r then c + 1 else c"
  have step: "countVotes st ck (Suc n) (Some r) c s = countVotes st ck n (parent st r) ?c s1"
    using s1(1) by (simp add: bnd_def)
  show ?case
  proof (cases n)
    case 0
    then show ?thesis using s1(2) by (subst step) (auto simp: ret_def split: option.split)
  next
    case (Suc m)
    note wf = Suc.prems(1)[unfolded window_store_def, THEN conjunct1]
    have "height st r \<noteq> 0" using Suc.prems(4) Suc by simp
    then obtain p where p: "parent st r = Some p" using wf_root[OF wf Suc.prems(2)] by (cases "parent st r") auto
    note wp = wf_parent[OF wf Suc.prems(2) p]
    obtain s' where "countVotes st ck n (Some p) ?c s1 =
        (Ok (?c + word_of_nat (length (filter votes (lineage st n p)))), s')" "inv s'"
      using Suc.IH[of p s1 ?c] wp s1(2) Suc.prems(1,4) by auto
    then show ?thesis unfolding step p by (auto simp: p)
  qed
qed

lemma next_run:
  assumes "window_store st ck" "r < fresh st" "inv s" "window_end st ck r"
  shows "\<exists>s'. nextState st ck r state s = (Ok (spec_next st ck votes r state), s') \<and> inv s'"
proof -
  note ws = assms(1)[unfolded window_store_def]
  have "0 < height st r + 1" using wf_height[OF ws[THEN conjunct1] assms(2)] by simp
  then have "ck_windowSize ck \<le> height st r + 1" using assms(4) by (simp add: window_end_def zdvd_imp_le mod_eq_0_iff_dvd)
  then obtain s' where s': "countVotes st ck (nat (ck_windowSize ck)) (Some r) 0 s =
      (Ok (0 + word_of_nat (vote_count st ck votes r)), s')" "inv s'"
    using count_run[OF assms(1-3), of "nat (ck_windowSize ck)" 0] ws by (auto simp: vote_count_def)
  show ?thesis
    using s'(2) assms(3)
    by (cases state)
      (auto simp: nextState_def spec_next_def Let_def CalcPastMedianTime_past_time bnd_def lift_res_def ret_def s'(1))
qed

fun path :: "noderef list \<Rightarrow> ThresholdState \<Rightarrow> ThresholdState \<Rightarrow> bool" where
  "path [] s t \<longleftrightarrow> s = t"
| "path (r # rs) s t \<longleftrightarrow> r < fresh st \<and> window_end st ck r \<and> window_state st ck votes r = spec_next st ck votes r s \<and>
     path rs (window_state st ck votes r) t"

lemma path_append: "path (rs @ rs') s t \<longleftrightarrow> (\<exists>u. path rs s u \<and> path rs' u t)"
  by (induction rs arbitrary: s) auto

lemma needed_run:
  "window_store st ck \<Longrightarrow> path rs u t \<Longrightarrow> sound st ck votes cache \<Longrightarrow> inv s \<Longrightarrow>
   \<exists>cache' s'. runNeeded st ck rs u (cache, s) = (Ok t, (cache', s')) \<and> sound st ck votes cache' \<and> inv s'"
proof (induction rs arbitrary: u cache s)
  case Nil
  then show ?case by (simp add: ret_def)
next
  case (Cons r rs)
  obtain s1 where "nextState st ck r u s = (Ok (window_state st ck votes r), s1)" "inv s1"
    using next_run[of r s u] Cons.prems by auto
  then show ?case
    using Cons.IH[of "window_state st ck votes r" "cache_Update (hash_at st r) (window_state st ck votes r) cache" s1]
      Cons.prems sound_update[OF Cons.prems(1,3), of r]
    by (auto simp: bnd_def on_part_def mod_st_def)
qed

lemma collect_run:
  "window_store st ck \<Longrightarrow> r < fresh st \<Longrightarrow> window_end st ck r \<Longrightarrow> sound st ck votes cache \<Longrightarrow>
   \<exists>p rs cache' u. collectLoop (Some r) st ck cache acc = Some (Ok (p, rs @ acc, cache')) \<and> sound st ck votes cache' \<and>
     (case p of None \<Rightarrow> u = ThresholdDefined | Some q \<Rightarrow> cache' (hash_at st q) = Some u) \<and>
     path rs u (window_state st ck votes r)"
proof (induction "nat (height st r)" arbitrary: r acc rule: less_induct)
  case less
  note unfold = window_unfold(1)[OF less.prems(1-3), of votes] window_unfold(2)[OF less.prems(1-3)]
  let ?w = "ck_windowSize ck"
  note wf = less.prems(1)[unfolded window_store_def, THEN conjunct1]
  have window: "0 < ?w" using less.prems(1) by (simp add: window_store_def)
  have w: "?w < 2 ^ 31" using signed_take_bit_int_less_exp[of 31] by (simp add: ck_windowSize_def i32_def)
  show ?case
  proof (cases "cache (hash_at st r)")
    case (Some s)
    then have "s = window_state st ck votes r" using less.prems by (auto simp: sound_def)
    then show ?thesis using Some less.prems(4)
      by (intro exI[of _ "Some r"] exI[of _ "[]"] exI[of _ cache] exI[of _ s])
        (simp add: collectLoop.simps[of "Some r"] cache_Lookup_def)
  next
    case None
    show ?thesis
    proof (cases "word_of_int (past_time st r) < BeginTime ck")
      case True
      then have "window_state st ck votes r = ThresholdDefined" using unfold(1) by simp
      then show ?thesis using True None sound_update[OF less.prems(1,4,2)]
        by (intro exI[of _ "Some r"] exI[of _ "[]"] exI[of _ "cache_Update (hash_at st r) ThresholdDefined cache"]
            exI[of _ ThresholdDefined])
          (simp add: collectLoop.simps[of "Some r"] cache_Lookup_def CalcPastMedianTime_past_time, simp add: cache_Update_def)
    next
      case False
      have step: "collectLoop (Some r) st ck cache acc = collectLoop (up st (nat ?w) r) st ck cache (r # acc)"
        using None False window w
        by (simp add: collectLoop.simps[of "Some r"] cache_Lookup_def CalcPastMedianTime_past_time
            RelativeAncestor_up[OF wf less.prems(2)])
      show ?thesis
      proof (cases "up st (nat ?w) r")
        case None
        then show ?thesis using step unfold(1) False less.prems
          by (intro exI[of _ None] exI[of _ "[r]"] exI[of _ cache]) (simp add: collectLoop.simps[of None])
      next
        case (Some p)
        note p = unfold(2)[OF Some]
        then have "nat (height st p) < nat (height st r)" using window wf_height[OF wf, of p] by simp
        from less.hyps[OF this, of "r # acc"] p less.prems(1,4) obtain q rs cache' u where ih:
            "collectLoop (Some p) st ck cache (r # acc) = Some (Ok (q, rs @ r # acc, cache'))" "sound st ck votes cache'"
            "case q of None \<Rightarrow> u = ThresholdDefined | Some q \<Rightarrow> cache' (hash_at st q) = Some u"
            "path rs u (window_state st ck votes p)" by blast
        have "path (rs @ [r]) u (window_state st ck votes r)"
          using ih(4) unfold(1) False Some less.prems by (auto simp: path_append)
        then show ?thesis using step ih Some
          by (intro exI[of _ q] exI[of _ "rs @ [r]"] exI[of _ cache'] exI[of _ u]) simp
      qed
    qed
  qed
qed

lemma state_run:
  assumes "window_store st ck" "case prev of None \<Rightarrow> True | Some r \<Rightarrow> r < fresh st" "sound st ck votes cache" "inv s"
  shows "\<exists>cache' s'. thresholdState st ck prev (cache, s) = (Ok (spec_state st ck votes prev), (cache', s')) \<and>
    sound st ck votes cache' \<and> inv s'"
proof (cases prev)
  case None
  then show ?thesis using assms by (simp add: thresholdState_def spec_state_def ret_def Let_def)
next
  case (Some r)
  let ?w = "ck_windowSize ck" and ?h = "height st r"
  have r: "r < fresh st" using assms(2) Some by simp
  note wf = assms(1)[unfolded window_store_def, THEN conjunct1]
  have window: "0 < ck_windowSize ck" using assms(1) by (simp add: window_store_def)
  have h: "0 \<le> ?h" "?h < 2 ^ 31 - 1" using wf_height[OF wf r] by auto
  show ?thesis
  proof (cases "?h + 1 < ?w")
    case True
    then show ?thesis using assms h Some by (simp add: thresholdState_def spec_state_def ret_def Let_def)
  next
    case False
    let ?o = "(?h + 1) mod ?w"
    have o: "0 \<le> ?o" "?o \<le> ?h"
      using window False pos_mod_bound[OF window, of "?h + 1"] pos_mod_sign[OF window, of "?h + 1"] by linarith+
    have rem: "go_rem (?h + 1) ?w = (Ok ?o :: (chain_error, int) res)" using h window by (simp add: go_rem_def sgn_if)
    have i: "i32 (?h - ?o) = ?h - ?o" using o h by simp
    obtain b where b: "ancestor_at st r (?h - ?o) = Some b"
      using ancestor_at_defined[OF wf r, of "?h - ?o"] o by auto
    note bw = ancestor_at_wf[OF wf r b]
    have e: "window_end st ck b" using bw by (simp add: window_end_def mod_diff_left_eq[symmetric] algebra_simps)
        (metis add_diff_cancel_right' minus_mod_eq_mult_div mod_mult_self1_is_0 add.commute diff_add_eq)
    obtain p rs cache' u where c: "collectLoop (Some b) st ck cache [] = Some (Ok (p, rs, cache'))" "sound st ck votes cache'"
        "case p of None \<Rightarrow> u = ThresholdDefined | Some q \<Rightarrow> cache' (hash_at st q) = Some u"
        "path rs u (window_state st ck votes b)"
      using collect_run[of b cache "[]"] bw e assms(1,3) by auto
    obtain cache'' s' where run: "runNeeded st ck rs u (cache', s) = (Ok (window_state st ck votes b), (cache'', s'))"
        "sound st ck votes cache''" "inv s'"
      using needed_run[OF assms(1) c(4,2) assms(4)] by blast
    have "thresholdState st ck prev (cache, s) = runNeeded st ck rs u (cache', s)"
      using c(1,3) False h Some i
      by (auto simp: thresholdState_def Let_def rem bnd_def lift_res_def Ancestor_up[OF wf r] b cache_Lookup_def
          split: option.splits)
    moreover have "spec_state st ck votes prev = window_state st ck votes b" using Some False b by (simp add: spec_state_def)
    ultimately show ?thesis using run by auto
  qed
qed

end

subsection \<open>The known deployments\<close>

interpretation deployment: threshold_checker st "deploymentChecker params st d :: unit checker" "deployment_condition st d" "\<lambda>_. True"
  for st params d
  by unfold_locales (simp add: deploymentChecker_def ret_def)

definition voting_store :: "Params \<Rightarrow> node_store \<Rightarrow> bool" where
  "voting_store params st \<longleftrightarrow>
     wf_store st \<and> inj_on (hash_at st) {..<fresh st} \<and> 0 < i32 (uint (MinerConfirmationWindow params))"

definition deployment_state :: "Params \<Rightarrow> node_store \<Rightarrow> ConsensusDeployment \<Rightarrow> noderef option \<Rightarrow> ThresholdState" where
  "deployment_state params st d =
     spec_state st (deploymentChecker params st d :: unit checker) (deployment_condition st d)"

definition caches_sound :: "Params \<Rightarrow> node_store \<Rightarrow> thresholdStateCache list \<Rightarrow> bool" where
  "caches_sound params st caches \<longleftrightarrow> list_all2
     (\<lambda>d. sound st (deploymentChecker params st d :: unit checker) (deployment_condition st d)) (Deployments params) caches"

definition known_prev :: "node_store \<Rightarrow> noderef option \<Rightarrow> bool" where
  "known_prev st prev \<longleftrightarrow> (case prev of None \<Rightarrow> True | Some r \<Rightarrow> r < fresh st)"

lemma window_store_deployment: "window_store st (deploymentChecker params st d) \<longleftrightarrow> voting_store params st"
  by (simp add: window_store_def voting_store_def ck_windowSize_def deploymentChecker_def)

lemma caches_sound_empty: "caches_sound params st (newThresholdCaches (length (Deployments params)))"
  by (simp add: caches_sound_def newThresholdCaches_def list_all2_conv_all_nth sound_no_entries)

lemma on_cache_run:
  assumes "voting_store params st" "known_prev st prev" "caches_sound params st caches" "i < length (Deployments params)"
  shows "\<exists>caches'. on_cache i (thresholdState st (deploymentChecker params st (Deployments params ! i)) prev) caches =
    (Ok (deployment_state params st (Deployments params ! i) prev), caches') \<and> caches_sound params st caches'"
proof -
  let ?d = "Deployments params ! i"
  have s: "sound st (deploymentChecker params st ?d :: unit checker) (deployment_condition st ?d) (caches ! i)"
      and l: "length caches = length (Deployments params)"
    using assms(3,4) by (auto simp: caches_sound_def list_all2_conv_all_nth)
  obtain c where c: "thresholdState st (deploymentChecker params st ?d) prev (caches ! i, ()) =
      (Ok (deployment_state params st ?d prev), (c, ()))"
      "sound st (deploymentChecker params st ?d :: unit checker) (deployment_condition st ?d) c"
    using deployment.state_run[of st params ?d prev "caches ! i" "()"] assms(1,2) s
    by (auto simp: window_store_deployment known_prev_def deployment_state_def)
  have "caches_sound params st (caches[i := c])"
    unfolding caches_sound_def list_all2_conv_all_nth
  proof (intro conjI allI impI)
    fix j
    assume "j < length (Deployments params)"
    then show "sound st (deploymentChecker params st (Deployments params ! j) :: unit checker)
        (deployment_condition st (Deployments params ! j)) (caches[i := c] ! j)"
      using assms(3) c(2) by (cases "j = i") (simp_all add: caches_sound_def list_all2_conv_all_nth)
  qed (simp add: l)
  then show ?thesis using c(1) l assms(4) by (simp add: on_cache_def)
qed

text \<open>The version the code expects, and the blocks that vote for an unknown rule.\<close>

definition version_step :: "Params \<Rightarrow> node_store \<Rightarrow> noderef option \<Rightarrow> 32 word \<Rightarrow> ConsensusDeployment \<Rightarrow> 32 word" where
  "version_step params st prev v d =
     (if deployment_state params st d prev \<in> {ThresholdStarted, ThresholdLockedIn} then v OR push_bit (BitNumber d) 1 else v)"

definition expected_version :: "Params \<Rightarrow> node_store \<Rightarrow> noderef option \<Rightarrow> 32 word" where
  "expected_version params st prev = foldl (version_step params st prev) vbTopBits (Deployments params)"

definition unknown_vote :: "Params \<Rightarrow> node_store \<Rightarrow> nat \<Rightarrow> noderef \<Rightarrow> bool" where
  "unknown_vote params st b r \<longleftrightarrow>
     (let version = node_version (node_at st r)
      in version AND vbTopMask = vbTopBits \<and> version AND push_bit b 1 \<noteq> 0 \<and>
         expected_version params st (parent st r) AND push_bit b 1 = 0)"

lemma version_run:
  assumes "voting_store params st" "known_prev st prev" "Deployments params = done @ ds" "caches_sound params st caches"
  shows "\<exists>caches'. nextVersionLoop params st prev (enumerate (length done) ds) v caches =
    (Ok (foldl (version_step params st prev) v ds), caches') \<and> caches_sound params st caches'"
  using assms(3,4)
proof (induction ds arbitrary: "done" v caches)
  case Nil
  then show ?case by (simp add: ret_def)
next
  case (Cons d ds)
  have "length done < length (Deployments params)" "Deployments params ! length done = d" using Cons.prems(1) by simp_all
  with on_cache_run[OF assms(1,2) Cons.prems(2), of "length done"] obtain c where c:
    "on_cache (length done) (thresholdState st (deploymentChecker params st d) prev) caches =
       (Ok (deployment_state params st d prev), c)" "caches_sound params st c" by auto
  have "nextVersionLoop params st prev (enumerate (length done) (d # ds)) v caches =
      nextVersionLoop params st prev (enumerate (length (done @ [d])) ds) (version_step params st prev v d) c"
    using c(1) by (simp add: bnd_def version_step_def)
  then show ?case
    using Cons.IH[of "done @ [d]" c "version_step params st prev v d"] Cons.prems(1) c(2) by simp
qed

lemma nextBlockVersion_run:
  assumes "voting_store params st" "known_prev st prev" "caches_sound params st caches"
  shows "\<exists>caches'. calcNextBlockVersion params st prev caches = (Ok (expected_version params st prev), caches') \<and>
    caches_sound params st caches'"
  using version_run[OF assms(1,2) _ assms(3), of "[]" "Deployments params" vbTopBits]
  by (simp add: calcNextBlockVersion_def expected_version_def)

interpretation unknown: threshold_checker st "bitConditionChecker params st b" "unknown_vote params st b" "caches_sound params st"
  for st params b
proof unfold_locales
  fix r caches
  assume ws: "window_store st (bitConditionChecker params st b)" and r: "r < fresh st" and c: "caches_sound params st caches"
  then have v: "voting_store params st"
    by (simp add: window_store_def voting_store_def ck_windowSize_def bitConditionChecker_def)
  have "known_prev st (parent st r)"
    using wf_parent[of st r] r v by (auto simp: known_prev_def voting_store_def split: option.split)
  from nextBlockVersion_run[OF v this c]
  show "\<exists>s'. Condition (bitConditionChecker params st b) r caches = (Ok (unknown_vote params st b r), s') \<and>
      caches_sound params st s'"
    using c by (auto simp: bitConditionChecker_def bit_condition_def unknown_vote_def Let_def ret_def bnd_def)
qed

subsection \<open>Properties\<close>

text \<open>
  Claim C10. The cached computation of a deployment's state implements the voting rules.  On a well-formed store
  in which no two nodes share a hash, with a positive window and caches that are sound so far,
  \<^verbatim>\<open>deploymentState\<close> returns, for each known deployment and any previous block, the state that the rules
  give without a cache (defined, started, locked in with enough votes in the last whole window, active, failed,
  window by window from the first), and it leaves all caches sound, so that any later call is right too.
\<close>

theorem deployment_state_cached:
  assumes "voting_store params st" "known_prev st prev" "caches_sound params st caches" "i < length (Deployments params)"
  shows "\<exists>caches'. deploymentState params st prev i caches =
    (Ok (deployment_state params st (Deployments params ! i) prev), caches') \<and> caches_sound params st caches'"
  using on_cache_run[OF assms] assms(4) by (simp add: deploymentState_def nth_res_def bnd_def lift_res_def)

text \<open>Four nodes that vote with bit 28, in windows of two of which one vote is enough.\<close>

definition demo_params :: Params where
  "demo_params = RegressionTestParams\<lparr>MinerConfirmationWindow := 2, RuleChangeActivationThreshold := 1\<rparr>"

definition demo_votes :: node_store where
  "demo_votes = \<lparr>node_at = (\<lambda>r. \<lparr>node_parent = (case r of 0 \<Rightarrow> None | Suc p \<Rightarrow> Some p), node_hash = [of_nat r], workSum = None,
     node_height = int r, node_version = 0x30000000, node_bits = 0, node_nonce = 0, node_timestamp = int r,
     node_merkleRoot = [], node_status = 0\<rparr>), fresh = 4\<rparr>"

lemma demo_votes_store: "voting_store demo_params demo_votes"
proof -
  have "{..<(4::nat)} = {0, 1, 2, 3}" by auto
  then show ?thesis
    by (auto simp: voting_store_def wf_store_def wf_node_def demo_votes_def demo_params_def RegressionTestParams_def
        hash_at_def parent_def height_def inj_on_def split: nat.split)
qed

lemma demo_votes_state: "deployment_state demo_params demo_votes (Deployments demo_params ! 0) (Some 3) = ThresholdLockedIn"
  by code_simp

theorem deployment_state_cached_witness:
  "\<exists>caches'. deploymentState demo_params demo_votes (Some 3) 0 (newThresholdCaches 3) = (Ok ThresholdLockedIn, caches')"
proof -
  have l: "length (Deployments demo_params) = 3" by (simp add: demo_params_def RegressionTestParams_def)
  have f: "fresh demo_votes = 4" by (simp add: demo_votes_def)
  show ?thesis
    using deployment_state_cached[OF demo_votes_store _ caches_sound_empty, of "Some 3" 0] l
    f
    by (auto simp: known_prev_def demo_votes_state)
qed

text \<open>An identifier one past the last deployment panics; larger ones are reported.\<close>

lemma deploymentState_past_end:
  "deploymentState params st prev (length (Deployments params)) caches = (Panic, caches)"
  "length (Deployments params) < n \<Longrightarrow>
     deploymentState params st prev n caches = (Err (DeploymentError (word_of_nat n)), caches)"
  by (simp_all add: deploymentState_def nth_res_def bnd_def lift_res_def throw_def)

text \<open>The warnings about unknown rules count the votes for bits that no known deployment explains.\<close>

lemma unknown_rule_state:
  assumes "voting_store params st" "known_prev st prev" "sound st (bitConditionChecker params st b) (unknown_vote params st b) cache"
    "caches_sound params st caches"
  shows "\<exists>cache' caches'. thresholdState st (bitConditionChecker params st b) prev (cache, caches) =
    (Ok (spec_state st (bitConditionChecker params st b) (unknown_vote params st b) prev), (cache', caches')) \<and>
    sound st (bitConditionChecker params st b) (unknown_vote params st b) cache' \<and> caches_sound params st caches'"
proof -
  have "window_store st (bitConditionChecker params st b)"
    using assms(1) by (simp add: window_store_def voting_store_def ck_windowSize_def bitConditionChecker_def)
  then show ?thesis using unknown.state_run[of st params b prev cache caches] assms(2-4) by (simp add: known_prev_def)
qed

end
