(* ===== verification/Difficulty.thy ===== *)
theory Difficulty
  imports Params
begin

text \<open>
  Required difficulty (\<^verbatim>\<open>pkg/chain/difficulty.go\<close>, \<^verbatim>\<open>forkhalcyon.go\<close>) and the network time
  (\<^verbatim>\<open>mediantime.go\<close>).

  The retargeting rule after the second fork works on floating point averages of another package and is the
  parameter \<open>plan9\<close>.  The clock is an argument of the operations that read it.
\<close>

unbundle bit_operations_syntax

subsection \<open>The rule before the second fork\<close>

primrec averagingLoop ::
  "bool \<Rightarrow> node_store \<Rightarrow> 32 word \<Rightarrow> nat \<Rightarrow> noderef option \<Rightarrow> (unit, noderef option) res" where
  "averagingLoop testnet st algo 0 firstNode = Ok firstNode"
| "averagingLoop testnet st algo (Suc n) firstNode =
     (case firstNode of None \<Rightarrow> Ok None
      | Some r \<Rightarrow>
          bind_res (RelativeAncestor st r 1) (\<lambda>node.
          bind_res (GetLastWithAlgo testnet st node algo) (\<lambda>node.
            averagingLoop testnet st algo n node)))"

text \<open>\<^verbatim>\<open>Div\<close> of big integers is Euclidean and panics on a zero divisor.\<close>

definition big_Div :: "int \<Rightarrow> int \<Rightarrow> ('e, int) res" where
  "big_Div a b = (if b = 0 then Panic else Ok (sgn b * (a div \<bar>b\<bar>)))"

text \<open>The height of the node is read before the test for \<^verbatim>\<open>nil\<close>.\<close>

definition CalcNextRequiredDifficultyHalcyon ::
  "bool \<Rightarrow> Params \<Rightarrow> (nat \<Rightarrow> nat) \<Rightarrow> node_store \<Rightarrow> noderef option \<Rightarrow> string \<Rightarrow> (unit, 32 word) res" where
  "CalcNextRequiredDifficultyHalcyon testnet params intn st lastNode algoname =
     (case lastNode of None \<Rightarrow> Panic
      | Some l \<Rightarrow>
          let nH = i32 (height st l + 1);
              algo = GetAlgoVer testnet intn algoname nH;
              algoName = GetAlgoName testnet algo nH;
              newTargetBits = GetMinBits testnet algoName nH
          in bind_res (GetLastWithAlgo testnet st (Some l) (word_of_int algo)) (\<lambda>prevNode.
               case prevNode of None \<Rightarrow> Ok newTargetBits
               | Some p \<Rightarrow>
                   bind_res (averagingLoop testnet st (word_of_int algo) (nat (GetAveragingInterval testnet nH - 1)) (Some p)) (\<lambda>firstNode.
                     case firstNode of None \<Rightarrow> Ok newTargetBits
                     | Some f \<Rightarrow>
                         let actualTimespan = i64 (node_timestamp (node_at st p) - node_timestamp (node_at st f));
                             adjustedTimespan =
                               (if actualTimespan < MinActualTimespan params then MinActualTimespan params
                                else if actualTimespan > MaxActualTimespan params then MaxActualTimespan params
                                else actualTimespan);
                             oldTarget = CompactToBig (node_bits (node_at st p))
                         in bind_res (big_Div (oldTarget * adjustedTimespan) (AveragingTargetTimespan params)) (\<lambda>newTarget.
                              let newTarget = (if newTarget > CompactToBig newTargetBits then CompactToBig newTargetBits else newTarget)
                              in Ok (BigToCompact newTarget)))))"

definition calcNextRequiredDifficulty ::
  "bool \<Rightarrow> Params \<Rightarrow> (nat \<Rightarrow> nat) \<Rightarrow> (node_store \<Rightarrow> noderef option \<Rightarrow> int \<Rightarrow> string \<Rightarrow> (unit, 32 word) res) \<Rightarrow>
   node_store \<Rightarrow> noderef option \<Rightarrow> int \<Rightarrow> string \<Rightarrow> (unit, 32 word) res" where
  "calcNextRequiredDifficulty testnet params intn plan9 st lastNode newBlockTime algoname =
     (case lastNode of None \<Rightarrow> Panic
      | Some l \<Rightarrow>
          let nH = i32 (height st l + 1) in
          if GetCurrent testnet nH = 0 then CalcNextRequiredDifficultyHalcyon testnet params intn st (Some l) algoname
          else if GetCurrent testnet nH = 1 then plan9 st (Some l) newBlockTime algoname
          else Ok (GetMinBits testnet algoname nH))"

subsection \<open>The easiest difficulty\<close>

partial_function (option) easiestLoop :: "int \<Rightarrow> int \<Rightarrow> int \<Rightarrow> int \<Rightarrow> int \<Rightarrow> int option" where
  "easiestLoop powLimit factor timespan durationVal newTarget =
     (if durationVal > 0 \<and> newTarget < powLimit
      then easiestLoop powLimit factor timespan (i64 (durationVal - timespan)) (newTarget * factor)
      else Some newTarget)"

definition maxRetargetTimespan :: "Params \<Rightarrow> int" where
  "maxRetargetTimespan params = i64 (TargetTimespan params * RetargetAdjustmentFactor params)"

definition calcEasiestDifficulty :: "Params \<Rightarrow> 32 word \<Rightarrow> int \<Rightarrow> (unit, 32 word) res" where
  "calcEasiestDifficulty params bits duration =
     (let durationVal = Quo duration 1000000000 in
      bind_res (returned (easiestLoop (PowLimit params) (RetargetAdjustmentFactor params) (maxRetargetTimespan params)
          durationVal (CompactToBig bits))) (\<lambda>newTarget.
        Ok (BigToCompact (if newTarget > PowLimit params then PowLimit params else newTarget))))"

lemma easiestLoop_returns:
  assumes "0 < timespan" "timespan < 2 ^ 63"
  shows "d < 2 ^ 63 \<Longrightarrow> - (2 ^ 63) \<le> d \<Longrightarrow> \<exists>t. easiestLoop powLimit factor timespan d target = Some t"
proof (induction "nat d" arbitrary: d target rule: less_induct)
  case less
  show ?case
  proof (cases "d > 0 \<and> target < powLimit")
    case True
    then have i: "i64 (d - timespan) = d - timespan" using assms less.prems by simp
    then have "\<exists>t. easiestLoop powLimit factor timespan (d - timespan) (target * factor) = Some t"
      using less.hyps[of "d - timespan" "target * factor"] True assms less.prems by simp
    then show ?thesis using True i by (subst easiestLoop.simps) simp
  next
    case False
    then show ?thesis by (subst easiestLoop.simps) auto
  qed
qed

subsection \<open>Network time\<close>

definition maxAllowedOffsetSecs :: int where "maxAllowedOffsetSecs = 70 * 60"

definition maxMedianTimeEntries :: nat where "maxMedianTimeEntries = 200"

record medianTime =
  knownIDs :: "byte list set"
  offsets :: "int list"
  offsetSecs :: int
  invalidTimeChecked :: bool

definition NewMedianTime :: medianTime where
  "NewMedianTime = \<lparr>knownIDs = {}, offsets = [], offsetSecs = 0, invalidTimeChecked = False\<rparr>"

text \<open>\<open>now\<close> is the clock in nanoseconds; a difference of times saturates at 64 bits.\<close>

definition AdjustedTime :: "medianTime \<Rightarrow> int \<Rightarrow> int" where
  "AdjustedTime m now = unix_time (Unix now) + offsetSecs m * 1000000000"

definition time_Sub :: "int \<Rightarrow> int \<Rightarrow> int" where
  "time_Sub t u = max (- (2 ^ 63)) (min (2 ^ 63 - 1) (t - u))"

definition append_offset :: "int \<Rightarrow> int list \<Rightarrow> int list" where
  "append_offset x xs = (if length xs = maxMedianTimeEntries \<and> maxMedianTimeEntries > 0 then tl xs else xs) @ [x]"

definition AddTimeSample :: "byte list \<Rightarrow> int \<Rightarrow> int \<Rightarrow> medianTime \<Rightarrow> medianTime" where
  "AddTimeSample sourceID timeVal now m =
     (if sourceID \<in> knownIDs m then m
      else
        let off = Quo (time_Sub timeVal (unix_time (Unix now))) 1000000000;
            m = m\<lparr>knownIDs := insert sourceID (knownIDs m), offsets := append_offset off (offsets m)\<rparr>;
            numOffsets = length (offsets m);
            sortedOffsets = sort (offsets m)
        in if numOffsets < 5 \<or> even numOffsets then m
           else
             let median = sortedOffsets ! (numOffsets div 2) in
             if \<bar>median\<bar> < maxAllowedOffsetSecs then m\<lparr>offsetSecs := median\<rparr>
             else m\<lparr>offsetSecs := 0, invalidTimeChecked := True\<rparr>)"

definition Offset :: "medianTime \<Rightarrow> int" where
  "Offset m = offsetSecs m * 1000000000"

text \<open>A sample: the source, the time it told and the clock when it arrived.\<close>

type_synonym sample = "byte list \<times> int \<times> int"

definition samples :: "sample list \<Rightarrow> medianTime" where
  "samples ss = fold (\<lambda>(i, t, now). AddTimeSample i t now) ss NewMedianTime"

definition wf_time :: "medianTime \<Rightarrow> bool" where
  "wf_time m \<longleftrightarrow> \<bar>offsetSecs m\<bar> < maxAllowedOffsetSecs \<and> length (offsets m) \<le> maxMedianTimeEntries"

lemma length_append_offset:
  "length (append_offset x xs) = (if length xs = maxMedianTimeEntries then maxMedianTimeEntries else Suc (length xs))"
  by (simp add: append_offset_def maxMedianTimeEntries_def)

lemma AddTimeSample_wf: "wf_time m \<Longrightarrow> wf_time (AddTimeSample i t now m)"
  by (auto simp: wf_time_def AddTimeSample_def Let_def length_append_offset maxAllowedOffsetSecs_def)

lemma samples_wf: "wf_time (samples ss)"
proof -
  have "wf_time (fold (\<lambda>(i, t, now). AddTimeSample i t now) ss m)" if "wf_time m" for m
    using that by (induction ss arbitrary: m) (auto simp: AddTimeSample_wf)
  moreover have "wf_time NewMedianTime" by (simp add: wf_time_def NewMedianTime_def maxAllowedOffsetSecs_def)
  ultimately show ?thesis by (simp add: samples_def)
qed

lemma AddTimeSample_full:
  "length (offsets m) = maxMedianTimeEntries \<Longrightarrow>
   offsetSecs (AddTimeSample i t now m) = offsetSecs m \<and> length (offsets (AddTimeSample i t now m)) = maxMedianTimeEntries"
  by (auto simp: AddTimeSample_def Let_def length_append_offset maxMedianTimeEntries_def)

lemma samples_append: "samples (ss @ ts) = fold (\<lambda>(i, t, now). AddTimeSample i t now) ts (samples ss)"
  by (simp add: samples_def)

lemma samples_frozen:
  "length (offsets m) = maxMedianTimeEntries \<Longrightarrow>
   offsetSecs (fold (\<lambda>(i, t, now). AddTimeSample i t now) ts m) = offsetSecs m"
proof (induction ts arbitrary: m)
  case (Cons s ts)
  obtain i t n where s: "s = (i, t, n)" by (cases s)
  show ?case using AddTimeSample_full[of m i t n] Cons by (simp add: s)
qed simp

lemma samples_of_sources:
  "distinct (map fst ss) \<Longrightarrow> knownIDs (samples ss) = fst ` set ss \<and> length (offsets (samples ss)) = min (length ss) maxMedianTimeEntries"
proof (induction ss rule: rev_induct)
  case Nil
  then show ?case by (simp add: samples_def NewMedianTime_def)
next
  case (snoc s ss)
  obtain i t n where s: "s = (i, t, n)" by (cases s)
  then have "i \<notin> knownIDs (samples ss)" using snoc by auto
  then have "knownIDs (AddTimeSample i t n (samples ss)) = insert i (knownIDs (samples ss))"
      "length (offsets (AddTimeSample i t n (samples ss))) =
        (if length (offsets (samples ss)) = maxMedianTimeEntries then maxMedianTimeEntries else Suc (length (offsets (samples ss))))"
    by (simp_all add: AddTimeSample_def Let_def length_append_offset)
  then show ?case using snoc by (auto simp: samples_append s)
qed

text \<open>Samples from \<open>n\<close> sources that all tell the time of the clock.\<close>

definition demo_samples :: "nat \<Rightarrow> sample list" where
  "demo_samples n = map (\<lambda>i. (replicate i 0, 0, 0)) [0..<n]"

lemma demo_samples_full: "n = maxMedianTimeEntries \<Longrightarrow> length (offsets (samples (demo_samples n))) = maxMedianTimeEntries"
proof -
  assume n: "n = maxMedianTimeEntries"
  have "distinct (map fst (demo_samples n))"
    by (auto simp: demo_samples_def distinct_map comp_def inj_on_def dest: arg_cong[where f = length])
  then show ?thesis using samples_of_sources[of "demo_samples n"] n by (simp add: demo_samples_def)
qed

subsection \<open>Properties\<close>

text \<open>
  Claim C39. Before the second fork the difficulty is never retargeted.  Because \<^verbatim>\<open>GetLastWithAlgo\<close> tests its own
  empty result, \<^verbatim>\<open>CalcNextRequiredDifficultyHalcyon\<close> answers the minimum bits of the algorithm for every node of
  every chain, whatever the timestamps and targets of the blocks are.
\<close>

theorem halcyon_never_retargets:
  "CalcNextRequiredDifficultyHalcyon testnet params intn st (Some l) algoname =
   Ok (let nH = i32 (height st l + 1)
       in GetMinBits testnet (GetAlgoName testnet (GetAlgoVer testnet intn algoname nH) nH) nH)"
  by (simp add: CalcNextRequiredDifficultyHalcyon_def GetLastWithAlgo_nil Let_def)

text \<open>
  Claim C29. The network time stays near the clock.  After any sequence of samples from peers the offset is less than
  seventy minutes in either direction and at most 200 samples are kept; and once 200 are kept, no further sequence of
  samples changes the offset, as the comment in the code admits.
\<close>

theorem network_time_bounded:
  "\<bar>AdjustedTime (samples ss) now - unix_time (Unix now)\<bar> < 70 * 60 * 1000000000 \<and>
   length (offsets (samples ss)) \<le> 200 \<and>
   (length (offsets (samples ss)) = 200 \<longrightarrow> Offset (samples (ss @ ts)) = Offset (samples ss))"
proof (intro conjI impI)
  have w: "\<bar>offsetSecs (samples ss)\<bar> < 4200" "length (offsets (samples ss)) \<le> 200"
    using samples_wf[of ss] by (simp_all add: wf_time_def maxAllowedOffsetSecs_def maxMedianTimeEntries_def)
  then show "\<bar>AdjustedTime (samples ss) now - unix_time (Unix now)\<bar> < 70 * 60 * 1000000000"
    by (simp add: AdjustedTime_def abs_mult)
  show "length (offsets (samples ss)) \<le> 200" by (rule w(2))
  assume "length (offsets (samples ss)) = 200"
  then have "length (offsets (samples ss)) = maxMedianTimeEntries" by (simp add: maxMedianTimeEntries_def)
  from samples_frozen[OF this] show "Offset (samples (ss @ ts)) = Offset (samples ss)"
    by (simp add: Offset_def samples_append)
qed

theorem network_time_bounded_witness:
  "Offset (samples (demo_samples 200 @ [([1], 1000, 0)])) = Offset (samples (demo_samples 200))"
proof -
  have "length (offsets (samples (demo_samples 200))) = 200"
    using demo_samples_full[of 200] by (simp only: maxMedianTimeEntries_def)
  then show ?thesis using network_time_bounded[of "demo_samples 200" 0 "[([1], 1000, 0)]"] by blast
qed

end
