(* ===== verification/Merkle.thy ===== *)
theory Merkle
  imports Utxo
begin

text \<open>
  Merkle trees and witness commitments (\<^verbatim>\<open>pkg/chain/merkle.go\<close>).

  \<open>BuildMerkleTreeStore\<close> keeps the tree in one array, as the code does: the leaves, padded with \<^verbatim>\<open>nil\<close> to a power of
  two, and then each level after the one below it.  The specification \<open>merkle_root\<close> pairs the hashes of a list
  until one is left.  \<open>merkle_binding\<close> is what the root is for: lists of the same length with the same root are
  equal, when the hash does not collide on the inputs it was given in the two trees.
\<close>

unbundle bit_operations_syntax

subsection \<open>Building the tree\<close>

definition CoinbaseWitnessDataLen :: nat where "CoinbaseWitnessDataLen = 32"

definition CoinbaseWitnessPkScriptLength :: nat where "CoinbaseWitnessPkScriptLength = 38"

definition WitnessMagicBytes :: "byte list" where
  "WitnessMagicBytes = [OP_RETURN, OP_DATA_36, 0xaa, 0x21, 0xa9, 0xed]"

text \<open>The whole part of the binary logarithm of a positive number.\<close>

fun log2 :: "nat \<Rightarrow> nat" where
  "log2 n = (if n \<le> 1 then 0 else Suc (log2 (n div 2)))"

declare log2.simps [simp del]

definition nextPowerOfTwo :: "nat \<Rightarrow> nat" where
  "nextPowerOfTwo n = (if n AND (n - 1) = 0 then n else 2 ^ (log2 n + 1))"

definition HashMerkleBranches :: "byte list \<Rightarrow> byte list \<Rightarrow> byte list" where
  "HashMerkleBranches left right = DoubleHashH (left @ right)"

definition merkleParent :: "byte list option \<Rightarrow> byte list option \<Rightarrow> byte list option" where
  "merkleParent left right =
     (case left of None \<Rightarrow> None
      | Some l \<Rightarrow> (case right of None \<Rightarrow> Some (HashMerkleBranches l l) | Some r \<Rightarrow> Some (HashMerkleBranches l r)))"

definition merkleLeaf :: "bool \<Rightarrow> nat \<Rightarrow> MsgTx \<Rightarrow> byte list" where
  "merkleLeaf witness i tx = (if witness \<and> i = 0 then zeroHash else if witness then WitnessHash tx else TxHash tx)"

definition merkleLeaves :: "bool \<Rightarrow> MsgTx list \<Rightarrow> byte list list" where
  "merkleLeaves witness transactions = map_idx (merkleLeaf witness) transactions"

text \<open>The loop fills the entry \<open>nextPoT + j\<close> from the entries \<open>2 * j\<close> and \<open>2 * j + 1\<close>; without transactions the length of the array is negative.\<close>

definition merkleStep :: "nat \<Rightarrow> byte list option list \<Rightarrow> nat \<Rightarrow> byte list option list" where
  "merkleStep nextPoT merkles j = merkles[nextPoT + j := merkleParent (merkles ! (2 * j)) (merkles ! (2 * j + 1))]"

definition BuildMerkleTreeStore :: "MsgTx list \<Rightarrow> bool \<Rightarrow> ('e, byte list option list) res" where
  "BuildMerkleTreeStore transactions witness =
     (let nextPoT = nextPowerOfTwo (length transactions); arraySize = nextPoT * 2 - 1 in
      if transactions = [] then Panic
      else Ok (foldl (merkleStep nextPoT)
        (map Some (merkleLeaves witness transactions) @ replicate (arraySize - length transactions) None)
        [0..<nextPoT - 1]))"

definition ExtractWitnessCommitment :: "MsgTx \<Rightarrow> byte list option" where
  "ExtractWitnessCommitment tx =
     (if \<not> IsCoinBase tx then None
      else map_option (\<lambda>txOut. take (CoinbaseWitnessPkScriptLength - length WitnessMagicBytes)
             (drop (length WitnessMagicBytes) (PkScript txOut)))
           (find (\<lambda>txOut. CoinbaseWitnessPkScriptLength \<le> length (PkScript txOut) \<and>
               take (length WitnessMagicBytes) (PkScript txOut) = WitnessMagicBytes)
             (rev (txOuts tx))))"

definition ValidateWitnessCommitment :: "Block \<Rightarrow> (chain_error, unit) res" where
  "ValidateWitnessCommitment blk =
     (let txs = block_Transactions blk; coinbaseTx = txs ! 0 in
      if txs = [] then Err (ruleError ErrNoTransactions)
      else if txIns coinbaseTx = [] then Err (ruleError ErrNoTxInputs)
      else case ExtractWitnessCommitment coinbaseTx of
        None \<Rightarrow> if \<exists>tx \<in> set txs. HasWitness tx then Err (ruleError ErrUnexpectedWitness) else Ok ()
      | Some witnessCommitment \<Rightarrow>
          let coinbaseWitness = Witness (txIns coinbaseTx ! 0); witnessNonce = coinbaseWitness ! 0 in
          if length coinbaseWitness \<noteq> 1 then Err (ruleError ErrInvalidWitnessCommitment)
          else if length witnessNonce \<noteq> CoinbaseWitnessDataLen then Err (ruleError ErrInvalidWitnessCommitment)
          else bind_res (BuildMerkleTreeStore txs True) (\<lambda>witnessMerkleTree.
            case last witnessMerkleTree of None \<Rightarrow> Panic
            | Some witnessMerkleRoot \<Rightarrow>
                if DoubleHashB (witnessMerkleRoot @ witnessNonce) \<noteq> witnessCommitment
                then Err (ruleError ErrWitnessCommitmentMismatch) else Ok ()))"

subsection \<open>The specification\<close>

fun pair_up :: "byte list list \<Rightarrow> byte list list" where
  "pair_up [] = []"
| "pair_up [h] = [HashMerkleBranches h h]"
| "pair_up (l # r # hs) = HashMerkleBranches l r # pair_up hs"

lemma length_pair_up [simp]: "length (pair_up hs) = (length hs + 1) div 2"
  by (induction hs rule: pair_up.induct) auto

function merkle_root :: "byte list list \<Rightarrow> byte list" where
  "merkle_root hs = (if length hs \<le> 1 then (case hs of [] \<Rightarrow> zeroHash | h # _ \<Rightarrow> h) else merkle_root (pair_up hs))"
  by pat_completeness auto

termination
  by (relation "measure length") auto

declare merkle_root.simps [simp del]

lemma merkle_root_one: "merkle_root [h] = h"
  by (simp add: merkle_root.simps)

lemma merkle_root_more: "2 \<le> length hs \<Longrightarrow> merkle_root hs = merkle_root (pair_up hs)"
  by (subst merkle_root.simps) simp

subsection \<open>Powers of two\<close>

lemma log2_bounds: "0 < n \<Longrightarrow> 2 ^ log2 n \<le> n \<and> n < 2 * 2 ^ log2 n"
proof (induction n rule: log2.induct)
  case (1 n)
  show ?case
  proof (cases "n \<le> 1")
    case True
    then show ?thesis using 1(2) by (simp add: log2.simps)
  next
    case False
    then have "2 ^ log2 (n div 2) \<le> n div 2 \<and> n div 2 < 2 * 2 ^ log2 (n div 2)" using 1(1) by simp
    moreover have "log2 n = Suc (log2 (n div 2))" using False by (simp add: log2.simps)
    ultimately show ?thesis by simp linarith
  qed
qed

lemma top_bit: "2 ^ k \<le> n \<Longrightarrow> n < 2 * 2 ^ k \<Longrightarrow> bit (n :: nat) k"
proof -
  assume "2 ^ k \<le> n" "n < 2 * 2 ^ k"
  then have "n div 2 ^ k = 1" by (intro div_nat_eqI) simp_all
  then show "bit n k" by (simp add: bit_iff_odd)
qed

lemma power_and_pred: "(2 :: nat) ^ k AND (2 ^ k - 1) = 0"
proof -
  have "(2 :: nat) ^ k AND mask k = take_bit k (2 ^ k)" by (simp only: take_bit_eq_mask)
  then show ?thesis by (simp add: mask_eq_exp_minus_1)
qed

lemma nextPowerOfTwo_power: "0 < n \<Longrightarrow> \<exists>k. nextPowerOfTwo n = 2 ^ k \<and> n \<le> 2 ^ k \<and> 2 ^ k < 2 * n"
proof -
  assume n: "0 < n"
  note b = log2_bounds[OF n]
  show ?thesis
  proof (cases "n AND (n - 1) = 0")
    case True
    have "n = 2 ^ log2 n"
    proof (rule ccontr)
      assume "n \<noteq> 2 ^ log2 n"
      then have "2 ^ log2 n \<le> n - 1" "n - 1 < 2 * 2 ^ log2 n" using b by auto
      then have "bit (n AND (n - 1)) (log2 n)" using b by (simp add: bit_and_iff top_bit)
      then show False using True by simp
    qed
    then show ?thesis using True n by (auto simp: nextPowerOfTwo_def intro!: exI[of _ "log2 n"])
  next
    case False
    then have "n \<noteq> 2 ^ log2 n" using power_and_pred by metis
    then show ?thesis using b False by (auto simp: nextPowerOfTwo_def intro!: exI[of _ "Suc (log2 n)"])
  qed
qed

subsection \<open>The array of levels\<close>

fun parents :: "byte list option list \<Rightarrow> byte list option list" where
  "parents (l # r # hs) = merkleParent l r # parents hs"
| "parents _ = []"

lemma length_parents [simp]: "length (parents hs) = length hs div 2"
  by (induction hs rule: parents.induct) auto

lemma parents_nth: "2 * j + 1 < length hs \<Longrightarrow> parents hs ! j = merkleParent (hs ! (2 * j)) (hs ! (2 * j + 1))"
proof (induction hs arbitrary: j rule: parents.induct)
  case (1 l r hs)
  then show ?case by (cases j) simp_all
qed simp_all

text \<open>All levels above a level of \<open>2 ^ k\<close> entries.\<close>

primrec levels :: "nat \<Rightarrow> byte list option list \<Rightarrow> byte list option list" where
  "levels 0 hs = hs"
| "levels (Suc k) hs = hs @ levels k (parents hs)"

lemma length_levels: "length hs = 2 ^ k \<Longrightarrow> length (levels k hs) = 2 * 2 ^ k - 1"
  by (induction k arbitrary: hs) auto

lemma levels_nth:
  "length hs = 2 ^ k \<Longrightarrow> j < 2 ^ k - 1 \<Longrightarrow>
   levels k hs ! (2 ^ k + j) = merkleParent (levels k hs ! (2 * j)) (levels k hs ! (2 * j + 1))"
proof (induction k arbitrary: hs j)
  case (Suc k)
  let ?t = "levels k (parents hs)"
  have l: "length (parents hs) = 2 ^ k" using Suc.prems by simp
  have up: "levels (Suc k) hs ! (2 ^ Suc k + i) = ?t ! i" for i using Suc.prems by (simp add: nth_append)
  show ?case
  proof (cases "j < 2 ^ k")
    case True
    have "?t ! j = parents hs ! j" using True l by (cases k) (simp_all add: nth_append)
    moreover have "parents hs ! j = merkleParent (hs ! (2 * j)) (hs ! (2 * j + 1))"
      using True Suc.prems(1) by (intro parents_nth) simp
    ultimately show ?thesis using up[of j] True Suc.prems(1) by (simp add: nth_append)
  next
    case False
    then obtain i where i: "j = 2 ^ k + i" by (metis le_add_diff_inverse not_less)
    have "i < 2 ^ k - 1" using Suc.prems(2) i by simp
    from Suc.IH[OF l this] show ?thesis using up[of j] up[of "2 * i"] up[of "2 * i + 1"] i by (simp add: algebra_simps)
  qed
qed simp

lemma foldl_steps:
  assumes "length ys = 2 * n - 1" "1 \<le> n" "\<And>j. j < n - 1 \<Longrightarrow> ys ! (n + j) = merkleParent (ys ! (2 * j)) (ys ! (2 * j + 1))"
    and "length xs = length ys" "take n xs = take n ys"
  shows "m \<le> n - 1 \<Longrightarrow> length (foldl (merkleStep n) xs [0..<m]) = length ys \<and>
    take (n + m) (foldl (merkleStep n) xs [0..<m]) = take (n + m) ys"
proof (induction m)
  case 0
  then show ?case using assms(4,5) by simp
next
  case (Suc m)
  let ?f = "foldl (merkleStep n) xs [0..<m]"
  have ih: "length ?f = length ys" "take (n + m) ?f = take (n + m) ys" using Suc by auto
  have same: "?f ! i = ys ! i" if "i < n + m" for i
    using ih(2) that by (metis nth_take)
  have "ys ! (n + m) = merkleParent (?f ! (2 * m)) (?f ! (2 * m + 1))"
    using assms(3)[of m] Suc.prems same[of "2 * m"] same[of "2 * m + 1"] by simp
  then show ?case
    using ih Suc.prems assms(1,2)
    by (simp add: take_Suc_conv_app_nth take_update_swap list_update_append merkleStep_def[of n ?f])
qed

lemma parents_nones: "parents (replicate n None) = replicate (n div 2) None"
proof (induction n rule: less_induct)
  case (less n)
  show ?case
  proof (cases "n < 2")
    case True
    then have "n = 0 \<or> n = 1" by auto
    then show ?thesis by auto
  next
    case False
    then obtain m where m: "n = Suc (Suc m)" by (metis Suc_1 add_2_eq_Suc le_Suc_ex not_less)
    then show ?thesis using less[of m] by (simp add: merkleParent_def)
  qed
qed

lemma parents_padded:
  "even (length hs + n) \<Longrightarrow> \<exists>m. parents (map Some hs @ replicate n None) = map Some (pair_up hs) @ replicate m None"
proof (induction hs rule: pair_up.induct)
  case 1
  then show ?case by (auto simp: parents_nones)
next
  case (2 h)
  then obtain m where "n = Suc m" by (cases n) auto
  then show ?case by (auto simp: parents_nones merkleParent_def)
next
  case (3 l r hs)
  then show ?case by (simp add: merkleParent_def)
qed

lemma levels_nonempty: "hs \<noteq> [] \<Longrightarrow> levels k hs \<noteq> []"
  by (cases k) simp_all

lemma half_up: "m < l \<Longrightarrow> 1 \<le> m \<Longrightarrow> m < 2 * ((l + 1) div 2) \<and> 2 \<le> (l :: nat)"
  by presburger

lemma last_levels:
  "2 ^ k < 2 * length hs \<Longrightarrow> length hs + n = 2 ^ k \<Longrightarrow> last (levels k (map Some hs @ replicate n None)) = Some (merkle_root hs)"
proof (induction k arbitrary: hs n)
  case 0
  then have "n = 0" "length hs = 1" by (cases hs; auto)+
  then show ?case by (auto simp: length_Suc_conv merkle_root_one)
next
  case (Suc k)
  let ?p = "map Some hs @ replicate n None"
  obtain m where m: "parents ?p = map Some (pair_up hs) @ replicate m None"
    using parents_padded[of hs n] Suc.prems by auto
  have "length (parents ?p) = 2 ^ k" using Suc.prems by simp
  then have l: "length (pair_up hs) + m = 2 ^ k" using m by (metis length_append length_map length_replicate)
  have "2 ^ k < length hs" using Suc.prems(1) by simp
  note half = half_up[OF this one_le_power]
  then have len: "2 ^ k < 2 * length (pair_up hs)" "2 \<le> length hs" by simp_all
  have "levels k (parents ?p) \<noteq> []"
    using \<open>length (parents ?p) = 2 ^ k\<close> by (intro levels_nonempty) (metis length_0_conv power_not_zero zero_neq_numeral)
  then have "last (levels (Suc k) ?p) = last (levels k (parents ?p))" by simp
  also have "\<dots> = Some (merkle_root (pair_up hs))" unfolding m by (rule Suc.IH[OF len(1) l])
  also have "merkle_root (pair_up hs) = merkle_root hs" by (rule merkle_root_more[OF len(2), symmetric])
  finally show ?case .
qed

lemma length_merkleLeaves [simp]: "length (merkleLeaves witness txs) = length txs"
  by (simp add: merkleLeaves_def)

lemma merkle_store_root:
  assumes "txs \<noteq> []"
  shows "\<exists>m. BuildMerkleTreeStore txs witness = Ok m \<and> last m = Some (merkle_root (merkleLeaves witness txs))"
proof -
  let ?n = "length txs" and ?hs = "merkleLeaves witness txs"
  obtain k where k: "nextPowerOfTwo ?n = 2 ^ k" "?n \<le> 2 ^ k" "2 ^ k < 2 * ?n"
    using nextPowerOfTwo_power[of ?n] assms by auto
  define p where "p = map Some ?hs @ replicate (2 ^ k - ?n) (None :: byte list option)"
  define init where "init = map Some ?hs @ replicate (2 ^ k * 2 - 1 - ?n) (None :: byte list option)"
  have lp: "length p = 2 ^ k" using k by (simp add: p_def)
  have "init = p @ replicate (2 ^ k - 1) None"
    using k(2) by (simp add: init_def p_def flip: replicate_add)
  moreover have "take (2 ^ k) (levels k p) = p" using lp by (cases k) simp_all
  ultimately have "length (foldl (merkleStep (2 ^ k)) init [0..<2 ^ k - 1]) = length (levels k p) \<and>
      take (2 ^ k + (2 ^ k - 1)) (foldl (merkleStep (2 ^ k)) init [0..<2 ^ k - 1]) = take (2 ^ k + (2 ^ k - 1)) (levels k p)"
    using length_levels[OF lp] levels_nth[OF lp] lp by (intro foldl_steps) simp_all
  moreover have "2 ^ k + (2 ^ k - 1) = length (levels k p)" using length_levels[OF lp] by simp
  ultimately have "foldl (merkleStep (2 ^ k)) init [0..<2 ^ k - 1] = levels k p" by (metis order_refl take_all)
  moreover have "last (levels k p) = Some (merkle_root ?hs)"
    unfolding p_def using k by (intro last_levels) simp_all
  ultimately show ?thesis using assms by (simp add: BuildMerkleTreeStore_def Let_def k(1) init_def)
qed

subsection \<open>Binding\<close>

text \<open>The inputs of the hash on one level, and in the whole tree.\<close>

fun pair_inputs :: "byte list list \<Rightarrow> byte list list" where
  "pair_inputs [] = []"
| "pair_inputs [h] = [h @ h]"
| "pair_inputs (l # r # hs) = (l @ r) # pair_inputs hs"

function merkle_inputs :: "byte list list \<Rightarrow> byte list list" where
  "merkle_inputs hs = (if length hs \<le> 1 then [] else pair_inputs hs @ merkle_inputs (pair_up hs))"
  by pat_completeness auto

termination
  by (relation "measure length") auto

declare merkle_inputs.simps [simp del]

lemma pair_up_inj:
  "pair_up xs = pair_up ys \<Longrightarrow> length xs = length ys \<Longrightarrow> \<forall>x \<in> set xs \<union> set ys. length x = 32 \<Longrightarrow>
   inj_on DoubleHashH hashed \<Longrightarrow> set (pair_inputs xs) \<union> set (pair_inputs ys) \<subseteq> hashed \<Longrightarrow> xs = ys"
proof (induction xs arbitrary: ys rule: pair_up.induct)
  case (2 h)
  then obtain h' where ys: "ys = [h']" by (metis length_0_conv length_Suc_conv)
  then have "h @ h = h' @ h'" using 2 by (auto simp: HashMerkleBranches_def dest: inj_onD)
  then show ?case using 2 ys by simp
next
  case (3 l r hs)
  then obtain l' r' hs' where ys: "ys = l' # r' # hs'" by (cases ys rule: pair_up.cases) auto
  then have "l @ r = l' @ r'" using 3 by (auto simp: HashMerkleBranches_def dest: inj_onD)
  moreover have "hs = hs'" using 3 ys by auto
  ultimately show ?case using 3 ys by simp
qed simp

lemma pair_up_lengths: "h \<in> set (pair_up hs) \<Longrightarrow> length h = 32"
  by (induction hs rule: pair_up.induct) (auto simp: HashMerkleBranches_def)

lemma merkle_binding:
  "merkle_root xs = merkle_root ys \<Longrightarrow> length xs = length ys \<Longrightarrow> \<forall>x \<in> set xs \<union> set ys. length x = 32 \<Longrightarrow>
   inj_on DoubleHashH hashed \<Longrightarrow> set (merkle_inputs xs) \<union> set (merkle_inputs ys) \<subseteq> hashed \<Longrightarrow> xs = ys"
proof (induction xs arbitrary: ys rule: merkle_root.induct)
  case (1 xs)
  show ?case
  proof (cases "length xs \<le> 1")
    case True
    then show ?thesis using 1(2,3) by (cases xs; cases ys) (simp_all add: merkle_root_one)
  next
    case False
    then have l: "2 \<le> length xs" "2 \<le> length ys" using 1(3) by auto
    have root: "merkle_root (pair_up xs) = merkle_root (pair_up ys)"
      using 1(2) unfolding merkle_root_more[OF l(1), symmetric] merkle_root_more[OF l(2), symmetric] .
    have "\<forall>x \<in> set (pair_up xs) \<union> set (pair_up ys). length x = 32" using pair_up_lengths by blast
    moreover have i: "set (pair_inputs xs) \<union> set (pair_inputs ys) \<subseteq> hashed"
        "set (merkle_inputs (pair_up xs)) \<union> set (merkle_inputs (pair_up ys)) \<subseteq> hashed"
      using 1(6) l by (simp_all add: merkle_inputs.simps[of xs] merkle_inputs.simps[of ys])
    ultimately have "pair_up xs = pair_up ys" using 1(1)[OF False root _ _ 1(5)] 1(3) by simp
    then show ?thesis using 1(3-5) i(1) by (rule pair_up_inj)
  qed
qed

text \<open>What the length of the list does not settle: an odd list and the list with its last hash doubled have the same root.\<close>

lemma merkle_root_doubled: "merkle_root [a, b, c] = merkle_root [a, b, c, c]"
  by (simp add: merkle_root_more)

lemma length_TxHash [simp]: "length (TxHash tx) = 32" "length (WitnessHash tx) = 32"
  by (simp_all add: TxHash_def WitnessHash_def)

lemma merkleLeaves_plain: "merkleLeaves False txs = map TxHash txs"
  by (rule nth_equalityI) (simp_all add: merkleLeaves_def merkleLeaf_def)

lemma merkleLeaves_witness: "merkleLeaves True (tx # txs) = zeroHash # map WitnessHash txs"
  by (rule nth_equalityI) (auto simp: merkleLeaves_def merkleLeaf_def nth_Cons split: nat.split)

lemma witness_commitment_valid:
  assumes "ValidateWitnessCommitment blk = Ok ()" "block_Transactions blk = tx # txs" "ExtractWitnessCommitment tx = Some c"
  shows "\<exists>nonce. Witness (txIns tx ! 0) = [nonce] \<and> length nonce = 32 \<and>
    c = DoubleHashB (merkle_root (zeroHash # map WitnessHash txs) @ nonce)"
proof -
  obtain m where m: "BuildMerkleTreeStore (tx # txs) True = (Ok m :: (chain_error, _) res)"
      "last m = Some (merkle_root (merkleLeaves True (tx # txs)))"
    using merkle_store_root[of "tx # txs" True] by auto
  let ?w = "Witness (txIns tx ! 0)"
  have "length ?w = 1 \<and> length (?w ! 0) = 32 \<and> c = DoubleHashB (merkle_root (zeroHash # map WitnessHash txs) @ ?w ! 0)"
    using assms m
    by (auto simp: ValidateWitnessCommitment_def Let_def merkleLeaves_witness CoinbaseWitnessDataLen_def split: if_splits)
  then show ?thesis by (intro exI[of _ "?w ! 0"]) (auto simp: length_Suc_conv)
qed

end
