(* ===== verification/Sanity.thy ===== *)
theory Sanity
  imports Difficulty Merkle
begin

text \<open>
  Checks of transactions and blocks that need no chain (\<^verbatim>\<open>pkg/chain/validate.go\<close>, \<^verbatim>\<open>weight.go\<close>), and the checks
  of a transaction's inputs against a view of the unspent outputs.

  Amounts are 64-bit words read as \<^verbatim>\<open>int64\<close>; the accumulators wrap and the code's own tests for it are kept.
  \<open>value_conserved\<close> shows that they suffice: what the checks let through conserves value over the integers.
\<close>

unbundle bit_operations_syntax

subsection \<open>Weights and limits\<close>

definition MaxBlockWeight :: int where "MaxBlockWeight = 4000000"

definition MaxBlockBaseSize :: nat where "MaxBlockBaseSize = 1000000"

definition MaxBlockSigOpsCost :: int where "MaxBlockSigOpsCost = 80000"

definition WitnessScaleFactor :: nat where "WitnessScaleFactor = 4"

definition GetBlockWeight :: "Block \<Rightarrow> int" where
  "GetBlockWeight blk =
     (let baseSize = MsgBlock_SerializeSizeStripped (msgBlock blk); totalSize = MsgBlock_SerializeSize (msgBlock blk)
      in int (baseSize * (WitnessScaleFactor - 1) + totalSize))"

definition GetTransactionWeight :: "MsgTx \<Rightarrow> int" where
  "GetTransactionWeight tx =
     (let baseSize = SerializeSizeStripped tx; totalSize = SerializeSize tx
      in int (baseSize * (WitnessScaleFactor - 1) + totalSize))"

definition MaxSatoshi :: int where "MaxSatoshi = 2100000000000000"

definition MinCoinbaseScriptLen :: nat where "MinCoinbaseScriptLen = 2"

definition MaxCoinbaseScriptLen :: nat where "MaxCoinbaseScriptLen = 100"

definition MaxTimeOffsetSeconds :: int where "MaxTimeOffsetSeconds = 2 * 60 * 60"

definition serializedHeightVersion :: int where "serializedHeightVersion = 2"

subsection \<open>Transactions\<close>

text \<open>The loop over the outputs: the running total, which may wrap.\<close>

primrec checkOutputs :: "TxOut list \<Rightarrow> 64 word \<Rightarrow> (chain_error, 64 word) res" where
  "checkOutputs [] totalSatoshi = Ok totalSatoshi"
| "checkOutputs (txOut # outs) totalSatoshi =
     (let satoshi = Value txOut; total = totalSatoshi + satoshi in
      if sint satoshi < 0 then Err (ruleError ErrBadTxOutValue)
      else if sint satoshi > MaxSatoshi then Err (ruleError ErrBadTxOutValue)
      else if sint total < 0 then Err (ruleError ErrBadTxOutValue)
      else if sint total > MaxSatoshi then Err (ruleError ErrBadTxOutValue)
      else checkOutputs outs total)"

definition CheckTransactionSanity :: "MsgTx \<Rightarrow> (chain_error, unit) res" where
  "CheckTransactionSanity tx =
     (if txIns tx = [] then Err (ruleError ErrNoTxInputs)
      else if txOuts tx = [] then Err (ruleError ErrNoTxOutputs)
      else if SerializeSizeStripped tx > MaxBlockBaseSize then Err (ruleError ErrTxTooBig)
      else bind_res (checkOutputs (txOuts tx) 0) (\<lambda>_.
        if \<not> distinct (map PreviousOutPoint (txIns tx)) then Err (ruleError ErrDuplicateTxInputs)
        else if IsCoinBase tx then
          (let slen = length (SignatureScript (txIns tx ! 0))
           in if slen < MinCoinbaseScriptLen \<or> slen > MaxCoinbaseScriptLen then Err (ruleError ErrBadCoinbaseScriptLen)
              else Ok ())
        else if \<exists>txIn \<in> set (txIns tx). isNullOutpoint (PreviousOutPoint txIn) then Err (ruleError ErrBadTxInput)
        else Ok ()))"

text \<open>The loop over the inputs: each must be there, mature and in range.\<close>

primrec checkInputs ::
  "int \<Rightarrow> UtxoViewpoint \<Rightarrow> Params \<Rightarrow> TxIn list \<Rightarrow> 64 word \<Rightarrow> (chain_error, 64 word) res" where
  "checkInputs txHeight utxoView chainParams [] totalSatoshiIn = Ok totalSatoshiIn"
| "checkInputs txHeight utxoView chainParams (txIn # ins) totalSatoshiIn =
     (case LookupEntry utxoView (PreviousOutPoint txIn) of
        None \<Rightarrow> Err (ruleError ErrMissingTxOut)
      | Some utxo \<Rightarrow>
          if IsSpent utxo then Err (ruleError ErrMissingTxOut)
          else if UtxoEntry_IsCoinBase utxo \<and>
            i32 (txHeight - ue_blockHeight utxo) < i32 (uint (CoinbaseMaturity chainParams))
          then Err (ruleError ErrImmatureSpend)
          else
            let originTxSatoshi = ue_amount utxo; lastSatoshiIn = totalSatoshiIn;
                totalSatoshiIn = totalSatoshiIn + originTxSatoshi
            in if sint originTxSatoshi < 0 then Err (ruleError ErrBadTxOutValue)
               else if sint originTxSatoshi > MaxSatoshi then Err (ruleError ErrBadTxOutValue)
               else if sint totalSatoshiIn < sint lastSatoshiIn \<or> sint totalSatoshiIn > MaxSatoshi
               then Err (ruleError ErrBadTxOutValue)
               else checkInputs txHeight utxoView chainParams ins totalSatoshiIn)"

definition CheckTransactionInputs ::
  "MsgTx \<Rightarrow> int \<Rightarrow> UtxoViewpoint \<Rightarrow> Params \<Rightarrow> (chain_error, 64 word) res" where
  "CheckTransactionInputs tx txHeight utxoView chainParams =
     (if IsCoinBase tx then Ok 0
      else bind_res (checkInputs txHeight utxoView chainParams (txIns tx) 0) (\<lambda>totalSatoshiIn.
        let totalSatoshiOut = foldl (\<lambda>t txOut. t + Value txOut) 0 (txOuts tx) in
        if sint totalSatoshiIn < sint totalSatoshiOut then Err (ruleError ErrSpendTooHigh)
        else Ok (totalSatoshiIn - totalSatoshiOut)))"

subsection \<open>Signature operations\<close>

definition CountSigOps :: "MsgTx \<Rightarrow> int" where
  "CountSigOps tx =
     foldl (\<lambda>t txOut. i64 (t + GetSigOpCount (PkScript txOut)))
       (foldl (\<lambda>t txIn. i64 (t + GetSigOpCount (SignatureScript txIn))) 0 (txIns tx)) (txOuts tx)"

primrec countP2SH :: "UtxoViewpoint \<Rightarrow> TxIn list \<Rightarrow> int \<Rightarrow> (chain_error, int) res" where
  "countP2SH utxoView [] totalSigOps = Ok totalSigOps"
| "countP2SH utxoView (txIn # ins) totalSigOps =
     (case LookupEntry utxoView (PreviousOutPoint txIn) of
        None \<Rightarrow> Err (ruleError ErrMissingTxOut)
      | Some utxo \<Rightarrow>
          if IsSpent utxo then Err (ruleError ErrMissingTxOut)
          else if \<not> IsPayToScriptHash (ue_pkScript utxo) then countP2SH utxoView ins totalSigOps
          else
            let lastSigOps = totalSigOps;
                totalSigOps = i64 (totalSigOps + GetPreciseSigOpCount (SignatureScript txIn) (ue_pkScript utxo) True)
            in if totalSigOps < lastSigOps then Err (ruleError ErrTooManySigOps)
               else countP2SH utxoView ins totalSigOps)"

definition CountP2SHSigOps :: "MsgTx \<Rightarrow> bool \<Rightarrow> UtxoViewpoint \<Rightarrow> (chain_error, int) res" where
  "CountP2SHSigOps tx isCoinBaseTx utxoView = (if isCoinBaseTx then Ok 0 else countP2SH utxoView (txIns tx) 0)"

primrec countWitness :: "UtxoViewpoint \<Rightarrow> TxIn list \<Rightarrow> int \<Rightarrow> (chain_error, int) res" where
  "countWitness utxoView [] numSigOps = Ok numSigOps"
| "countWitness utxoView (txIn # ins) numSigOps =
     (case LookupEntry utxoView (PreviousOutPoint txIn) of
        None \<Rightarrow> Err (ruleError ErrMissingTxOut)
      | Some utxo \<Rightarrow>
          if IsSpent utxo then Err (ruleError ErrMissingTxOut)
          else (case GetWitnessSigOpCount (SignatureScript txIn) (ue_pkScript utxo) (Witness txIn) of
             Ok n \<Rightarrow> countWitness utxoView ins (i64 (numSigOps + n))
           | _ \<Rightarrow> Panic))"

text \<open>An error of the count for pay-to-script-hash inputs is dropped: the cost is then zero.\<close>

definition GetSigOpCost :: "MsgTx \<Rightarrow> bool \<Rightarrow> UtxoViewpoint \<Rightarrow> bool \<Rightarrow> bool \<Rightarrow> (chain_error, int) res" where
  "GetSigOpCost tx isCoinBaseTx utxoView bip16 segWit =
     (let numSigOps = i64 (CountSigOps tx * int WitnessScaleFactor);
          witness = (\<lambda>n. if segWit \<and> \<not> isCoinBaseTx then countWitness utxoView (txIns tx) n else Ok n)
      in if bip16 then
           (case CountP2SHSigOps tx isCoinBaseTx utxoView of
              Ok numP2SHSigOps \<Rightarrow> witness (i64 (numSigOps + i64 (numP2SHSigOps * int WitnessScaleFactor)))
            | Err e \<Rightarrow> Ok 0 | Panic \<Rightarrow> Panic | Hang \<Rightarrow> Hang)
         else witness numSigOps)"

subsection \<open>Coinbase heights\<close>

text \<open>The bytes behind the length byte, cut to eight or padded with zeros, are read little endian.\<close>

definition ExtractCoinbaseHeight :: "MsgTx \<Rightarrow> (chain_error, int) res" where
  "ExtractCoinbaseHeight coinbaseTx =
     bind_res (nth_res (txIns coinbaseTx) 0) (\<lambda>txIn.
       let sigScript = SignatureScript txIn; opcode = unat (sigScript ! 0) in
       if length sigScript < 1 then Err (ruleError ErrMissingCoinbaseHeight)
       else if opcode = 0x00 then Ok 0
       else if 0x51 \<le> opcode \<and> opcode \<le> 0x60 then Ok (int opcode - 0x50)
       else if length (drop 1 sigScript) < opcode then Err (ruleError ErrMissingCoinbaseHeight)
       else
         let bytes = take 8 (take opcode (drop 1 sigScript))
         in Ok (i32 (le_val (bytes @ replicate (8 - length bytes) 0))))"

definition checkSerializedHeight :: "MsgTx \<Rightarrow> int \<Rightarrow> (chain_error, unit) res" where
  "checkSerializedHeight coinbaseTx wantHeight =
     bind_res (ExtractCoinbaseHeight coinbaseTx) (\<lambda>serializedHeight.
       if serializedHeight \<noteq> wantHeight then Err (ruleError ErrBadCoinbaseHeight) else Ok ())"

definition ShouldHaveSerializedBlockHeight :: "BlockHeader \<Rightarrow> bool" where
  "ShouldHaveSerializedBlockHeight header \<longleftrightarrow> sint (header_Version header) \<ge> serializedHeightVersion"

subsection \<open>Blocks\<close>

type_synonym BehaviorFlags = "32 word"

definition BFFastAdd :: BehaviorFlags where "BFFastAdd = 1"

definition BFNoPoWCheck :: BehaviorFlags where "BFNoPoWCheck = 2"

definition BFNone :: BehaviorFlags where "BFNone = 0"

definition checkProofOfWork ::
  "algo_env \<Rightarrow> bool \<Rightarrow> BlockHeader \<Rightarrow> int option \<Rightarrow> BehaviorFlags \<Rightarrow> int \<Rightarrow> (chain_error, unit) res" where
  "checkProofOfWork env testnet header powLimit flags blockHeight =
     (case powLimit of None \<Rightarrow> Err OtherError
      | Some powLimit \<Rightarrow>
          let target = CompactToBig (Bits header) in
          if target \<le> 0 then Err (ruleError ErrUnexpectedDifficulty)
          else if target > powLimit then Err (ruleError ErrUnexpectedDifficulty)
          else if flags AND BFNoPoWCheck \<noteq> BFNoPoWCheck then
            bind_res (BlockHashWithAlgos env testnet header blockHeight) (\<lambda>hash.
              if HashToBig hash > target then Err (ruleError ErrHighHash) else Ok ())
          else Ok ())"

definition CheckProofOfWork ::
  "algo_env \<Rightarrow> bool \<Rightarrow> Block \<Rightarrow> int option \<Rightarrow> int \<Rightarrow> (chain_error, unit) res" where
  "CheckProofOfWork env testnet block powLimit blockHeight =
     checkProofOfWork env testnet (Header (msgBlock block)) powLimit BFNone blockHeight"

text \<open>\<open>adjusted\<close> is what the time source returns.\<close>

definition checkBlockHeaderSanity ::
  "algo_env \<Rightarrow> bool \<Rightarrow> BlockHeader \<Rightarrow> int option \<Rightarrow> int \<Rightarrow> BehaviorFlags \<Rightarrow> int \<Rightarrow> (chain_error, unit) res" where
  "checkBlockHeaderSanity env testnet header powLimit adjusted flags blockHeight =
     bind_res (checkProofOfWork env testnet header powLimit flags blockHeight) (\<lambda>_.
       if Timestamp header \<noteq> unix_time (Unix (Timestamp header)) then Err (ruleError ErrInvalidTime)
       else if Timestamp header > adjusted + unix_time MaxTimeOffsetSeconds then Err (ruleError ErrTimeTooNew)
       else Ok ())"

primrec checkTransactions :: "MsgTx list \<Rightarrow> (chain_error, unit) res" where
  "checkTransactions [] = Ok ()"
| "checkTransactions (tx # txs) = bind_res (CheckTransactionSanity tx) (\<lambda>_. checkTransactions txs)"

primrec checkSigOps :: "MsgTx list \<Rightarrow> int \<Rightarrow> (chain_error, int) res" where
  "checkSigOps [] totalSigOps = Ok totalSigOps"
| "checkSigOps (tx # txs) lastSigOps =
     (let totalSigOps = i64 (lastSigOps + i64 (CountSigOps tx * int WitnessScaleFactor)) in
      if totalSigOps < lastSigOps \<or> totalSigOps > MaxBlockSigOpsCost then Err (ruleError ErrTooManySigOps)
      else checkSigOps txs totalSigOps)"

definition checkBlockSanity ::
  "algo_env \<Rightarrow> bool \<Rightarrow> Block \<Rightarrow> int option \<Rightarrow> int \<Rightarrow> BehaviorFlags \<Rightarrow> int \<Rightarrow> (chain_error, unit) res" where
  "checkBlockSanity env testnet block powLimit adjusted flags blockHeight =
     (let header = Header (msgBlock block); transactions = block_Transactions block in
      bind_res (checkBlockHeaderSanity env testnet header powLimit adjusted flags blockHeight) (\<lambda>_.
      if transactions = [] then Err (ruleError ErrNoTransactions)
      else if length transactions > MaxBlockBaseSize then Err (ruleError ErrBlockTooBig)
      else if MsgBlock_SerializeSizeStripped (msgBlock block) > MaxBlockBaseSize then Err (ruleError ErrBlockTooBig)
      else if \<not> IsCoinBase (transactions ! 0) then Err (ruleError ErrFirstTxNotCoinbase)
      else if \<exists>tx \<in> set (tl transactions). IsCoinBase tx then Err (ruleError ErrMultipleCoinbases)
      else
        bind_res (checkTransactions transactions) (\<lambda>_.
        bind_res (BuildMerkleTreeStore transactions False) (\<lambda>merkles.
          if Some (MerkleRoot header) \<noteq> last merkles then Err (ruleError ErrBadMerkleRoot)
          else if \<not> distinct (map TxHash transactions) then Err (ruleError ErrDuplicateTx)
          else bind_res (checkSigOps transactions 0) (\<lambda>_. Ok ())))))"

definition CheckBlockSanity ::
  "algo_env \<Rightarrow> bool \<Rightarrow> Block \<Rightarrow> int option \<Rightarrow> int \<Rightarrow> int \<Rightarrow> (chain_error, unit) res" where
  "CheckBlockSanity env testnet block powLimit adjusted blockHeight =
     checkBlockSanity env testnet block powLimit adjusted BFNone blockHeight"

subsection \<open>Sums that do not wrap\<close>

definition amount_ok :: "64 word \<Rightarrow> bool" where
  "amount_ok w \<longleftrightarrow> 0 \<le> sint w \<and> sint w \<le> MaxSatoshi"

lemma sint_add_small:
  fixes a b :: "64 word"
  assumes "0 \<le> sint a" "0 \<le> sint b" "sint a + sint b < 2 ^ 63"
  shows "sint (a + b) = sint a + sint b"
proof -
  have "sint (a + b) = signed_take_bit 63 (sint a + sint b)" by (simp add: sint_word_ariths)
  then show ?thesis using assms by (simp add: signed_take_bit_int_eq_self)
qed

lemma sint_diff_small:
  fixes a b :: "64 word"
  assumes "0 \<le> sint b" "sint b \<le> sint a"
  shows "sint (a - b) = sint a - sint b"
proof -
  have "sint (a - b) = signed_take_bit 63 (sint a - sint b)" by (simp add: sint_word_ariths)
  moreover have "sint a < 2 ^ 63" using sint_lt[of a] by simp
  ultimately show ?thesis using assms by (simp add: signed_take_bit_int_eq_self)
qed

lemma amount_add: "amount_ok a \<Longrightarrow> amount_ok b \<Longrightarrow> sint (a + b) = sint a + sint b"
  by (rule sint_add_small) (simp_all add: amount_ok_def MaxSatoshi_def)

definition out_sum :: "TxOut list \<Rightarrow> int" where
  "out_sum outs = sum_list (map (\<lambda>txOut. sint (Value txOut)) outs)"

lemma checkOutputs_Ok:
  "checkOutputs outs t = Ok t' \<Longrightarrow> amount_ok t \<Longrightarrow>
   (\<forall>txOut \<in> set outs. amount_ok (Value txOut)) \<and> amount_ok t' \<and> sint t' = sint t + out_sum outs \<and>
   t' = foldl (\<lambda>t txOut. t + Value txOut) t outs"
proof (induction outs arbitrary: t)
  case Nil
  then show ?case by (simp add: out_sum_def)
next
  case (Cons o' outs)
  have v: "amount_ok (Value o')" and t: "amount_ok (t + Value o')" and run: "checkOutputs outs (t + Value o') = Ok t'"
    using Cons.prems(1) by (simp_all add: Let_def amount_ok_def split: if_splits)
  show ?case using Cons.IH[OF run t] v amount_add[OF Cons.prems(2) v] by (auto simp: out_sum_def)
qed

lemma CheckTransactionSanity_Ok:
  assumes "CheckTransactionSanity tx = Ok ()"
  shows "txIns tx \<noteq> []" "txOuts tx \<noteq> []" "distinct (map PreviousOutPoint (txIns tx))"
    "\<forall>txOut \<in> set (txOuts tx). amount_ok (Value txOut)"
    "amount_ok (foldl (\<lambda>t txOut. t + Value txOut) 0 (txOuts tx))"
    "sint (foldl (\<lambda>t txOut. t + Value txOut) 0 (txOuts tx)) = out_sum (txOuts tx)"
proof -
  have z: "amount_ok 0" by (simp add: amount_ok_def MaxSatoshi_def)
  obtain t where t: "checkOutputs (txOuts tx) 0 = Ok t"
    using assms by (auto simp: CheckTransactionSanity_def bind_res_Ok_iff split: if_splits)
  show "txIns tx \<noteq> []" "txOuts tx \<noteq> []" "distinct (map PreviousOutPoint (txIns tx))"
    using assms by (auto simp: CheckTransactionSanity_def bind_res_Ok_iff split: if_splits)
  show "\<forall>txOut \<in> set (txOuts tx). amount_ok (Value txOut)"
    "amount_ok (foldl (\<lambda>t txOut. t + Value txOut) 0 (txOuts tx))"
    "sint (foldl (\<lambda>t txOut. t + Value txOut) 0 (txOuts tx)) = out_sum (txOuts tx)"
    using checkOutputs_Ok[OF t z] by auto
qed

text \<open>The entries the inputs refer to.\<close>

definition spendable :: "UtxoViewpoint \<Rightarrow> int \<Rightarrow> Params \<Rightarrow> OutPoint \<Rightarrow> UtxoEntry \<Rightarrow> bool" where
  "spendable view txHeight params op utxo \<longleftrightarrow> LookupEntry view op = Some utxo \<and> \<not> IsSpent utxo \<and> amount_ok (ue_amount utxo) \<and>
     (UtxoEntry_IsCoinBase utxo \<longrightarrow> i32 (uint (CoinbaseMaturity params)) \<le> i32 (txHeight - ue_blockHeight utxo))"

lemma checkInputs_Ok:
  "checkInputs txHeight view params ins t = Ok t' \<Longrightarrow> amount_ok t \<Longrightarrow>
   \<exists>utxos. list_all2 (\<lambda>txIn utxo. spendable view txHeight params (PreviousOutPoint txIn) utxo) ins utxos \<and>
     amount_ok t' \<and> sint t' = sint t + sum_list (map (\<lambda>utxo. sint (ue_amount utxo)) utxos)"
proof (induction ins arbitrary: t)
  case Nil
  then show ?case by simp
next
  case (Cons txIn ins)
  from Cons.prems(1) obtain utxo where u: "LookupEntry view (PreviousOutPoint txIn) = Some utxo" "\<not> IsSpent utxo"
      "amount_ok (ue_amount utxo)" "sint (t + ue_amount utxo) \<le> MaxSatoshi"
      "UtxoEntry_IsCoinBase utxo \<longrightarrow> i32 (uint (CoinbaseMaturity params)) \<le> i32 (txHeight - ue_blockHeight utxo)"
      and run: "checkInputs txHeight view params ins (t + ue_amount utxo) = Ok t'"
    by (auto simp: Let_def amount_ok_def split: option.splits if_splits)
  have s: "sint (t + ue_amount utxo) = sint t + sint (ue_amount utxo)" using Cons.prems(2) u(3) by (rule amount_add)
  then have "amount_ok (t + ue_amount utxo)" using u(3,4) Cons.prems(2) by (simp add: amount_ok_def)
  from Cons.IH[OF run this] obtain utxos where ih:
      "list_all2 (\<lambda>txIn utxo. spendable view txHeight params (PreviousOutPoint txIn) utxo) ins utxos"
      "amount_ok t'" "sint t' = sint (t + ue_amount utxo) + sum_list (map (\<lambda>utxo. sint (ue_amount utxo)) utxos)" by blast
  then show ?case using u s by (intro exI[of _ "utxo # utxos"]) (simp add: spendable_def)
qed

lemma value_of_inputs:
  assumes "CheckTransactionSanity tx = Ok ()" "CheckTransactionInputs tx txHeight view params = Ok fee" "\<not> IsCoinBase tx"
  shows "\<exists>utxos. list_all2 (\<lambda>txIn utxo. spendable view txHeight params (PreviousOutPoint txIn) utxo) (txIns tx) utxos \<and>
    distinct (map PreviousOutPoint (txIns tx)) \<and>
    sum_list (map (\<lambda>utxo. sint (ue_amount utxo)) utxos) = out_sum (txOuts tx) + sint fee \<and> 0 \<le> sint fee"
proof -
  note sane = CheckTransactionSanity_Ok[OF assms(1)]
  let ?out = "foldl (\<lambda>t txOut. t + Value txOut) 0 (txOuts tx)"
  obtain t where t: "checkInputs txHeight view params (txIns tx) 0 = Ok t" "sint ?out \<le> sint t" "fee = t - ?out"
    using assms(2,3) by (auto simp: CheckTransactionInputs_def bind_res_Ok_iff Let_def split: if_splits)
  have z: "amount_ok 0" by (simp add: amount_ok_def MaxSatoshi_def)
  obtain utxos where u: "list_all2 (\<lambda>txIn utxo. spendable view txHeight params (PreviousOutPoint txIn) utxo) (txIns tx) utxos"
      "sint t = sum_list (map (\<lambda>utxo. sint (ue_amount utxo)) utxos)"
    using checkInputs_Ok[OF t(1) z] by auto
  have "sint fee = sint t - sint ?out" using sint_diff_small[of ?out t] t(2,3) sane(5) by (simp add: amount_ok_def)
  then show ?thesis using u t(2) sane(3,6) by (intro exI[of _ utxos]) simp
qed

text \<open>
  Claim C3. Value is conserved.  A transaction that is not a coinbase and passes \<^verbatim>\<open>CheckTransactionSanity\<close> and
  \<^verbatim>\<open>CheckTransactionInputs\<close> with a fee spends distinct, unspent and mature outputs of the view, and the sum of their
  amounts is the sum of its outputs plus the fee, over the integers: no 64-bit sum has wrapped, and the fee is not
  negative.
\<close>

theorem value_conserved:
  assumes "CheckTransactionSanity tx = Ok ()" "CheckTransactionInputs tx txHeight view params = Ok fee" "\<not> IsCoinBase tx"
  shows "\<exists>utxos. list_all2 (\<lambda>txIn utxo. spendable view txHeight params (PreviousOutPoint txIn) utxo) (txIns tx) utxos \<and>
    distinct (map PreviousOutPoint (txIns tx)) \<and>
    sum_list (map (\<lambda>utxo. sint (ue_amount utxo)) utxos) = out_sum (txOuts tx) + sint fee \<and> 0 \<le> sint fee"
  using assms by (rule value_of_inputs)

subsection \<open>What a sane block is\<close>

lemma checkTransactions_Ok: "checkTransactions txs = Ok () \<Longrightarrow> tx \<in> set txs \<Longrightarrow> CheckTransactionSanity tx = Ok ()"
  by (induction txs) (auto simp: bind_res_Ok_iff)

lemma checkBlockSanity_Ok:
  assumes "checkBlockSanity env testnet block powLimit adjusted flags blockHeight = Ok ()"
  obtains cb txs where "block_Transactions block = cb # txs" "IsCoinBase cb" "\<And>tx. tx \<in> set txs \<Longrightarrow> \<not> IsCoinBase tx"
    "\<And>tx. tx \<in> set (cb # txs) \<Longrightarrow> CheckTransactionSanity tx = Ok ()" "distinct (map TxHash (cb # txs))"
    "MerkleRoot (Header (msgBlock block)) = merkle_root (map TxHash (cb # txs))"
proof -
  have ne: "block_Transactions block \<noteq> []"
    using assms by (auto simp: checkBlockSanity_def Let_def bind_res_Ok_iff split: if_splits)
  then obtain cb txs where t: "block_Transactions block = cb # txs" by (cases "block_Transactions block") auto
  obtain m where m: "BuildMerkleTreeStore (cb # txs) False = (Ok m :: (chain_error, _) res)"
      "last m = Some (merkle_root (map TxHash (cb # txs)))"
    using merkle_store_root[of "cb # txs" False] by (auto simp: merkleLeaves_plain)
  have "IsCoinBase cb" "\<And>tx. tx \<in> set txs \<Longrightarrow> \<not> IsCoinBase tx" "checkTransactions (cb # txs) = Ok ()"
      "distinct (map TxHash (cb # txs))" "MerkleRoot (Header (msgBlock block)) = merkle_root (map TxHash (cb # txs))"
    using assms m unfolding checkBlockSanity_def t Let_def
    by (auto simp: bind_res_Ok_iff simp del: checkTransactions.simps distinct.simps list.map split: if_splits)
  then show ?thesis using that[OF t] checkTransactions_Ok[of "cb # txs"] by blast
qed

lemma checkBlockSanity_root:
  assumes "checkBlockSanity env testnet block powLimit adjusted flags blockHeight = Ok ()"
  shows "MerkleRoot (Header (msgBlock block)) = merkle_root (map TxHash (block_Transactions block))"
  by (rule checkBlockSanity_Ok[OF assms]) simp

text \<open>Double SHA-256 does not collide on the headers, on the transactions or on the inner nodes of the trees of two blocks.\<close>

definition no_collision :: "Block \<Rightarrow> Block \<Rightarrow> bool" where
  "no_collision block block' \<longleftrightarrow>
     (let txs = block_Transactions block; txs' = block_Transactions block' in
      inj_on DoubleHashH {writeBlockHeader (Header (msgBlock block)), writeBlockHeader (Header (msgBlock block'))} \<and>
      inj_on DoubleHashH (set (map SerializeNoWitness (txs @ txs'))) \<and>
      inj_on DoubleHashH (set (merkle_inputs (map TxHash txs)) \<union> set (merkle_inputs (map TxHash txs'))))"


lemmas size_defs = SerializeSizeStripped_def baseSize_def TxIn_SerializeSize_def TxOut_SerializeSize_def VarIntSerializeSize_def
  MaxBlockBaseSize_def

text \<open>A transaction that spends the coin of the demonstration view, and a block with a coinbase alone.\<close>

definition demo_pay :: MsgTx where
  "demo_pay = \<lparr>Version = 1, txIns = [\<lparr>PreviousOutPoint = demo_coin_place,
     SignatureScript = [], Witness = [], Sequence = 0\<rparr>], txOuts = [\<lparr>Value = 3, PkScript = []\<rparr>], LockTime = 0\<rparr>"

lemma demo_pay_checks:
  "CheckTransactionSanity demo_pay = Ok ()" "CheckTransactionInputs demo_pay 10 demo_view MainNetParams = Ok 2"
  "\<not> IsCoinBase demo_pay"
proof -
  show n: "\<not> IsCoinBase demo_pay" by (simp add: IsCoinBase_def IsCoinBaseTx_def demo_pay_def demo_coin_place_def)
  have "SerializeSizeStripped demo_pay \<le> MaxBlockBaseSize"
    by (simp add: demo_pay_def size_defs)
  then show "CheckTransactionSanity demo_pay = Ok ()"
    using n by (simp add: CheckTransactionSanity_def demo_pay_def isNullOutpoint_def demo_coin_place_def MaxSatoshi_def)
  have l: "LookupEntry demo_view demo_coin_place = Some \<lparr>ue_amount = 5, ue_pkScript = [], ue_blockHeight = 3, ue_packedFlags = 0\<rparr>"
    by (simp add: demo_view_def)
  show "CheckTransactionInputs demo_pay 10 demo_view MainNetParams = Ok 2"
    using n by (simp add: CheckTransactionInputs_def demo_pay_def l IsSpent_def tfSpent_def UtxoEntry_IsCoinBase_def tfCoinBase_def MaxSatoshi_def)
qed

theorem value_conserved_witness:
  "\<exists>utxos :: UtxoEntry list. sum_list (map (\<lambda>utxo. sint (ue_amount utxo)) utxos) = out_sum (txOuts demo_pay) + 2"
proof -
  obtain utxos :: "UtxoEntry list" where "sum_list (map (\<lambda>utxo. sint (ue_amount utxo)) utxos) = out_sum (txOuts demo_pay) + sint (2 :: 64 word)"
    using value_conserved[OF demo_pay_checks] by blast
  then show ?thesis by (intro exI[of _ utxos]) simp
qed

definition demo_cb :: MsgTx where
  "demo_cb = demo_coinbase\<lparr>txIns := [\<lparr>PreviousOutPoint = \<lparr>Hash = zeroHash, Index = 0xffffffff\<rparr>,
     SignatureScript = [1, 2], Witness = [], Sequence = 0\<rparr>]\<rparr>"

definition demo_sane :: Block where
  "demo_sane = \<lparr>msgBlock = \<lparr>Header = \<lparr>header_Version = 2, PrevBlock = zeroHash, MerkleRoot = TxHash demo_cb,
       Timestamp = 0, Bits = 0x1d00ffff, Nonce = 0\<rparr>, Transactions = [demo_cb]\<rparr>, block_Height = 10\<rparr>"

lemma demo_sane_checks:
  "checkBlockSanity env testnet demo_sane (Some (CompactToBig 0x1d00ffff)) 0 BFNoPoWCheck h = Ok ()"
proof -
  have cb: "IsCoinBase demo_cb" by (simp add: IsCoinBase_def IsCoinBaseTx_def demo_cb_def)
  have "SerializeSizeStripped demo_cb \<le> MaxBlockBaseSize"
    by (simp add: demo_cb_def demo_coinbase_def size_defs)
  then have t: "CheckTransactionSanity demo_cb = Ok ()"
    using cb by (simp add: CheckTransactionSanity_def)
      (simp add: demo_cb_def demo_coinbase_def MaxSatoshi_def MinCoinbaseScriptLen_def MaxCoinbaseScriptLen_def)
  have s: "CountSigOps demo_cb = 0" by code_simp
  have m: "BuildMerkleTreeStore [demo_cb] False = (Ok [Some (TxHash demo_cb)] :: (chain_error, _) res)"
    by (simp add: BuildMerkleTreeStore_def nextPowerOfTwo_def merkleLeaves_plain)
  have size: "MsgBlock_SerializeSizeStripped (msgBlock demo_sane) \<le> MaxBlockBaseSize"
    by (simp add: demo_sane_def MsgBlock_SerializeSizeStripped_def demo_cb_def demo_coinbase_def size_defs blockHeaderLen_def)
  have pos: "0 < CompactToBig 0x1d00ffff" by code_simp
  show ?thesis
    using cb t s m size pos
    by (simp add: checkBlockSanity_def checkBlockHeaderSanity_def checkProofOfWork_def BFNoPoWCheck_def Let_def
        demo_sane_def block_Transactions_def MaxBlockBaseSize_def MaxBlockSigOpsCost_def MaxTimeOffsetSeconds_def
        unix_time_def Unix_def)
qed


end
