(* ===== verification/Chain.thy ===== *)
theory Chain
  imports ScriptVal ChainView Threshold Sanity
begin

text \<open>
  The state of a chain instance (\<^verbatim>\<open>BlockChain\<close> in \<^verbatim>\<open>pkg/chain/chain.go\<close>) as far as the checks of a block use it, the
  checkpoints (\<^verbatim>\<open>checkpoints.go\<close>) and the lock times of transactions (\<^verbatim>\<open>chain.go\<close>, \<^verbatim>\<open>validate.go\<close>).

  What never changes after the instance is made, and what the code takes from outside, is in \<open>chain_env\<close>: the
  database's outputs (\<open>ce_fetch\<close>), the order in which Go visits a map (\<open>ce_visit\<close>), the random numbers
  (\<open>ce_intn\<close>) and the two floating-point formulas of the second fork.  A mutex is held for a whole call.
  Times are in seconds where the code calls \<^verbatim>\<open>Unix()\<close> on them.
\<close>

unbundle bit_operations_syntax

subsection \<open>State\<close>

record Checkpoint =
  cp_Height :: int
  cp_Hash :: "byte list"

record chain_env =
  ce_params :: Params
  ce_testnet :: bool
  checkpoints :: "Checkpoint list"
  ce_script :: env
  ce_algos :: algo_env
  ce_intn :: "nat \<Rightarrow> nat"
  plan9_bits :: "node_store \<Rightarrow> noderef option \<Rightarrow> int \<Rightarrow> string \<Rightarrow> (unit, 32 word) res"
  plan9_subsidy :: "int \<Rightarrow> 64 word"
  ce_fetch :: fetch_entry
  ce_visit :: "OutPoint list \<Rightarrow> OutPoint list"

record chain_state =
  cs_index :: blockIndex
  bestChain :: chainView
  deploymentCaches :: "thresholdStateCache list"
  cs_sigCache :: "SigCache option"
  cs_hashCache :: "HashCache option"
  checkpointNode :: "noderef option"
  nextCheckpoint :: "Checkpoint option"

definition nodes_of :: "chain_state \<Rightarrow> node_store" where
  "nodes_of s = bi_nodes (cs_index s)"

definition deployment_op ::
  "chain_env \<Rightarrow> noderef option \<Rightarrow> nat \<Rightarrow> (chain_state, chain_error, ThresholdState) op" where
  "deployment_op E prevNode deploymentID s =
     on_part deploymentCaches (\<lambda>c s. s\<lparr>deploymentCaches := c\<rparr>)
       (deploymentState (ce_params E) (nodes_of s) prevNode deploymentID) s"

subsection \<open>Checkpoints\<close>

definition CheckpointConfirmations :: int where "CheckpointConfirmations = 2016"

definition HasCheckpoints :: "chain_env \<Rightarrow> bool" where
  "HasCheckpoints E \<longleftrightarrow> length (checkpoints E) > 0"

definition LatestCheckpoint :: "chain_env \<Rightarrow> Checkpoint option" where
  "LatestCheckpoint E = (if \<not> HasCheckpoints E then None else Some (checkpoints E ! (length (checkpoints E) - 1)))"

text \<open>The map by height is filled in the order of the list.\<close>

definition checkpointsByHeight :: "chain_env \<Rightarrow> int \<rightharpoonup> Checkpoint" where
  "checkpointsByHeight E = map_of (rev (map (\<lambda>c. (cp_Height c, c)) (checkpoints E)))"

definition verifyCheckpoint :: "chain_env \<Rightarrow> int \<Rightarrow> byte list \<Rightarrow> bool" where
  "verifyCheckpoint E h hash =
     (if \<not> HasCheckpoints E then True
      else (case checkpointsByHeight E h of None \<Rightarrow> True | Some c \<Rightarrow> cp_Hash c = hash))"

text \<open>The search goes from the last checkpoint to the first: the indexes are given in that order.\<close>

fun searchCheckpoints :: "chain_env \<Rightarrow> nat list \<Rightarrow> (chain_state, chain_error, noderef option) op" where
  "searchCheckpoints E [] = bnd (mod_st (\<lambda>s. s\<lparr>nextCheckpoint := Some (checkpoints E ! 0)\<rparr>)) (\<lambda>_. ret None)"
| "searchCheckpoints E (i # is) = (\<lambda>s.
     case LookupNode (cs_index s) (cp_Hash (checkpoints E ! i)) of
       None \<Rightarrow> searchCheckpoints E is s
     | Some node \<Rightarrow>
         if \<not> contains (nodes_of s) (bestChain s) node then searchCheckpoints E is s
         else
           let s = s\<lparr>checkpointNode := Some node\<rparr>;
               s = (if i < length (checkpoints E) - 1 then s\<lparr>nextCheckpoint := Some (checkpoints E ! (i + 1))\<rparr> else s)
           in (Ok (checkpointNode s), s))"

definition findPreviousCheckpoint :: "chain_env \<Rightarrow> (chain_state, chain_error, noderef option) op" where
  "findPreviousCheckpoint E s =
     (if \<not> HasCheckpoints E then (Ok None, s)
      else if checkpointNode s = None \<and> nextCheckpoint s = None
      then searchCheckpoints E (rev [0..<length (checkpoints E)]) s
      else (case nextCheckpoint s of
          None \<Rightarrow> (Ok (checkpointNode s), s)
        | Some next \<Rightarrow>
            (case tip (bestChain s) of None \<Rightarrow> (Panic, s)
             | Some t \<Rightarrow>
                 if height (nodes_of s) t < cp_Height next then (Ok (checkpointNode s), s)
                 else (case LookupNode (cs_index s) (cp_Hash next) of
                     None \<Rightarrow> (Err AssertError, s)
                   | Some node \<Rightarrow>
                       let s = s\<lparr>checkpointNode := Some node\<rparr>;
                           checkpointIndex = List.find (\<lambda>i. cp_Hash (checkpoints E ! i) = cp_Hash next)
                             (rev [0..<length (checkpoints E)]);
                           s = s\<lparr>nextCheckpoint := (case checkpointIndex of
                               None \<Rightarrow> None
                             | Some i \<Rightarrow> if i < length (checkpoints E) - 1 then Some (checkpoints E ! (i + 1)) else None)\<rparr>
                       in (Ok (checkpointNode s), s)))))"

definition isNonstandardTransaction :: "MsgTx \<Rightarrow> bool" where
  "isNonstandardTransaction tx \<longleftrightarrow> (\<exists>txOut \<in> set (txOuts tx). GetScriptClass (PkScript txOut) = NonStandardTy)"

definition IsCheckpointCandidate :: "chain_state \<Rightarrow> Block \<Rightarrow> (chain_error, bool) res" where
  "IsCheckpointCandidate s block =
     (let st = nodes_of s in
      case LookupNode (cs_index s) (blockHash block) of
        None \<Rightarrow> Ok False
      | Some node \<Rightarrow>
          if \<not> contains st (bestChain s) node then Ok False
          else if height st node \<noteq> block_Height block then Err OtherError
          else (case tip (bestChain s) of None \<Rightarrow> Panic
            | Some t \<Rightarrow>
                if height st node > i32 (height st t - CheckpointConfirmations) then Ok False
                else (case next_node st (bestChain s) (Some node) of None \<Rightarrow> Ok False
                  | Some nextNode \<Rightarrow>
                      (case parent st node of None \<Rightarrow> Ok False
                       | Some p \<Rightarrow>
                           let prevTime = unix_time (node_timestamp (node_at st p));
                               curTime = Timestamp (Header (msgBlock block));
                               nextTime = unix_time (node_timestamp (node_at st nextNode))
                           in if prevTime > curTime \<or> nextTime < curTime then Ok False
                              else if \<exists>tx \<in> set (block_Transactions block). isNonstandardTransaction tx then Ok False
                              else Ok True))))"

subsection \<open>Lock times\<close>

text \<open>The block time is given in seconds.\<close>

definition IsFinalizedTransaction :: "MsgTx \<Rightarrow> int \<Rightarrow> int \<Rightarrow> bool" where
  "IsFinalizedTransaction tx blockHeight blockTime =
     (let lockTime = uint (LockTime tx) in
      if lockTime = 0 then True
      else
        let blockTimeOrHeight = (if lockTime < LockTimeThreshold then blockHeight else blockTime)
        in if lockTime < blockTimeOrHeight then True
           else \<forall>txIn \<in> set (txIns tx). Sequence txIn = 0xffffffff)"

record SequenceLock =
  lock_Seconds :: int
  lock_BlockHeight :: int

definition SequenceLockTimeGranularity :: nat where "SequenceLockTimeGranularity = 9"

definition SequenceLockActive :: "SequenceLock \<Rightarrow> int \<Rightarrow> int \<Rightarrow> bool" where
  "SequenceLockActive sequenceLock blockHeight medianTimePast =
     (if lock_Seconds sequenceLock \<ge> medianTimePast \<or> lock_BlockHeight sequenceLock \<ge> blockHeight then False else True)"

definition inputLock ::
  "node_store \<Rightarrow> noderef \<Rightarrow> UtxoEntry \<Rightarrow> TxIn \<Rightarrow> SequenceLock \<Rightarrow> (chain_error, SequenceLock) res" where
  "inputLock st node utxo txIn sequenceLock =
     (let nextHeight = i32 (height st node + 1);
          inputHeight = (if ue_blockHeight utxo = 0x7fffffff then nextHeight else ue_blockHeight utxo);
          sequenceNum = uint (Sequence txIn);
          relativeLock = sequenceNum AND SequenceLockTimeMask
      in if sequenceNum AND SequenceLockTimeDisabled = SequenceLockTimeDisabled then Ok sequenceLock
         else if sequenceNum AND SequenceLockTimeIsSeconds = SequenceLockTimeIsSeconds then
           let prevInputHeight = i32 (inputHeight - 1);
               prevInputHeight = (if prevInputHeight < 0 then 0 else prevInputHeight)
           in bind_res (Ancestor st node prevInputHeight) (\<lambda>blockNode.
              bind_res (CalcPastMedianTime st blockNode) (\<lambda>medianTime.
                let timeLockSeconds = i64 (push_bit SequenceLockTimeGranularity relativeLock - 1);
                    timeLock = i64 (medianTime + timeLockSeconds)
                in Ok (if timeLock > lock_Seconds sequenceLock then sequenceLock\<lparr>lock_Seconds := timeLock\<rparr>
                       else sequenceLock)))
         else
           let blockHeight = i32 (inputHeight + i32 (relativeLock - 1))
           in Ok (if blockHeight > lock_BlockHeight sequenceLock then sequenceLock\<lparr>lock_BlockHeight := blockHeight\<rparr>
                  else sequenceLock))"

primrec inputLocks ::
  "node_store \<Rightarrow> noderef \<Rightarrow> UtxoViewpoint \<Rightarrow> TxIn list \<Rightarrow> SequenceLock \<Rightarrow> (chain_error, SequenceLock) res" where
  "inputLocks st node utxoView [] sequenceLock = Ok sequenceLock"
| "inputLocks st node utxoView (txIn # ins) sequenceLock =
     (case LookupEntry utxoView (PreviousOutPoint txIn) of
        None \<Rightarrow> Err (ruleError ErrMissingTxOut)
      | Some utxo \<Rightarrow>
          bind_res (inputLock st node utxo txIn sequenceLock) (\<lambda>sequenceLock.
            inputLocks st node utxoView ins sequenceLock))"

definition calcSequenceLock ::
  "chain_env \<Rightarrow> noderef \<Rightarrow> MsgTx \<Rightarrow> UtxoViewpoint \<Rightarrow> bool \<Rightarrow> (chain_state, chain_error, SequenceLock) op" where
  "calcSequenceLock E node tx utxoView mempool =
     bnd (get_st nodes_of) (\<lambda>st.
     bnd (if mempool then ret True
          else bnd (deployment_op E (parent st node) DeploymentCSV) (\<lambda>csvState. ret (csvState = ThresholdActive)))
       (\<lambda>csvSoftforkActive.
        let sequenceLock = \<lparr>lock_Seconds = - 1, lock_BlockHeight = - 1\<rparr>;
            sequenceLockActive = (sint (Version tx) \<ge> 2 \<and> csvSoftforkActive)
        in if \<not> sequenceLockActive \<or> IsCoinBase tx then ret sequenceLock
           else lift_res (inputLocks st node utxoView (txIns tx) sequenceLock)))"

text \<open>The exported form starts at the tip; without a tip only a transaction that needs no node gets an answer.\<close>

definition CalcSequenceLock ::
  "chain_env \<Rightarrow> MsgTx \<Rightarrow> UtxoViewpoint \<Rightarrow> bool \<Rightarrow> (chain_state, chain_error, SequenceLock) op" where
  "CalcSequenceLock E tx utxoView mempool =
     bnd (get_st (tip \<circ> bestChain)) (\<lambda>t.
       case t of
         None \<Rightarrow> if mempool \<and> (sint (Version tx) < 2 \<or> IsCoinBase tx) then ret \<lparr>lock_Seconds = - 1, lock_BlockHeight = - 1\<rparr>
           else panic
       | Some node \<Rightarrow> calcSequenceLock E node tx utxoView mempool)"

definition LockTimeToSequence :: "bool \<Rightarrow> 32 word \<Rightarrow> 32 word" where
  "LockTimeToSequence isSeconds locktime =
     (if \<not> isSeconds then locktime
      else word_of_int SequenceLockTimeIsSeconds OR drop_bit SequenceLockTimeGranularity locktime)"

end
