(* ===== verification/Base58.thy ===== *)
theory Base58
  imports Fork
begin

text \<open>
  Base 58 strings and strings with a checksum (\<^verbatim>\<open>pkg/util/base58\<close>).  A byte string is a big-endian number written
  with the digits of the alphabet; each leading zero byte is a leading digit zero.  Both directions are inverse to each
  other.
\<close>

unbundle bit_operations_syntax

subsection \<open>The code\<close>

definition alphabet :: string where
  "alphabet = ''123456789ABCDEFGHJKLMNPQRSTUVWXYZabcdefghijkmnopqrstuvwxyz''"

definition alphabetIdx0 :: char where
  "alphabetIdx0 = CHR ''1''"

text \<open>The table gives 255 for a character outside the alphabet.\<close>

definition b58 :: "char \<Rightarrow> nat" where
  "b58 c = (case map_of (zip alphabet [0..<58]) c of Some i \<Rightarrow> i | None \<Rightarrow> 255)"

text \<open>The loop runs from the last character to the first; the characters are given in that order.\<close>

primrec b58DecodeLoop :: "string \<Rightarrow> int \<Rightarrow> int \<Rightarrow> int option" where
  "b58DecodeLoop [] answer j = Some answer"
| "b58DecodeLoop (c # cs) answer j =
     (if b58 c = 255 then None else b58DecodeLoop cs (answer + j * int (b58 c)) (j * 58))"

definition base58_Decode :: "string \<Rightarrow> byte list" where
  "base58_Decode b =
     (case b58DecodeLoop (rev b) 0 1 of
        None \<Rightarrow> []
      | Some answer \<Rightarrow> replicate (length (takeWhile (\<lambda>c. c = alphabetIdx0) b)) 0 @ int_be answer)"

fun b58EncodeLoop :: "nat \<Rightarrow> string" where
  "b58EncodeLoop x = (if x = 0 then [] else alphabet ! (x mod 58) # b58EncodeLoop (x div 58))"

declare b58EncodeLoop.simps [simp del]

definition base58_Encode :: "byte list \<Rightarrow> string" where
  "base58_Encode b =
     rev (b58EncodeLoop (nat (be_int b)) @ replicate (length (takeWhile (\<lambda>i. i = 0) b)) alphabetIdx0)"

datatype base58_error = ErrChecksum | ErrInvalidFormat

definition checksum :: "byte list \<Rightarrow> byte list" where
  "checksum input = take 4 (Sum256 (Sum256 input))"

definition CheckEncode :: "byte list \<Rightarrow> byte \<Rightarrow> string" where
  "CheckEncode input version = (let b = [version] @ input in base58_Encode (b @ checksum b))"

definition CheckDecode :: "string \<Rightarrow> (base58_error, byte list \<times> byte) res" where
  "CheckDecode input =
     (let decoded = base58_Decode input in
      if length decoded < 5 then Err ErrInvalidFormat
      else if checksum (take (length decoded - 4) decoded) \<noteq> drop (length decoded - 4) decoded then Err ErrChecksum
      else Ok (take (length decoded - 4 - 1) (drop 1 decoded), decoded ! 0))"

subsection \<open>Digits\<close>

lemma length_alphabet [simp]: "length alphabet = 58"
  by (simp add: alphabet_def)

lemma distinct_alphabet: "distinct alphabet"
  by (simp add: alphabet_def)

lemma b58_alphabet [simp]: "i < 58 \<Longrightarrow> b58 (alphabet ! i) = i"
proof -
  assume i: "i < 58"
  have "map_of (zip alphabet [0..<58]) (alphabet ! i) = Some ([0..<58] ! i)"
    using i distinct_alphabet by (intro map_of_zip_nth) (simp_all add: upt_rec[of 0 58])
  then show ?thesis using i by (simp add: b58_def nth_upt)
qed

primrec digits_value :: "string \<Rightarrow> int" where
  "digits_value [] = 0"
| "digits_value (c # cs) = int (b58 c) + 58 * digits_value cs"

lemma b58DecodeLoop_run:
  "\<forall>c \<in> set cs. b58 c \<noteq> 255 \<Longrightarrow> b58DecodeLoop cs answer j = Some (answer + j * digits_value cs)"
  by (induction cs arbitrary: answer j) (simp_all add: algebra_simps)

lemma b58EncodeLoop_digits: "c \<in> set (b58EncodeLoop x) \<Longrightarrow> b58 c < 58"
proof (induction x rule: b58EncodeLoop.induct)
  case (1 x)
  then show ?case by (cases "x = 0") (auto simp: b58EncodeLoop.simps[of 0] b58EncodeLoop.simps[of x])
qed

lemma b58EncodeLoop_value: "digits_value (b58EncodeLoop x) = int x"
proof (induction x rule: b58EncodeLoop.induct)
  case (1 x)
  then show ?case by (cases "x = 0") (simp_all add: b58EncodeLoop.simps[of 0] b58EncodeLoop.simps[of x] zdiv_int zmod_int)
qed

lemma digits_value_zeros: "digits_value (cs @ replicate n alphabetIdx0) = digits_value cs"
proof -
  have z: "b58 alphabetIdx0 = 0" using b58_alphabet[of 0] by (simp add: alphabet_def alphabetIdx0_def)
  have "digits_value (replicate n alphabetIdx0) = 0" for n by (induction n) (simp_all add: z)
  then show ?thesis by (induction cs) simp_all
qed

text \<open>The last digit of a positive number is not zero.\<close>

lemma b58EncodeLoop_last: "0 < x \<Longrightarrow> b58EncodeLoop x \<noteq> [] \<and> last (b58EncodeLoop x) \<noteq> alphabetIdx0"
proof (induction x rule: b58EncodeLoop.induct)
  case (1 x)
  show ?case
  proof (cases "x < 58")
    case True
    have "alphabet ! x \<noteq> alphabet ! 0" using True 1(2) distinct_alphabet by (simp add: nth_eq_iff_index_eq)
    then show ?thesis using True 1(2) by (simp add: b58EncodeLoop.simps[of x] b58EncodeLoop.simps[of 0] alphabetIdx0_def)
        (simp add: alphabet_def)
  next
    case False
    then have "0 < x div 58" by (simp add: div_greater_zero_iff)
    then show ?thesis using 1 by (simp add: b58EncodeLoop.simps[of x])
  qed
qed

subsection \<open>Leading zeros\<close>

primrec strip_zeros :: "byte list \<Rightarrow> byte list" where
  "strip_zeros [] = []"
| "strip_zeros (b # bs) = (let t = strip_zeros bs in if b = 0 \<and> t = [] then [] else b # t)"

lemma strip_zeros_rev: "strip_zeros bs = rev (dropWhile (\<lambda>b. b = 0) (rev bs))"
proof (induction bs)
  case (Cons b bs)
  show ?case
  proof (cases "\<exists>x \<in> set bs. x \<noteq> 0")
    case True
    then obtain x where x: "x \<in> set (rev bs)" "\<not> x = 0" by auto
    then have "dropWhile (\<lambda>b. b = 0) (rev bs) \<noteq> []" by auto
    moreover have "dropWhile (\<lambda>b. b = 0) (rev bs @ [b]) = dropWhile (\<lambda>b. b = 0) (rev bs) @ [b]"
      by (rule dropWhile_append1[OF x(1)]) (use x(2) in simp)
    ultimately show ?thesis using Cons by (simp add: Let_def)
  next
    case False
    then have "dropWhile (\<lambda>b. b = 0) (rev bs) = []" "dropWhile (\<lambda>b. b = 0) (rev bs @ [b]) = dropWhile (\<lambda>b. b = 0) [b]"
      by (simp, intro dropWhile_append2, simp)
    then show ?thesis using Cons by (simp add: Let_def)
  qed
qed simp

lemma le_val_zero_iff: "le_val bs = 0 \<longleftrightarrow> strip_zeros bs = []"
proof (induction bs)
  case (Cons b bs)
  have "0 \<le> le_val bs" "0 \<le> uint b" by simp_all
  then have "uint b + 256 * le_val bs = 0 \<longleftrightarrow> uint b = 0 \<and> le_val bs = 0" by linarith
  then show ?case using Cons by (simp add: Let_def uint_0_iff)
qed simp

lemma le_enc_minimal: "le_enc (byteLen (nat (le_val bs))) (le_val bs) = strip_zeros bs"
proof (induction bs)
  case (Cons b bs)
  let ?v = "le_val (b # bs)"
  show ?case
  proof (cases "?v = 0")
    case True
    then show ?thesis using le_val_zero_iff[of "b # bs"] by (simp add: byteLen.simps[of 0])
  next
    case False
    have pos: "0 \<le> le_val bs" "0 \<le> uint b" by simp_all
    have dm: "?v mod 256 = uint b" "?v div 256 = le_val bs" using uint_lt2p[of b] by simp_all
    have "nat ?v div 256 = nat (le_val bs)" using dm(2) nat_div_distrib[of ?v 256] pos by simp
    moreover have "0 < ?v" using False pos unfolding le_val.simps by linarith
    then have "nat ?v \<noteq> 0" by linarith
    ultimately have "byteLen (nat ?v) = Suc (byteLen (nat (le_val bs)))"
      by (simp only: byteLen.simps[of "nat ?v"] if_False)
    then have "le_enc (byteLen (nat ?v)) ?v = b # strip_zeros bs" using Cons dm by simp
    moreover have "strip_zeros (b # bs) \<noteq> []" using False le_val_zero_iff by blast
    ultimately show ?thesis by (simp add: Let_def split: if_splits)
  qed
qed (simp add: byteLen.simps[of 0])

lemma int_be_be_int: "int_be (be_int bs) = dropWhile (\<lambda>b. b = 0) bs"
  unfolding int_be_def be_int_def le_enc_minimal by (simp add: strip_zeros_rev)

lemma be_int_zero_iff: "be_int bs = 0 \<longleftrightarrow> (\<forall>b \<in> set bs. b = 0)"
  using le_val_zero_iff[of "rev bs"] by (simp add: be_int_def strip_zeros_rev)

lemma leading_zeros: "replicate (length (takeWhile (\<lambda>b. b = 0) bs)) 0 @ dropWhile (\<lambda>b. b = 0) bs = bs"
proof -
  have "takeWhile (\<lambda>b. b = 0) bs = replicate (length (takeWhile (\<lambda>b. b = 0) bs)) 0"
    by (metis (mono_tags, lifting) map_replicate_const map_idI set_takeWhileD)
  then show ?thesis by (metis takeWhile_dropWhile_id)
qed

subsection \<open>Round trips\<close>

lemma takeWhile_replicate:
  "takeWhile (\<lambda>c. c = a) xs = [] \<Longrightarrow> takeWhile (\<lambda>c. c = a) (replicate n a @ xs) = replicate n a"
  by (induction n) simp_all

lemma base58_roundtrip: "base58_Decode (base58_Encode bs) = bs"
proof -
  let ?n = "length (takeWhile (\<lambda>i. i = 0) bs)" and ?e = "b58EncodeLoop (nat (be_int bs))"
  have z: "b58 alphabetIdx0 = 0" using b58_alphabet[of 0] by (simp add: alphabet_def alphabetIdx0_def)
  have "\<forall>c \<in> set (?e @ replicate ?n alphabetIdx0). b58 c \<noteq> 255" using b58EncodeLoop_digits z by fastforce
  then have v: "b58DecodeLoop (?e @ replicate ?n alphabetIdx0) 0 1 = Some (be_int bs)"
    by (simp add: b58DecodeLoop_run digits_value_zeros b58EncodeLoop_value)
  have "takeWhile (\<lambda>c. c = alphabetIdx0) (rev ?e) = []"
  proof (cases "be_int bs = 0")
    case False
    then have "0 < nat (be_int bs)" using be_int_nonneg[of bs] by linarith
    then show ?thesis using b58EncodeLoop_last[of "nat (be_int bs)"] by (cases ?e rule: rev_cases) auto
  qed (simp add: b58EncodeLoop.simps[of 0])
  from takeWhile_replicate[OF this, of ?n]
  have "length (takeWhile (\<lambda>c. c = alphabetIdx0) (replicate ?n alphabetIdx0 @ rev ?e)) = ?n" by (simp only: length_replicate)
  then show ?thesis
    using v by (simp add: base58_Decode_def base58_Encode_def int_be_be_int leading_zeros)
qed

text \<open>
  Claim C19. A string made by \<^verbatim>\<open>CheckEncode\<close> is read back by \<^verbatim>\<open>CheckDecode\<close>: the payload and the version byte, whatever
  they are, leading zeros included.
\<close>

theorem base58check_roundtrip: "CheckDecode (CheckEncode payload version) = Ok (payload, version)"
proof -
  have "length (checksum b) = 4" for b by (simp add: checksum_def)
  then show ?thesis by (simp add: CheckDecode_def CheckEncode_def base58_roundtrip Let_def)
qed

text \<open>What \<^verbatim>\<open>CheckDecode\<close> accepts carries the checksum of its version and payload.\<close>

lemma CheckDecode_sound:
  assumes "CheckDecode s = Ok (p, v)"
  shows "base58_Decode s = [v] @ p @ checksum ([v] @ p)"
proof -
  define d where "d = base58_Decode s"
  have c: "5 \<le> length d" "checksum (take (length d - 4) d) = drop (length d - 4) d" "v = d ! 0"
      "p = take (length d - 4 - 1) (drop 1 d)"
    using assms by (auto simp: CheckDecode_def d_def[symmetric] Let_def split: if_splits)
  then obtain x xs where d: "d = x # xs" by (cases d) auto
  have "take (length d - 4) d = [v] @ p" using c(1,3,4) d by (simp add: take_Cons')
  then show ?thesis using c(2) append_take_drop_id[of "length d - 4" d] by (simp add: d_def[symmetric])
qed

end
