(* ===== verification/Connect.thy ===== *)
theory Connect
  imports Chain Base58
begin

text \<open>
  The checks of a block against the chain (\<^verbatim>\<open>pkg/chain/validate.go\<close>): the subsidy and the payments of the hard fork
  (\<^verbatim>\<open>pkg/chain/hardfork/subsidy.go\<close>), the rule against duplicate transactions, the checks of a header and a block in
  their context, and \<^verbatim>\<open>checkConnectBlock\<close>, which runs all of them on a view of the unspent outputs.

  The state of an operation is the chain's and the connection's, a view with the journal of spent outputs.
\<close>

unbundle bit_operations_syntax

subsection \<open>The payments of the hard fork\<close>

text \<open>
  An address is its string; \<open>ScriptAddress\<close> is what the decoded address holds.  A string that does not decode makes
  the package panic when it is loaded.
\<close>

record Payee =
  Address :: string
  Payee_Amount :: "64 word"

definition Amt :: "64 word \<Rightarrow> 64 word" where
  "Amt f = f * 100000000"

definition ScriptAddress :: "string \<Rightarrow> (chain_error, byte list) res" where
  "ScriptAddress a = (case CheckDecode a of Ok (decoded, netID) \<Rightarrow> Ok decoded | _ \<Rightarrow> Panic)"

definition Payees :: "Payee list" where
  "Payees = [\<lparr>Address = ''ag7s5bmcA8XoP1CcS1QPjiD4C5hhMWATik'', Payee_Amount = Amt 4400\<rparr>]"

definition TestnetPayees :: "Payee list" where
  "TestnetPayees = [\<lparr>Address = ''8K73LTaMHZmwwqe4vTHu7wm7QtwusvRCwC'', Payee_Amount = Amt 100\<rparr>]"

definition Key :: "nat \<Rightarrow> byte list" where
  "Key hex = map (\<lambda>i. word_of_nat (hex div 256 ^ (32 - i))) [0..<33]"

definition CorePubkeyBytes :: "byte list list" where
  "CorePubkeyBytes =
    [Key 0x021a00c7e054279124e2d3eb8b64a58f1fda515464cd8df3c0823d2ff2931ebf37,
     Key 0x0387484f75bc5e45092b1334684def6b47f3dba1566b4b87f62d11c73d8f98db3e,
     Key 0x02daf0bda15f83899f4ebb62fd837c2dd2368ec8ed90ed0f050054d75d35935c99]"

definition CoreAmount :: "64 word" where "CoreAmount = Amt 30000"

definition TestnetCorePubkeyBytes :: "byte list list" where
  "TestnetCorePubkeyBytes =
    [Key 0x03f040c0cff7918415974f05154c8ffe126ad93db7216103fb6f4080dc3bcf4803,
     Key 0x03f5a5ff1ce0564c7f4565a108220ebac9bd544b44e79ca5a2a805e585d8297cc6,
     Key 0x022976653e490cea689faafa899aa41b6295c32a5fb3e02d0fa201ac698e0c0c24,
     Key 0x029ed2885ea597fddea070a5c4c9f40900a514f67f9d5f662aa7b556e8bc5a26f8]"

definition TestnetCoreAmount :: "64 word" where "TestnetCoreAmount = Amt 30000"

definition hardForkBlock :: "Params \<Rightarrow> int \<Rightarrow> bool" where
  "hardForkBlock params h \<longleftrightarrow> h = ActivationHeight (HardForkList ! 1) \<and> Net params = MainNet \<or>
     h = TestnetStart (HardForkList ! 1) \<and> Net params = TestNet3"

text \<open>The comparison goes byte by byte over the first string; the second one may be too short.\<close>

fun sameBytes :: "byte list \<Rightarrow> byte list \<Rightarrow> (chain_error, bool) res" where
  "sameBytes [] proper = Ok True"
| "sameBytes (p # ps) [] = Panic"
| "sameBytes (p # ps) (q # qs) = (if p \<noteq> q then Ok False else sameBytes ps qs)"

fun checkPayees :: "Payee list \<Rightarrow> TxOut list \<Rightarrow> (chain_error, unit) res" where
  "checkPayees [] txo = Ok ()"
| "checkPayees (payee # payees) [] = Panic"
| "checkPayees (payee # payees) (txOut # txo) =
     (if Value txOut \<noteq> Payee_Amount payee then Err (ruleError ErrBadCoinbaseValue)
      else
        bind_res (slice_res (PkScript txOut) 3 23) (\<lambda>proposed.
        bind_res (ScriptAddress (Address payee)) (\<lambda>proper.
        bind_res (sameBytes proposed proper) (\<lambda>same.
          if \<not> same then Err (ruleError ErrBadCoinbaseValue) else checkPayees payees txo))))"

primrec checkCorePubkeys :: "byte list list \<Rightarrow> byte list \<Rightarrow> (chain_error, unit) res" where
  "checkCorePubkeys [] remscript = Ok ()"
| "checkCorePubkeys (key # corepk) remscript =
     (if length remscript < length key then Err (ruleError ErrBadCoinbaseValue)
      else if take (length key) remscript \<noteq> key then Err (ruleError ErrBadCoinbaseValue)
      else bind_res (slice_res remscript (length key + 1) (length remscript)) (checkCorePubkeys corepk))"

definition checkHardForkCoinbase :: "Params \<Rightarrow> TxOut list \<Rightarrow> (chain_error, unit) res" where
  "checkHardForkCoinbase params txo =
     (let testnet3 = (Net params = TestNet3); payees = (if testnet3 then TestnetPayees else Payees) in
      bind_res (checkPayees payees txo) (\<lambda>_.
      bind_res (nth_res txo (length payees)) (\<lambda>remtx.
        if Value remtx \<noteq> (if testnet3 then TestnetCoreAmount else CoreAmount) then Err (ruleError ErrBadCoinbaseValue)
        else
          bind_res (slice_res (PkScript remtx) 2 (length (PkScript remtx)))
            (checkCorePubkeys (if testnet3 then TestnetCorePubkeyBytes else CorePubkeyBytes)))))"

subsection \<open>The subsidy\<close>

definition baseSubsidy :: "64 word" where "baseSubsidy = 2 * 100000000"

text \<open>The shift count is unsigned, so a negative one shifts everything out.\<close>

function CalcBlockSubsidy :: "bool \<Rightarrow> (int \<Rightarrow> 64 word) \<Rightarrow> int \<Rightarrow> Params \<Rightarrow> 64 word" where
  "CalcBlockSubsidy testnet plan9 h params =
     (if SubsidyReductionInterval params = 0 then baseSubsidy
      else if GetCurrent testnet h = 0 then
        (let halvings = Quo h (SubsidyReductionInterval params)
         in if halvings < 0 then 0 else drop_bit (nat halvings) baseSubsidy)
      else if GetCurrent testnet h = 1 then
        (if hardForkBlock params h then
           sum_list (map Payee_Amount (if Net params = TestNet3 then TestnetPayees else Payees)) +
           CalcBlockSubsidy testnet plan9 (h - 1) params + TestnetCoreAmount
         else plan9 h)
      else 0)"
  by pat_completeness auto

termination
  by (relation "measure (\<lambda>(testnet, plan9, h, params). if hardForkBlock params h then 1 else 0)")
    (auto simp: hardForkBlock_def HardForkList_def MainNet_def TestNet3_def)

declare CalcBlockSubsidy.simps [simp del]

subsection \<open>Operations on the parts of the state\<close>

type_synonym connecting = "chain_state \<times> connection"

definition on_chain :: "(chain_state, 'e, 'a) op \<Rightarrow> (connecting, 'e, 'a) op" where
  "on_chain m = on_part fst (\<lambda>c s. (c, snd s)) m"

definition on_conn :: "(connection, 'e, 'a) op \<Rightarrow> (connecting, 'e, 'a) op" where
  "on_conn m = on_part snd (\<lambda>c s. (fst s, c)) m"

definition on_view :: "(UtxoViewpoint, 'e, 'a) op \<Rightarrow> (connecting, 'e, 'a) op" where
  "on_view m = on_conn (on_part fst (\<lambda>v s. (v, snd s)) m)"

definition view_of :: "connecting \<Rightarrow> UtxoViewpoint" where
  "view_of s = fst (snd s)"

subsection \<open>Duplicate transactions\<close>

text \<open>The hash with the given hexadecimal form, which has the last byte first.\<close>

definition newHashFromStr :: "nat \<Rightarrow> byte list" where
  "newHashFromStr hexStr = map (\<lambda>i. word_of_nat (hexStr div 256 ^ i)) [0..<32]"

definition block91842Hash :: "byte list" where
  "block91842Hash = newHashFromStr 0x00000000000a4d0a398161ffc163c503763b1f4360639393e0e4c8e300e0caec"

definition block91880Hash :: "byte list" where
  "block91880Hash = newHashFromStr 0x00000000000743f190a18c5577a3c2d2a1f610ae9601ac046a38084ccb7cd721"

definition isBIP0030Node :: "node_store \<Rightarrow> noderef \<Rightarrow> bool" where
  "isBIP0030Node st node =
     (if height st node = 91842 \<and> node_hash (node_at st node) = block91842Hash then True
      else if height st node = 91880 \<and> node_hash (node_at st node) = block91880Hash then True
      else False)"

definition block_outputs :: "Block \<Rightarrow> OutPoint list" where
  "block_outputs block = remdups (concat (map (map fst \<circ> outputs) (block_Transactions block)))"

definition checkBIP0030 :: "chain_env \<Rightarrow> Block \<Rightarrow> (UtxoViewpoint, chain_error, unit) op" where
  "checkBIP0030 E block =
     bnd (fetchUtxos (ce_fetch E) (ce_visit E) (block_outputs block)) (\<lambda>_.
     bnd (get_st id) (\<lambda>view.
       if \<exists>outpoint \<in> set (block_outputs block).
         (case LookupEntry view outpoint of None \<Rightarrow> False | Some utxo \<Rightarrow> \<not> IsSpent utxo)
       then throw (ruleError ErrOverwriteTx) else ret ()))"

subsection \<open>Connecting a block\<close>

definition Bip16Activation :: int where "Bip16Activation = 1333238400"

primrec checkSigOpCosts ::
  "UtxoViewpoint \<Rightarrow> bool \<Rightarrow> bool \<Rightarrow> bool \<Rightarrow> MsgTx list \<Rightarrow> int \<Rightarrow> (chain_error, int) res" where
  "checkSigOpCosts view p2sh segWit isFirst [] lastSigOpCost = Ok lastSigOpCost"
| "checkSigOpCosts view p2sh segWit isFirst (tx # txs) lastSigOpCost =
     bind_res (GetSigOpCost tx isFirst view p2sh segWit) (\<lambda>sigOpCost.
       let totalSigOpCost = i64 (lastSigOpCost + sigOpCost) in
       if totalSigOpCost < lastSigOpCost \<or> totalSigOpCost > MaxBlockSigOpsCost then Err (ruleError ErrTooManySigOps)
       else checkSigOpCosts view p2sh segWit False txs totalSigOpCost)"

primrec connectFees :: "Params \<Rightarrow> int \<Rightarrow> MsgTx list \<Rightarrow> 64 word \<Rightarrow> (connection, chain_error, 64 word) op" where
  "connectFees params h [] lastTotalFees = ret lastTotalFees"
| "connectFees params h (tx # txs) lastTotalFees =
     bnd (get_st fst) (\<lambda>view.
     bnd (lift_res (CheckTransactionInputs tx h view params)) (\<lambda>txFee.
       let totalFees = lastTotalFees + txFee in
       if sint totalFees < sint lastTotalFees then throw (ruleError ErrBadFees)
       else bnd (connectTransaction tx h) (\<lambda>_. connectFees params h txs totalFees)))"

primrec checkSequenceLocks ::
  "chain_env \<Rightarrow> noderef \<Rightarrow> UtxoViewpoint \<Rightarrow> int \<Rightarrow> MsgTx list \<Rightarrow> (chain_state, chain_error, unit) op" where
  "checkSequenceLocks E node view medianTime [] = ret ()"
| "checkSequenceLocks E node view medianTime (tx # txs) =
     bnd (calcSequenceLock E node tx view False) (\<lambda>sequenceLock.
     bnd (get_st nodes_of) (\<lambda>st.
       if \<not> SequenceLockActive sequenceLock (height st node) medianTime then throw (ruleError ErrUnfinalizedTx)
       else checkSequenceLocks E node view medianTime txs))"

text \<open>The median time is that of the parent; without a parent the list of times is empty and the index panics.\<close>

definition checkCSV :: "chain_env \<Rightarrow> noderef \<Rightarrow> Block \<Rightarrow> UtxoViewpoint \<Rightarrow> (chain_state, chain_error, ScriptFlags) op" where
  "checkCSV E node block view =
     bnd (get_st nodes_of) (\<lambda>st.
     bnd (deployment_op E (parent st node) DeploymentCSV) (\<lambda>csvState.
       if csvState = ThresholdActive then
         bnd (lift_res (CalcPastMedianTime st (parent st node))) (\<lambda>medianTime.
         bnd (checkSequenceLocks E node view medianTime (block_Transactions block)) (\<lambda>_.
           ret ScriptVerifyCheckSequenceVerify))
       else ret 0))"

definition versionFlags :: "Params \<Rightarrow> int \<Rightarrow> BlockHeader \<Rightarrow> bool \<Rightarrow> ScriptFlags" where
  "versionFlags params h blockHeader enforceBIP0016 =
     (if enforceBIP0016 then ScriptBip16 else 0) OR
     (if sint (header_Version blockHeader) \<ge> 3 \<and> h \<ge> BIP0066Height params then ScriptVerifyDERSignatures else 0) OR
     (if sint (header_Version blockHeader) \<ge> 4 \<and> h \<ge> BIP0065Height params then ScriptVerifyCheckLockTimeVerify else 0)"

text \<open>The scripts run in the sequential schedule, one of those of the pool.\<close>

definition runBlockScripts ::
  "chain_env \<Rightarrow> Block \<Rightarrow> UtxoViewpoint \<Rightarrow> ScriptFlags \<Rightarrow> (chain_state, chain_error, unit) op" where
  "runBlockScripts E block view scriptFlags =
     on_part (\<lambda>s. (cs_sigCache s, cs_hashCache s)) (\<lambda>(c, h) s. s\<lparr>cs_sigCache := c, cs_hashCache := h\<rparr>)
       (checkBlockScripts (ce_script E) block view scriptFlags)"

definition checkCoinbaseValue :: "chain_env \<Rightarrow> int \<Rightarrow> MsgTx list \<Rightarrow> 64 word \<Rightarrow> (chain_error, unit) res" where
  "checkCoinbaseValue E h transactions totalFees =
     bind_res (nth_res transactions 0) (\<lambda>coinbase.
       let totalSatoshiOut = foldl (\<lambda>t txOut. t + Value txOut) 0 (txOuts coinbase);
           expectedSatoshiOut = CalcBlockSubsidy (ce_testnet E) (plan9_subsidy E) h (ce_params E) + totalFees
       in if sint totalSatoshiOut > sint expectedSatoshiOut then Err (ruleError ErrBadCoinbaseValue)
          else if hardForkBlock (ce_params E) h then checkHardForkCoinbase (ce_params E) (txOuts coinbase)
          else Ok ())"

definition loadInputs :: "chain_env \<Rightarrow> noderef \<Rightarrow> Block \<Rightarrow> (connecting, chain_error, unit) op" where
  "loadInputs E node block =
     bnd (get_st (nodes_of \<circ> fst)) (\<lambda>st.
     bnd (if \<not> isBIP0030Node st node \<and> height st node < BIP0034Height (ce_params E)
          then on_view (checkBIP0030 E block) else ret ()) (\<lambda>_.
       on_view (fetchInputUtxos (ce_fetch E) (ce_visit E) block)))"

definition checkConnectBlock :: "chain_env \<Rightarrow> noderef \<Rightarrow> Block \<Rightarrow> (connecting, chain_error, unit) op" where
  "checkConnectBlock E node block =
     bnd (get_st (nodes_of \<circ> fst)) (\<lambda>st.
     bnd (get_st view_of) (\<lambda>view.
     let params = ce_params E; h = height st node; blockHeader = Header (msgBlock block); transactions = block_Transactions block in
     if node_hash (node_at st node) = GenesisHash params then throw (ruleError ErrMissingTxOut)
     else if bestHash view \<noteq> PrevBlock blockHeader then throw AssertError
     else
       bnd (loadInputs E node block) (\<lambda>_.
       let enforceBIP0016 = (node_timestamp (node_at st node) \<ge> Bip16Activation) in
       bnd (on_chain (deployment_op E (parent st node) DeploymentSegwit)) (\<lambda>segwitState.
       let enforceSegWit = (segwitState = ThresholdActive) in
       bnd (get_st view_of) (\<lambda>view.
       bnd (lift_res (checkSigOpCosts view enforceBIP0016 enforceSegWit True transactions 0)) (\<lambda>_.
       bnd (on_conn (connectFees params h transactions 0)) (\<lambda>totalFees.
       bnd (lift_res (checkCoinbaseValue E h transactions totalFees)) (\<lambda>_.
       let runScripts = (case LatestCheckpoint E of Some c \<Rightarrow> \<not> h \<le> cp_Height c | None \<Rightarrow> True) in
       bnd (get_st view_of) (\<lambda>view.
       bnd (on_chain (checkCSV E node block view)) (\<lambda>csvFlag.
       let scriptFlags = versionFlags params h blockHeader enforceBIP0016 OR csvFlag OR
             (if enforceSegWit then ScriptVerifyWitness OR ScriptStrictMultiSig else 0) in
       bnd (if runScripts then on_chain (runBlockScripts E block view scriptFlags) else ret ()) (\<lambda>_.
         on_view (mod_st (SetBestHash (node_hash (node_at st node)))))))))))))))"

subsection \<open>Blocks in their context\<close>

definition other_error :: "(unit, 'a) res \<Rightarrow> (chain_error, 'a) res" where
  "other_error r = (case r of Ok a \<Rightarrow> Ok a | Err _ \<Rightarrow> Err OtherError | Panic \<Rightarrow> Panic | Hang \<Rightarrow> Hang)"

definition checkHeaderTime ::
  "chain_env \<Rightarrow> node_store \<Rightarrow> BlockHeader \<Rightarrow> noderef \<Rightarrow> (chain_error, unit) res" where
  "checkHeaderTime E st header p =
     bind_res (other_error (calcNextRequiredDifficulty (ce_testnet E) (ce_params E) (ce_intn E) (plan9_bits E) st (Some p)
       (Timestamp header) (GetAlgoName (ce_testnet E) (sint (header_Version header)) (i32 (height st p + 1))))) (\<lambda>expectedDifficulty.
       if Bits header \<noteq> expectedDifficulty then Err (ruleError ErrUnexpectedDifficulty)
       else bind_res (CalcPastMedianTime st (Some p)) (\<lambda>medianTime.
         if \<not> Timestamp header > unix_time medianTime then Err (ruleError ErrTimeTooOld) else Ok ()))"

definition checkBlockHeaderContext ::
  "chain_env \<Rightarrow> BlockHeader \<Rightarrow> noderef option \<Rightarrow> BehaviorFlags \<Rightarrow> (chain_state, chain_error, unit) op" where
  "checkBlockHeaderContext E header prevNode bf =
     (case prevNode of None \<Rightarrow> ret ()
      | Some p \<Rightarrow>
          bnd (get_st nodes_of) (\<lambda>st.
          bnd (if bf AND BFFastAdd = BFFastAdd then ret () else lift_res (checkHeaderTime E st header p)) (\<lambda>_.
            let blockHeight = i32 (height st p + 1) in
            if \<not> verifyCheckpoint E blockHeight (BlockHash header) then throw (ruleError ErrBadCheckpoint)
            else
              bnd (findPreviousCheckpoint E) (\<lambda>checkpoint.
                case checkpoint of None \<Rightarrow> ret ()
                | Some c \<Rightarrow> if blockHeight < height st c then throw (ruleError ErrForkTooOld) else ret ()))))"

text \<open>The median time of a missing previous block panics; the checks of lock times use seconds.\<close>

definition checkBlockContext ::
  "chain_env \<Rightarrow> Block \<Rightarrow> noderef option \<Rightarrow> BehaviorFlags \<Rightarrow> (chain_state, chain_error, unit) op" where
  "checkBlockContext E block prevNode bf =
     (let header = Header (msgBlock block); transactions = block_Transactions block in
      bnd (checkBlockHeaderContext E header prevNode bf) (\<lambda>_.
        if bf AND BFFastAdd = BFFastAdd then ret ()
        else
          bnd (get_st nodes_of) (\<lambda>st.
          bnd (deployment_op E prevNode DeploymentCSV) (\<lambda>csvState.
          bnd (if csvState = ThresholdActive then lift_res (CalcPastMedianTime st prevNode) else ret (Unix (Timestamp header))) (\<lambda>blockTime.
            case prevNode of None \<Rightarrow> panic
            | Some p \<Rightarrow>
                let blockHeight = i32 (height st p + 1) in
                if \<exists>tx \<in> set transactions. \<not> IsFinalizedTransaction tx blockHeight blockTime then throw (ruleError ErrUnfinalizedTx)
                else
                  bnd (if ShouldHaveSerializedBlockHeight header \<and> blockHeight \<ge> BIP0034Height (ce_params E)
                       then lift_res (bind_res (nth_res transactions 0) (\<lambda>coinbaseTx. checkSerializedHeight coinbaseTx blockHeight))
                       else ret ()) (\<lambda>_.
                  bnd (deployment_op E prevNode DeploymentSegwit) (\<lambda>segwitState.
                    if segwitState = ThresholdActive then
                      bnd (lift_res (ValidateWitnessCommitment block)) (\<lambda>_.
                        if GetBlockWeight block > MaxBlockWeight then throw (ruleError ErrBlockWeightTooHigh) else ret ())
                    else ret ())))))))"

text \<open>
  The template is checked on a view of its own; a new node is made for it, which also writes the work of the tip.
\<close>

definition CheckConnectBlockTemplate :: "chain_env \<Rightarrow> int \<Rightarrow> Block \<Rightarrow> (chain_state, chain_error, unit) op" where
  "CheckConnectBlockTemplate E adjusted block =
     (let header = Header (msgBlock block); blockHeight = block_Height block; testnet = ce_testnet E;
          minDiff = GetMinDiff testnet (GetAlgoName testnet (sint (header_Version header)) blockHeight) blockHeight
      in bnd (get_st (\<lambda>s. (nodes_of s, tip (bestChain s)))) (\<lambda>(st, t).
           case t of None \<Rightarrow> panic
           | Some t \<Rightarrow>
               if node_hash (node_at st t) \<noteq> PrevBlock header then throw (ruleError ErrPrevBlockNotBest)
               else
                 bnd (lift_res (checkBlockSanity (ce_algos E) testnet block (Some minDiff) adjusted BFNoPoWCheck blockHeight)) (\<lambda>_.
                 bnd (checkBlockContext E block (Some t) BFNoPoWCheck) (\<lambda>_. (\<lambda>s.
                   let view = SetBestHash (node_hash (node_at st t)) NewUtxoViewpoint;
                       (newNode, st') = newBlockNode testnet header (Some t) (nodes_of s);
                       s = s\<lparr>cs_index := (cs_index s)\<lparr>bi_nodes := st'\<rparr>\<rparr>
                   in case checkConnectBlock E newNode block (s, (view, None)) of (r, (s, _)) \<Rightarrow> (r, s))))))"

end
