(* ===== verification/NoInflation.thy ===== *)
theory NoInflation
  imports Connect
begin

text \<open>
  Connecting a block makes no money.  The ledger is the set of coins of the database and a view on top of it; the
  specification of a block is \<open>apply_txs\<close> of theory Utxo on the ledger.
\<close>

subsection \<open>The ledger\<close>

definition db_coins :: "fetch_entry \<Rightarrow> coin_set" where
  "db_coins db op = (case db op of Ok (Some e) \<Rightarrow> if IsSpent e then None else Some (coin_of e) | _ \<Rightarrow> None)"

definition ledger :: "fetch_entry \<Rightarrow> UtxoViewpoint \<Rightarrow> coin_set" where
  "ledger db view op = (if entries view op = None then db_coins db op else coins view op)"

definition coin_value :: "coin_set \<Rightarrow> int" where
  "coin_value C = (\<Sum>op \<in> dom C. sint (stxo_Amount (the (C op))))"

definition outs :: "MsgTx \<Rightarrow> OutPoint set" where
  "outs tx = fst ` set (spendable_outputs tx)"

definition block_outs :: "MsgTx list \<Rightarrow> OutPoint set" where
  "block_outs txs = (\<Union>tx \<in> set txs. outs tx)"

lemma outs_hash: "op \<in> outs tx \<Longrightarrow> Hash op = TxHash tx"
  by (auto simp: outs_def spendable_outputs_def outputs_def)

lemma outs_created: "dom (created h cb tx) = outs tx"
  by (auto simp: outs_def dom_created)

lemma block_outs_Cons [simp]: "block_outs (tx # txs) = outs tx \<union> block_outs txs" "block_outs [] = {}"
  by (simp_all add: block_outs_def)

lemma outs_disjoint:
  assumes "distinct (map TxHash (tx # txs))" "op \<in> outs tx"
  shows "op \<notin> block_outs txs"
proof
  assume "op \<in> block_outs txs"
  then obtain t where "t \<in> set txs" "op \<in> outs t" by (auto simp: block_outs_def)
  then have "TxHash t = TxHash tx" using outs_hash assms(2) by metis
  then show False using assms(1) \<open>t \<in> set txs\<close> by (metis distinct.simps(2) image_eqI list.simps(9) list.set_map)
qed

lemma ledger_cong: "entries view' op = entries view op \<Longrightarrow> ledger db view' op = ledger db view op"
  by (simp add: ledger_def coins_def LookupEntry_def)

lemma coins_no_entry: "coins view op = Some c \<Longrightarrow> entries view op \<noteq> None"
  by (auto simp: coins_def LookupEntry_def split: option.splits)

subsection \<open>What the operations do to the entries\<close>

lemma entries_addTxOut:
  "entries (addTxOut op to cb h view) op' = entries view op' \<or> op' = op \<and> \<not> IsUnspendable (PkScript to)"
  by (simp add: addTxOut_def Let_def setEntry_def)

lemma entries_AddTxOuts: "op \<notin> outs tx \<Longrightarrow> entries (AddTxOuts tx h view) op = entries view op"
proof -
  have "(\<forall>x \<in> set os. fst x = op \<longrightarrow> IsUnspendable (PkScript (snd x))) \<Longrightarrow>
      entries (foldl (\<lambda>view (op, to). addTxOut op to cb h view) view os) op = entries view op" for cb os
  proof (induction os arbitrary: view)
    case (Cons x os)
    have "entries (case x of (op, to) \<Rightarrow> addTxOut op to cb h view) op = entries view op"
      using Cons.prems entries_addTxOut[of "fst x" "snd x" cb h view op] by (auto split: prod.splits)
    then show ?case using Cons.IH Cons.prems by simp
  qed simp
  moreover assume "op \<notin> outs tx"
  then have "\<forall>x \<in> set (outputs tx). fst x = op \<longrightarrow> IsUnspendable (PkScript (snd x))"
    by (force simp: outs_def spendable_outputs_def)
  ultimately show ?thesis by (simp add: AddTxOuts_def)
qed

lemma AddTxOuts_known:
  assumes "op \<in> outs tx"
  shows "entries (AddTxOuts tx h view) op \<noteq> None"
proof -
  obtain c where "created h (IsCoinBase tx) tx op = Some c" using assms outs_created[of h "IsCoinBase tx" tx] by auto
  then have "coins (AddTxOuts tx h view) op = Some c" by (simp add: coins_AddTxOuts)
  then show ?thesis by (rule coins_no_entry)
qed

lemma ledger_AddTxOuts: "ledger db (AddTxOuts tx h view) = ledger db view ++ created h (IsCoinBase tx) tx"
proof
  fix op
  show "ledger db (AddTxOuts tx h view) op = (ledger db view ++ created h (IsCoinBase tx) tx) op"
  proof (cases "op \<in> outs tx")
    case True
    then have "created h (IsCoinBase tx) tx op \<noteq> None" using outs_created[of h "IsCoinBase tx" tx] by auto
    then show ?thesis using AddTxOuts_known[OF True, of h view] by (auto simp: ledger_def coins_AddTxOuts map_add_def)
  next
    case False
    then have "created h (IsCoinBase tx) tx op = None" using outs_created[of h "IsCoinBase tx" tx] by auto
    then show ?thesis using ledger_cong[OF entries_AddTxOuts[OF False], of db h view] by (simp add: map_add_def)
  qed
qed

lemma spendInputs_ledger:
  assumes "spendInputs ins (view, st) = (Ok (), (view', st'))"
  shows "ledger db view' = ledger db view |` (- set (map PreviousOutPoint ins)) \<and>
    (\<forall>op. op \<notin> set (map PreviousOutPoint ins) \<longrightarrow> entries view' op = entries view op)"
  using assms
proof (induction ins arbitrary: view st)
  case Nil
  then show ?case by (simp add: ret_def restrict_map_def)
next
  case (Cons i ins)
  let ?op = "PreviousOutPoint i"
  obtain e st1 where run: "spendInputs ins (setEntry ?op (Spend e) view, st1) = (Ok (), (view', st'))"
    using Cons.prems by (auto simp: Let_def split: option.splits)
  have "ledger db (setEntry ?op (Spend e) view) = (ledger db view)(?op := None)"
    by (auto simp: ledger_def fun_eq_iff) (simp_all add: setEntry_def)
  then show ?case using Cons.IH[OF run] by (auto simp: restrict_map_def fun_eq_iff setEntry_def)
qed

lemma connectTransaction_ledger:
  assumes "connectTransaction tx h (view, st) = (Ok (), (view', st'))"
  shows "ledger db view' = apply_tx h tx (ledger db view)"
    "op \<notin> outs tx \<Longrightarrow> op \<notin> set (spends tx) \<Longrightarrow> entries view' op = entries view op"
proof -
  obtain view1 where v: "ledger db view1 = ledger db view |` (- set (spends tx))" "view' = AddTxOuts tx h view1"
      "\<And>op. op \<notin> set (spends tx) \<Longrightarrow> entries view1 op = entries view op"
  proof (cases "IsCoinBase tx")
    case True
    then show ?thesis using that[of view] assms
      by (simp add: connectTransaction_def mod_st_def spends_def restrict_UNIV)
  next
    case False
    then obtain view1 st1 where "spendInputs (txIns tx) (view, st) = (Ok (), (view1, st1))" "view' = AddTxOuts tx h view1"
      using assms by (auto simp: connectTransaction_def bnd_eq_Ok_iff mod_st_def)
    then show ?thesis using that[of view1] spendInputs_ledger[of "txIns tx" view st view1 st1 db] False
      by (auto simp: spends_def)
  qed
  show "ledger db view' = apply_tx h tx (ledger db view)" by (simp add: v(1,2) ledger_AddTxOuts apply_tx_def)
  show "op \<notin> outs tx \<Longrightarrow> op \<notin> set (spends tx) \<Longrightarrow> entries view' op = entries view op"
    by (simp add: v(2,3) entries_AddTxOuts)
qed

lemma fetchUtxosMain_entries:
  "fetchUtxosMain db ops view = (Ok (), view') \<Longrightarrow>
   (op \<in> set ops \<longrightarrow> (\<exists>e. db op = Ok e \<and> entries view' op = Some e)) \<and>
   (op \<notin> set ops \<longrightarrow> entries view' op = entries view op)"
proof (induction ops arbitrary: view)
  case Nil
  then show ?case by (simp add: ret_def)
next
  case (Cons o' ops)
  then obtain e where "db o' = Ok e" "fetchUtxosMain db ops (view\<lparr>entries := (entries view)(o' \<mapsto> e)\<rparr>) = (Ok (), view')"
    by (auto simp: bnd_eq_Ok_iff lift_res_def mod_st_def)
  then show ?case using Cons.IH[of "view\<lparr>entries := (entries view)(o' \<mapsto> e)\<rparr>"] by auto
qed

lemma fetched_ledger:
  assumes "fetchUtxosMain db ops view = (Ok (), view')" "op \<in> set ops \<Longrightarrow> entries view op = None"
  shows "ledger db view' op = ledger db view op"
  using fetchUtxosMain_entries[OF assms(1), of op] assms(2)
  by (cases "op \<in> set ops") (auto simp: ledger_def db_coins_def coins_def LookupEntry_def split: option.splits)

subsection \<open>Loading the inputs\<close>

text \<open>
  No output of the block is known yet, neither to the view nor to the database; and no transaction spends an output of
  itself or of a later one.
\<close>

definition block_is_new :: "fetch_entry \<Rightarrow> UtxoViewpoint \<Rightarrow> MsgTx list \<Rightarrow> bool" where
  "block_is_new db view txs \<longleftrightarrow> (\<forall>op \<in> block_outs txs. entries view op = None \<and> db op = Ok None)"

fun in_order :: "MsgTx list \<Rightarrow> bool" where
  "in_order [] = True"
| "in_order (tx # txs) \<longleftrightarrow> set (spends tx) \<inter> block_outs (tx # txs) = {} \<and> in_order txs"

text \<open>What a transaction would spend of itself or of a later one is not in the view.\<close>

fun unknown_later :: "UtxoViewpoint \<Rightarrow> MsgTx list \<Rightarrow> bool" where
  "unknown_later view [] = True"
| "unknown_later view (tx # txs) \<longleftrightarrow>
     (\<forall>op \<in> set (spends tx) \<inter> block_outs (tx # txs). LookupEntry view op = None) \<and> unknown_later view txs"

lemma in_order_unknown: "in_order txs \<Longrightarrow> unknown_later view txs"
  by (induction txs) auto

text \<open>The inputs of a block with the number of their transaction, less one for the coinbase.\<close>

definition block_inputs :: "MsgTx list \<Rightarrow> (nat \<times> TxIn) list" where
  "block_inputs txs = concat (map (\<lambda>(i, tx). map (Pair i) (txIns tx)) (zip [0..<length txs] txs))"

lemma foldl_inputs:
  "foldl (\<lambda>s (i, tx). foldl (neededInput block i) s (txIns tx)) s l =
   foldl (\<lambda>s (i, txIn). neededInput block i s txIn) s (concat (map (\<lambda>(i, tx). map (Pair i) (txIns tx)) l))"
proof (induction l arbitrary: s)
  case (Cons x l)
  have "foldl (neededInput block i) s ins = foldl (\<lambda>s (i, txIn). neededInput block i s txIn) s (map (Pair i) ins)" for i s ins
    by (induction ins arbitrary: s) simp_all
  then show ?case using Cons.IH by (cases x) simp
qed simp

lemma block_inputs_sorted: "sorted (map fst (block_inputs txs))"
proof -
  have "sorted (map fst (concat (map (\<lambda>(i, tx). map (Pair i) (txIns tx)) (zip [k..<k + length txs] txs)))) \<and>
      (\<forall>i \<in> set (map fst (concat (map (\<lambda>(i, tx). map (Pair i) (txIns tx)) (zip [k..<k + length txs] txs)))). k \<le> i)" for k
  proof (induction txs arbitrary: k)
    case (Cons tx txs)
    have u: "zip [k..<k + length (tx # txs)] (tx # txs) = (k, tx) # zip [Suc k..<Suc k + length txs] txs"
      by (simp add: upt_conv_Cons del: upt_Suc)
    have "sorted (map fst (map (Pair k) (txIns tx)))" by (simp add: comp_def sorted_wrt_iff_nth_less)
    then show ?case unfolding u using Cons.IH[of "Suc k"] by (fastforce simp: sorted_append)
  qed simp
  from this[of 0] show ?thesis by (simp add: block_inputs_def)
qed

lemma block_inputs_member: "(i, txIn) \<in> set (block_inputs txs) \<longleftrightarrow> i < length txs \<and> txIn \<in> set (txIns (txs ! i))"
  by (force simp: block_inputs_def set_zip)

lemma inFlight:
  assumes "distinct (map TxHash txs)"
  shows "map_of (rev (zip (map TxHash txs) [0..<length txs])) h = Some j \<longleftrightarrow> j < length txs \<and> TxHash (txs ! j) = h"
proof -
  have "distinct (map fst (rev (zip (map TxHash txs) [0..<length txs])))" by (simp add: rev_map[symmetric] assms)
  then show ?thesis by (subst map_of_eq_Some_iff) (auto simp: in_set_zip intro!: exI[of _ j])
qed

lemma neededInput_cases:
  assumes "distinct (map TxHash (block_Transactions block))"
  obtains (inflight) j where "j < length (block_Transactions block)" "j \<le> i" "TxHash (block_Transactions block ! j) = Hash (PreviousOutPoint txIn)"
      "neededInput block i (view, needed) txIn = (AddTxOuts (block_Transactions block ! j) (block_Height block) view, needed)"
  | (known) "entries view (PreviousOutPoint txIn) \<noteq> None" "neededInput block i (view, needed) txIn = (view, needed)"
  | (fetch) "entries view (PreviousOutPoint txIn) = None"
      "neededInput block i (view, needed) txIn = (view, List.insert (PreviousOutPoint txIn) needed)"
      "\<And>j. j < length (block_Transactions block) \<Longrightarrow> TxHash (block_Transactions block ! j) = Hash (PreviousOutPoint txIn) \<Longrightarrow> i < j"
proof -
  let ?txs = "block_Transactions block"
  let ?m = "map_of (rev (zip (map TxHash ?txs) [0..<length ?txs]))"
  show thesis
  proof (cases "?m (Hash (PreviousOutPoint txIn))")
    case None
    then have "TxHash (?txs ! j) \<noteq> Hash (PreviousOutPoint txIn)" if "j < length ?txs" for j
      using inFlight[OF assms, of "Hash (PreviousOutPoint txIn)" j] that by auto
    then show ?thesis using known fetch None
      by (cases "entries view (PreviousOutPoint txIn) = None") (auto simp: neededInput_def Let_def)
  next
    case (Some j)
    note j = inFlight[OF assms, of "Hash (PreviousOutPoint txIn)", THEN iffD1, OF Some]
    have u: "k = j" if "k < length ?txs" "TxHash (?txs ! k) = Hash (PreviousOutPoint txIn)" for k
      using inFlight[OF assms, of "Hash (PreviousOutPoint txIn)" k] that Some by simp
    show ?thesis
    proof (cases "j \<le> i")
      case True
      then show ?thesis using inflight[of j] j Some by (simp add: neededInput_def Let_def)
    next
      case False
      then have l: "i < k" if "k < length ?txs" "TxHash (?txs ! k) = Hash (PreviousOutPoint txIn)" for k using u[OF that] by simp
      show ?thesis
      proof (cases "entries view (PreviousOutPoint txIn) = None")
        case True
        then show ?thesis using fetch l False Some by (simp add: neededInput_def Let_def)
      next
        case ne: False
        then show ?thesis using known False Some by (simp add: neededInput_def Let_def)
      qed
    qed
  qed
qed

text \<open>
  What is known of the view and of the outputs still needed while the inputs are gone through.  The outputs of a
  transaction are put into the view only for inputs of later ones, so an input that comes too early is always looked up.
\<close>

definition loading :: "UtxoViewpoint \<Rightarrow> MsgTx list \<Rightarrow> (nat \<times> TxIn) list \<Rightarrow> UtxoViewpoint \<times> OutPoint list \<Rightarrow> bool" where
  "loading view0 txs seen s \<longleftrightarrow> (case s of (view, needed) \<Rightarrow>
     (\<forall>op. op \<notin> block_outs txs \<longrightarrow> entries view op = entries view0 op) \<and>
     (\<forall>op \<in> set needed. op \<notin> block_outs txs \<longrightarrow> entries view op = None) \<and>
     ((\<forall>op \<in> block_outs txs. entries view0 op = None) \<longrightarrow>
       (\<forall>j < length txs. \<forall>op \<in> outs (txs ! j). entries view op \<noteq> None \<longrightarrow> (\<exists>i \<in> set (map fst seen). j \<le> i)) \<and>
       (\<forall>(i, txIn) \<in> set seen. \<forall>j < length txs. i < j \<longrightarrow> PreviousOutPoint txIn \<in> outs (txs ! j) \<longrightarrow>
          PreviousOutPoint txIn \<in> set needed)))"

lemma loading_step:
  assumes "distinct (map TxHash (block_Transactions block))" "loading view0 (block_Transactions block) seen s"
    "sorted (map fst (seen @ [(i, txIn)]))"
  shows "loading view0 (block_Transactions block) (seen @ [(i, txIn)]) (neededInput block i s txIn)"
proof -
  obtain view needed where s: "s = (view, needed)" by (cases s)
  let ?txs = "block_Transactions block" and ?op = "PreviousOutPoint txIn"
  note old = assms(2)[unfolded loading_def s prod.case]
  have le: "i' \<le> i" if "i' \<in> set (map fst seen)" for i' using assms(3) that by (auto simp: sorted_append)
  show ?thesis
  proof (cases rule: neededInput_cases[OF assms(1), of i txIn view needed, case_names inflight known fetch])
    case (inflight j)
    have o: "k = j" if "k < length ?txs" "op \<in> outs (?txs ! j)" "op \<in> outs (?txs ! k)" for k op
      using assms(1) that inflight(1) by (metis outs_hash length_map nth_eq_iff_index_eq nth_map)
    have h: "k = j" if "k < length ?txs" "?op \<in> outs (?txs ! k)" for k
      using assms(1) that inflight(1,3) by (metis outs_hash length_map nth_eq_iff_index_eq nth_map)
    have e: "entries (AddTxOuts (?txs ! j) (block_Height block) view) op = entries view op" if "op \<notin> outs (?txs ! j)" for op
      by (rule entries_AddTxOuts[OF that])
    have in_b: "op \<in> block_outs ?txs" if "op \<in> outs (?txs ! j)" for op using that inflight(1) by (auto simp: block_outs_def)
    show ?thesis unfolding s inflight(4) loading_def prod.case
    proof (intro conjI impI allI ballI)
      fix op assume "op \<notin> block_outs ?txs"
      then show "entries (AddTxOuts (?txs ! j) (block_Height block) view) op = entries view0 op" using e old in_b by metis
    next
      fix op assume "op \<in> set needed" "op \<notin> block_outs ?txs"
      then show "entries (AddTxOuts (?txs ! j) (block_Height block) view) op = None" using e old in_b by metis
    next
      fix k op assume "\<forall>op \<in> block_outs ?txs. entries view0 op = None" and k: "k < length ?txs" "op \<in> outs (?txs ! k)"
        "entries (AddTxOuts (?txs ! j) (block_Height block) view) op \<noteq> None"
      then show "\<exists>i' \<in> set (map fst (seen @ [(i, txIn)])). k \<le> i'"
        using old e[of op] o[OF k(1) _ k(2)] inflight(2) by (cases "op \<in> outs (?txs ! j)") auto
    next
      fix x assume new: "\<forall>op \<in> block_outs ?txs. entries view0 op = None" and x: "x \<in> set (seen @ [(i, txIn)])"
      have "\<forall>(i, txIn) \<in> set seen. \<forall>j < length ?txs. i < j \<longrightarrow> PreviousOutPoint txIn \<in> outs (?txs ! j) \<longrightarrow> PreviousOutPoint txIn \<in> set needed"
        using old new by blast
      moreover have "\<not> i < k" if "k < length ?txs" "?op \<in> outs (?txs ! k)" for k using h[OF that] inflight(2) by simp
      ultimately show "case x of (i, txIn) \<Rightarrow> \<forall>j < length ?txs. i < j \<longrightarrow> PreviousOutPoint txIn \<in> outs (?txs ! j) \<longrightarrow> PreviousOutPoint txIn \<in> set needed"
        using x by auto
    qed
  next
    case known
    have "\<not> i < j" if "\<forall>op \<in> block_outs ?txs. entries view0 op = None" "j < length ?txs" "?op \<in> outs (?txs ! j)" for j
      using old that known(1) le by (metis leD order.trans not_le_imp_less order.strict_trans2)
    then have early: "\<forall>op \<in> block_outs ?txs. entries view0 op = None \<Longrightarrow> \<forall>j < length ?txs. i < j \<longrightarrow> ?op \<notin> outs (?txs ! j)" by blast
    show ?thesis unfolding s known(2) loading_def prod.case
    proof (intro conjI impI)
      show "\<forall>op. op \<notin> block_outs ?txs \<longrightarrow> entries view op = entries view0 op"
        "\<forall>op \<in> set needed. op \<notin> block_outs ?txs \<longrightarrow> entries view op = None" using old by blast+
      assume new: "\<forall>op \<in> block_outs ?txs. entries view0 op = None"
      then show "\<forall>j < length ?txs. \<forall>op \<in> outs (?txs ! j). entries view op \<noteq> None \<longrightarrow> (\<exists>i \<in> set (map fst (seen @ [(i, txIn)])). j \<le> i)"
        using old by fastforce
      show "\<forall>(i, txIn) \<in> set (seen @ [(i, txIn)]). \<forall>j < length ?txs. i < j \<longrightarrow> PreviousOutPoint txIn \<in> outs (?txs ! j) \<longrightarrow>
          PreviousOutPoint txIn \<in> set needed"
        using old new early[OF new] by fastforce
    qed
  next
    case fetch
    have n: "set (List.insert ?op needed) = insert ?op (set needed)" by simp
    show ?thesis unfolding s fetch(2) loading_def prod.case n
    proof (intro conjI impI)
      show "\<forall>op. op \<notin> block_outs ?txs \<longrightarrow> entries view op = entries view0 op" using old by blast
      show "\<forall>op \<in> insert ?op (set needed). op \<notin> block_outs ?txs \<longrightarrow> entries view op = None" using old fetch(1) by blast
      assume "\<forall>op \<in> block_outs ?txs. entries view0 op = None"
      then show "\<forall>j < length ?txs. \<forall>op \<in> outs (?txs ! j). entries view op \<noteq> None \<longrightarrow> (\<exists>i \<in> set (map fst (seen @ [(i, txIn)])). j \<le> i)"
        "\<forall>(i, txIn) \<in> set (seen @ [(i, txIn)]). \<forall>j < length ?txs. i < j \<longrightarrow> PreviousOutPoint txIn \<in> outs (?txs ! j) \<longrightarrow>
          PreviousOutPoint txIn \<in> insert ?op (set needed)"
        using old by fastforce+
    qed
  qed
qed

lemma loading_all:
  assumes "distinct (map TxHash (block_Transactions block))" "sorted (map fst l)"
  shows "loading view0 (block_Transactions block) l (foldl (\<lambda>s (i, txIn). neededInput block i s txIn) (view0, []) l)"
  using assms(2)
proof (induction l rule: rev_induct)
  case Nil
  then show ?case by (simp add: loading_def block_outs_def) (metis nth_mem)
next
  case (snoc x l)
  then show ?case using loading_step[OF assms(1), of view0 l _ "fst x" "snd x"]
    by (cases x) (simp add: sorted_append)
qed

lemma fetchInputUtxos_loaded:
  assumes "fetchInputUtxos db visit block view0 = (Ok (), view)" "distinct (map TxHash (block_Transactions block))"
    "\<And>ops. set (visit ops) = set ops" "\<forall>op \<in> block_outs (block_Transactions block). db op = Ok None"
    "block_Transactions block = cb # txs"
  shows "op \<notin> block_outs (cb # txs) \<Longrightarrow> ledger db view op = ledger db view0 op"
    "\<forall>op \<in> block_outs (cb # txs). entries view0 op = None \<Longrightarrow> unknown_later view txs"
proof -
  define view1 needed where "view1 = fst (foldl (\<lambda>s (i, txIn). neededInput block i s txIn) (view0, []) (block_inputs txs))"
    and "needed = snd (foldl (\<lambda>s (i, txIn). neededInput block i s txIn) (view0, []) (block_inputs txs))"
  have l: "loading view0 (cb # txs) (block_inputs txs) (view1, needed)"
    using loading_all[OF assms(2) block_inputs_sorted[of txs], of view0] assms(5) by (simp add: view1_def needed_def)
  have run: "fetchUtxosMain db (visit needed) view1 = (Ok (), view)"
    using assms(1,5) unfolding fetchInputUtxos_def foldl_inputs
    by (simp add: Let_def view1_def needed_def block_inputs_def split: prod.splits)
  show "op \<notin> block_outs (cb # txs) \<Longrightarrow> ledger db view op = ledger db view0 op"
    using fetched_ledger[OF run, of op] assms(3) l[unfolded loading_def prod.case] ledger_cong by metis
  assume new: "\<forall>op \<in> block_outs (cb # txs). entries view0 op = None"
  have "LookupEntry view (PreviousOutPoint txIn) = None"
    if "i < length txs" "txIn \<in> set (txIns (txs ! i))" "i < j" "j < Suc (length txs)" "PreviousOutPoint txIn \<in> outs ((cb # txs) ! j)" for i j txIn
  proof -
    let ?op = "PreviousOutPoint txIn"
    have "(i, txIn) \<in> set (block_inputs txs)" using that(1,2) by (simp add: block_inputs_member)
    then have "?op \<in> set needed" using l[unfolded loading_def prod.case] new that(3-5) by fastforce
    moreover have "?op \<in> block_outs (cb # txs)" using that(4,5) unfolding block_outs_def by (metis UN_I length_Cons nth_mem)
    ultimately show ?thesis
      using fetchUtxosMain_entries[OF run, of ?op] assms(3,4,5) by (auto simp: LookupEntry_def)
  qed
  then have "unknown_later view (drop k txs)" if "k \<le> length txs" for k
    using that
  proof (induction "length txs - k" arbitrary: k)
    case 0
    then show ?case by simp
  next
    case (Suc n)
    then have k: "k < length txs" by simp
    have "LookupEntry view op = None" if op: "op \<in> set (spends (txs ! k))" "op \<in> block_outs (drop k txs)" for op
    proof -
      obtain txIn where "txIn \<in> set (txIns (txs ! k))" "op = PreviousOutPoint txIn"
        using op(1) by (auto simp: spends_def split: if_splits)
      moreover obtain m where "m < length txs - k" "op \<in> outs (txs ! (k + m))"
        using op(2) k by (auto simp: block_outs_def in_set_conv_nth)
      ultimately show ?thesis using Suc.prems(1)[OF k, of txIn "Suc (k + m)"] by simp
    qed
    then show ?case using Suc.hyps(1)[of "Suc k"] Suc.hyps(2) Suc.prems k by (simp add: Cons_nth_drop_Suc[symmetric])
  qed
  from this[of 0] show "unknown_later view txs" by simp
qed

subsection \<open>Values\<close>

lemma coin_value_restrict:
  assumes "finite (dom C)" "distinct ops" "set ops \<subseteq> dom C"
  shows "coin_value (C |` (- set ops)) = coin_value C - sum_list (map (\<lambda>op. sint (stxo_Amount (the (C op)))) ops)"
proof -
  let ?v = "\<lambda>op. sint (stxo_Amount (the (C op)))"
  have d: "dom (C |` (- set ops)) = dom C - set ops" by auto
  have "coin_value (C |` (- set ops)) = sum ?v (dom C - set ops)"
    unfolding coin_value_def d by (rule sum.cong) (auto simp: restrict_map_def)
  also have "\<dots> = sum ?v (dom C) - sum ?v (set ops)" using assms by (intro sum_diff) auto
  also have "sum ?v (set ops) = sum_list (map ?v ops)" using assms(2) by (simp add: sum_list_distinct_conv_sum_set)
  finally show ?thesis by (simp add: coin_value_def)
qed

lemma coin_value_add:
  assumes "finite (dom C)" "finite (dom D)" "dom C \<inter> dom D = {}"
  shows "coin_value (C ++ D) = coin_value C + coin_value D"
proof -
  have "coin_value (C ++ D) = (\<Sum>op \<in> dom C. sint (stxo_Amount (the ((C ++ D) op)))) + (\<Sum>op \<in> dom D. sint (stxo_Amount (the ((C ++ D) op))))"
    unfolding coin_value_def using assms by (simp add: sum.union_disjoint Un_commute Int_commute add.commute)
  moreover have "(\<Sum>op \<in> dom C. sint (stxo_Amount (the ((C ++ D) op)))) = coin_value C"
    unfolding coin_value_def using assms(3) by (intro sum.cong) (auto simp: map_add_def split: option.splits)
  moreover have "(\<Sum>op \<in> dom D. sint (stxo_Amount (the ((C ++ D) op)))) = coin_value D"
    unfolding coin_value_def by (intro sum.cong) (auto simp: map_add_def)
  ultimately show ?thesis by simp
qed

lemma coin_value_upd:
  assumes "finite (dom C)" "\<forall>c \<in> ran C. 0 \<le> sint (stxo_Amount c)"
  shows "coin_value (C(op \<mapsto> c)) \<le> coin_value C + sint (stxo_Amount c)"
proof -
  have e: "C(op \<mapsto> c) = (C |` (- {op})) ++ [op \<mapsto> c]" by (auto simp: restrict_map_def map_add_def fun_eq_iff)
  have "coin_value (C |` (- {op})) \<le> coin_value C"
  proof (cases "op \<in> dom C")
    case True
    then have "0 \<le> sint (stxo_Amount (the (C op)))" using assms(2) by (auto simp: ran_def)
    then show ?thesis using coin_value_restrict[OF assms(1), of "[op]"] True by simp
  next
    case False
    then have "C |` (- {op}) = C" by (auto simp: restrict_map_def fun_eq_iff domIff)
    then show ?thesis by simp
  qed
  moreover have "coin_value [op \<mapsto> c] = sint (stxo_Amount c)" by (simp add: coin_value_def)
  moreover have "coin_value (C(op \<mapsto> c)) = coin_value (C |` (- {op})) + coin_value [op \<mapsto> c]"
    unfolding e using assms(1) by (intro coin_value_add) auto
  ultimately show ?thesis by simp
qed

lemma coin_value_map_of:
  "\<forall>p \<in> set ps. 0 \<le> sint (stxo_Amount (snd p)) \<Longrightarrow>
   coin_value (map_of ps) \<le> sum_list (map (\<lambda>p. sint (stxo_Amount (snd p))) ps)"
proof (induction ps)
  case (Cons p ps)
  have "\<forall>c \<in> ran (map_of ps). 0 \<le> sint (stxo_Amount c)" using Cons.prems by (force simp: ran_def dest: map_of_SomeD)
  then have "coin_value ((map_of ps)(fst p \<mapsto> snd p)) \<le> coin_value (map_of ps) + sint (stxo_Amount (snd p))"
    by (intro coin_value_upd finite_dom_map_of)
  moreover have "map_of (p # ps) = (map_of ps)(fst p \<mapsto> snd p)" by (cases p) simp
  moreover have "coin_value (map_of ps) \<le> sum_list (map (\<lambda>p. sint (stxo_Amount (snd p))) ps)" using Cons by simp
  ultimately show ?case by (simp only: list.map sum_list.Cons)
qed (simp add: coin_value_def)

lemma sum_list_filter_le:
  "\<forall>x \<in> set xs. (0 :: int) \<le> f x \<Longrightarrow> sum_list (map f (filter P xs)) \<le> sum_list (map f xs)"
  by (induction xs) auto

lemma outputs_value: "sum_list (map (\<lambda>p. sint (Value (snd p))) (outputs tx)) = out_sum (txOuts tx)"
proof -
  have "map (\<lambda>p. sint (Value (snd p))) (outputs tx) = map (\<lambda>to. sint (Value to)) (txOuts tx)"
    by (rule nth_equalityI) (simp_all add: outputs_def)
  then show ?thesis by (simp add: out_sum_def)
qed

lemma coin_value_created:
  assumes "\<forall>txOut \<in> set (txOuts tx). 0 \<le> sint (Value txOut)"
  shows "finite (dom (created h cb tx)) \<and> coin_value (created h cb tx) \<le> out_sum (txOuts tx)"
proof -
  define ps where "ps = rev (map (\<lambda>(op, to). (op, output_coin h cb to)) (spendable_outputs tx))"
  have pos: "\<forall>p \<in> set (outputs tx). 0 \<le> sint (Value (snd p))" using assms by (auto simp: outputs_def)
  then have "\<forall>p \<in> set ps. 0 \<le> sint (stxo_Amount (snd p))"
    by (auto simp: ps_def spendable_outputs_def output_coin_def)
  then have "coin_value (map_of ps) \<le> sum_list (map (\<lambda>p. sint (stxo_Amount (snd p))) ps)" by (rule coin_value_map_of)
  also have "\<dots> = sum_list (map (\<lambda>p. sint (Value (snd p))) (spendable_outputs tx))"
    by (simp add: rev_map[symmetric] ps_def comp_def case_prod_unfold output_coin_def)
  also have "\<dots> \<le> out_sum (txOuts tx)"
    unfolding spendable_outputs_def outputs_value[symmetric] using pos by (rule sum_list_filter_le)
  finally show ?thesis by (simp add: created_def ps_def finite_dom_map_of)
qed

text \<open>A transaction takes the coins it spends out of the ledger and puts at most its outputs in.\<close>

lemma coin_value_apply:
  assumes "finite (dom C)" "distinct (spends tx)" "set (spends tx) \<subseteq> dom C" "\<forall>op \<in> outs tx. C op = None"
    "\<forall>txOut \<in> set (txOuts tx). 0 \<le> sint (Value txOut)"
  shows "finite (dom (apply_tx h tx C)) \<and>
    coin_value (apply_tx h tx C) + sum_list (map (\<lambda>op. sint (stxo_Amount (the (C op)))) (spends tx)) \<le> coin_value C + out_sum (txOuts tx)"
proof -
  let ?D = "created h (IsCoinBase tx) tx"
  note c = coin_value_created[OF assms(5), of h "IsCoinBase tx"]
  have d: "dom (C |` (- set (spends tx))) \<inter> dom ?D = {}" using assms(4) by (auto simp: outs_created domIff)
  have "finite (dom (C |` (- set (spends tx))))" using assms(1) by simp
  then show ?thesis
    using coin_value_add[OF _ c[THEN conjunct1] d] coin_value_restrict[OF assms(1-3)] c assms(1)
    by (simp add: apply_tx_def)
qed

subsection \<open>The connecting loop\<close>

text \<open>The ledger follows a set of coins, except for outputs that loading has put into the view too early.\<close>

definition follows :: "fetch_entry \<Rightarrow> UtxoViewpoint \<Rightarrow> MsgTx list \<Rightarrow> coin_set \<Rightarrow> bool" where
  "follows db view txs C \<longleftrightarrow> distinct (map TxHash txs) \<and> finite (dom C) \<and> (\<forall>op \<in> block_outs txs. C op = None) \<and>
     (\<forall>op. op \<notin> block_outs txs \<longrightarrow> ledger db view op = C op) \<and> unknown_later view txs"

definition spent_value :: "MsgTx \<Rightarrow> coin_set \<Rightarrow> int" where
  "spent_value tx C = sum_list (map (\<lambda>op. sint (stxo_Amount (the (C op)))) (spends tx))"

lemma unknown_later_frame:
  "unknown_later view txs \<Longrightarrow> (\<And>op. op \<in> block_outs txs \<Longrightarrow> LookupEntry view op = None \<Longrightarrow> LookupEntry view' op = None) \<Longrightarrow>
   unknown_later view' txs"
  by (induction txs) auto

lemma follows_inputs:
  assumes "follows db view (tx # txs) C" "CheckTransactionSanity tx = Ok ()" "CheckTransactionInputs tx h view params = Ok fee"
  shows "distinct (spends tx) \<and> set (spends tx) \<subseteq> dom C \<and> (\<forall>op \<in> set (spends tx). LookupEntry view op \<noteq> None) \<and> 0 \<le> sint fee \<and>
    (if IsCoinBase tx then sint fee = 0 else spent_value tx C = out_sum (txOuts tx) + sint fee)"
proof (cases "IsCoinBase tx")
  case True
  then show ?thesis using assms(3) by (simp add: spends_def CheckTransactionInputs_def)
next
  case False
  obtain utxos where u: "list_all2 (\<lambda>txIn utxo. spendable view h params (PreviousOutPoint txIn) utxo) (txIns tx) utxos"
      "distinct (map PreviousOutPoint (txIns tx))" "sum_list (map (\<lambda>utxo. sint (ue_amount utxo)) utxos) = out_sum (txOuts tx) + sint fee"
      "0 \<le> sint fee"
    using value_of_inputs[OF assms(2,3) False] by blast
  have known: "LookupEntry view op = Some e \<and> \<not> IsSpent e \<Longrightarrow> op \<in> set (spends tx) \<Longrightarrow> C op = Some (coin_of e)" for op e
  proof -
    assume e: "LookupEntry view op = Some e \<and> \<not> IsSpent e" "op \<in> set (spends tx)"
    then have "op \<notin> block_outs (tx # txs)" using assms(1) by (auto simp: follows_def)
    then have "C op = ledger db view op" using assms(1) by (simp add: follows_def)
    then show ?thesis using e by (auto simp: ledger_def coins_def LookupEntry_def split: option.splits)
  qed
  have "map (\<lambda>op. sint (stxo_Amount (the (C op)))) (map PreviousOutPoint ins) = map (\<lambda>utxo. sint (ue_amount utxo)) us \<and>
      set (map PreviousOutPoint ins) \<subseteq> dom C \<and> (\<forall>op \<in> set (map PreviousOutPoint ins). LookupEntry view op \<noteq> None)"
    if "list_all2 (\<lambda>txIn utxo. spendable view h params (PreviousOutPoint txIn) utxo) ins us" "set ins \<subseteq> set (txIns tx)" for ins us
    using that
    by (induction rule: list_all2_induct) (auto simp: spendable_def coin_of_def spends_def False dest!: known[OF conjI])
  from this[OF u(1)] show ?thesis using u False by (simp add: spends_def spent_value_def)
qed

lemma follows_connect:
  assumes "follows db view (tx # txs) C" "connectTransaction tx h (view, st) = (Ok (), (view', st'))"
    "\<forall>op \<in> set (spends tx). LookupEntry view op \<noteq> None" "finite (dom (apply_tx h tx C))" "set (spends tx) \<subseteq> dom C"
  shows "follows db view' txs (apply_tx h tx C)"
proof -
  note f = assms(1)[unfolded follows_def]
  have disj: "op \<notin> outs tx" if "op \<in> block_outs txs" for op using outs_disjoint[of tx txs] f that by blast
  have C: "apply_tx h tx C op = (if op \<in> outs tx then created h (IsCoinBase tx) tx op else if op \<in> set (spends tx) then None else C op)"
    for op C using outs_created[of h "IsCoinBase tx" tx]
    by (auto simp: apply_tx_def map_add_def restrict_map_def domIff split: option.splits)
  have same: "LookupEntry view' op = None" if "op \<in> block_outs txs" "LookupEntry view op = None" for op
  proof -
    have "op \<notin> set (spends tx)" using assms(3) that(2) by auto
    then have "entries view' op = entries view op" using connectTransaction_ledger(2)[OF assms(2)] disj[OF that(1)] by blast
    then show ?thesis using that(2) by (simp add: LookupEntry_def)
  qed
  have "ledger db view' op = apply_tx h tx C op" if "op \<notin> block_outs txs" for op
    unfolding connectTransaction_ledger(1)[OF assms(2)] C using f that by auto
  moreover have "apply_tx h tx C op = None" if "op \<in> block_outs txs" for op
    unfolding C using f disj[OF that] that by auto
  moreover have "unknown_later view' txs" using f by (intro unknown_later_frame[of view txs view'] same) simp_all
  ultimately show ?thesis using f assms(4) by (simp add: follows_def)
qed

text \<open>The fees are added up without wrapping.\<close>

lemma sint_add_over:
  fixes a b :: "64 word"
  assumes "2 ^ 63 \<le> sint a + sint b"
  shows "sint (a + b) = sint a + sint b - 2 ^ 64"
proof -
  define x where "x = sint a + sint b - 2 ^ 64"
  have "(word_of_int x :: 64 word) = word_of_int (sint a) + word_of_int (sint b) - word_of_int (2 ^ 64)"
    by (simp only: x_def of_int_add of_int_diff)
  then have "a + b = word_of_int x" by simp
  moreover have "- (2 ^ 63) \<le> x" "x < 2 ^ 63"
    using assms sint_lt[of a] sint_lt[of b] by (simp_all add: x_def)
  ultimately have "sint (a + b) = x" by (simp add: sint_sbintrunc' signed_take_bit_int_eq_self)
  then show ?thesis by (simp add: x_def)
qed

lemma fee_sum:
  fixes f fee :: "64 word"
  assumes "0 \<le> sint f" "0 \<le> sint fee" "\<not> sint (f + fee) < sint f"
  shows "sint (f + fee) = sint f + sint fee"
  using assms sint_add_small[of f fee] sint_add_over[of f fee] sint_lt[of fee] by fastforce

lemma sum_upper:
  fixes a b :: "64 word"
  assumes "0 \<le> sint b"
  shows "sint (a + b) \<le> sint a + sint b"
proof (cases "0 \<le> sint a")
  case True
  then show ?thesis using assms sint_add_small[of a b] sint_add_over[of a b] by fastforce
next
  case False
  have "- (2 ^ 63) \<le> sint a" "sint b < 2 ^ 63" using sint_ge[of a] sint_lt[of b] by simp_all
  then have "signed_take_bit 63 (sint a + sint b) = sint a + sint b" using assms False by (intro signed_take_bit_int_eq_self) simp_all
  then show ?thesis by (simp add: sint_word_ariths)
qed

lemma connectFees_ledger:
  assumes "connectFees params h txs f (view, st) = (Ok f', (view', st'))" "follows db view txs C" "0 \<le> sint f"
    "\<And>tx. tx \<in> set txs \<Longrightarrow> CheckTransactionSanity tx = Ok ()"
  shows "ledger db view' = apply_txs h txs C \<and> finite (dom (apply_txs h txs C)) \<and> 0 \<le> sint f' \<and>
    coin_value (apply_txs h txs C) + sint f' \<le> coin_value C + sint f + sum_list (map (\<lambda>tx. out_sum (txOuts tx)) (filter IsCoinBase txs))"
  using assms
proof (induction txs arbitrary: f view st C)
  case Nil
  then show ?case by (auto simp: ret_def apply_txs_def follows_def)
next
  case (Cons tx txs)
  obtain fee view1 st1 where run: "CheckTransactionInputs tx h view params = Ok fee" "\<not> sint (f + fee) < sint f"
      "connectTransaction tx h (view, st) = (Ok (), (view1, st1))"
      "connectFees params h txs (f + fee) (view1, st1) = (Ok f', (view', st'))"
    using Cons.prems(1) by (auto simp: bnd_eq_Ok_iff get_st_def lift_res_def Let_def throw_def split: if_splits)
  note sane = CheckTransactionSanity_Ok[OF Cons.prems(4)[of tx, simplified]]
  note ins = follows_inputs[OF Cons.prems(2) Cons.prems(4)[of tx, simplified] run(1)]
  have fee: "sint (f + fee) = sint f + sint fee" using fee_sum Cons.prems(3) ins run(2) by blast
  have val: "finite (dom (apply_tx h tx C)) \<and> coin_value (apply_tx h tx C) + spent_value tx C \<le> coin_value C + out_sum (txOuts tx)"
    unfolding spent_value_def using Cons.prems(2) ins sane(4)
    by (intro coin_value_apply) (auto simp: follows_def amount_ok_def)
  have "follows db view1 txs (apply_tx h tx C)"
    using follows_connect[OF Cons.prems(2) run(3)] ins val by blast
  from Cons.IH[OF run(4) this] have ih: "ledger db view' = apply_txs h txs (apply_tx h tx C)"
      "finite (dom (apply_txs h txs (apply_tx h tx C)))" "0 \<le> sint f'"
      "coin_value (apply_txs h txs (apply_tx h tx C)) + sint f' \<le>
        coin_value (apply_tx h tx C) + sint (f + fee) + sum_list (map (\<lambda>tx. out_sum (txOuts tx)) (filter IsCoinBase txs))"
    using Cons.prems(3,4) fee ins by simp_all
  have "spent_value tx C = 0" if "IsCoinBase tx" using that by (simp add: spent_value_def spends_def)
  then have "coin_value (apply_tx h tx C) + sint fee \<le> coin_value C + (if IsCoinBase tx then out_sum (txOuts tx) else 0)"
    using val ins by (simp split: if_splits)
  then show ?case using ih fee by (auto simp: apply_txs_def)
qed

subsection \<open>Connecting a block\<close>

lemma keeps_connection:
  "on_chain m s = (r, s') \<Longrightarrow> snd s' = snd s"
  by (auto simp: on_chain_def on_part_def split: prod.splits)

lemma on_view_Ok: "on_view m (c, (view, st)) = (r, s') \<Longrightarrow> \<exists>view'. m view = (r, view') \<and> s' = (c, (view', st))"
  by (auto simp: on_view_def on_conn_def on_part_def split: prod.splits)

lemma guard_op: "(if c then throw e else m) s = (Ok a, t) \<longleftrightarrow> \<not> c \<and> m s = (Ok a, t)"
  by (simp add: throw_def)

lemma bnd_get_st: "bnd (get_st g) f = (\<lambda>s. f (g s) s)"
  by (rule ext) (simp add: bnd_def get_st_def)

lemma lift_res_Ok: "lift_res r s = (Ok a, t) \<longleftrightarrow> r = Ok a \<and> t = s"
  by (auto simp: lift_res_def)

lemma checkConnectBlock_Ok:
  assumes "checkConnectBlock E node block (cs, (view, st)) = (Ok (), (cs', (view', st')))"
  obtains cs1 view1 st1 fees view2 where
    "loadInputs E node block (cs, (view, st)) = (Ok (), (cs1, (view1, st1)))"
    "connectFees (ce_params E) (height (nodes_of cs) node) (block_Transactions block) 0 (view1, st1) = (Ok fees, (view2, st'))"
    "checkCoinbaseValue E (height (nodes_of cs) node) (block_Transactions block) fees = Ok ()"
    "view' = SetBestHash (node_hash (node_at (nodes_of cs) node)) view2"
proof -
  let ?h = "height (nodes_of cs) node" and ?txs = "block_Transactions block"
  let ?run = "case LatestCheckpoint E of Some c \<Rightarrow> \<not> ?h \<le> cp_Height c | None \<Rightarrow> True"
  obtain u1 s1 segwit s2 n fees s3 u2 flag s4 g u3 s5 where run:
      "loadInputs E node block (cs, (view, st)) = (Ok u1, s1)"
      "on_chain (deployment_op E (parent (nodes_of cs) node) DeploymentSegwit) s1 = (Ok segwit, s2)"
      "on_conn (connectFees (ce_params E) ?h ?txs 0) s2 = (Ok fees, s3)"
      "checkCoinbaseValue E ?h ?txs fees = Ok u2"
      "on_chain (checkCSV E node block (view_of s3)) s3 = (Ok flag, s4)"
      "(if ?run then on_chain (runBlockScripts E block (view_of s3) g) else ret ()) s4 = (Ok u3, s5)"
      "on_view (mod_st (SetBestHash (node_hash (node_at (nodes_of cs) node)))) s5 = (Ok () :: (chain_error, unit) res, (cs', (view', st')))"
    using assms unfolding checkConnectBlock_def Let_def bnd_get_st comp_def fst_conv snd_conv
    unfolding bnd_eq_Ok_iff guard_op lift_res_Ok by (elim exE conjE) (hypsubst, rule that, assumption+)
  obtain cs1 view1 st1 where s1: "s1 = (cs1, (view1, st1))" by (cases s1) auto
  have "snd s2 = (view1, st1)" using keeps_connection[OF run(2)] s1 by simp
  then obtain view2 st2 where fees: "connectFees (ce_params E) ?h ?txs 0 (view1, st1) = (Ok fees, (view2, st2))" "snd s3 = (view2, st2)"
    using run(3) by (auto simp: on_conn_def on_part_def split: prod.splits)
  have "snd s5 = snd s4"
  proof (cases ?run)
    case True
    then show ?thesis using run(6) by (simp add: keeps_connection)
  next
    case False
    then show ?thesis using run(6) by (simp add: ret_def)
  qed
  then have "snd s5 = (view2, st2)" using keeps_connection[OF run(5)] fees(2) by simp
  then have "view' = SetBestHash (node_hash (node_at (nodes_of cs) node)) view2" "st' = st2"
    using run(7) by (auto simp: on_view_def on_conn_def on_part_def mod_st_def)
  then show ?thesis using that[of cs1 view1 st1 fees view2] run(1,4) s1 fees(1) by simp
qed

lemma loadInputs_follows:
  assumes "loadInputs E node block (cs, (view, st)) = (Ok (), (cs1, (view1, st1)))"
    "block_Transactions block = cb # txs" "IsCoinBase cb" "distinct (map TxHash (cb # txs))"
    "block_is_new (ce_fetch E) view (cb # txs)" "\<And>ops. set (ce_visit E ops) = set ops"
    "BIP0034Height (ce_params E) \<le> height (nodes_of cs) node \<or> in_order txs" "finite (dom (ledger (ce_fetch E) view))"
  shows "follows (ce_fetch E) view1 (cb # txs) (ledger (ce_fetch E) view)"
proof -
  let ?db = "ce_fetch E" and ?skip = "BIP0034Height (ce_params E) \<le> height (nodes_of cs) node"
  obtain view0 where v: "view0 = view \<or> \<not> ?skip \<and> checkBIP0030 E block view = (Ok (), view0)"
      "fetchInputUtxos ?db (ce_visit E) block view0 = (Ok (), view1)"
    using assms(1) unfolding loadInputs_def bnd_get_st comp_def fst_conv bnd_eq_Ok_iff
    by (auto simp: ret_def dest!: on_view_Ok split: if_splits)
  have new: "entries view op = None" "?db op = Ok None" if "op \<in> block_outs (cb # txs)" for op
    using assms(5) that by (auto simp: block_is_new_def)
  have "ledger ?db view0 op = ledger ?db view op" for op
  proof (cases "view0 = view")
    case False
    then have "checkBIP0030 E block view = (Ok (), view0)" using v(1) by blast
    then have "fetchUtxosMain ?db (ce_visit E (filter (\<lambda>op. entries view op = None) (block_outputs block))) view = (Ok (), view0)"
      by (auto simp: checkBIP0030_def fetchUtxos_def bnd_eq_Ok_iff get_st_def ret_def throw_def split: if_splits)
    then show ?thesis by (rule fetched_ledger) (simp add: assms(6))
  qed simp
  moreover have "distinct (map TxHash (block_Transactions block))" "\<forall>op \<in> block_outs (block_Transactions block). ?db op = Ok None"
    using assms(2,4) new(2) by simp_all
  note loaded = fetchInputUtxos_loaded[OF v(2) this(1) assms(6) this(2) assms(2)]
  ultimately have "ledger ?db view1 op = ledger ?db view op" if "op \<notin> block_outs (cb # txs)" for op using loaded(1)[OF that] by simp
  moreover have "unknown_later view1 txs"
  proof (cases ?skip)
    case True
    then show ?thesis using loaded(2) v(1) new(1) by simp
  next
    case False
    then show ?thesis using assms(7) by (simp add: in_order_unknown)
  qed
  moreover have "ledger ?db view op = None" if "op \<in> block_outs (cb # txs)" for op
    using new[OF that] by (simp add: ledger_def db_coins_def)
  ultimately show ?thesis using assms(3,4,8) by (simp add: follows_def spends_def)
qed

lemma block_ledger:
  assumes "checkConnectBlock E node block (cs, (view, st)) = (Ok (), (cs', (view', st')))"
    "checkBlockSanity (ce_algos E) (ce_testnet E) block powLimit adjusted bf (height (nodes_of cs) node) = Ok ()"
    "block_is_new (ce_fetch E) view (block_Transactions block)" "\<forall>ops. set (ce_visit E ops) = set ops"
    "BIP0034Height (ce_params E) \<le> height (nodes_of cs) node \<or> in_order (tl (block_Transactions block))"
    "finite (dom (ledger (ce_fetch E) view))"
  shows "ledger (ce_fetch E) view' = apply_txs (height (nodes_of cs) node) (block_Transactions block) (ledger (ce_fetch E) view) \<and>
    coin_value (ledger (ce_fetch E) view') \<le> coin_value (ledger (ce_fetch E) view) +
      sint (CalcBlockSubsidy (ce_testnet E) (plan9_subsidy E) (height (nodes_of cs) node) (ce_params E))"
proof -
  let ?h = "height (nodes_of cs) node"
  obtain cb txs where b: "block_Transactions block = cb # txs" "IsCoinBase cb" "\<And>tx. tx \<in> set txs \<Longrightarrow> \<not> IsCoinBase tx"
      "\<And>tx. tx \<in> set (cb # txs) \<Longrightarrow> CheckTransactionSanity tx = Ok ()" "distinct (map TxHash (cb # txs))"
    by (rule checkBlockSanity_Ok[OF assms(2)]) (rule that; blast)
  obtain cs1 view1 st1 fees view2 where run: "loadInputs E node block (cs, (view, st)) = (Ok (), (cs1, (view1, st1)))"
      "connectFees (ce_params E) ?h (cb # txs) 0 (view1, st1) = (Ok fees, (view2, st'))"
      "checkCoinbaseValue E ?h (cb # txs) fees = Ok ()"
      "view' = SetBestHash (node_hash (node_at (nodes_of cs) node)) view2"
    by (rule checkConnectBlock_Ok[OF assms(1), unfolded b(1)])
  have "follows (ce_fetch E) view1 (cb # txs) (ledger (ce_fetch E) view)"
    using loadInputs_follows[OF run(1) b(1,2,5)] assms(3-6) b(1) by simp
  from connectFees_ledger[OF run(2) this _ b(4)] have l:
      "ledger (ce_fetch E) view2 = apply_txs ?h (cb # txs) (ledger (ce_fetch E) view)" "0 \<le> sint fees"
      "coin_value (apply_txs ?h (cb # txs) (ledger (ce_fetch E) view)) + sint fees \<le>
        coin_value (ledger (ce_fetch E) view) + sum_list (map (\<lambda>tx. out_sum (txOuts tx)) (filter IsCoinBase (cb # txs)))"
    by simp_all
  let ?S = "CalcBlockSubsidy (ce_testnet E) (plan9_subsidy E) ?h (ce_params E)"
  have f: "filter IsCoinBase (cb # txs) = [cb]" using b(2,3) by (simp add: filter_empty_conv)
  have out: "out_sum (txOuts cb) \<le> sint (?S + fees)"
    using run(3) CheckTransactionSanity_Ok(6)[OF b(4)[of cb]] by (simp add: checkCoinbaseValue_def Let_def split: if_splits)
  have e: "ledger (ce_fetch E) view' = ledger (ce_fetch E) view2"
    by (rule ext) (simp add: run(4) ledger_def SetBestHash_def coins_def LookupEntry_def)
  have v: "coin_value (ledger (ce_fetch E) view2) + sint fees \<le> coin_value (ledger (ce_fetch E) view) + out_sum (txOuts cb)"
    using l(3) unfolding f l(1) by simp
  show ?thesis
  proof
    show "ledger (ce_fetch E) view' = apply_txs ?h (block_Transactions block) (ledger (ce_fetch E) view)"
      unfolding e l(1) b(1) ..
    show "coin_value (ledger (ce_fetch E) view') \<le> coin_value (ledger (ce_fetch E) view) + sint ?S"
      unfolding e using v out sum_upper[OF l(2), of ?S] by linarith
  qed
qed

text \<open>
  Claim C1. Connecting a block makes no money.  When \<^verbatim>\<open>checkConnectBlock\<close> accepts a sane block whose outputs neither
  the view nor the database knows yet, then, if the height is past the one from which duplicate transactions are no
  longer looked for, or if no transaction of the block spends an output of itself or of a later one, the ledger is exactly
  the one that the block's transactions make, and its value has grown by the subsidy at most.  The sums are over the
  integers, for every block whatever its fees, and whatever the floating-point subsidy of the second fork is.
\<close>

theorem no_inflation:
  assumes "checkConnectBlock E node block (cs, (view, st)) = (Ok (), (cs', (view', st')))"
    "checkBlockSanity (ce_algos E) (ce_testnet E) block powLimit adjusted bf (height (nodes_of cs) node) = Ok ()"
    "block_is_new (ce_fetch E) view (block_Transactions block)" "\<forall>ops. set (ce_visit E ops) = set ops"
    "BIP0034Height (ce_params E) \<le> height (nodes_of cs) node \<or> in_order (tl (block_Transactions block))"
    "finite (dom (ledger (ce_fetch E) view))"
  shows "ledger (ce_fetch E) view' = apply_txs (height (nodes_of cs) node) (block_Transactions block) (ledger (ce_fetch E) view) \<and>
    coin_value (ledger (ce_fetch E) view') \<le> coin_value (ledger (ce_fetch E) view) +
      sint (CalcBlockSubsidy (ce_testnet E) (plan9_subsidy E) (height (nodes_of cs) node) (ce_params E))"
  by (rule block_ledger[OF assms])

text \<open>A chain of a first node and one on top of it, without known outputs, and the block of a coinbase alone.\<close>

definition demo_chain_env :: chain_env where
  "demo_chain_env = \<lparr>ce_params = MainNetParams, ce_testnet = False, checkpoints = [], ce_script = demo_env,
     ce_algos = \<lparr>argon2_IDKey = (\<lambda>_ _. []), blake2b_Sum256 = (\<lambda>_. []), cryptonight_Sum = (\<lambda>_. []), sha3_Sum256 = (\<lambda>_. []),
       lyra2rev2_Sum = (\<lambda>_. []), scrypt_Key = (\<lambda>_ _. None), skein_Sum256 = (\<lambda>_. []), gost_Hash = (\<lambda>_. [])\<rparr>,
     ce_intn = (\<lambda>_. 0), plan9_bits = (\<lambda>_ _ _ _. Ok 0), plan9_subsidy = (\<lambda>_. 0), ce_fetch = (\<lambda>_. Ok None), ce_visit = id\<rparr>"

definition demo_nodes :: node_store where
  "demo_nodes = \<lparr>node_at = (\<lambda>r. \<lparr>node_parent = if r = 0 then None else Some 0, node_hash = if r = 0 then zeroHash else [],
       workSum = Some 1, node_height = if r = 0 then 0 else 1, node_version = 2, node_bits = 0, node_nonce = 0,
       node_timestamp = 0, node_merkleRoot = [], node_status = 0\<rparr>), fresh = 2\<rparr>"

definition demo_chain :: chain_state where
  "demo_chain = \<lparr>cs_index = newBlockIndex demo_nodes, bestChain = [Some 0], deploymentCaches = newThresholdCaches 3,
     cs_sigCache = None, cs_hashCache = None, checkpointNode = None, nextCheckpoint = None\<rparr>"

lemma demo_nodes_simps:
  "nodes_of demo_chain = demo_nodes" "height demo_nodes 0 = 0" "height demo_nodes (Suc 0) = 1" "parent demo_nodes (Suc 0) = Some 0"
  "node_hash (node_at demo_nodes (Suc 0)) = []" "node_hash (node_at demo_nodes 0) = zeroHash"
  "node_timestamp (node_at demo_nodes r) = 0"
  by (simp_all add: nodes_of_def demo_chain_def newBlockIndex_def demo_nodes_def height_def parent_def)

lemma demo_deployment: "i < 3 \<Longrightarrow> deployment_op demo_chain_env (Some 0) i demo_chain = (Ok ThresholdDefined, demo_chain)"
proof -
  assume i: "i < 3"
  have "(replicate 3 c)[i := c] = replicate 3 c" for c :: thresholdStateCache
    using i by (metis list_update_id nth_replicate)
  then show ?thesis using i
    by (auto simp: deployment_op_def on_part_def deploymentState_def demo_chain_env_def MainNetParams_def demo_chain_def
        bnd_def lift_res_def nth_res_def on_cache_def thresholdState_def ret_def newThresholdCaches_def Let_def
        deploymentChecker_def ck_windowSize_def demo_nodes_def height_def newBlockIndex_def nodes_of_def i32_def)
qed

text \<open>The view after checking the block: the output of its coinbase.\<close>

definition demo_view1 :: UtxoViewpoint where
  "demo_view1 = NewUtxoViewpoint\<lparr>entries := [\<lparr>Hash = TxHash demo_cb, Index = 0\<rparr> \<mapsto> None]\<rparr>"

definition connected_view :: UtxoViewpoint where
  "connected_view = SetBestHash [] (AddTxOuts demo_cb 1 demo_view1)"

lemma demo_block_simps:
  "block_Transactions demo_sane = [demo_cb]" "PrevBlock (Header (msgBlock demo_sane)) = zeroHash" "IsCoinBase demo_cb"
  "header_Version (Header (msgBlock demo_sane)) = 2"
  by (simp_all add: demo_sane_def block_Transactions_def IsCoinBase_def IsCoinBaseTx_def demo_cb_def)

lemma demo_load:
  "loadInputs demo_chain_env 1 demo_sane (demo_chain, (NewUtxoViewpoint, stxos)) = (Ok (), (demo_chain, (demo_view1, stxos)))"
proof -
  have "block_outputs demo_sane = [\<lparr>Hash = TxHash demo_cb, Index = 0\<rparr>]"
    by (simp add: block_outputs_def demo_block_simps outputs_def) (simp add: demo_cb_def demo_coinbase_def)
  then have "checkBIP0030 demo_chain_env demo_sane NewUtxoViewpoint = (Ok (), demo_view1)"
    by (simp add: checkBIP0030_def fetchUtxos_def demo_chain_env_def NewUtxoViewpoint_def bnd_def lift_res_def mod_st_def
        ret_def get_st_def LookupEntry_def demo_view1_def)
  moreover have "fetchInputUtxos (ce_fetch demo_chain_env) (ce_visit demo_chain_env) demo_sane demo_view1 = (Ok (), demo_view1)"
    by (simp add: fetchInputUtxos_def demo_block_simps demo_chain_env_def ret_def)
  ultimately show ?thesis
    by (simp add: loadInputs_def bnd_def get_st_def on_view_def on_conn_def on_part_def ret_def isBIP0030Node_def
        demo_chain_env_def MainNetParams_def demo_nodes_simps)
qed

lemma demo_paid: "checkCoinbaseValue demo_chain_env 1 [demo_cb] 0 = Ok ()"
proof -
  have "CalcBlockSubsidy False (\<lambda>_. 0) 1 MainNetParams = 200000000"
    by (simp add: CalcBlockSubsidy.simps GetCurrent_def HardForkList_def MainNetParams_def Quo_def baseSubsidy_def)
  then show ?thesis
    by (simp add: checkCoinbaseValue_def demo_chain_env_def hardForkBlock_def HardForkList_def MainNetParams_def MainNet_def TestNet3_def)
      (simp add: demo_cb_def demo_coinbase_def)
qed

lemma demo_scripts: "runBlockScripts demo_chain_env demo_sane v 0 demo_chain = (Ok (), demo_chain)"
proof -
  have "txItems demo_cb c = []" for c by (simp add: txItems_def demo_cb_def)
  then show ?thesis
    by (simp add: runBlockScripts_def on_part_def checkBlockScripts_def demo_block_simps ScriptVerifyWitness_def blockItemsStep_def ret_def)
qed

lemma demo_connect:
  "checkConnectBlock demo_chain_env 1 demo_sane (demo_chain, (NewUtxoViewpoint, stxos)) = (Ok (), (demo_chain, (connected_view, stxos)))"
proof -
  have "CountSigOps demo_cb = 0" by code_simp
  then have ops: "checkSigOpCosts v False False True [demo_cb] 0 = Ok 0" for v
    by (simp add: GetSigOpCost_def Let_def MaxBlockSigOpsCost_def)
  have fees: "connectFees (ce_params demo_chain_env) 1 [demo_cb] 0 (demo_view1, stxos) = (Ok 0, (AddTxOuts demo_cb 1 demo_view1, stxos))"
    by (simp add: bnd_def get_st_def lift_res_def CheckTransactionInputs_def demo_block_simps connectTransaction_def mod_st_def ret_def)
  have csv: "checkCSV demo_chain_env (Suc 0) demo_sane v demo_chain = (Ok 0, demo_chain)" for v
    using demo_deployment[of 1] by (simp add: checkCSV_def bnd_def get_st_def demo_nodes_simps DeploymentCSV_def ret_def)
  have fl: "versionFlags (ce_params demo_chain_env) 1 (Header (msgBlock demo_sane)) False = 0"
    by (simp add: versionFlags_def demo_block_simps)
  have gen: "[] \<noteq> GenesisHash (ce_params demo_chain_env)" by (simp add: demo_chain_env_def MainNetParams_def genesisHash_def)
  have cp: "LatestCheckpoint demo_chain_env = None" by (simp add: LatestCheckpoint_def HasCheckpoints_def demo_chain_env_def)
  have view: "bestHash NewUtxoViewpoint = zeroHash" by (simp add: NewUtxoViewpoint_def)
  show ?thesis
    using demo_deployment[of 2] demo_load[of stxos]
    by (simp add: checkConnectBlock_def bnd_def get_st_def demo_nodes_simps demo_block_simps gen view on_chain_def on_conn_def on_view_def
        on_part_def view_of_def DeploymentSegwit_def lift_res_def Bip16Activation_def ops fees demo_paid cp csv fl demo_scripts mod_st_def
        Let_def connected_view_def del: checkSigOpCosts.simps connectFees.simps)
qed

theorem no_inflation_witness:
  "checkConnectBlock demo_chain_env 1 demo_sane (demo_chain, (NewUtxoViewpoint, None)) = (Ok (), (demo_chain, (connected_view, None))) \<and>
    coin_value (ledger (\<lambda>_. Ok None) connected_view) \<le> 200000000"
proof -
  have h: "height (nodes_of demo_chain) 1 = 1" by (simp add: demo_nodes_simps)
  have l: "ledger (ce_fetch demo_chain_env) NewUtxoViewpoint = Map.empty"
    by (rule ext) (simp add: ledger_def NewUtxoViewpoint_def db_coins_def demo_chain_env_def)
  have s: "CalcBlockSubsidy False (\<lambda>_. 0) 1 MainNetParams = 200000000"
    by (simp add: CalcBlockSubsidy.simps GetCurrent_def HardForkList_def MainNetParams_def Quo_def baseSubsidy_def)
  have "block_is_new (ce_fetch demo_chain_env) NewUtxoViewpoint (block_Transactions demo_sane)"
    by (simp add: block_is_new_def NewUtxoViewpoint_def demo_chain_env_def)
  moreover have "in_order (tl (block_Transactions demo_sane))" by (simp add: demo_block_simps)
  moreover have "finite (dom (ledger (ce_fetch demo_chain_env) NewUtxoViewpoint))" by (simp add: l)
  moreover have "\<forall>ops. set (ce_visit demo_chain_env ops) = set ops" by (simp add: demo_chain_env_def)
  ultimately have "coin_value (ledger (ce_fetch demo_chain_env) connected_view) \<le>
      coin_value (ledger (ce_fetch demo_chain_env) NewUtxoViewpoint) +
      sint (CalcBlockSubsidy (ce_testnet demo_chain_env) (plan9_subsidy demo_chain_env) 1 (ce_params demo_chain_env))"
    using no_inflation[OF demo_connect, unfolded h, OF demo_sane_checks] by blast
  moreover have "ce_testnet demo_chain_env = False" "plan9_subsidy demo_chain_env = (\<lambda>_. 0)" "ce_params demo_chain_env = MainNetParams"
      "ce_fetch demo_chain_env = (\<lambda>_. Ok None)"
    by (simp_all add: demo_chain_env_def)
  ultimately show ?thesis
    using demo_connect[of None] l s by (simp add: coin_value_def)
qed

end
