(* ===== verification/Spec2Isabelle.thy ===== *)
theory Spec2Isabelle
  imports MultiSig SigEncoding BuilderSpec ChainIO NoInflation
begin

text \<open>
  A verification development for the consensus core of the Parallelcoin node (\<^verbatim>\<open>p9c/node9\<close>).  The node keeps a block
  chain: it decodes blocks from the wire, checks them on their own and against the chain, runs the scripts that guard the
  coins they spend, and writes what they change to a database.  The development models that path, from the bytes to the
  ledger.

  \<^bold>\<open>Parts and how they interact.\<close>  Paths are under \<^verbatim>\<open>src/\<close>.

  \<^item> Prelude: results of calls (\<open>Ok\<close>, \<open>Err\<close>, \<open>Panic\<close>, \<open>Hang\<close>), operations on a state (\<open>op\<close>), machine integers, slices.
    An operation returns its result and the state it leaves, also when it fails; \<open>Hang\<close> is a mutex nobody will free or a
    loop that does not end.
  \<^item> Scripts, \<^verbatim>\<open>pkg/chain/tx/script\<close>.  ScriptNum (\<^verbatim>\<open>error.go\<close>, \<^verbatim>\<open>scriptnum.go\<close>), Stack (\<^verbatim>\<open>stack.go\<close>, with its mutex as
    state), Opcode (\<^verbatim>\<open>opcode.go\<close>), Script (\<^verbatim>\<open>script.go\<close>), Builder (\<^verbatim>\<open>scriptbuilder.go\<close>, \<^verbatim>\<open>standard.go\<close>), SigHash (the
    signature hashes of \<^verbatim>\<open>script.go\<close>, \<^verbatim>\<open>hashcache.go\<close>, \<^verbatim>\<open>sigcache.go\<close>), Engine (the state of \<^verbatim>\<open>engine.go\<close> and every
    opcode handler), EngineRun (dispatch, steps, runs, \<^verbatim>\<open>NewEngine\<close>).  Triples, EngineSafe, RunSafe, EngineSpec, MultiSig,
    SigEncoding and BuilderSpec hold no code: they are the triples, the invariants and the theorems over it.
  \<^item> Bytes.  Hash (\<^verbatim>\<open>pkg/chain/hash\<close>, with SHA-256 and SHA-1 of the standard library written out), Wire and WireBlock
    (\<^verbatim>\<open>pkg/chain/wire\<close>: integers, transactions, headers, blocks), Elliptic (\<^verbatim>\<open>pkg/util/elliptic\<close>: keys and signatures as
    bytes), Base58 (\<^verbatim>\<open>pkg/util/base58\<close>), Compress (\<^verbatim>\<open>pkg/chain/compress.go\<close>) and ChainIO (\<^verbatim>\<open>pkg/chain/chainio.go\<close>), which
    serialise what the chain keeps in the database.
  \<^item> The chain's data, \<^verbatim>\<open>pkg/chain\<close>.  Utxo (\<^verbatim>\<open>utxoviewpoint.go\<close>: the view of the unspent outputs), BlockIndex
    (\<^verbatim>\<open>blockindex.go\<close>: the tree of nodes as a store of parent references), ChainView (\<^verbatim>\<open>chainview.go\<close>: one branch as a slice),
    Merkle (\<^verbatim>\<open>merkle.go\<close>), Params (\<^verbatim>\<open>config\<close>: the four networks and their genesis blocks).
  \<^item> The rules.  Fork (\<^verbatim>\<open>fork\<close>: algorithms, compact targets), Difficulty (\<^verbatim>\<open>difficulty.go\<close>, \<^verbatim>\<open>forkhalcyon.go\<close>,
    \<^verbatim>\<open>mediantime.go\<close>), Threshold (\<^verbatim>\<open>thresholdstate.go\<close>, \<^verbatim>\<open>versionbits.go\<close>), Sanity (the part of \<^verbatim>\<open>validate.go\<close> that needs no
    chain, and \<^verbatim>\<open>weight.go\<close>), ScriptVal (\<^verbatim>\<open>scriptval.go\<close>: the pool of workers as a step relation), Chain (\<^verbatim>\<open>chain.go\<close>: the
    state the checks use, lock times; \<^verbatim>\<open>checkpoints.go\<close>) and Connect (the rest of \<^verbatim>\<open>validate.go\<close> with
    \<^verbatim>\<open>hardfork/subsidy.go\<close>).  Connecting a block calls nearly all of the above: \<open>checkConnectBlock\<close> loads a view
    through \<open>fetchInputUtxos\<close>, checks amounts with Sanity, connects with Utxo, and runs scripts with ScriptVal.
    NoInflation proves what it adds up to.

  \<^bold>\<open>What the lemmas show.\<close>  The collection of triples in Triples (\<open>spec\<close>) carries the engine: every handler keeps the limits,
  free mutexes and valid program counter, steps lower a measure, so runs end (EngineSpec).  The codec locales of Wire give
  decode-after-encode and encode-after-decode once for all formats, interpreted from \<open>PutUint8\<close> up to whole blocks.  The
  locale of checkers in Threshold gives the cached computation of a deployment's state from the specification of votes,
  interpreted at both checkers of the code; \<open>list_stack\<close>, \<open>check_cache\<close> and \<open>key_value\<close> do the same for stacks, the
  signature cache and buckets.  The coins of a view (\<open>coins\<close>, Utxo) are the abstract ledger: connecting refines
  \<open>apply_txs\<close>, disconnecting undoes it, writing a view to the database refines overriding the ledger (ChainIO), and a
  block that passes all checks creates at most its subsidy (NoInflation).

  \<^bold>\<open>Bounds and fuel.\<close>  The stack theorems assume fewer than \<open>2 ^ 30\<close> items at the start, far above the limit of 1000 the
  engine enforces, and witnesses of at most \<open>2 ^ 30\<close> items, above what a message can hold.  Amounts are bounded by
  \<open>MaxSatoshi\<close> where the code checks it and by \<open>2 ^ 60\<close> where compression multiplies by ten; scripts in the database are
  shorter than \<open>2 ^ 60\<close> bytes; heights are below \<open>2 ^ 31 - 1\<close>, as \<^verbatim>\<open>int32\<close>.  Targets that are packed are below
  \<open>256 ^ 254\<close>, the largest an exponent byte can express.  Loops that follow data are structural or have a measure; the walks
  along parents are \<open>partial_function (option)\<close> and shown to return on well-formed stores.  No other fuel is used.

  \<^bold>\<open>Parameters.\<close>  What is not under \<^verbatim>\<open>src/\<close>, or is arithmetic no theorem relies on, is an argument: signature verification on
  the curve, RIPEMD-160 and the entry a full signature cache evicts (\<open>env\<close>); the proof-of-work hashes (\<open>algo_env\<close>); the
  floating point formulas of \<^verbatim>\<open>forkplan9.go\<close> and of the subsidy after the second fork, and random numbers (\<open>chain_env\<close>).
  The order in which Go visits a map is a function on the list of keys, and results are proved for every order that visits
  each key once.  The database is a function that fetches entries in Utxo and Connect and buckets in ChainIO.  The clock is an
  argument.  The pool of script workers is interleaved at the granularity of its channel operations.

  \<^bold>\<open>Not modelled.\<close>  Address objects, key derivation, signing and field arithmetic (operations on curve points that are a
  parameter here); the optional indexes; the storage engine under the buckets (files and an external store); loading the
  chain at start; peers, the memory pool, mining, RPC and the wallet (goroutines around sockets, timers and policy, on top
  of the chain); logging, configuration and commands.  The manifest lists them with their files.
\<close>

end
